(* ===== verification/Kaya_Prelude.thy ===== *)
theory Kaya_Prelude
  imports Main "HOL-Library.Word" "HOL-Library.Monad_Syntax"
begin

unbundle bit_operations_syntax

text \<open>
  The prelude of the Kaya development: the machine types every component uses, the
  collections of rewrite rules the component theories fill, and the generic lemmas on
  lists, linked chains and the option monad that more than one component needs.

  A kernel operation is a function from the state to an \<open>option\<close>. \<open>None\<close> means that the C
  code does not come back from the operation: it dereferences \<open>NULL\<close> or leaves the object it
  indexes (an address exception on the machine), it divides by zero, or it loops for ever.
\<close>

section \<open>Machine types\<close>

type_synonym word32 = "32 word"

type_synonym memaddr = word32

section \<open>Collections\<close>

named_theorems kaya_ops "definitions of the operations on the kernel's tables and memory"

named_theorems kaya_frame "what an operation leaves unchanged"

section \<open>The option monad\<close>

lemma bind_Some_ex: "m \<bind> f = Some y \<longleftrightarrow> (\<exists>x. m = Some x \<and> f x = Some y)"
  by (cases m) auto

text \<open>A counting loop \<open>for (i = 0; i < n; i++) body(i)\<close> is \<open>foldM body [0..<n]\<close>.\<close>

fun foldM :: "('a \<Rightarrow> 's \<Rightarrow> 's option) \<Rightarrow> 'a list \<Rightarrow> 's \<Rightarrow> 's option" where
  "foldM f [] s = Some s"
| "foldM f (x # xs) s = f x s \<bind> foldM f xs"

lemma foldM_append: "foldM f (xs @ ys) s = foldM f xs s \<bind> foldM f ys"
proof (induction xs arbitrary: s)
  case (Cons x xs)
  then show ?case by (cases "f x s") auto
qed auto

text \<open>The loop rule: an invariant of the iteration count that every iteration carries on.\<close>

lemma foldM_upt_inv:
  assumes "I 0 s"
    and "\<And>i t. i < n \<Longrightarrow> I i t \<Longrightarrow> \<exists>t'. f i t = Some t' \<and> I (Suc i) t'"
  shows "\<exists>t. foldM f [0..<n] s = Some t \<and> I n t"
  using assms
proof (induction n)
  case (Suc n)
  then obtain t where "foldM f [0..<n] s = Some t" "I n t" by force
  with Suc.prems(2) [of n t] show ?case by (auto simp: foldM_append)
qed simp

section \<open>Lists\<close>

lemma last_notin_butlast: "distinct xs \<Longrightarrow> xs \<noteq> [] \<Longrightarrow> last xs \<notin> set (butlast xs)"
  by (induction xs) auto

lemma hd_notin_tl: "distinct xs \<Longrightarrow> xs \<noteq> [] \<Longrightarrow> hd xs \<notin> set (tl xs)"
  by (cases xs) auto

lemma in_set_tlD: "x \<in> set (tl xs) \<Longrightarrow> x \<in> set xs"
  by (cases xs) auto

lemma remove1_append_notin: "x \<notin> set xs \<Longrightarrow> remove1 x (xs @ x # ys) = xs @ ys"
  by (simp add: remove1_append)

lemma distinct_subset_length:
  "distinct xs \<Longrightarrow> set xs \<subseteq> {..<n} \<Longrightarrow> length xs \<le> n"
  by (metis card_lessThan card_mono distinct_card finite_lessThan)

section \<open>Doubly linked chains\<close>

text \<open>
  \<open>dlinked nxt prv [x, y, z]\<close>: following \<open>nxt\<close> goes from \<open>x\<close> to \<open>y\<close> to \<open>z\<close>, and \<open>prv\<close> goes
  back. Nothing is said of \<open>prv\<close> of the first element and \<open>nxt\<close> of the last. A circular list
  with last element \<open>l\<close> is \<open>dlinked nxt prv (l # xs)\<close>; a linear one adds the two ends.
\<close>

fun dlinked :: "(nat \<Rightarrow> nat option) \<Rightarrow> (nat \<Rightarrow> nat option) \<Rightarrow> nat list \<Rightarrow> bool" where
  "dlinked nxt prv [] = True"
| "dlinked nxt prv [x] = True"
| "dlinked nxt prv (x # y # zs) =
     (nxt x = Some y \<and> prv y = Some x \<and> dlinked nxt prv (y # zs))"

lemma dlinked_cong:
  assumes "\<And>x. x \<in> set (butlast xs) \<Longrightarrow> nxt' x = nxt x"
    and "\<And>x. x \<in> set (tl xs) \<Longrightarrow> prv' x = prv x"
  shows "dlinked nxt' prv' xs = dlinked nxt prv xs"
  using assms by (induction nxt prv xs rule: dlinked.induct) auto

lemma dlinked_append:
  "xs \<noteq> [] \<Longrightarrow> ys \<noteq> [] \<Longrightarrow>
   dlinked nxt prv (xs @ ys) \<longleftrightarrow>
   dlinked nxt prv xs \<and> nxt (last xs) = Some (hd ys) \<and> prv (hd ys) = Some (last xs)
   \<and> dlinked nxt prv ys"
proof (induction nxt prv xs rule: dlinked.induct)
  case (2 nxt prv x)
  then show ?case by (cases ys) auto
qed auto

lemma dlinked_in:
  "dlinked nxt prv ys \<Longrightarrow>
   (x \<in> set (butlast ys) \<longrightarrow> (\<exists>y\<in>set ys. nxt x = Some y)) \<and> (x \<in> set (tl ys) \<longrightarrow> (\<exists>y\<in>set ys. prv x = Some y))"
  by (induction nxt prv ys rule: dlinked.induct) auto

lemma dlinked_Cons:
  "ys \<noteq> [] \<Longrightarrow>
   dlinked nxt prv (x # ys) \<longleftrightarrow>
   nxt x = Some (hd ys) \<and> prv (hd ys) = Some x \<and> dlinked nxt prv ys"
  using dlinked_append [of "[x]" ys] by simp

text \<open>A circle may be read from any of its elements.\<close>

lemma dlinked_rotate:
  "xs @ ys \<noteq> [] \<Longrightarrow>
   dlinked nxt prv (last (xs @ ys) # xs @ ys) = dlinked nxt prv (last (ys @ xs) # ys @ xs)"
  by (cases "xs = []"; cases "ys = []") (auto simp: dlinked_Cons dlinked_append)

section \<open>Singly linked chains\<close>

text \<open>\<open>spath nxt p xs q\<close>: following \<open>nxt\<close> from the pointer \<open>p\<close> visits \<open>xs\<close> and ends at \<open>q\<close>.\<close>

fun spath :: "(nat \<Rightarrow> nat option) \<Rightarrow> nat option \<Rightarrow> nat list \<Rightarrow> nat option \<Rightarrow> bool" where
  "spath nxt p [] q = (p = q)"
| "spath nxt p (x # xs) q = (p = Some x \<and> spath nxt (nxt x) xs q)"

lemma spath_append [simp]:
  "spath nxt p (xs @ ys) q = (\<exists>r. spath nxt p xs r \<and> spath nxt r ys q)"
  by (induction xs arbitrary: p) auto

lemma spath_upd [simp]:
  "a \<notin> set xs \<Longrightarrow> spath (nxt(a := v)) p xs q = spath nxt p xs q"
  by (induction xs arbitrary: p) auto

lemma spath_cong:
  "(\<And>x. x \<in> set xs \<Longrightarrow> nxt' x = nxt x) \<Longrightarrow> spath nxt' p xs q = spath nxt p xs q"
  by (induction xs arbitrary: p) auto

lemma spath_next: "spath nxt p (xs @ y # ys) q \<Longrightarrow> xs \<noteq> [] \<Longrightarrow> nxt (last xs) = Some y"
  by (induction xs arbitrary: p) (auto split: if_splits)

lemma spath_insert:
  assumes "spath nxt p (xs @ ys) q" "xs \<noteq> []" "distinct (xs @ ys)" "f \<notin> set (xs @ ys)"
  shows "spath (nxt(f := nxt (last xs), last xs := Some f)) p (xs @ f # ys) q"
  using assms by (cases xs rule: rev_cases) auto

lemma spath_remove:
  assumes "spath nxt p (xs @ f # ys) q" "xs \<noteq> []" "distinct (xs @ f # ys)"
  shows "spath (nxt(last xs := nxt f)) p (xs @ ys) q"
  using assms by (cases xs rule: rev_cases) auto

lemma spath_None [simp]: "spath nxt None xs None = (xs = [])"
  by (cases xs) auto

lemma dlinked_spath:
  "dlinked nxt prv (xs @ [y]) \<Longrightarrow> spath nxt (Some (hd (xs @ [y]))) xs (Some y)"
proof (induction xs)
  case (Cons x xs)
  then show ?case by (simp add: dlinked_Cons)
qed simp

lemma spath_unique: "spath nxt p xs None \<Longrightarrow> spath nxt p ys None \<Longrightarrow> xs = ys"
proof (induction xs arbitrary: p ys)
  case (Cons x xs)
  then show ?case by (cases ys) auto
qed auto

end
