(* ===== verification/Kaya_Types.thy ===== *)
theory Kaya_Types
  imports Kaya_Prelude
begin

text \<open>
  The constants of \<open>h/const.h\<close> and the types of \<open>h/types.h\<close> that the kernel uses.

  Pointers to process control blocks and to semaphore descriptors only ever point into the
  two static tables, are compared for equality and dereferenced; they are \<open>nat option\<close>: \<open>None\<close>
  is \<open>NULL\<close>, \<open>Some i\<close> is the address of entry \<open>i\<close>. Pointers that come from user programs (to
  semaphores and to saved states) and \<open>s_semAdd\<close>, which the active semaphore list orders by
  address, are 32-bit addresses, with \<open>NULL\<close> the address \<open>0xFFFFFFFF\<close> as in \<open>h/const.h\<close>.
\<close>

section \<open>Constants\<close>

definition MAXPROC :: nat where "MAXPROC = 20"

definition NULL :: memaddr where "NULL = 0xFFFFFFFF"

definition MAXINT :: memaddr where "MAXINT = 0xFFFFFFFF"

definition PAGESIZE :: word32 where "PAGESIZE = 4096"

definition STATEREGNUM :: nat where "STATEREGNUM = 31"

definition SYSCALLNEWAREA :: memaddr where "SYSCALLNEWAREA = 0x200003D4"
definition SYSCALLOLDAREA :: memaddr where "SYSCALLOLDAREA = 0x20000348"
definition PROGRAMTRAPNEWAREA :: memaddr where "PROGRAMTRAPNEWAREA = 0x200002BC"
definition PROGRAMTRAPOLDAREA :: memaddr where "PROGRAMTRAPOLDAREA = 0x20000230"
definition TLBMANAGEMENTNEWAREA :: memaddr where "TLBMANAGEMENTNEWAREA = 0x200001A4"
definition TLBMANAGEMENTOLDAREA :: memaddr where "TLBMANAGEMENTOLDAREA = 0x20000118"
definition INTERRUPTNEWAREA :: memaddr where "INTERRUPTNEWAREA = 0x2000008C"
definition INTERRUPTOLDAREA :: memaddr where "INTERRUPTOLDAREA = 0x20000000"

lemmas area_defs =
  SYSCALLNEWAREA_def SYSCALLOLDAREA_def PROGRAMTRAPNEWAREA_def PROGRAMTRAPOLDAREA_def
  TLBMANAGEMENTNEWAREA_def TLBMANAGEMENTOLDAREA_def INTERRUPTNEWAREA_def INTERRUPTOLDAREA_def

definition ALLOFF :: word32 where "ALLOFF = 0x00000000"
definition VMOFF :: word32 where "VMOFF = 0x00000000"
definition KERNELON :: word32 where "KERNELON = 0x00000000"
definition KERNELOFF :: word32 where "KERNELOFF = 0x00000008"
definition INTSMASKED :: word32 where "INTSMASKED = 0x00000000"
definition PROCLOCALTIMEON :: word32 where "PROCLOCALTIMEON = 0x08000000"
definition SCHEDULERINTSUNMASKED :: word32 where "SCHEDULERINTSUNMASKED = 0x0000FF01"
definition RIMASKON :: word32 where "RIMASKON = 0x00000028"
definition RIMASKTOTURNOFF :: word32 where "RIMASKTOTURNOFF = 0x00000014"
definition FIRSTPROCESSSTATUSMASK :: word32 where "FIRSTPROCESSSTATUSMASK = 0x0800FF01"

definition EIGHTDEVLINES :: nat where "EIGHTDEVLINES = 5"
definition DEVSPERLINE :: nat where "DEVSPERLINE = 8"
definition DEVINTNUM :: nat where "DEVINTNUM = 5"
definition DEVPERINT :: nat where "DEVPERINT = 8"

text \<open>The number of device semaphores, and the index of the last one, the pseudo clock's.\<close>

definition CLOCKSEM :: nat where
  "CLOCKSEM = EIGHTDEVLINES * DEVSPERLINE + DEVSPERLINE"

definition DEVSEMS :: nat where
  "DEVSEMS = EIGHTDEVLINES * DEVSPERLINE + DEVSPERLINE + 1"

definition READY :: word32 where "READY = 1"
definition ACK :: word32 where "ACK = 1"

lemma DEVSEMS_49: "DEVSEMS = 49" and CLOCKSEM_48: "CLOCKSEM = 48"
  by (simp_all add: DEVSEMS_def CLOCKSEM_def EIGHTDEVLINES_def DEVSPERLINE_def)

text \<open>The macro \<open>CHECK_BIT(var, pos)\<close>.\<close>

definition CHECK_BIT :: "word32 \<Rightarrow> nat \<Rightarrow> bool" where
  "CHECK_BIT var pos = (var AND push_bit pos 1 \<noteq> 0)"

lemma CHECK_BIT_bit: "CHECK_BIT w n = bit w n"
proof
  assume "CHECK_BIT w n"
  then obtain m where "bit (w AND push_bit n 1) m"
    unfolding CHECK_BIT_def by (auto simp: bit_eq_iff)
  then show "bit w n" by (auto simp: bit_simps)
next
  assume w: "bit w n"
  then have "bit (w AND push_bit n 1) n"
    using bit_imp_le_length [OF w] by (simp add: bit_simps)
  then show "CHECK_BIT w n" unfolding CHECK_BIT_def by auto
qed

section \<open>Processor states\<close>

record state_t =
  s_asid :: word32
  s_cause :: word32
  s_status :: word32
  s_pc :: word32
  s_reg :: "word32 list"

definition s_v0 :: "state_t \<Rightarrow> word32" where "s_v0 st = s_reg st ! 1"
definition s_a0 :: "state_t \<Rightarrow> word32" where "s_a0 st = s_reg st ! 3"
definition s_a1 :: "state_t \<Rightarrow> word32" where "s_a1 st = s_reg st ! 4"
definition s_a2 :: "state_t \<Rightarrow> word32" where "s_a2 st = s_reg st ! 5"
definition s_a3 :: "state_t \<Rightarrow> word32" where "s_a3 st = s_reg st ! 6"
definition s_t9 :: "state_t \<Rightarrow> word32" where "s_t9 st = s_reg st ! 24"
definition s_sp :: "state_t \<Rightarrow> word32" where "s_sp st = s_reg st ! 26"

definition set_reg :: "nat \<Rightarrow> word32 \<Rightarrow> state_t \<Rightarrow> state_t" where
  "set_reg i v st = st\<lparr>s_reg := (s_reg st)[i := v]\<rparr>"

definition set_v0 :: "word32 \<Rightarrow> state_t \<Rightarrow> state_t" where "set_v0 = set_reg 1"
definition set_t9 :: "word32 \<Rightarrow> state_t \<Rightarrow> state_t" where "set_t9 = set_reg 24"
definition set_sp :: "word32 \<Rightarrow> state_t \<Rightarrow> state_t" where "set_sp = set_reg 26"

lemmas reg_defs = s_v0_def s_a0_def s_a1_def s_a2_def s_a3_def s_t9_def s_sp_def
  set_reg_def set_v0_def set_t9_def set_sp_def

text \<open>A state with all 31 registers, as the C array has.\<close>

definition wf_state :: "state_t \<Rightarrow> bool" where
  "wf_state st \<longleftrightarrow> length (s_reg st) = STATEREGNUM"

section \<open>Process control blocks and semaphore descriptors\<close>

type_synonym pcb_PTR = "nat option"

type_synonym semd_PTR = "nat option"

record pcb_t =
  p_next :: pcb_PTR
  p_prev :: pcb_PTR
  p_prnt :: pcb_PTR
  p_child :: pcb_PTR
  p_sib :: pcb_PTR
  p_prevsib :: pcb_PTR
  p_s :: state_t
  p_oldSys :: memaddr
  p_newSys :: memaddr
  p_oldPgm :: memaddr
  p_newPgm :: memaddr
  p_oldTLB :: memaddr
  p_newTLB :: memaddr
  p_time :: word32
  p_semAdd :: memaddr

record semd_t =
  s_next :: semd_PTR
  s_semAdd :: memaddr
  s_procQ :: pcb_PTR

text \<open>A pointer to a block of the table, or \<open>NULL\<close>.\<close>

definition block_ptr :: "pcb_PTR \<Rightarrow> bool" where
  "block_ptr q \<longleftrightarrow> (\<forall>p. q = Some p \<longrightarrow> p < MAXPROC)"

section \<open>Devices\<close>

text \<open>
  \<open>device_t\<close> is the non-terminal layout; a terminal's four registers share the same words
  (\<open>t_recv_status\<close>, \<open>t_recv_command\<close>, \<open>t_transm_status\<close>, \<open>t_transm_command\<close>).
\<close>

record device_t =
  d_status :: word32
  d_command :: word32
  d_data0 :: word32
  d_data1 :: word32

definition t_recv_status :: "device_t \<Rightarrow> word32" where "t_recv_status d = d_status d"
definition t_transm_status :: "device_t \<Rightarrow> word32" where "t_transm_status d = d_data0 d"
definition set_t_recv_command :: "word32 \<Rightarrow> device_t \<Rightarrow> device_t" where
  "set_t_recv_command v d = d\<lparr>d_command := v\<rparr>"
definition set_t_transm_command :: "word32 \<Rightarrow> device_t \<Rightarrow> device_t" where
  "set_t_transm_command v d = d\<lparr>d_data1 := v\<rparr>"

lemmas terminal_defs =
  t_recv_status_def t_transm_status_def set_t_recv_command_def set_t_transm_command_def

record devregarea_t =
  rambase :: word32
  ramsize :: word32
  execbase :: word32
  execsize :: word32
  bootbase :: word32
  bootsize :: word32
  todhi :: word32
  todlo :: word32
  intervaltimer :: word32
  timescale :: word32
  inst_dev :: "nat \<Rightarrow> word32"
  interrupt_dev :: "nat \<Rightarrow> word32"
  devreg :: "nat \<Rightarrow> device_t"

end
