(* ===== verification/Pcb_Queue.thy ===== *)
theory Pcb_Queue
  imports Kaya_Types
begin

text \<open>
  The process queues and the allocation of process control blocks: the first part of
  \<open>phase1/pcb.c\<close>. A process queue is a circular doubly linked list over \<open>p_next\<close> and
  \<open>p_prev\<close>, known by its tail pointer; \<open>pcbFree_h\<close> is the tail pointer of the free list.

  The C functions take \<open>pcb_PTR *tp\<close>, the address of a tail pointer. The model takes the
  tail pointer and returns the new one; the caller stores it back.
\<close>

section \<open>State and access\<close>

record pcb_store =
  procTable :: "nat \<Rightarrow> pcb_t"
  pcbFree_h :: pcb_PTR

text \<open>Reading and writing through a pointer; \<open>None\<close> for \<open>NULL\<close> and outside the table.\<close>

definition rd_pcb :: "pcb_PTR \<Rightarrow> 'a pcb_store_scheme \<Rightarrow> pcb_t option" where
  "rd_pcb p s =
     (case p of None \<Rightarrow> None | Some i \<Rightarrow> if i < MAXPROC then Some (procTable s i) else None)"

definition upd_pcb ::
  "pcb_PTR \<Rightarrow> (pcb_t \<Rightarrow> pcb_t) \<Rightarrow> 'a pcb_store_scheme \<Rightarrow> 'a pcb_store_scheme option" where
  "upd_pcb p f s =
     (case p of
        None \<Rightarrow> None
      | Some i \<Rightarrow>
          if i < MAXPROC
          then Some (s\<lparr>procTable := (procTable s)(i := f (procTable s i))\<rparr>)
          else None)"

lemma procTable_eqI: "T = T' \<Longrightarrow> s\<lparr>procTable := T\<rparr> = s\<lparr>procTable := T'\<rparr>"
  by simp

lemma rd_pcb_simps [simp]:
  "rd_pcb None s = None"
  "i < MAXPROC \<Longrightarrow> rd_pcb (Some i) s = Some (procTable s i)"
  by (simp_all add: rd_pcb_def)

lemma upd_pcb_simps [simp]:
  "upd_pcb None f s = None"
  "i < MAXPROC \<Longrightarrow>
   upd_pcb (Some i) f s = Some (s\<lparr>procTable := (procTable s)(i := f (procTable s i))\<rparr>)"
  by (simp_all add: upd_pcb_def)

section \<open>The operations\<close>

definition emptyProcQ :: "pcb_PTR \<Rightarrow> bool" where
  "emptyProcQ tp = (tp = None)"

definition mkEmptyProcQ :: pcb_PTR where
  "mkEmptyProcQ = None"

definition insertProcQ ::
  "pcb_PTR \<Rightarrow> pcb_PTR \<Rightarrow> 'a pcb_store_scheme \<Rightarrow> (pcb_PTR \<times> 'a pcb_store_scheme) option" where
  "insertProcQ tp p s =
     (if emptyProcQ tp then do {
        s1 \<leftarrow> upd_pcb p (\<lambda>x. x\<lparr>p_prev := p\<rparr>) s;
        s2 \<leftarrow> upd_pcb p (\<lambda>x. x\<lparr>p_next := p\<rparr>) s1;
        Some (p, s2)
      } else do {
        t \<leftarrow> rd_pcb tp s;
        s1 \<leftarrow> upd_pcb (p_next t) (\<lambda>x. x\<lparr>p_prev := p\<rparr>) s;
        t1 \<leftarrow> rd_pcb tp s1;
        s2 \<leftarrow> upd_pcb p (\<lambda>x. x\<lparr>p_next := p_next t1\<rparr>) s1;
        s3 \<leftarrow> upd_pcb tp (\<lambda>x. x\<lparr>p_next := p\<rparr>) s2;
        s4 \<leftarrow> upd_pcb p (\<lambda>x. x\<lparr>p_prev := tp\<rparr>) s3;
        Some (p, s4)
      })"

definition headProcQ :: "pcb_PTR \<Rightarrow> 'a pcb_store_scheme \<Rightarrow> pcb_PTR option" where
  "headProcQ tp s =
     (if emptyProcQ tp then Some None
      else do { t \<leftarrow> rd_pcb tp s; Some (p_next t) })"

text \<open>
  The two assignments \<open>c->p_next->p_prev = c->p_prev; c->p_prev->p_next = c->p_next\<close> that
  \<open>outProcQ\<close> makes for the tail and, in its loop, for the process it found.
\<close>

definition unlinkProcQ :: "pcb_PTR \<Rightarrow> 'a pcb_store_scheme \<Rightarrow> 'a pcb_store_scheme option" where
  "unlinkProcQ c s = do {
     x \<leftarrow> rd_pcb c s;
     s1 \<leftarrow> upd_pcb (p_next x) (\<lambda>y. y\<lparr>p_prev := p_prev x\<rparr>) s;
     x1 \<leftarrow> rd_pcb c s1;
     upd_pcb (p_prev x1) (\<lambda>y. y\<lparr>p_next := p_next x1\<rparr>) s1
   }"

partial_function (option) outProcQ_loop ::
  "pcb_PTR \<Rightarrow> pcb_PTR \<Rightarrow> pcb_PTR \<Rightarrow> 'a pcb_store_scheme \<Rightarrow> (pcb_PTR \<times> 'a pcb_store_scheme) option"
  where
  "outProcQ_loop tailPointer p current s =
     (if current \<noteq> tailPointer then
        if current \<noteq> p then do {
          c \<leftarrow> rd_pcb current s;
          outProcQ_loop tailPointer p (p_next c) s
        } else do {
          s1 \<leftarrow> unlinkProcQ current s;
          Some (current, s1)
        }
      else Some (None, s))"

text \<open>The result, the new tail pointer and the new state.\<close>

definition outProcQ ::
  "pcb_PTR \<Rightarrow> pcb_PTR \<Rightarrow> 'a pcb_store_scheme
     \<Rightarrow> (pcb_PTR \<times> pcb_PTR \<times> 'a pcb_store_scheme) option" where
  "outProcQ tp p s =
     (if emptyProcQ tp then Some (None, tp, s)
      else if p = tp then do {
        h \<leftarrow> headProcQ tp s;
        if h = tp then Some (tp, None, s)
        else do {
          s1 \<leftarrow> unlinkProcQ tp s;
          t \<leftarrow> rd_pcb tp s1;
          Some (tp, p_prev t, s1)
        }
      } else do {
        t \<leftarrow> rd_pcb tp s;
        (r, s1) \<leftarrow> outProcQ_loop tp p (p_next t) s;
        Some (r, tp, s1)
      })"

definition removeProcQ ::
  "pcb_PTR \<Rightarrow> 'a pcb_store_scheme \<Rightarrow> (pcb_PTR \<times> pcb_PTR \<times> 'a pcb_store_scheme) option" where
  "removeProcQ tp s =
     (if emptyProcQ tp then Some (None, tp, s)
      else do { t \<leftarrow> rd_pcb tp s; outProcQ tp (p_next t) s })"

definition clean_pcb :: "pcb_t \<Rightarrow> pcb_t" where
  "clean_pcb x = x\<lparr>p_next := None, p_prev := None, p_child := None, p_sib := None,
     p_prevsib := None, p_prnt := None, p_semAdd := NULL, p_oldSys := NULL, p_newSys := NULL,
     p_oldPgm := NULL, p_newPgm := NULL, p_oldTLB := NULL, p_newTLB := NULL, p_time := 0\<rparr>"

definition cleanPcb :: "pcb_PTR \<Rightarrow> 'a pcb_store_scheme \<Rightarrow> 'a pcb_store_scheme option" where
  "cleanPcb x s = upd_pcb x clean_pcb s"

definition freePcb :: "pcb_PTR \<Rightarrow> 'a pcb_store_scheme \<Rightarrow> 'a pcb_store_scheme option" where
  "freePcb p s = do {
     s1 \<leftarrow> cleanPcb p s;
     (h, s2) \<leftarrow> insertProcQ (pcbFree_h s1) p s1;
     Some (s2\<lparr>pcbFree_h := h\<rparr>)
   }"

definition allocPcb :: "'a pcb_store_scheme \<Rightarrow> (pcb_PTR \<times> 'a pcb_store_scheme) option" where
  "allocPcb s =
     (if emptyProcQ (pcbFree_h s) then Some (None, s)
      else do {
        (allocatedPcb, h, s1) \<leftarrow> removeProcQ (pcbFree_h s) s;
        let s2 = s1\<lparr>pcbFree_h := h\<rparr>;
        s3 \<leftarrow> cleanPcb allocatedPcb s2;
        Some (allocatedPcb, s3)
      })"

definition initPcbs :: "'a pcb_store_scheme \<Rightarrow> 'a pcb_store_scheme option" where
  "initPcbs s = foldM (\<lambda>i. freePcb (Some i)) [0..<MAXPROC] (s\<lparr>pcbFree_h := None\<rparr>)"

lemmas [kaya_ops] = emptyProcQ_def mkEmptyProcQ_def insertProcQ_def headProcQ_def
  unlinkProcQ_def outProcQ_def removeProcQ_def cleanPcb_def freePcb_def allocPcb_def

section \<open>The queue abstraction\<close>

text \<open>
  \<open>procq T tp xs\<close>: in the table \<open>T\<close>, \<open>tp\<close> is the tail pointer of a well-formed process queue
  that holds exactly \<open>xs\<close>, from head to tail.
\<close>

definition procq :: "(nat \<Rightarrow> pcb_t) \<Rightarrow> pcb_PTR \<Rightarrow> nat list \<Rightarrow> bool" where
  "procq T tp xs \<longleftrightarrow>
     distinct xs \<and> set xs \<subseteq> {..<MAXPROC}
     \<and> (if xs = [] then tp = None
        else tp = Some (last xs) \<and> dlinked (p_next \<circ> T) (p_prev \<circ> T) (last xs # xs))"

lemma procq_links:
  assumes "procq T tp xs" "p \<in> set xs"
  shows "\<exists>q\<in>set xs. p_next (T p) = Some q" "\<exists>q\<in>set xs. p_prev (T p) = Some q"
proof -
  have x: "xs \<noteq> []" and d: "dlinked (p_next \<circ> T) (p_prev \<circ> T) (last xs # xs)"
    using assms by (cases "xs = []"; simp add: procq_def)+
  have "p = last xs \<or> p \<in> set (butlast xs)" using assms(2) x by (metis in_set_butlast_appendI append_butlast_last_id rotate1.simps(2) set_ConsD set_rotate1)
  then have "p \<in> set (butlast (last xs # xs))" "p \<in> set (tl (last xs # xs))" using x assms(2) by auto
  with dlinked_in [OF d, of p] x show "\<exists>q\<in>set xs. p_next (T p) = Some q" "\<exists>q\<in>set xs. p_prev (T p) = Some q" by auto
qed

lemma procq_tail_in: "procq T tp xs \<Longrightarrow> tp = None \<or> (\<exists>q\<in>set xs. tp = Some q)"
  by (auto simp: procq_def split: if_splits)

lemma procq_table: "procq T tp xs \<Longrightarrow> p \<in> set xs \<Longrightarrow> p < MAXPROC"
  by (auto simp: procq_def)

text \<open>Tables that differ in the queue links of the blocks of \<open>A\<close> only.\<close>

definition qframe :: "nat set \<Rightarrow> (nat \<Rightarrow> pcb_t) \<Rightarrow> (nat \<Rightarrow> pcb_t) \<Rightarrow> bool" where
  "qframe A T T' \<longleftrightarrow>
     (\<forall>i. T' i = (T i)\<lparr>p_next := p_next (T' i), p_prev := p_prev (T' i)\<rparr>)
     \<and> (\<forall>i. i \<notin> A \<longrightarrow> T' i = T i)"

lemma qframe_refl [simp, intro]: "qframe A T T"
  by (simp add: qframe_def)

lemma qframe_mono: "qframe A T T' \<Longrightarrow> A \<subseteq> B \<Longrightarrow> qframe B T T'"
  by (auto simp: qframe_def)

lemma qframe_out: "qframe A T T' \<Longrightarrow> i \<notin> A \<Longrightarrow> T' i = T i"
  by (simp add: qframe_def)

lemma qframe_fields:
  assumes "qframe A T T'"
  shows "p_prnt (T' i) = p_prnt (T i)" "p_child (T' i) = p_child (T i)"
    "p_sib (T' i) = p_sib (T i)" "p_prevsib (T' i) = p_prevsib (T i)"
    "p_s (T' i) = p_s (T i)" "p_semAdd (T' i) = p_semAdd (T i)" "p_time (T' i) = p_time (T i)"
    "p_oldSys (T' i) = p_oldSys (T i)" "p_newSys (T' i) = p_newSys (T i)"
    "p_oldPgm (T' i) = p_oldPgm (T i)" "p_newPgm (T' i) = p_newPgm (T i)"
    "p_oldTLB (T' i) = p_oldTLB (T i)" "p_newTLB (T' i) = p_newTLB (T i)"
proof -
  have eq: "T' i = (T i)\<lparr>p_next := p_next (T' i), p_prev := p_prev (T' i)\<rparr>"
    using assms unfolding qframe_def by blast
  show "p_prnt (T' i) = p_prnt (T i)" "p_child (T' i) = p_child (T i)"
    "p_sib (T' i) = p_sib (T i)" "p_prevsib (T' i) = p_prevsib (T i)"
    "p_s (T' i) = p_s (T i)" "p_semAdd (T' i) = p_semAdd (T i)" "p_time (T' i) = p_time (T i)"
    "p_oldSys (T' i) = p_oldSys (T i)" "p_newSys (T' i) = p_newSys (T i)"
    "p_oldPgm (T' i) = p_oldPgm (T i)" "p_newPgm (T' i) = p_newPgm (T i)"
    "p_oldTLB (T' i) = p_oldTLB (T i)" "p_newTLB (T' i) = p_newTLB (T i)"
    by (subst eq, simp)+
qed

lemma procq_cong:
  assumes "\<And>x. x \<in> set xs \<Longrightarrow> p_next (T' x) = p_next (T x) \<and> p_prev (T' x) = p_prev (T x)"
  shows "procq T' tp xs = procq T tp xs"
proof -
  have "dlinked (p_next \<circ> T') (p_prev \<circ> T') (last xs # xs)
        = dlinked (p_next \<circ> T) (p_prev \<circ> T) (last xs # xs)" if "xs \<noteq> []"
    using that assms by (intro dlinked_cong) (auto simp: in_set_butlastD dest: in_set_butlastD)
  then show ?thesis by (auto simp: procq_def)
qed

lemma procq_Nil [simp]: "procq T tp [] = (tp = None)"
  by (simp add: procq_def)

lemma procq_None [simp]: "procq T None xs = (xs = [])"
  by (cases xs) (simp_all add: procq_def)

lemma procq_valid: "procq T tp xs \<Longrightarrow> x \<in> set xs \<Longrightarrow> x < MAXPROC"
  by (auto simp: procq_def)

lemma procq_distinct: "procq T tp xs \<Longrightarrow> distinct xs"
  by (simp add: procq_def)

lemma procq_tail: "procq T tp xs \<Longrightarrow> xs \<noteq> [] \<Longrightarrow> tp = Some (last xs)"
  by (simp add: procq_def)

lemma procq_head: "procq T tp xs \<Longrightarrow> xs \<noteq> [] \<Longrightarrow> p_next (T (last xs)) = Some (hd xs)"
  by (cases xs) (auto simp: procq_def)

lemma procq_empty_iff: "procq T tp xs \<Longrightarrow> emptyProcQ tp = (xs = [])"
  by (auto simp: procq_def emptyProcQ_def split: if_splits)

lemma procq_frame:
  "procq T tp xs \<Longrightarrow> qframe A T T' \<Longrightarrow> set xs \<inter> A = {} \<Longrightarrow> procq T' tp xs"
  by (subst procq_cong [of _ T' T]) (auto simp: qframe_def)

lemma procq_second:
  assumes "procq T tp xs" "xs \<noteq> []"
  shows "p_next (T (hd xs)) = Some (xs ! (1 mod length xs))"
proof (cases xs)
  case (Cons x ys)
  then show ?thesis using assms by (cases ys) (auto simp: procq_def dlinked_Cons)
qed (use assms in simp)

lemma qframe_semAdd:
  assumes "qframe A T T'" "p \<in> A"
  shows "qframe A (T(p := (T p)\<lparr>p_semAdd := a\<rparr>)) (T'(p := (T' p)\<lparr>p_semAdd := a\<rparr>))"
proof -
  have eq: "T' p = (T p)\<lparr>p_next := p_next (T' p), p_prev := p_prev (T' p)\<rparr>"
    using assms unfolding qframe_def by blast
  have "(T' p)\<lparr>p_semAdd := a\<rparr> = (T p)\<lparr>p_semAdd := a, p_next := p_next (T' p), p_prev := p_prev (T' p)\<rparr>"
    by (subst eq) simp
  then show ?thesis using assms by (auto simp: qframe_def)
qed

section \<open>What the queue operations do\<close>

lemma insertProcQ_run:
  fixes s :: "'a pcb_store_scheme"
  assumes q: "procq (procTable s) tp xs" and p: "p < MAXPROC" "p \<notin> set xs"
  shows "\<exists>T'. insertProcQ tp (Some p) s = Some (Some p, s\<lparr>procTable := T'\<rparr>)
    \<and> procq T' (Some p) (xs @ [p]) \<and> qframe (insert p (set xs)) (procTable s) T'"
proof (cases "xs = []")
  case True
  with q p show ?thesis
    by (auto simp: insertProcQ_def emptyProcQ_def procq_def qframe_def)
next
  case False
  let ?T = "procTable s" and ?h = "hd xs" and ?t = "last xs"
  have tp: "tp = Some ?t" and link: "dlinked (p_next \<circ> ?T) (p_prev \<circ> ?T) (?t # xs)"
    and d: "distinct xs" and v: "set xs \<subseteq> {..<MAXPROC}"
    using q False by (auto simp: procq_def)
  have mem: "?h \<in> set xs" "?t \<in> set xs" using False by auto
  then have ok: "?h < MAXPROC" "?t < MAXPROC" "p \<noteq> ?h" "p \<noteq> ?t" using v p by auto
  have nt: "p_next (?T ?t) = Some ?h" using procq_head [OF q False] .
  define T' where "T' = (\<lambda>x. (?T x)\<lparr>
      p_next := if x = p then Some ?h else if x = ?t then Some p else p_next (?T x),
      p_prev := if x = p then Some ?t else if x = ?h then Some p else p_prev (?T x)\<rparr>)"
  have run: "insertProcQ tp (Some p) s = Some (Some p, s\<lparr>procTable := T'\<rparr>)"
    using ok nt p by (auto simp: insertProcQ_def emptyProcQ_def tp T'_def intro!: procTable_eqI ext)
  have fr: "qframe (insert p (set xs)) ?T T'" using mem by (auto simp: qframe_def T'_def)
  have "dlinked (p_next \<circ> T') (p_prev \<circ> T') xs = dlinked (p_next \<circ> ?T) (p_prev \<circ> ?T) xs"
    using p d False last_notin_butlast [OF d False] hd_notin_tl [OF d False]
    by (intro dlinked_cong) (auto simp: T'_def dest: in_set_butlastD list.set_sel(2))
  then have "dlinked (p_next \<circ> T') (p_prev \<circ> T') (p # xs @ [p])"
    using link False ok by (simp add: dlinked_Cons dlinked_append T'_def)
  then have "procq T' (Some p) (xs @ [p])" using d v p by (simp add: procq_def)
  with run fr show ?thesis by blast
qed

lemma headProcQ_run:
  assumes "procq (procTable s) tp xs"
  shows "headProcQ tp s = Some (if xs = [] then None else Some (hd xs))"
proof (cases "xs = []")
  case False
  then have "last xs < MAXPROC" using procq_valid [OF assms, of "last xs"] by simp
  with False show ?thesis
    using procq_tail [OF assms False] procq_head [OF assms False]
    by (simp add: headProcQ_def emptyProcQ_def)
qed (use assms in \<open>simp add: headProcQ_def emptyProcQ_def\<close>)

text \<open>
  Unlinking \<open>p\<close> from a circle of at least two: \<open>as\<close> is what precedes \<open>p\<close>, \<open>bs\<close> what follows,
  both read along the circle from \<open>p\<close>'s successors on.
\<close>

lemma unlinkProcQ_run:
  fixes s :: "'a pcb_store_scheme"
  assumes d: "distinct (p # c)" and v: "set (p # c) \<subseteq> {..<MAXPROC}" and ne: "c \<noteq> []"
    and link: "dlinked (p_next \<circ> procTable s) (p_prev \<circ> procTable s) (p # c @ [p])"
  shows "\<exists>T'. unlinkProcQ (Some p) s = Some (s\<lparr>procTable := T'\<rparr>)
    \<and> dlinked (p_next \<circ> T') (p_prev \<circ> T') (last c # c)
    \<and> qframe (set c) (procTable s) T' \<and> T' p = procTable s p"
proof -
  let ?T = "procTable s" and ?h = "hd c" and ?t = "last c"
  have mem: "?h \<in> set c" "?t \<in> set c" using ne by auto
  then have ok: "?h < MAXPROC" "?t < MAXPROC" "p < MAXPROC" "p \<noteq> ?h" "p \<noteq> ?t"
    using v d by auto
  have l: "p_next (?T p) = Some ?h" "p_prev (?T p) = Some ?t"
    "dlinked (p_next \<circ> ?T) (p_prev \<circ> ?T) c"
    using link ne by (auto simp: dlinked_Cons dlinked_append)
  define T' where "T' = (\<lambda>x. (?T x)\<lparr>
      p_next := if x = ?t then Some ?h else p_next (?T x),
      p_prev := if x = ?h then Some ?t else p_prev (?T x)\<rparr>)"
  have run: "unlinkProcQ (Some p) s = Some (s\<lparr>procTable := T'\<rparr>)"
    using ok l by (auto simp: unlinkProcQ_def T'_def intro!: procTable_eqI ext)
  have fr: "qframe (set c) ?T T'" using mem by (auto simp: qframe_def T'_def)
  have "dlinked (p_next \<circ> T') (p_prev \<circ> T') c = dlinked (p_next \<circ> ?T) (p_prev \<circ> ?T) c"
    using d ne last_notin_butlast [of c] hd_notin_tl [of c]
    by (intro dlinked_cong) (auto simp: T'_def)
  then have "dlinked (p_next \<circ> T') (p_prev \<circ> T') (?t # c)"
    using l ne by (simp add: dlinked_Cons T'_def)
  moreover have "T' p = ?T p" using ok by (simp add: T'_def)
  ultimately show ?thesis using run fr by blast
qed

lemma outProcQ_loop_skip:
  assumes "spath (p_next \<circ> procTable s) cur xs r" "set xs \<subseteq> {..<MAXPROC}" "t \<notin> set xs" "p \<notin> set xs"
  shows "outProcQ_loop (Some t) (Some p) cur s = outProcQ_loop (Some t) (Some p) r s"
  using assms
proof (induction xs arbitrary: cur)
  case (Cons x xs)
  then show ?case by (subst outProcQ_loop.simps) simp
qed simp

text \<open>Removing a process that is in the queue, wherever it stands.\<close>

lemma outProcQ_run:
  fixes s :: "'a pcb_store_scheme"
  assumes q: "procq (procTable s) tp xs" and p: "p \<in> set xs"
  shows "\<exists>T' tp'. outProcQ tp (Some p) s = Some (Some p, tp', s\<lparr>procTable := T'\<rparr>)
    \<and> procq T' tp' (remove1 p xs) \<and> qframe (set xs - {p}) (procTable s) T'"
proof -
  let ?T = "procTable s"
  have ne: "xs \<noteq> []" using p by auto
  have d: "distinct xs" and v: "set xs \<subseteq> {..<MAXPROC}" and tp: "tp = Some (last xs)"
    and link: "dlinked (p_next \<circ> ?T) (p_prev \<circ> ?T) (last xs # xs)"
    using q ne by (auto simp: procq_def)
  have pv: "p < MAXPROC" "last xs < MAXPROC" using p v ne last_in_set [OF ne] by blast+
  obtain as bs where xs: "xs = as @ p # bs" using p by (meson split_list)
  have rm: "remove1 p xs = as @ bs" using d by (simp add: xs remove1_append_notin)
  have hd: "headProcQ tp s = Some (Some (hd xs))" using headProcQ_run [OF q] ne by simp
  show ?thesis
  proof (cases "bs @ as = []")
    case True
    then have "outProcQ tp (Some p) s = Some (Some p, None, s)"
      using hd by (simp add: outProcQ_def emptyProcQ_def tp xs)
    then show ?thesis using True rm
      by (intro exI [of _ ?T] exI [of _ None]) simp
  next
    case False
    have circ: "dlinked (p_next \<circ> ?T) (p_prev \<circ> ?T) (p # (bs @ as) @ [p])"
      using link dlinked_rotate [of "as @ [p]" bs] dlinked_rotate [of "bs @ as" "[p]"]
        dlinked_rotate [of as "p # bs"] dlinked_rotate [of "[p]" "bs @ as"] by (simp add: xs)
    obtain T' where un: "unlinkProcQ (Some p) s = Some (s\<lparr>procTable := T'\<rparr>)"
      and l': "dlinked (p_next \<circ> T') (p_prev \<circ> T') (last (bs @ as) # bs @ as)"
      and fr: "qframe (set (bs @ as)) ?T T'" and Tp: "T' p = ?T p"
      using unlinkProcQ_run [of p "bs @ as" s] d v False circ by (auto simp: xs)
    have q': "procq T' (Some (last (as @ bs))) (remove1 p xs)"
    proof -
      have "dlinked (p_next \<circ> T') (p_prev \<circ> T') (last (as @ bs) # as @ bs)"
        using l' False by (subst dlinked_rotate) auto
      moreover have "distinct (as @ bs)" "set (as @ bs) \<subseteq> {..<MAXPROC}" "as @ bs \<noteq> []"
        using d v False by (auto simp: xs)
      ultimately show ?thesis unfolding rm procq_def by simp
    qed
    have fr': "qframe (set xs - {p}) ?T T'"
      using fr d by (elim qframe_mono) (auto simp: xs)
    show ?thesis
    proof (cases "bs = []")
      case True
      then have "as \<noteq> []" using False by simp
      moreover have "hd as \<noteq> p" using d \<open>as \<noteq> []\<close> hd_in_set [of as] by (auto simp: xs)
      moreover have "p_prev (?T p) = Some (last as)"
        using link True \<open>as \<noteq> []\<close> by (simp add: xs dlinked_Cons dlinked_append)
      ultimately have "outProcQ tp (Some p) s
          = Some (Some p, Some (last (as @ bs)), s\<lparr>procTable := T'\<rparr>)"
        using hd un pv Tp True by (simp add: outProcQ_def emptyProcQ_def tp xs)
      then show ?thesis using q' fr' by blast
    next
      case False
      then have tne: "p \<noteq> last bs" using d by (auto simp: xs)
      have "spath (p_next \<circ> ?T) (Some (hd (as @ [p]))) as (Some p)"
        using link dlinked_append [of "last xs # as @ [p]" bs "p_next \<circ> ?T" "p_prev \<circ> ?T"] False
        by (intro dlinked_spath [where prv = "p_prev \<circ> ?T"]) (simp add: xs dlinked_Cons)
      then have "outProcQ_loop (Some (last bs)) (Some p) (Some (hd (as @ [p]))) s
          = outProcQ_loop (Some (last bs)) (Some p) (Some p) s"
        using v d False by (intro outProcQ_loop_skip) (auto simp: xs)
      then have "outProcQ_loop (Some (last bs)) (Some p) (Some (hd (as @ [p]))) s
          = Some (Some p, s\<lparr>procTable := T'\<rparr>)"
        using un tne by (simp add: outProcQ_loop.simps [of "Some (last bs)" "Some p" "Some p"])
      moreover have "hd xs = hd (as @ [p])" by (cases as) (auto simp: xs)
      ultimately have "outProcQ tp (Some p) s
          = Some (Some p, Some (last (as @ bs)), s\<lparr>procTable := T'\<rparr>)"
        using un pv tne False procq_head [OF q ne]
        by (simp add: outProcQ_def emptyProcQ_def tp xs)
      then show ?thesis using q' fr' by blast
    qed
  qed
qed

text \<open>A process that is not in the queue: \<open>NULL\<close>, and nothing changes.\<close>

lemma outProcQ_absent:
  assumes q: "procq (procTable s) tp xs" and p: "p \<notin> set xs"
  shows "outProcQ tp (Some p) s = Some (None, tp, s)"
proof (cases "xs = []")
  case True
  with q show ?thesis by (simp add: outProcQ_def emptyProcQ_def)
next
  case False
  let ?T = "procTable s" and ?t = "last xs"
  have d: "distinct xs" and v: "set xs \<subseteq> {..<MAXPROC}" and tp: "tp = Some ?t"
    and link: "dlinked (p_next \<circ> ?T) (p_prev \<circ> ?T) (?t # xs)"
    using q False by (auto simp: procq_def)
  have xs: "xs = butlast xs @ [?t]" using False by simp
  have tv: "?t < MAXPROC" "p \<noteq> ?t" using v p last_in_set [OF False] by blast+
  have "dlinked (p_next \<circ> ?T) (p_prev \<circ> ?T) (butlast xs @ [?t])"
    using link False by (simp add: dlinked_Cons)
  from dlinked_spath [OF this] have "spath (p_next \<circ> ?T) (Some (hd xs)) (butlast xs) (Some ?t)"
    using False by simp
  then have "outProcQ_loop (Some ?t) (Some p) (Some (hd xs)) s
      = outProcQ_loop (Some ?t) (Some p) (Some ?t) s"
    using v p last_notin_butlast [OF d False]
    by (intro outProcQ_loop_skip [where xs = "butlast xs"]) (auto dest: in_set_butlastD)
  then have "outProcQ_loop (Some ?t) (Some p) (Some (hd xs)) s = Some (None, s)"
    by (simp add: outProcQ_loop.simps [of "Some ?t" _ "Some ?t"])
  then show ?thesis using tv procq_head [OF q False]
    by (simp add: outProcQ_def emptyProcQ_def tp)
qed

lemma removeProcQ_empty:
  "procq (procTable s) tp [] \<Longrightarrow> removeProcQ tp s = Some (None, None, s)"
  by (simp add: removeProcQ_def emptyProcQ_def)

lemma removeProcQ_run:
  fixes s :: "'a pcb_store_scheme"
  assumes q: "procq (procTable s) tp (x # xs)"
  shows "\<exists>T' tp'. removeProcQ tp s = Some (Some x, tp', s\<lparr>procTable := T'\<rparr>)
    \<and> procq T' tp' xs \<and> qframe (set xs) (procTable s) T'"
proof -
  have tp: "tp = Some (last (x # xs))" using q by (rule procq_tail) simp
  moreover have "last (x # xs) < MAXPROC"
    using procq_valid [OF q last_in_set] by simp
  ultimately have "removeProcQ tp s = outProcQ tp (Some x) s"
    using procq_head [OF q] by (simp add: removeProcQ_def emptyProcQ_def)
  moreover have "set (x # xs) - {x} = set xs" using procq_distinct [OF q] by auto
  ultimately show ?thesis using outProcQ_run [OF q, of x] by simp
qed

section \<open>Allocation\<close>

text \<open>A block that shows no old relationship: every field but the saved state is cleared.\<close>

definition unrelated :: "pcb_t \<Rightarrow> bool" where
  "unrelated x \<longleftrightarrow> x\<lparr>p_next := None, p_prev := None\<rparr> = clean_pcb x"

lemma unrelated_clean [simp]: "unrelated (clean_pcb x)"
  by (simp add: unrelated_def clean_pcb_def)

lemma unrelated_links [simp]:
  "unrelated (x\<lparr>p_next := a, p_prev := b\<rparr>) = unrelated x"
  by (cases x) (simp add: unrelated_def clean_pcb_def)

lemma unrelated_qframe: "qframe A T T' \<Longrightarrow> unrelated (T' i) = unrelated (T i)"
  unfolding qframe_def by (metis unrelated_links)

lemma unrelatedD:
  assumes "unrelated x"
  shows "p_child x = None" "p_sib x = None" "p_prevsib x = None" "p_prnt x = None"
    "p_semAdd x = NULL" "p_time x = 0" "p_oldSys x = NULL" "p_oldPgm x = NULL"
    "p_oldTLB x = NULL"
  using assms by (cases x, simp add: unrelated_def clean_pcb_def)+

lemma freePcb_run:
  fixes s :: "'a pcb_store_scheme"
  assumes q: "procq (procTable s) (pcbFree_h s) fs" and p: "p < MAXPROC" "p \<notin> set fs"
  shows "\<exists>T'. freePcb (Some p) s = Some (s\<lparr>procTable := T', pcbFree_h := Some p\<rparr>)
    \<and> procq T' (Some p) (fs @ [p])
    \<and> qframe (insert p (set fs)) ((procTable s)(p := clean_pcb (procTable s p))) T'"
proof -
  let ?s1 = "s\<lparr>procTable := (procTable s)(p := clean_pcb (procTable s p))\<rparr>"
  have "procq (procTable ?s1) (pcbFree_h s) fs"
    using q p by (subst procq_cong [where T = "procTable s"]) auto
  from insertProcQ_run [OF this p] obtain T' where
    "insertProcQ (pcbFree_h s) (Some p) ?s1 = Some (Some p, ?s1\<lparr>procTable := T'\<rparr>)"
    "procq T' (Some p) (fs @ [p])" "qframe (insert p (set fs)) (procTable ?s1) T'" by blast
  then show ?thesis using p by (auto simp: freePcb_def cleanPcb_def)
qed

lemma freePcb_NULL [simp]: "freePcb None s = None"
  by (simp add: freePcb_def cleanPcb_def)

lemma allocPcb_none: "procq (procTable s) (pcbFree_h s) [] \<Longrightarrow> allocPcb s = Some (None, s)"
  by (simp add: allocPcb_def emptyProcQ_def)

lemma allocPcb_run:
  fixes s :: "'a pcb_store_scheme"
  assumes q: "procq (procTable s) (pcbFree_h s) (x # fs)"
  shows "\<exists>T' h'. allocPcb s = Some (Some x, s\<lparr>procTable := T', pcbFree_h := h'\<rparr>)
    \<and> procq T' h' fs \<and> qframe (set fs) ((procTable s)(x := clean_pcb (procTable s x))) T'"
proof -
  have x: "x < MAXPROC" "x \<notin> set fs" using procq_valid [OF q] procq_distinct [OF q] by auto
  obtain T' h' where rm: "removeProcQ (pcbFree_h s) s = Some (Some x, h', s\<lparr>procTable := T'\<rparr>)"
    and q': "procq T' h' fs" and fr: "qframe (set fs) (procTable s) T'"
    using removeProcQ_run [OF q] by blast
  have Tx: "T' x = procTable s x" using qframe_out [OF fr x(2)] .
  have "allocPcb s = Some (Some x, s\<lparr>procTable := T'(x := clean_pcb (procTable s x)), pcbFree_h := h'\<rparr>)"
    using rm x Tx procq_empty_iff [OF q] by (simp add: allocPcb_def cleanPcb_def)
  moreover have "procq (T'(x := clean_pcb (procTable s x))) h' fs"
    using q' x by (subst procq_cong [where T = T']) auto
  moreover have "qframe (set fs) ((procTable s)(x := clean_pcb (procTable s x)))
      (T'(x := clean_pcb (procTable s x)))"
    using fr x by (auto simp: qframe_def)
  ultimately show ?thesis by blast
qed

lemma initPcbs_run:
  fixes s :: "'a pcb_store_scheme"
  shows "\<exists>T' h. initPcbs s = Some (s\<lparr>procTable := T', pcbFree_h := h\<rparr>)
    \<and> procq T' h [0..<MAXPROC] \<and> (\<forall>i<MAXPROC. unrelated (T' i))
    \<and> (\<forall>i. p_s (T' i) = p_s (procTable s i))"
proof -
  define I where "I = (\<lambda>n t. \<exists>T' h. t = s\<lparr>procTable := T', pcbFree_h := h\<rparr>
    \<and> procq T' h [0..<n] \<and> (\<forall>i<n. unrelated (T' i)) \<and> (\<forall>i. p_s (T' i) = p_s (procTable s i)))"
  have "\<exists>t. foldM (\<lambda>i. freePcb (Some i)) [0..<MAXPROC] (s\<lparr>pcbFree_h := None\<rparr>) = Some t
      \<and> I MAXPROC t"
  proof (rule foldM_upt_inv)
    show "I 0 (s\<lparr>pcbFree_h := None\<rparr>)"
      unfolding I_def by (intro exI [of _ "procTable s"] exI [of _ None]) simp
  next
    fix i t assume i: "i < MAXPROC" and "I i t"
    then obtain T h where t: "t = s\<lparr>procTable := T, pcbFree_h := h\<rparr>" and q: "procq T h [0..<i]"
      and un: "\<forall>j<i. unrelated (T j)" and ps: "\<forall>j. p_s (T j) = p_s (procTable s j)"
      unfolding I_def by blast
    have "procq (procTable t) (pcbFree_h t) [0..<i]" using q by (simp add: t)
    from freePcb_run [OF this i] obtain T' where
      run: "freePcb (Some i) t = Some (t\<lparr>procTable := T', pcbFree_h := Some i\<rparr>)"
      and q': "procq T' (Some i) ([0..<i] @ [i])"
      and fr: "qframe (insert i (set [0..<i])) ((procTable t)(i := clean_pcb (procTable t i))) T'"
      by auto
    have "\<forall>j<Suc i. unrelated (T' j)"
      using un by (auto simp: unrelated_qframe [OF fr] less_Suc_eq t)
    moreover have "\<forall>j. p_s (T' j) = p_s (procTable s j)"
      using ps by (auto simp: qframe_fields [OF fr] t clean_pcb_def)
    ultimately have "I (Suc i) (t\<lparr>procTable := T', pcbFree_h := Some i\<rparr>)"
      using q' unfolding I_def
      by (intro exI [of _ T'] exI [of _ "Some i"]) (simp add: t)
    with run show "\<exists>t'. freePcb (Some i) t = Some t' \<and> I (Suc i) t'" by blast
  qed
  then show ?thesis unfolding initPcbs_def I_def by blast
qed

section \<open>The queue contract\<close>

text \<open>
  What the users of process queues (the allocator, the semaphore list, the scheduler) rely on:
  a queue is a list, insertion appends, removal takes the head, and neither fails. The laws
  give first-in first-out order for any provider.
\<close>

fun insert_all ::
  "('q \<Rightarrow> nat \<Rightarrow> 's \<Rightarrow> ('q \<times> 's) option) \<Rightarrow> 'q \<Rightarrow> nat list \<Rightarrow> 's \<Rightarrow> ('q \<times> 's) option" where
  "insert_all ins t [] s = Some (t, s)"
| "insert_all ins t (p # ps) s = ins t p s \<bind> (\<lambda>(t1, s1). insert_all ins t1 ps s1)"

fun remove_times ::
  "('q \<Rightarrow> 's \<Rightarrow> (nat option \<times> 'q \<times> 's) option) \<Rightarrow> nat \<Rightarrow> 'q \<Rightarrow> 's
     \<Rightarrow> (nat option list \<times> 'q \<times> 's) option" where
  "remove_times rem 0 t s = Some ([], t, s)"
| "remove_times rem (Suc n) t s = do {
     (r, t1, s1) \<leftarrow> rem t s;
     (rs, t2, s2) \<leftarrow> remove_times rem n t1 s1;
     Some (r # rs, t2, s2)
   }"

locale fifo_queue =
  fixes repr :: "'s \<Rightarrow> 'q \<Rightarrow> nat list \<Rightarrow> bool"
    and elem :: "nat \<Rightarrow> bool"
    and ins :: "'q \<Rightarrow> nat \<Rightarrow> 's \<Rightarrow> ('q \<times> 's) option"
    and rem :: "'q \<Rightarrow> 's \<Rightarrow> (nat option \<times> 'q \<times> 's) option"
  assumes ins_law: "repr s t xs \<Longrightarrow> elem p \<Longrightarrow> p \<notin> set xs \<Longrightarrow>
      \<exists>t' s'. ins t p s = Some (t', s') \<and> repr s' t' (xs @ [p])"
    and rem_empty_law: "repr s t [] \<Longrightarrow> \<exists>t' s'. rem t s = Some (None, t', s') \<and> repr s' t' []"
    and rem_law: "repr s t (x # xs) \<Longrightarrow> \<exists>t' s'. rem t s = Some (Some x, t', s') \<and> repr s' t' xs"
begin

lemma insert_all_appends:
  "repr s t xs \<Longrightarrow> distinct (xs @ ps) \<Longrightarrow> \<forall>p\<in>set ps. elem p \<Longrightarrow>
   \<exists>t' s'. insert_all ins t ps s = Some (t', s') \<and> repr s' t' (xs @ ps)"
proof (induction ps arbitrary: xs t s)
  case (Cons p ps)
  obtain t1 s1 where "ins t p s = Some (t1, s1)" "repr s1 t1 (xs @ [p])"
    using ins_law [of s t xs p] Cons.prems by auto
  with Cons.IH [of s1 t1 "xs @ [p]"] Cons.prems show ?case by auto
qed auto

lemma remove_times_drains:
  "repr s t (xs @ ys) \<Longrightarrow>
   \<exists>t' s'. remove_times rem (length xs) t s = Some (map Some xs, t', s') \<and> repr s' t' ys"
proof (induction xs arbitrary: t s)
  case (Cons x xs)
  obtain t1 s1 where "rem t s = Some (Some x, t1, s1)" "repr s1 t1 (xs @ ys)"
    using rem_law [of s t x "xs @ ys"] Cons.prems by auto
  with Cons.IH [of s1 t1] show ?case by auto
qed auto

lemma first_in_first_out:
  assumes "repr s t xs" "distinct (xs @ ps)" "\<forall>p\<in>set ps. elem p"
  shows "\<exists>t1 s1 t2 s2. insert_all ins t ps s = Some (t1, s1)
    \<and> remove_times rem (length (xs @ ps)) t1 s1 = Some (map Some (xs @ ps), t2, s2)
    \<and> rem t2 s2 \<noteq> None \<and> fst (the (rem t2 s2)) = None"
proof -
  obtain t1 s1 where i: "insert_all ins t ps s = Some (t1, s1)" "repr s1 t1 (xs @ ps)"
    using insert_all_appends assms by blast
  then obtain t2 s2 where
    r: "remove_times rem (length (xs @ ps)) t1 s1 = Some (map Some (xs @ ps), t2, s2)"
    "repr s2 t2 []"
    using remove_times_drains [of s1 t1 "xs @ ps" "[]"] by auto
  from rem_empty_law [OF r(2)] show ?thesis using i(1) r(1) by fastforce
qed

end

interpretation pq: fifo_queue "\<lambda>s. procq (procTable s)" "\<lambda>p. p < MAXPROC"
  "\<lambda>t p s. insertProcQ t (Some p) s" removeProcQ
proof
  fix s :: "'a pcb_store_scheme" and t xs p
  assume "procq (procTable s) t xs" "p < MAXPROC" "p \<notin> set xs"
  from insertProcQ_run [OF this]
  show "\<exists>t' s'. insertProcQ t (Some p) s = Some (t', s') \<and> procq (procTable s') t' (xs @ [p])"
    by force
next
  fix s :: "'a pcb_store_scheme" and t
  assume "procq (procTable s) t []"
  then show "\<exists>t' s'. removeProcQ t s = Some (None, t', s') \<and> procq (procTable s') t' []"
    by (simp add: removeProcQ_def emptyProcQ_def)
next
  fix s :: "'a pcb_store_scheme" and t x xs
  assume "procq (procTable s) t (x # xs)"
  from removeProcQ_run [OF this]
  show "\<exists>t' s'. removeProcQ t s = Some (Some x, t', s') \<and> procq (procTable s') t' xs"
    by force
qed

text \<open>The free list is a queue too: blocks are handed out in the order they were freed.\<close>

interpretation freeq: fifo_queue "\<lambda>s (u::unit) xs. procq (procTable s) (pcbFree_h s) xs"
  "\<lambda>p. p < MAXPROC"
  "\<lambda>u p s. map_option (Pair ()) (freePcb (Some p) s)"
  "\<lambda>u s. map_option (\<lambda>(r, s'). (r, (), s')) (allocPcb s)"
proof
  fix s :: "'a pcb_store_scheme" and t :: unit and xs p
  assume "procq (procTable s) (pcbFree_h s) xs" "p < MAXPROC" "p \<notin> set xs"
  from freePcb_run [OF this]
  show "\<exists>t' s'. map_option (Pair ()) (freePcb (Some p) s) = Some (t', s')
      \<and> procq (procTable s') (pcbFree_h s') (xs @ [p])"
    by force
next
  fix s :: "'a pcb_store_scheme" and t :: unit
  assume "procq (procTable s) (pcbFree_h s) []"
  then show "\<exists>t' s'. map_option (\<lambda>(r, s'). (r, (), s')) (allocPcb s) = Some (None, t', s')
      \<and> procq (procTable s') (pcbFree_h s') []"
    by (simp add: allocPcb_none)
next
  fix s :: "'a pcb_store_scheme" and t :: unit and x xs
  assume "procq (procTable s) (pcbFree_h s) (x # xs)"
  from allocPcb_run [OF this]
  show "\<exists>t' s'. map_option (\<lambda>(r, s'). (r, (), s')) (allocPcb s) = Some (Some x, t', s')
      \<and> procq (procTable s') (pcbFree_h s') xs"
    by force
qed

section \<open>Properties\<close>

text \<open>A state for the witnesses: the queue 4, 7, 2, known by its tail 2.\<close>

definition ex_state :: state_t where
  "ex_state = \<lparr>s_asid = 0, s_cause = 0, s_status = 0, s_pc = 0, s_reg = replicate 31 0\<rparr>"

definition ex_pcb :: pcb_t where
  "ex_pcb = \<lparr>p_next = None, p_prev = None, p_prnt = None, p_child = None, p_sib = None,
     p_prevsib = None, p_s = ex_state, p_oldSys = NULL, p_newSys = NULL, p_oldPgm = NULL,
     p_newPgm = NULL, p_oldTLB = NULL, p_newTLB = NULL, p_time = 0, p_semAdd = NULL\<rparr>"

definition ex_ring :: pcb_store where
  "ex_ring = \<lparr>procTable = (\<lambda>_. ex_pcb)
     (4 := ex_pcb\<lparr>p_next := Some 7, p_prev := Some 2\<rparr>,
      7 := ex_pcb\<lparr>p_next := Some 2, p_prev := Some 4\<rparr>,
      2 := ex_pcb\<lparr>p_next := Some 4, p_prev := Some 7\<rparr>), pcbFree_h = Some 2\<rparr>"

lemma ex_ring_procq: "procq (procTable ex_ring) (Some 2) [4, 7, 2]" "pcbFree_h ex_ring = Some 2"
  by (simp_all add: procq_def ex_ring_def MAXPROC_def)

text \<open>
  insertProcQ appends to the queue: for every well-formed process queue and every valid block
  that is not in it, the call returns, the new tail pointer is the inserted block, the queue now
  holds the old processes followed by the new one, every disjoint queue is still well formed with
  the same contents, and nothing but queue links of the blocks involved has changed.
\<close>

theorem insertProcQ_appends:
  fixes s :: "'a pcb_store_scheme"
  assumes "procq (procTable s) tp xs" and "p < MAXPROC" and "p \<notin> set xs"
  shows "\<exists>s'. insertProcQ tp (Some p) s = Some (Some p, s')
    \<and> procq (procTable s') (Some p) (xs @ [p])
    \<and> (\<forall>tp2 ys. procq (procTable s) tp2 ys \<longrightarrow> set ys \<inter> insert p (set xs) = {} \<longrightarrow>
         procq (procTable s') tp2 ys)
    \<and> qframe (insert p (set xs)) (procTable s) (procTable s')"
proof -
  obtain T' where "insertProcQ tp (Some p) s = Some (Some p, s\<lparr>procTable := T'\<rparr>)"
    "procq T' (Some p) (xs @ [p])" "qframe (insert p (set xs)) (procTable s) T'"
    using insertProcQ_run [OF assms] by blast
  then show ?thesis by (auto intro: procq_frame)
qed

theorem insertProcQ_appends_witness:
  "\<exists>s'. insertProcQ (Some 2) (Some 9) ex_ring = Some (Some 9, s')
     \<and> procq (procTable s') (Some 9) [4, 7, 2, 9]"
  using insertProcQ_appends [OF ex_ring_procq(1), of 9] by (auto simp: MAXPROC_def)

text \<open>
  outProcQ removes the given process wherever it stands in the queue, and only it: the search
  loop ends, the result is the process if it was queued and NULL if it was not, the tail pointer
  and links describe the queue without it, and if it was not queued nothing has changed.
\<close>

theorem outProcQ_removes:
  fixes s :: "'a pcb_store_scheme"
  assumes "procq (procTable s) tp xs"
  shows "\<exists>tp' s'. outProcQ tp (Some p) s = Some (if p \<in> set xs then Some p else None, tp', s')
    \<and> procq (procTable s') tp' (remove1 p xs)
    \<and> (p \<notin> set xs \<longrightarrow> tp' = tp \<and> s' = s)
    \<and> (\<forall>tp2 ys. procq (procTable s) tp2 ys \<longrightarrow> set ys \<inter> set xs = {} \<longrightarrow> procq (procTable s') tp2 ys)
    \<and> qframe (set xs - {p}) (procTable s) (procTable s')"
proof (cases "p \<in> set xs")
  case True
  then obtain T' tp' where "outProcQ tp (Some p) s = Some (Some p, tp', s\<lparr>procTable := T'\<rparr>)"
    "procq T' tp' (remove1 p xs)" "qframe (set xs - {p}) (procTable s) T'"
    using outProcQ_run [OF assms] by blast
  with True show ?thesis by (auto intro: procq_frame)
next
  case False
  then show ?thesis using outProcQ_absent [OF assms] assms by (simp add: remove1_idem)
qed

theorem outProcQ_removes_witness:
  "(\<exists>tp' s'. outProcQ (Some 2) (Some 7) ex_ring = Some (Some 7, tp', s') \<and> procq (procTable s') tp' [4, 2])
   \<and> outProcQ (Some 2) (Some 9) ex_ring = Some (None, Some 2, ex_ring)"
  using outProcQ_removes [OF ex_ring_procq(1), of 7] outProcQ_removes [OF ex_ring_procq(1), of 9]
  by auto

text \<open>
  C35. A process queue is first in, first out: inserting any distinct new processes and then
  removing as many processes as the queue holds returns the old contents followed by the new
  ones in the order of insertion, after which removeProcQ returns NULL.
\<close>

theorem process_queue_fifo:
  fixes s :: "'a pcb_store_scheme"
  assumes "procq (procTable s) tp xs" and "distinct (xs @ ps)" and "\<forall>p\<in>set ps. p < MAXPROC"
  shows "\<exists>t1 s1 t2 s2. insert_all (\<lambda>t p s. insertProcQ t (Some p) s) tp ps s = Some (t1, s1)
    \<and> remove_times removeProcQ (length (xs @ ps)) t1 s1 = Some (map Some (xs @ ps), t2, s2)
    \<and> removeProcQ t2 s2 \<noteq> None \<and> fst (the (removeProcQ t2 s2)) = None"
  using assms by (rule pq.first_in_first_out)

theorem process_queue_fifo_witness:
  "\<exists>t1 s1 t2 s2. insert_all (\<lambda>t p s. insertProcQ t (Some p) s) (Some 2) [9, 0] ex_ring = Some (t1, s1)
    \<and> remove_times removeProcQ 5 t1 s1 = Some ([Some 4, Some 7, Some 2, Some 9, Some 0], t2, s2)"
proof -
  have "length ([4, 7, 2] @ [9, 0 :: nat]) = 5"
    and m: "map Some ([4, 7, 2] @ [9, 0]) = [Some 4, Some 7, Some 2, Some 9, Some (0::nat)]"
    and h: "distinct ([4, 7, 2] @ [9, 0 :: nat])" "\<forall>p\<in>set [9, 0]. p < MAXPROC"
    by (simp_all add: MAXPROC_def)
  then show ?thesis using process_queue_fifo [OF ex_ring_procq(1) h] unfolding m by metis
qed

text \<open>
  initPcbs builds the free list from any earlier contents of memory: it returns, the free
  list is a well-formed queue of all 20 blocks in order, and every block is cleared.
\<close>

theorem initPcbs_all_free:
  "\<exists>s'. initPcbs s = Some s' \<and> procq (procTable s') (pcbFree_h s') [0..<MAXPROC]
    \<and> (\<forall>i<MAXPROC. unrelated (procTable s' i))"
  using initPcbs_run [of s] by force

text \<open>
  allocPcb hands out the first free block with every field except the saved state cleared,
  leaves the other free blocks queued, and returns NULL exactly when the free list is empty,
  changing nothing.
\<close>

theorem allocPcb_clean:
  fixes s :: "'a pcb_store_scheme"
  assumes "procq (procTable s) (pcbFree_h s) fs"
  shows "\<exists>s'. allocPcb s = Some (if fs = [] then None else Some (hd fs), s')
    \<and> (fs = [] \<longrightarrow> s' = s) \<and> procq (procTable s') (pcbFree_h s') (tl fs)
    \<and> (fs \<noteq> [] \<longrightarrow> procTable s' (hd fs) = clean_pcb (procTable s (hd fs)))"
proof (cases fs)
  case Nil
  then show ?thesis using allocPcb_none assms by simp
next
  case (Cons x xs)
  obtain T' h' where run: "allocPcb s = Some (Some x, s\<lparr>procTable := T', pcbFree_h := h'\<rparr>)"
    and q: "procq T' h' xs"
    and fr: "qframe (set xs) ((procTable s)(x := clean_pcb (procTable s x))) T'"
    using allocPcb_run assms Cons by blast
  have "x \<notin> set xs" using procq_distinct [OF assms] Cons by simp
  then have "T' x = clean_pcb (procTable s x)" using qframe_out [OF fr] by simp
  with run q Cons show ?thesis by simp
qed

theorem allocPcb_clean_witness:
  "\<exists>s'. allocPcb ex_ring = Some (Some 4, s') \<and> procTable s' 4 = ex_pcb
     \<and> procq (procTable s') (pcbFree_h s') [7, 2]"
proof -
  have c: "clean_pcb (procTable ex_ring 4) = ex_pcb"
    by (simp add: ex_ring_def clean_pcb_def ex_pcb_def)
  have "procq (procTable ex_ring) (pcbFree_h ex_ring) [4, 7, 2]"
    by (simp add: ex_ring_procq)
  from allocPcb_clean [OF this] show ?thesis by (auto simp: c)
qed

text \<open>
  C36. Blocks are recycled in order: freeing blocks appends them to the free list and allocation
  takes them from its front, so freeing distinct blocks and allocating as many as are free
  returns each exactly once, oldest first, and the next allocation returns NULL.
\<close>

theorem pcb_recycling:
  fixes s :: "'a pcb_store_scheme"
  assumes "procq (procTable s) (pcbFree_h s) fs" and "distinct (fs @ ps)" and "\<forall>p\<in>set ps. p < MAXPROC"
  shows "\<exists>s1 s2. foldM (\<lambda>p. freePcb (Some p)) ps s = Some s1
    \<and> remove_times (\<lambda>u s. map_option (\<lambda>(r, s'). (r, (), s')) (allocPcb s)) (length (fs @ ps)) () s1
        = Some (map Some (fs @ ps), (), s2)
    \<and> allocPcb s2 \<noteq> None \<and> fst (the (allocPcb s2)) = None"
proof -
  have fold: "insert_all (\<lambda>u p s. map_option (Pair ()) (freePcb (Some p) s)) u ps s
      = map_option (Pair ()) (foldM (\<lambda>p. freePcb (Some p)) ps s)" for u :: unit and ps and s :: "'a pcb_store_scheme"
  proof (induction ps arbitrary: s)
    case (Cons p ps)
    then show ?case by (cases "freePcb (Some p) s") auto
  qed simp
  from freeq.first_in_first_out [of s fs ps "()"] assms
  show ?thesis by (auto simp: fold)
qed

theorem pcb_recycling_witness:
  "\<exists>s1 s2. foldM (\<lambda>p. freePcb (Some p)) [9, 0] ex_ring = Some s1
    \<and> remove_times (\<lambda>u s. map_option (\<lambda>(r, s'). (r, (), s')) (allocPcb s)) 5 () s1
        = Some ([Some 4, Some 7, Some 2, Some 9, Some 0], (), s2)"
proof -
  have "length ([4, 7, 2] @ [9, 0 :: nat]) = 5"
    and m: "map Some ([4, 7, 2] @ [9, 0]) = [Some 4, Some 7, Some 2, Some 9, Some (0::nat)]"
    and h: "distinct ([4, 7, 2] @ [9, 0 :: nat])" "\<forall>p\<in>set [9, 0]. p < MAXPROC"
    by (simp_all add: MAXPROC_def)
  moreover have "procq (procTable ex_ring) (pcbFree_h ex_ring) [4, 7, 2]"
    by (simp add: ex_ring_procq)
  ultimately show ?thesis using pcb_recycling [OF _ h] unfolding m by metis
qed

end
