(* ===== verification/Pcb_Tree.thy ===== *)
theory Pcb_Tree
  imports Pcb_Queue
begin

text \<open>
  The process tree: the second part of \<open>phase1/pcb.c\<close>. The children of a process are a
  linear doubly linked list over \<open>p_sib\<close> and \<open>p_prevsib\<close>, reached from \<open>p_child\<close> of the parent,
  and every child points back to the parent through \<open>p_prnt\<close>.
\<close>

section \<open>The operations\<close>

definition emptyChild :: "pcb_PTR \<Rightarrow> 'a pcb_store_scheme \<Rightarrow> bool option" where
  "emptyChild p s = do { x \<leftarrow> rd_pcb p s; Some (p_child x = None) }"

definition insertChild ::
  "pcb_PTR \<Rightarrow> pcb_PTR \<Rightarrow> 'a pcb_store_scheme \<Rightarrow> 'a pcb_store_scheme option" where
  "insertChild prnt p s = do {
     e \<leftarrow> emptyChild prnt s;
     if e then do {
       s1 \<leftarrow> upd_pcb prnt (\<lambda>x. x\<lparr>p_child := p\<rparr>) s;
       upd_pcb p (\<lambda>x. x\<lparr>p_prnt := prnt\<rparr>) s1
     } else do {
       q \<leftarrow> rd_pcb prnt s;
       s1 \<leftarrow> upd_pcb (p_child q) (\<lambda>x. x\<lparr>p_prevsib := p\<rparr>) s;
       q1 \<leftarrow> rd_pcb prnt s1;
       s2 \<leftarrow> upd_pcb p (\<lambda>x. x\<lparr>p_sib := p_child q1\<rparr>) s1;
       s3 \<leftarrow> upd_pcb p (\<lambda>x. x\<lparr>p_prnt := prnt\<rparr>) s2;
       upd_pcb prnt (\<lambda>x. x\<lparr>p_child := p\<rparr>) s3
     }
   }"

definition outChild ::
  "pcb_PTR \<Rightarrow> 'a pcb_store_scheme \<Rightarrow> (pcb_PTR \<times> 'a pcb_store_scheme) option" where
  "outChild p s = do {
     x \<leftarrow> rd_pcb p s;
     if p_prnt x = None then Some (None, s)
     else do {
       s1 \<leftarrow>
         (if p_sib x = None \<and> p_prevsib x = None then
            upd_pcb (p_prnt x) (\<lambda>y. y\<lparr>p_child := None\<rparr>) s
          else if p_sib x = None then
            upd_pcb (p_prevsib x) (\<lambda>y. y\<lparr>p_sib := None\<rparr>) s
          else if p_prevsib x = None then do {
            t \<leftarrow> upd_pcb (p_prnt x) (\<lambda>y. y\<lparr>p_child := p_sib x\<rparr>) s;
            x1 \<leftarrow> rd_pcb p t;
            upd_pcb (p_sib x1) (\<lambda>y. y\<lparr>p_prevsib := None\<rparr>) t
          } else do {
            t \<leftarrow> upd_pcb (p_sib x) (\<lambda>y. y\<lparr>p_prevsib := p_prevsib x\<rparr>) s;
            x1 \<leftarrow> rd_pcb p t;
            upd_pcb (p_prevsib x1) (\<lambda>y. y\<lparr>p_sib := p_sib x1\<rparr>) t
          });
       s2 \<leftarrow> upd_pcb p (\<lambda>y. y\<lparr>p_prnt := None\<rparr>) s1;
       Some (p, s2)
     }
   }"

definition removeChild ::
  "pcb_PTR \<Rightarrow> 'a pcb_store_scheme \<Rightarrow> (pcb_PTR \<times> 'a pcb_store_scheme) option" where
  "removeChild p s = do {
     e \<leftarrow> emptyChild p s;
     if e then Some (None, s)
     else do { x \<leftarrow> rd_pcb p s; outChild (p_child x) s }
   }"

lemmas [kaya_ops] = emptyChild_def insertChild_def outChild_def removeChild_def

section \<open>The family abstraction\<close>

text \<open>
  \<open>children T r cs\<close>: in the table \<open>T\<close>, the process \<open>r\<close> has exactly the children \<open>cs\<close>, from the
  first (the youngest) to the last.
\<close>

definition children :: "(nat \<Rightarrow> pcb_t) \<Rightarrow> nat \<Rightarrow> nat list \<Rightarrow> bool" where
  "children T r cs \<longleftrightarrow>
     distinct (r # cs) \<and> set (r # cs) \<subseteq> {..<MAXPROC}
     \<and> (\<forall>c\<in>set cs. p_prnt (T c) = Some r)
     \<and> p_child (T r) = (if cs = [] then None else Some (hd cs))
     \<and> dlinked (p_sib \<circ> T) (p_prevsib \<circ> T) cs
     \<and> (cs \<noteq> [] \<longrightarrow> p_prevsib (T (hd cs)) = None \<and> p_sib (T (last cs)) = None)"

text \<open>Tables that differ in the family links of the blocks of \<open>A\<close> only.\<close>

definition tframe :: "nat set \<Rightarrow> (nat \<Rightarrow> pcb_t) \<Rightarrow> (nat \<Rightarrow> pcb_t) \<Rightarrow> bool" where
  "tframe A T T' \<longleftrightarrow>
     (\<forall>i. T' i = (T i)\<lparr>p_prnt := p_prnt (T' i), p_child := p_child (T' i),
                     p_sib := p_sib (T' i), p_prevsib := p_prevsib (T' i)\<rparr>)
     \<and> (\<forall>i. i \<notin> A \<longrightarrow> T' i = T i)"

lemma tframe_refl [simp, intro]: "tframe A T T"
  by (simp add: tframe_def)

lemma tframe_mono: "tframe A T T' \<Longrightarrow> A \<subseteq> B \<Longrightarrow> tframe B T T'"
  by (auto simp: tframe_def)

lemma tframe_out: "tframe A T T' \<Longrightarrow> i \<notin> A \<Longrightarrow> T' i = T i"
  by (simp add: tframe_def)

lemma tframe_fields:
  assumes "tframe A T T'"
  shows "p_next (T' i) = p_next (T i)" "p_prev (T' i) = p_prev (T i)"
    "p_s (T' i) = p_s (T i)" "p_semAdd (T' i) = p_semAdd (T i)" "p_time (T' i) = p_time (T i)"
    "p_oldSys (T' i) = p_oldSys (T i)" "p_newSys (T' i) = p_newSys (T i)"
    "p_oldPgm (T' i) = p_oldPgm (T i)" "p_newPgm (T' i) = p_newPgm (T i)"
    "p_oldTLB (T' i) = p_oldTLB (T i)" "p_newTLB (T' i) = p_newTLB (T i)"
proof -
  have eq: "T' i = (T i)\<lparr>p_prnt := p_prnt (T' i), p_child := p_child (T' i),
      p_sib := p_sib (T' i), p_prevsib := p_prevsib (T' i)\<rparr>"
    using assms unfolding tframe_def by blast
  show "p_next (T' i) = p_next (T i)" "p_prev (T' i) = p_prev (T i)"
    "p_s (T' i) = p_s (T i)" "p_semAdd (T' i) = p_semAdd (T i)" "p_time (T' i) = p_time (T i)"
    "p_oldSys (T' i) = p_oldSys (T i)" "p_newSys (T' i) = p_newSys (T i)"
    "p_oldPgm (T' i) = p_oldPgm (T i)" "p_newPgm (T' i) = p_newPgm (T i)"
    "p_oldTLB (T' i) = p_oldTLB (T i)" "p_newTLB (T' i) = p_newTLB (T i)"
    by (subst eq, simp)+
qed

lemma procq_tframe: "tframe A T T' \<Longrightarrow> procq T' tp xs = procq T tp xs"
  by (rule procq_cong) (simp add: tframe_fields)

lemma children_cong:
  assumes "\<And>x. x \<in> set cs \<Longrightarrow> p_prnt (T' x) = p_prnt (T x) \<and> p_sib (T' x) = p_sib (T x)
      \<and> p_prevsib (T' x) = p_prevsib (T x)"
    and "p_child (T' r) = p_child (T r)"
  shows "children T' r cs = children T r cs"
proof -
  have "dlinked (p_sib \<circ> T') (p_prevsib \<circ> T') cs = dlinked (p_sib \<circ> T) (p_prevsib \<circ> T) cs"
    using assms by (intro dlinked_cong) (auto dest: in_set_butlastD in_set_tlD)
  then show ?thesis using assms by (auto simp: children_def)
qed

lemma children_qframe: "qframe A T T' \<Longrightarrow> children T' r cs = children T r cs"
  by (rule children_cong) (auto simp: qframe_fields)

lemma children_tframe:
  "children T r cs \<Longrightarrow> tframe A T T' \<Longrightarrow> set (r # cs) \<inter> A = {} \<Longrightarrow> children T' r cs"
  by (subst children_cong [of _ T' T]) (auto simp: tframe_def)

text \<open>
  More precisely: of the blocks of one family, only the parent's \<open>p_child\<close> and the links of the
  children \<open>D\<close> change, so every other family is as before.
\<close>

definition kframe :: "nat \<Rightarrow> nat set \<Rightarrow> (nat \<Rightarrow> pcb_t) \<Rightarrow> (nat \<Rightarrow> pcb_t) \<Rightarrow> bool" where
  "kframe r D T T' \<longleftrightarrow>
     (\<forall>x. x \<noteq> r \<longrightarrow> p_child (T' x) = p_child (T x))
     \<and> (\<forall>x. x \<notin> D \<longrightarrow> p_prnt (T' x) = p_prnt (T x) \<and> p_sib (T' x) = p_sib (T x)
                    \<and> p_prevsib (T' x) = p_prevsib (T x))"

lemma children_kframe:
  "kframe r D T T' \<Longrightarrow> x \<noteq> r \<Longrightarrow> set ds \<inter> D = {} \<Longrightarrow> children T' x ds = children T x ds"
  unfolding kframe_def by (rule children_cong) blast+

lemma childrenD:
  assumes "children T r cs"
  shows "r < MAXPROC" "r \<notin> set cs" "distinct cs" "set cs \<subseteq> {..<MAXPROC}"
  using assms by (auto simp: children_def)

section \<open>What the operations do\<close>

lemma emptyChild_run: "children (procTable s) r cs \<Longrightarrow> emptyChild (Some r) s = Some (cs = [])"
  by (simp add: emptyChild_def children_def)

text \<open>The new child must come with cleared sibling links, as \<open>allocPcb\<close> gives it.\<close>

lemma insertChild_run:
  fixes s :: "'a pcb_store_scheme"
  assumes f: "children (procTable s) r cs" and p: "p < MAXPROC" "p \<noteq> r" "p \<notin> set cs"
    and fresh: "p_sib (procTable s p) = None" "p_prevsib (procTable s p) = None"
  shows "\<exists>T'. insertChild (Some r) (Some p) s = Some (s\<lparr>procTable := T'\<rparr>)
    \<and> children T' r (p # cs) \<and> tframe (insert p (insert r (set cs))) (procTable s) T'
    \<and> kframe r (insert p (set cs)) (procTable s) T'"
proof (cases "cs = []")
  case True
  let ?T' = "(procTable s)(r := (procTable s r)\<lparr>p_child := Some p\<rparr>,
      p := (procTable s p)\<lparr>p_prnt := Some r\<rparr>)"
  have "insertChild (Some r) (Some p) s = Some (s\<lparr>procTable := ?T'\<rparr>)"
    using f p True childrenD(1) [OF f]
    by (simp add: insertChild_def emptyChild_run [OF f] fun_upd_twist)
  moreover have "children ?T' r [p]" using p fresh childrenD(1) [OF f] by (auto simp: children_def)
  moreover have "tframe {p, r} (procTable s) ?T'" by (auto simp: tframe_def)
  moreover have "kframe r {p} (procTable s) ?T'" using p by (auto simp: kframe_def)
  ultimately show ?thesis using True by (intro exI [of _ ?T']) simp
next
  case False
  let ?T = "procTable s" and ?h = "hd cs"
  have h: "?h \<in> set cs" "?h < MAXPROC" "?h \<noteq> p" "?h \<noteq> r"
    using childrenD [OF f] p hd_in_set [OF False] by (blast, blast, metis, metis)
  have l: "p_child (?T r) = Some ?h" "dlinked (p_sib \<circ> ?T) (p_prevsib \<circ> ?T) cs"
    "p_sib (?T (last cs)) = None" "\<forall>c\<in>set cs. p_prnt (?T c) = Some r"
    using f False by (auto simp: children_def)
  define T' where "T' = ?T(?h := (?T ?h)\<lparr>p_prevsib := Some p\<rparr>,
      p := (?T p)\<lparr>p_sib := Some ?h, p_prnt := Some r\<rparr>, r := (?T r)\<lparr>p_child := Some p\<rparr>)"
  have run: "insertChild (Some r) (Some p) s = Some (s\<lparr>procTable := T'\<rparr>)"
    using h p l False childrenD(1) [OF f]
    by (simp add: insertChild_def emptyChild_run [OF f] T'_def)
  have "dlinked (p_sib \<circ> T') (p_prevsib \<circ> T') cs = dlinked (p_sib \<circ> ?T) (p_prevsib \<circ> ?T) cs"
    using p childrenD [OF f] hd_notin_tl [OF childrenD(3) [OF f] False] h
    by (intro dlinked_cong) (auto simp: T'_def dest: in_set_butlastD in_set_tlD)
  then have "children T' r (p # cs)"
    using l False p h fresh childrenD [OF f]
    by (auto simp: children_def dlinked_Cons T'_def)
  moreover have "tframe (insert p (insert r (set cs))) ?T T'" using h by (auto simp: tframe_def T'_def)
  moreover have "kframe r (insert p (set cs)) ?T T'" using p h by (auto simp: kframe_def T'_def)
  ultimately show ?thesis using run by blast
qed

text \<open>The neighbours of a child in its family.\<close>

lemma children_split:
  assumes "children T r (as @ p # bs)"
  shows "p_sib (T p) = (if bs = [] then None else Some (hd bs))"
    and "p_prevsib (T p) = (if as = [] then None else Some (last as))"
    and "dlinked (p_sib \<circ> T) (p_prevsib \<circ> T) as" "dlinked (p_sib \<circ> T) (p_prevsib \<circ> T) bs"
    and "as \<noteq> [] \<Longrightarrow> p_prevsib (T (hd as)) = None" "bs \<noteq> [] \<Longrightarrow> p_sib (T (last bs)) = None"
  using assms
  by (cases "as = []"; cases "bs = []"; force simp: children_def dlinked_append dlinked_Cons)+

lemma outChild_run:
  fixes s :: "'a pcb_store_scheme"
  assumes f: "children (procTable s) r (as @ p # bs)"
  shows "\<exists>T'. outChild (Some p) s = Some (Some p, s\<lparr>procTable := T'\<rparr>)
    \<and> children T' r (as @ bs) \<and> tframe (insert r (set (as @ p # bs))) (procTable s) T'
    \<and> p_prnt (T' p) = None \<and> kframe r (set (as @ p # bs)) (procTable s) T'"
proof -
  let ?T = "procTable s"
  let ?nx = "if bs = [] then None else Some (hd bs)"
  let ?pv = "if as = [] then None else Some (last as)"
  have d: "distinct (r # as @ p # bs)" and v: "set (r # as @ p # bs) \<subseteq> {..<MAXPROC}"
    and pr: "\<forall>c\<in>set (as @ p # bs). p_prnt (?T c) = Some r"
    and ch: "p_child (?T r) = Some (hd (as @ p # bs))"
    using f by (auto simp: children_def)
  note sp = children_split [OF f]
  have la: "as \<noteq> [] \<Longrightarrow> last as \<in> set as \<and> last as < MAXPROC"
    and hb: "bs \<noteq> [] \<Longrightarrow> hd bs \<in> set bs \<and> hd bs < MAXPROC"
    using v by (metis UnCI last_in_set lessThan_iff list.set_intros(2) set_append subsetD,
        metis UnCI hd_in_set lessThan_iff list.set_intros(2) set_append subsetD)
  have ne: "p \<noteq> r" "as \<noteq> [] \<Longrightarrow> last as \<noteq> p \<and> last as \<noteq> r"
    "bs \<noteq> [] \<Longrightarrow> hd bs \<noteq> p \<and> hd bs \<noteq> r" "as \<noteq> [] \<Longrightarrow> bs \<noteq> [] \<Longrightarrow> last as \<noteq> hd bs"
    using d la hb by (auto dest: last_in_set hd_in_set)
  define T' where "T' = (\<lambda>x. (?T x)\<lparr>
      p_child := if x = r \<and> as = [] then ?nx else p_child (?T x),
      p_sib := if as \<noteq> [] \<and> x = last as then ?nx else p_sib (?T x),
      p_prevsib := if bs \<noteq> [] \<and> x = hd bs then ?pv else p_prevsib (?T x),
      p_prnt := if x = p then None else p_prnt (?T x)\<rparr>)"
  have run: "outChild (Some p) s = Some (Some p, s\<lparr>procTable := T'\<rparr>)"
    using v pr sp la hb ne
    by (cases "as = []"; cases "bs = []")
      (auto simp: outChild_def T'_def intro!: procTable_eqI ext)
  have sep: "as \<noteq> [] \<Longrightarrow> last as \<notin> set bs" "bs \<noteq> [] \<Longrightarrow> hd bs \<notin> set as"
  proof -
    have "set as \<inter> set bs = {}" using d by auto
    then show "as \<noteq> [] \<Longrightarrow> last as \<notin> set bs" "bs \<noteq> [] \<Longrightarrow> hd bs \<notin> set as"
      using last_in_set hd_in_set by blast+
  qed
  then have sep': "as \<noteq> [] \<Longrightarrow> bs \<noteq> [] \<Longrightarrow> hd as \<noteq> hd bs \<and> last bs \<noteq> last as"
    using last_in_set hd_in_set by metis
  have T': "p_child (T' x) = (if x = r \<and> as = [] then ?nx else p_child (?T x))"
    "p_sib (T' x) = (if as \<noteq> [] \<and> x = last as then ?nx else p_sib (?T x))"
    "p_prevsib (T' x) = (if bs \<noteq> [] \<and> x = hd bs then ?pv else p_prevsib (?T x))"
    "p_prnt (T' x) = (if x = p then None else p_prnt (?T x))" for x
    by (simp_all add: T'_def)
  have "dlinked (p_sib \<circ> T') (p_prevsib \<circ> T') as" "dlinked (p_sib \<circ> T') (p_prevsib \<circ> T') bs"
    using sp(3,4) d sep last_notin_butlast [of as] hd_notin_tl [of bs]
    by (subst dlinked_cong [of _ _ "p_sib \<circ> ?T" _ "p_prevsib \<circ> ?T"];
        auto simp: T' dest: in_set_butlastD in_set_tlD)+
  then have "children T' r (as @ bs)"
    using d v pr sp ch ne la hb sep'
    by (cases "as = []"; cases "bs = []") (auto simp: children_def dlinked_append T')
  moreover have "tframe (insert r (set (as @ p # bs))) ?T T'"
    using la hb by (auto simp: tframe_def T'_def)
  moreover have "p_prnt (T' p) = None" by (simp add: T'_def)
  moreover have "kframe r (set (as @ p # bs)) ?T T'" using la hb by (auto simp: kframe_def T'_def)
  ultimately show ?thesis using run by blast
qed

lemma outChild_root:
  "p < MAXPROC \<Longrightarrow> p_prnt (procTable s p) = None \<Longrightarrow> outChild (Some p) s = Some (None, s)"
  by (simp add: outChild_def)

lemma removeChild_none: "children (procTable s) r [] \<Longrightarrow> removeChild (Some r) s = Some (None, s)"
  by (simp add: removeChild_def emptyChild_run)

lemma removeChild_run:
  fixes s :: "'a pcb_store_scheme"
  assumes f: "children (procTable s) r (c # cs)"
  shows "\<exists>T'. removeChild (Some r) s = Some (Some c, s\<lparr>procTable := T'\<rparr>)
    \<and> children T' r cs \<and> tframe (insert r (set (c # cs))) (procTable s) T'
    \<and> p_prnt (T' c) = None \<and> kframe r (set (c # cs)) (procTable s) T'"
proof -
  have "removeChild (Some r) s = outChild (Some c) s"
    using f by (simp add: removeChild_def emptyChild_run [OF f]) (simp add: children_def)
  with outChild_run [of s r "[]" c cs] f show ?thesis by simp
qed

section \<open>Properties\<close>

text \<open>A state for the witnesses: process 3 with the children 5, 1, 8; block 6 is fresh.\<close>

definition ex_family :: pcb_store where
  "ex_family = \<lparr>procTable = (\<lambda>_. ex_pcb)
     (3 := ex_pcb\<lparr>p_child := Some 5\<rparr>,
      5 := ex_pcb\<lparr>p_prnt := Some 3, p_sib := Some 1\<rparr>,
      1 := ex_pcb\<lparr>p_prnt := Some 3, p_sib := Some 8, p_prevsib := Some 5\<rparr>,
      8 := ex_pcb\<lparr>p_prnt := Some 3, p_prevsib := Some 1\<rparr>), pcbFree_h = None\<rparr>"

lemma ex_family_children: "children (procTable ex_family) 3 [5, 1, 8]"
  by (simp add: children_def ex_family_def ex_pcb_def MAXPROC_def)

text \<open>
  insertChild makes a freshly allocated block the first child: the family list of the parent
  becomes the new child followed by the old children, with all parent and sibling pointers
  right, and no process queue is affected.
\<close>

theorem insertChild_first:
  fixes s :: "'a pcb_store_scheme"
  assumes "children (procTable s) r cs" and "p < MAXPROC" and "p \<noteq> r" and "p \<notin> set cs"
    and "p_sib (procTable s p) = None" and "p_prevsib (procTable s p) = None"
  shows "\<exists>s'. insertChild (Some r) (Some p) s = Some s' \<and> children (procTable s') r (p # cs)
    \<and> p_prnt (procTable s' p) = Some r
    \<and> (\<forall>tp xs. procq (procTable s') tp xs = procq (procTable s) tp xs)"
proof -
  obtain T' where "insertChild (Some r) (Some p) s = Some (s\<lparr>procTable := T'\<rparr>)"
    "children T' r (p # cs)" "tframe (insert p (insert r (set cs))) (procTable s) T'"
    using insertChild_run [OF assms] by blast
  then show ?thesis by (auto simp: procq_tframe) (simp add: children_def)
qed

theorem insertChild_first_witness:
  "\<exists>s'. insertChild (Some 3) (Some 6) ex_family = Some s'
     \<and> children (procTable s') 3 [6, 5, 1, 8]"
  using insertChild_first [OF ex_family_children, of 6]
  by (auto simp: MAXPROC_def ex_family_def ex_pcb_def)

text \<open>
  C37. outChild detaches a child wherever it stands among its siblings: the parent keeps exactly
  the other children in their order, the child no longer has a parent, its own children and all
  process queues are untouched, and a block without a parent gives NULL and no change.
\<close>

theorem outChild_detaches:
  fixes s :: "'a pcb_store_scheme"
  assumes "p < MAXPROC"
    and "p_prnt (procTable s p) = None \<or> (children (procTable s) r cs \<and> p \<in> set cs)"
  shows "\<exists>s'. outChild (Some p) s = Some (if p_prnt (procTable s p) = None then None else Some p, s')
    \<and> (p_prnt (procTable s p) = None \<longrightarrow> s' = s)
    \<and> (p_prnt (procTable s p) \<noteq> None \<longrightarrow> children (procTable s') r (remove1 p cs))
    \<and> p_prnt (procTable s' p) = None \<and> p_child (procTable s' p) = p_child (procTable s p)
    \<and> (\<forall>tp xs. procq (procTable s') tp xs = procq (procTable s) tp xs)"
proof (cases "p_prnt (procTable s p) = None")
  case True
  with assms(1) show ?thesis by (simp add: outChild_root)
next
  case False
  with assms(2) have f: "children (procTable s) r cs" "p \<in> set cs" by auto
  then obtain as bs where cs: "cs = as @ p # bs" by (meson split_list)
  have rm: "remove1 p cs = as @ bs"
    using childrenD(3) [OF f(1)] by (simp add: cs remove1_append_notin)
  obtain T' where "outChild (Some p) s = Some (Some p, s\<lparr>procTable := T'\<rparr>)"
    "children T' r (as @ bs)" "tframe (insert r (set (as @ p # bs))) (procTable s) T'"
    "p_prnt (T' p) = None" and kf: "kframe r (set (as @ p # bs)) (procTable s) T'"
    using outChild_run f(1) cs by blast
  moreover have "p_child (T' p) = p_child (procTable s p)"
    using kf childrenD(2) [OF f(1)] f(2) unfolding kframe_def by metis
  ultimately show ?thesis using False rm by (auto simp: procq_tframe)
qed

theorem outChild_detaches_witness:
  "(\<exists>s'. outChild (Some 1) ex_family = Some (Some 1, s') \<and> children (procTable s') 3 [5, 8])
   \<and> outChild (Some 3) ex_family = Some (None, ex_family)"
proof -
  have "1 < MAXPROC" and "p_prnt (procTable ex_family 1) = None \<or>
      children (procTable ex_family) 3 [5, 1, 8] \<and> 1 \<in> set [5, 1, 8 :: nat]"
    using ex_family_children by (simp_all add: MAXPROC_def)
  from outChild_detaches [OF this]
  have 1: "\<exists>s'. outChild (Some 1) ex_family = Some (Some 1, s') \<and> children (procTable s') 3 [5, 8]"
    by (auto simp: ex_family_def)
  have n: "p_prnt (procTable ex_family 3) = None" by (simp add: ex_family_def ex_pcb_def)
  have "outChild (Some 3) ex_family = Some (None, ex_family)"
    using outChild_detaches [of 3 ex_family] n by (auto simp: MAXPROC_def)
  with 1 show ?thesis ..
qed

text \<open>
  removeChild takes the first child of the family list and leaves the rest; for a childless
  process it returns NULL and changes nothing.
\<close>

theorem removeChild_pops:
  fixes s :: "'a pcb_store_scheme"
  assumes "children (procTable s) r cs"
  shows "\<exists>s'. removeChild (Some r) s = Some (if cs = [] then None else Some (hd cs), s')
    \<and> children (procTable s') r (tl cs) \<and> (cs = [] \<longrightarrow> s' = s)
    \<and> (cs \<noteq> [] \<longrightarrow> p_prnt (procTable s' (hd cs)) = None)"
proof (cases cs)
  case Nil
  with assms show ?thesis by (simp add: removeChild_none)
next
  case (Cons c ds)
  with removeChild_run assms show ?thesis by fastforce
qed

theorem removeChild_pops_witness:
  "\<exists>s'. removeChild (Some 3) ex_family = Some (Some 5, s') \<and> children (procTable s') 3 [1, 8]"
  using removeChild_pops [OF ex_family_children] by auto

text \<open>
  Detached blocks keep stale sibling pointers: after outChild of the middle child 1, inserting
  it again under a childless process leaves that process with a child list that still runs into
  its former sibling 8, because neither outChild nor insertChild clears p_sib and p_prevsib.
\<close>

theorem outChild_stale_siblings:
  "\<exists>s1 s2. outChild (Some 1) ex_family = Some (Some 1, s1) \<and> insertChild (Some 6) (Some 1) s1 = Some s2
    \<and> p_child (procTable s2 6) = Some 1 \<and> p_sib (procTable s2 1) = Some 8
    \<and> (\<forall>cs. \<not> children (procTable s2) 6 cs)"
proof -
  define T1 where "T1 = (procTable ex_family)(8 := ex_pcb\<lparr>p_prnt := Some 3, p_prevsib := Some 5\<rparr>,
    5 := ex_pcb\<lparr>p_prnt := Some 3, p_sib := Some 8\<rparr>,
    1 := ex_pcb\<lparr>p_sib := Some 8, p_prevsib := Some 5\<rparr>)"
  define T2 where "T2 = T1(6 := ex_pcb\<lparr>p_child := Some 1\<rparr>,
    1 := ex_pcb\<lparr>p_sib := Some 8, p_prevsib := Some 5, p_prnt := Some 6\<rparr>)"
  have 1: "outChild (Some 1) ex_family = Some (Some 1, ex_family\<lparr>procTable := T1\<rparr>)"
    by (simp add: outChild_def ex_family_def ex_pcb_def MAXPROC_def T1_def fun_upd_twist)
  have 2: "insertChild (Some 6) (Some 1) (ex_family\<lparr>procTable := T1\<rparr>) = Some (ex_family\<lparr>procTable := T2\<rparr>)"
    by (simp add: insertChild_def emptyChild_def ex_family_def ex_pcb_def MAXPROC_def T1_def T2_def fun_upd_twist)
  have "\<not> children T2 6 cs" for cs
  proof
    assume c: "children T2 6 cs"
    then have "cs \<noteq> []" "hd cs = 1" by (auto simp: children_def T2_def split: if_splits)
    with c show False by (auto simp: children_def T2_def)
  qed
  then show ?thesis using 1 2 by (intro exI conjI) (auto simp: T2_def)
qed

end
