(* ===== verification/Asl.thy ===== *)
theory Asl
  imports Pcb_Queue "HOL-Library.Multiset"
begin

text \<open>
  The active semaphore list: \<open>phase1/asl.c\<close>. The descriptors of the semaphores some process
  waits on form a singly linked list in ascending order of the semaphore's address, between a
  head sentinel with address 0 and a tail sentinel with address \<open>MAXINT\<close>; the others are on
  the free list \<open>semdFree_h\<close>. Each descriptor holds the tail pointer of a process queue.
\<close>

section \<open>State and access\<close>

record asl_store = pcb_store +
  semdTable :: "nat \<Rightarrow> semd_t"
  semd_h :: semd_PTR
  semdFree_h :: semd_PTR

text \<open>The size of \<open>semdTable\<close>: one descriptor for each process, and the two sentinels.\<close>

definition SEMDMAX :: nat where "SEMDMAX = MAXPROC + 2"

definition rd_semd :: "semd_PTR \<Rightarrow> 'a asl_store_scheme \<Rightarrow> semd_t option" where
  "rd_semd p s =
     (case p of None \<Rightarrow> None | Some i \<Rightarrow> if i < SEMDMAX then Some (semdTable s i) else None)"

definition upd_semd ::
  "semd_PTR \<Rightarrow> (semd_t \<Rightarrow> semd_t) \<Rightarrow> 'a asl_store_scheme \<Rightarrow> 'a asl_store_scheme option" where
  "upd_semd p f s =
     (case p of
        None \<Rightarrow> None
      | Some i \<Rightarrow>
          if i < SEMDMAX
          then Some (s\<lparr>semdTable := (semdTable s)(i := f (semdTable s i))\<rparr>)
          else None)"

lemma rd_semd_simps [simp]:
  "rd_semd None s = None"
  "i < SEMDMAX \<Longrightarrow> rd_semd (Some i) s = Some (semdTable s i)"
  by (simp_all add: rd_semd_def)

lemma upd_semd_simps [simp]:
  "upd_semd None f s = None"
  "i < SEMDMAX \<Longrightarrow>
   upd_semd (Some i) f s = Some (s\<lparr>semdTable := (semdTable s)(i := f (semdTable s i))\<rparr>)"
  by (simp_all add: upd_semd_def)

section \<open>The local functions\<close>

definition cleanSemd :: "semd_PTR \<Rightarrow> 'a asl_store_scheme \<Rightarrow> 'a asl_store_scheme option" where
  "cleanSemd p s = upd_semd p (\<lambda>x. x\<lparr>s_next := None, s_semAdd := NULL, s_procQ := None\<rparr>) s"

definition freeSemd :: "semd_PTR \<Rightarrow> 'a asl_store_scheme \<Rightarrow> 'a asl_store_scheme option" where
  "freeSemd p s = do {
     s1 \<leftarrow> cleanSemd p s;
     s2 \<leftarrow> upd_semd p (\<lambda>x. x\<lparr>s_next := semdFree_h s1\<rparr>) s1;
     Some (s2\<lparr>semdFree_h := p\<rparr>)
   }"

definition allocateSemd ::
  "memaddr \<Rightarrow> 'a asl_store_scheme \<Rightarrow> (semd_PTR \<times> 'a asl_store_scheme) option" where
  "allocateSemd semAdd s =
     (if semdFree_h s = None then Some (None, s)
      else do {
        f \<leftarrow> rd_semd (semdFree_h s) s;
        let allocatedSemd = semdFree_h s;
        let s1 = (if s_next f = None then s\<lparr>semdFree_h := None\<rparr> else s\<lparr>semdFree_h := s_next f\<rparr>);
        s2 \<leftarrow> cleanSemd allocatedSemd s1;
        s3 \<leftarrow> upd_semd allocatedSemd (\<lambda>x. x\<lparr>s_semAdd := semAdd\<rparr>) s2;
        Some (allocatedSemd, s3)
      })"

text \<open>The loop of \<open>searchSemd\<close>: it stops at the last descriptor below the address.\<close>

partial_function (option) searchSemd_loop ::
  "semd_PTR \<Rightarrow> memaddr \<Rightarrow> 'a asl_store_scheme \<Rightarrow> semd_PTR option" where
  "searchSemd_loop semdListPTR semd s = do {
     c \<leftarrow> rd_semd semdListPTR s;
     n \<leftarrow> rd_semd (s_next c) s;
     if s_semAdd n < semd then searchSemd_loop (s_next c) semd s else Some semdListPTR
   }"

definition searchSemd :: "memaddr \<Rightarrow> 'a asl_store_scheme \<Rightarrow> semd_PTR option" where
  "searchSemd semd s = searchSemd_loop (semd_h s) semd s"

section \<open>The global functions\<close>

text \<open>\<open>insertProcQ(&(d->s_procQ), p)\<close>: the tail pointer lives in the descriptor \<open>d\<close>.\<close>

definition insertProcQ_semd ::
  "semd_PTR \<Rightarrow> pcb_PTR \<Rightarrow> 'a asl_store_scheme \<Rightarrow> 'a asl_store_scheme option" where
  "insertProcQ_semd d p s = do {
     x \<leftarrow> rd_semd d s;
     (tp, s1) \<leftarrow> insertProcQ (s_procQ x) p s;
     upd_semd d (\<lambda>x. x\<lparr>s_procQ := tp\<rparr>) s1
   }"

text \<open>\<open>outProcQ(&(d->s_procQ), p)\<close>.\<close>

definition outProcQ_semd ::
  "semd_PTR \<Rightarrow> pcb_PTR \<Rightarrow> 'a asl_store_scheme \<Rightarrow> (pcb_PTR \<times> 'a asl_store_scheme) option" where
  "outProcQ_semd d p s = do {
     x \<leftarrow> rd_semd d s;
     (r, tp, s1) \<leftarrow> outProcQ (s_procQ x) p s;
     s2 \<leftarrow> upd_semd d (\<lambda>x. x\<lparr>s_procQ := tp\<rparr>) s1;
     Some (r, s2)
   }"

text \<open>\<open>True\<close> is the C \<open>TRUE\<close>: no descriptor could be allocated.\<close>

definition insertBlocked ::
  "memaddr \<Rightarrow> pcb_PTR \<Rightarrow> 'a asl_store_scheme \<Rightarrow> (bool \<times> 'a asl_store_scheme) option" where
  "insertBlocked semAdd p s = do {
     parent \<leftarrow> searchSemd semAdd s;
     par \<leftarrow> rd_semd parent s;
     nx \<leftarrow> rd_semd (s_next par) s;
     if s_semAdd nx = semAdd then do {
       s1 \<leftarrow> insertProcQ_semd (s_next par) p s;
       s2 \<leftarrow> upd_pcb p (\<lambda>x. x\<lparr>p_semAdd := semAdd\<rparr>) s1;
       Some (False, s2)
     } else do {
       (newSemd, s1) \<leftarrow> allocateSemd semAdd s;
       if newSemd = None then Some (True, s1)
       else do {
         par1 \<leftarrow> rd_semd parent s1;
         s2 \<leftarrow> upd_semd newSemd (\<lambda>x. x\<lparr>s_next := s_next par1\<rparr>) s1;
         s3 \<leftarrow> upd_semd parent (\<lambda>x. x\<lparr>s_next := newSemd\<rparr>) s2;
         s4 \<leftarrow> insertProcQ_semd newSemd p s3;
         s5 \<leftarrow> upd_pcb p (\<lambda>x. x\<lparr>p_semAdd := semAdd\<rparr>) s4;
         Some (False, s5)
       }
     }
   }"

text \<open>
  The test for "the last process of the queue" in \<open>outBlocked\<close> is
  \<open>headProcQ(parent->s_next->s_procQ->p_next) == p\<close>: it reads the successor of the head.
\<close>

definition outBlocked ::
  "pcb_PTR \<Rightarrow> 'a asl_store_scheme \<Rightarrow> (pcb_PTR \<times> 'a asl_store_scheme) option" where
  "outBlocked p s = do {
     x \<leftarrow> rd_pcb p s;
     parent \<leftarrow> searchSemd (p_semAdd x) s;
     par \<leftarrow> rd_semd parent s;
     nx \<leftarrow> rd_semd (s_next par) s;
     if s_semAdd nx \<noteq> p_semAdd x then Some (None, s)
     else do {
       tl \<leftarrow> rd_pcb (s_procQ nx) s;
       h \<leftarrow> headProcQ (p_next tl) s;
       if h = p then do {
         (outedPcb, s1) \<leftarrow> outProcQ_semd (s_next par) p s;
         par1 \<leftarrow> rd_semd parent s1;
         let tempToBeRemoved = s_next par1;
         t \<leftarrow> rd_semd (s_next par1) s1;
         s2 \<leftarrow> upd_semd parent (\<lambda>y. y\<lparr>s_next := s_next t\<rparr>) s1;
         s3 \<leftarrow> freeSemd tempToBeRemoved s2;
         Some (outedPcb, s3)
       } else outProcQ_semd (s_next par) p s
     }
   }"

definition removeBlocked ::
  "memaddr \<Rightarrow> 'a asl_store_scheme \<Rightarrow> (pcb_PTR \<times> 'a asl_store_scheme) option" where
  "removeBlocked semAdd s = do {
     parent \<leftarrow> searchSemd semAdd s;
     par \<leftarrow> rd_semd parent s;
     nx \<leftarrow> rd_semd (s_next par) s;
     if s_semAdd nx \<noteq> semAdd then Some (None, s)
     else do {
       h \<leftarrow> headProcQ (s_procQ nx) s;
       outBlocked h s
     }
   }"

definition headBlocked :: "memaddr \<Rightarrow> 'a asl_store_scheme \<Rightarrow> pcb_PTR option" where
  "headBlocked semAdd s = do {
     parent \<leftarrow> searchSemd semAdd s;
     par \<leftarrow> rd_semd parent s;
     nx \<leftarrow> rd_semd (s_next par) s;
     if s_semAdd nx \<noteq> semAdd then Some None
     else if emptyProcQ (s_procQ nx) then Some None
     else headProcQ (s_procQ nx) s
   }"

definition initASL :: "'a asl_store_scheme \<Rightarrow> 'a asl_store_scheme option" where
  "initASL s = do {
     s1 \<leftarrow> foldM (\<lambda>i. freeSemd (Some i)) [0..<SEMDMAX] (s\<lparr>semd_h := None, semdFree_h := None\<rparr>);
     (h, s2) \<leftarrow> allocateSemd 0 s1;
     let s3 = s2\<lparr>semd_h := h\<rparr>;
     (t, s4) \<leftarrow> allocateSemd MAXINT s3;
     s5 \<leftarrow> upd_semd (semd_h s4) (\<lambda>x. x\<lparr>s_next := t\<rparr>) s4;
     x \<leftarrow> rd_semd (semd_h s5) s5;
     upd_semd (s_next x) (\<lambda>y. y\<lparr>s_next := None\<rparr>) s5
   }"

lemmas [kaya_ops] = cleanSemd_def freeSemd_def allocateSemd_def searchSemd_def
  insertProcQ_semd_def outProcQ_semd_def insertBlocked_def outBlocked_def removeBlocked_def
  headBlocked_def

section \<open>The list abstraction\<close>

text \<open>
  \<open>asl_list s h es t fs\<close>: the list runs from the sentinel \<open>h\<close> over the descriptors of \<open>es\<close>,
  each with the address of its semaphore and the processes of its queue, to the sentinel \<open>t\<close>;
  \<open>fs\<close> are the free descriptors.
\<close>

type_synonym entry = "nat \<times> memaddr \<times> nat list"

abbreviation e_semd :: "entry \<Rightarrow> nat" where "e_semd e \<equiv> fst e"
abbreviation e_addr :: "entry \<Rightarrow> memaddr" where "e_addr e \<equiv> fst (snd e)"
abbreviation e_procs :: "entry \<Rightarrow> nat list" where "e_procs e \<equiv> snd (snd e)"

definition nodes :: "nat \<Rightarrow> entry list \<Rightarrow> nat \<Rightarrow> nat list" where
  "nodes h es t = h # map e_semd es @ [t]"

text \<open>What one descriptor holds.\<close>

definition entry_ok :: "(nat \<Rightarrow> pcb_t) \<Rightarrow> (nat \<Rightarrow> semd_t) \<Rightarrow> entry \<Rightarrow> bool" where
  "entry_ok T S e \<longleftrightarrow>
     s_semAdd (S (e_semd e)) = e_addr e \<and> e_procs e \<noteq> []
     \<and> procq T (s_procQ (S (e_semd e))) (e_procs e)
     \<and> (\<forall>p\<in>set (e_procs e). p_semAdd (T p) = e_addr e)"

definition asl_list ::
  "'a asl_store_scheme \<Rightarrow> nat \<Rightarrow> entry list \<Rightarrow> nat \<Rightarrow> nat list \<Rightarrow> bool" where
  "asl_list s h es t fs \<longleftrightarrow>
     spath (s_next \<circ> semdTable s) (semd_h s) (nodes h es t) None
     \<and> spath (s_next \<circ> semdTable s) (semdFree_h s) fs None
     \<and> distinct (nodes h es t @ fs) \<and> set (nodes h es t @ fs) = {..<SEMDMAX}
     \<and> s_semAdd (semdTable s h) = 0 \<and> s_semAdd (semdTable s t) = MAXINT
     \<and> sorted_wrt (<) (0 # map e_addr es @ [MAXINT])
     \<and> (\<forall>e\<in>set es. entry_ok (procTable s) (semdTable s) e)
     \<and> distinct (concat (map e_procs es))"

text \<open>The specification: which processes wait, in which order, on each semaphore.\<close>

definition waiting :: "entry list \<Rightarrow> memaddr \<Rightarrow> nat list" where
  "waiting es a = (case map_of (map snd es) a of None \<Rightarrow> [] | Some q \<Rightarrow> q)"

lemma le_MAXINT [simp]: "a \<le> MAXINT"
proof -
  have "MAXINT = - 1" by (simp add: MAXINT_def)
  then show ?thesis by (metis word_n1_ge)
qed

lemma not_MAXINT_less [simp]: "\<not> MAXINT < a"
  by (simp add: not_less)

lemma MAXINT_ne_0 [simp]: "MAXINT \<noteq> 0"
  by (simp add: MAXINT_def)

lemma MAXINT_pos [simp]: "0 < MAXINT"
  by (simp add: MAXINT_def)

lemma nodes_append: "nodes h (es1 @ es2) t = (h # map e_semd es1) @ map e_semd es2 @ [t]"
  by (simp add: nodes_def)

lemma asl_listD:
  assumes "asl_list s h es t fs"
  shows "spath (s_next \<circ> semdTable s) (semd_h s) (nodes h es t) None"
    and "spath (s_next \<circ> semdTable s) (semdFree_h s) fs None"
    and "distinct (nodes h es t @ fs)" and "set (nodes h es t @ fs) = {..<SEMDMAX}"
    and "s_semAdd (semdTable s h) = 0" and "s_semAdd (semdTable s t) = MAXINT"
    and "sorted_wrt (<) (0 # map e_addr es @ [MAXINT])"
    and "\<forall>e\<in>set es. entry_ok (procTable s) (semdTable s) e"
    and "distinct (concat (map e_procs es))"
  using assms by (simp_all add: asl_list_def)

lemma asl_list_addr:
  assumes "asl_list s h es t fs" "e \<in> set es"
  shows "0 < e_addr e" "e_addr e < MAXINT" "e_semd e < SEMDMAX" "e_semd e \<noteq> h" "e_semd e \<noteq> t"
    "e_semd e \<notin> set fs" "entry_ok (procTable s) (semdTable s) e"
proof -
  note D = asl_listD [OF assms(1)]
  show "0 < e_addr e" "e_addr e < MAXINT" using D(7) assms(2)
    by (auto simp: sorted_wrt_append)
  have "e_semd e \<in> set (nodes h es t @ fs)" using assms(2) by (simp add: nodes_def)
  then show "e_semd e < SEMDMAX" unfolding D(4) by simp
  show "e_semd e \<noteq> h" "e_semd e \<noteq> t" "e_semd e \<notin> set fs"
    using D(3) assms(2) by (auto simp: nodes_def)
  show "entry_ok (procTable s) (semdTable s) e" using D(8) assms(2) by blast
qed

text \<open>The entries before and after a given one are below and above it.\<close>

lemma asl_list_split:
  assumes "asl_list s h (es1 @ (d, a, q) # es2) t fs"
  shows "\<forall>e\<in>set es1. e_addr e < a" "\<forall>e\<in>set es2. a < e_addr e"
    "\<forall>e\<in>set (es1 @ es2). e_semd e \<noteq> d \<and> set (e_procs e) \<inter> set q = {}"
proof -
  note D = asl_listD [OF assms]
  show "\<forall>e\<in>set es1. e_addr e < a" "\<forall>e\<in>set es2. a < e_addr e"
    using D(7) by (auto simp: sorted_wrt_append)
  have "d \<notin> e_semd ` set (es1 @ es2)" using D(3) by (simp add: nodes_def image_Un)
  moreover have "distinct (concat (map e_procs es1) @ q @ concat (map e_procs es2))"
    using D(9) by simp
  then have "(\<Union>e\<in>set (es1 @ es2). set (e_procs e)) \<inter> set q = {}" by auto
  ultimately show "\<forall>e\<in>set (es1 @ es2). e_semd e \<noteq> d \<and> set (e_procs e) \<inter> set q = {}"
    by blast
qed

section \<open>Searching the list\<close>

lemma searchSemd_loop_run:
  assumes "spath (s_next \<circ> semdTable s) (Some d) (d # ns @ n # rest) None"
    and "set (d # ns @ n # rest) \<subseteq> {..<SEMDMAX}"
    and "\<forall>x\<in>set ns. s_semAdd (semdTable s x) < a" and "\<not> s_semAdd (semdTable s n) < a"
  shows "searchSemd_loop (Some d) a s = Some (Some (last (d # ns)))"
  using assms
proof (induction ns arbitrary: d)
  case Nil
  then show ?case by (subst searchSemd_loop.simps) simp
next
  case (Cons x ns)
  have "searchSemd_loop (Some d) a s = searchSemd_loop (Some x) a s"
    using Cons.prems by (subst searchSemd_loop.simps) simp
  also have "\<dots> = Some (Some (last (x # ns)))"
    using Cons.prems by (intro Cons.IH) auto
  finally show ?case by simp
qed

text \<open>
  Where the search stops: at the predecessor of the first descriptor that is not below the
  address. It always stops, since nothing is above the tail sentinel.
\<close>

lemma searchSemd_at:
  assumes asl: "asl_list s h (es1 @ es2) t fs" and lo: "\<forall>e\<in>set es1. e_addr e < a"
    and hi: "es2 \<noteq> [] \<Longrightarrow> a \<le> e_addr (hd es2)"
  defines "par \<equiv> last (h # map e_semd es1)" and "n \<equiv> hd (map e_semd es2 @ [t])"
  shows "searchSemd a s = Some (Some par)" and "s_next (semdTable s par) = Some n"
    and "par < SEMDMAX" and "n < SEMDMAX" and "par \<noteq> n"
    and "s_semAdd (semdTable s n) = (if es2 = [] then MAXINT else e_addr (hd es2))"
proof -
  note D = asl_listD [OF asl]
  let ?rest = "tl (map e_semd es2 @ [t])"
  have nodes: "nodes h (es1 @ es2) t = h # map e_semd es1 @ n # ?rest"
    by (cases es2) (simp_all add: nodes_def n_def)
  have h: "semd_h s = Some h" using D(1) by (simp add: nodes_def)
  have sub: "set (h # map e_semd es1 @ n # ?rest) \<subseteq> {..<SEMDMAX}"
    using D(4) unfolding nodes by auto
  show n: "s_semAdd (semdTable s n) = (if es2 = [] then MAXINT else e_addr (hd es2))"
    using D(6,8) by (cases es2) (auto simp: n_def entry_ok_def)
  have "searchSemd_loop (Some h) a s = Some (Some (last (h # map e_semd es1)))"
  proof (rule searchSemd_loop_run)
    show "spath (s_next \<circ> semdTable s) (Some h) (h # map e_semd es1 @ n # ?rest) None"
      using D(1) unfolding nodes h .
    show "\<forall>x\<in>set (map e_semd es1). s_semAdd (semdTable s x) < a"
      using D(8) lo by (auto simp: entry_ok_def)
    show "\<not> s_semAdd (semdTable s n) < a" using n hi by (auto simp: not_less)
  qed (rule sub)
  then show "searchSemd a s = Some (Some par)" by (simp add: searchSemd_def h par_def)
  have "spath (s_next \<circ> semdTable s) (Some h) ((h # map e_semd es1) @ n # ?rest) None"
    using D(1) unfolding nodes h by simp
  from spath_next [OF this] show "s_next (semdTable s par) = Some n" by (simp add: par_def)
  have "par \<in> set (h # map e_semd es1)" unfolding par_def by (rule last_in_set) simp
  then show "par < SEMDMAX" "n < SEMDMAX" using sub by auto
  show "par \<noteq> n" using D(3) \<open>par \<in> set (h # map e_semd es1)\<close> unfolding nodes by auto
qed

text \<open>Every address splits the list.\<close>

lemma asl_list_find:
  assumes asl: "asl_list s h es t fs"
  obtains es1 es2 where "es = es1 @ es2" "\<forall>e\<in>set es1. e_addr e < a"
    "es2 \<noteq> [] \<Longrightarrow> a \<le> e_addr (hd es2)"
proof -
  let ?P = "\<lambda>e. e_addr e < a"
  have "es = takeWhile ?P es @ dropWhile ?P es" by simp
  moreover have "\<forall>e\<in>set (takeWhile ?P es). e_addr e < a" by (auto dest: set_takeWhileD)
  moreover have "dropWhile ?P es \<noteq> [] \<Longrightarrow> a \<le> e_addr (hd (dropWhile ?P es))"
    using hd_dropWhile [of ?P es] by (auto simp: not_less)
  ultimately show thesis by (rule that)
qed

section \<open>Rebuilding the abstraction after a change\<close>

lemma entry_ok_cong:
  assumes "entry_ok T S e" "s_semAdd (S' (e_semd e)) = s_semAdd (S (e_semd e))"
    "s_procQ (S' (e_semd e)) = s_procQ (S (e_semd e))"
    "\<And>p. p \<in> set (e_procs e) \<Longrightarrow>
       p_next (T' p) = p_next (T p) \<and> p_prev (T' p) = p_prev (T p) \<and> p_semAdd (T' p) = p_semAdd (T p)"
  shows "entry_ok T' S' e"
  using assms procq_cong [of "e_procs e" T' T] by (auto simp: entry_ok_def)

lemma entry_ok_qframe:
  assumes "entry_ok T S e" "qframe A T0 T'" "set (e_procs e) \<inter> A = {}"
    "\<And>p. p \<in> set (e_procs e) \<Longrightarrow> T0 p = T p"
    "s_semAdd (S' (e_semd e)) = s_semAdd (S (e_semd e))"
    "s_procQ (S' (e_semd e)) = s_procQ (S (e_semd e))"
  shows "entry_ok T' S' e"
proof (rule entry_ok_cong [where S = S and S' = S', OF assms(1,5,6)])
  fix p assume "p \<in> set (e_procs e)"
  with assms(3,4) have "T' p = T p" using qframe_out [OF assms(2), of p] by auto
  then show "p_next (T' p) = p_next (T p) \<and> p_prev (T' p) = p_prev (T p) \<and> p_semAdd (T' p) = p_semAdd (T p)"
    by simp
qed

lemma asl_list_requeue:
  assumes asl: "asl_list s h (es1 @ (d, a, q) # es2) t fs"
    and "semd_h s' = semd_h s" "semdFree_h s' = semdFree_h s"
    and nx: "s_next \<circ> semdTable s' = s_next \<circ> semdTable s"
    and ad: "s_semAdd \<circ> semdTable s' = s_semAdd \<circ> semdTable s"
    and "\<forall>e\<in>set (es1 @ es2). entry_ok (procTable s') (semdTable s') e"
    and "entry_ok (procTable s') (semdTable s') (d, a, q')"
    and "distinct (concat (map e_procs (es1 @ (d, a, q') # es2)))"
  shows "asl_list s' h (es1 @ (d, a, q') # es2) t fs"
proof -
  have n: "nodes h (es1 @ (d, a, q') # es2) t = nodes h (es1 @ (d, a, q) # es2) t"
    by (simp add: nodes_def)
  have "s_semAdd (semdTable s' i) = s_semAdd (semdTable s i)" for i
    using ad by (metis comp_apply)
  then show ?thesis using assms asl_listD [OF asl] unfolding asl_list_def n nx by auto
qed

text \<open>A descriptor taken from the free list and linked in.\<close>

lemma asl_list_link:
  assumes asl: "asl_list s h (es1 @ es2) t (f # fs)"
    and lo: "\<forall>e\<in>set es1. e_addr e < a" and hi: "\<forall>e\<in>set es2. a < e_addr e"
    and a: "0 < a" "a < MAXINT"
    and h': "semd_h s' = semd_h s" "semdFree_h s' = s_next (semdTable s f)"
    and nx: "s_next \<circ> semdTable s' = (s_next \<circ> semdTable s)
        (f := (s_next \<circ> semdTable s) (last (h # map e_semd es1)), last (h # map e_semd es1) := Some f)"
    and ad: "\<forall>d. d \<noteq> f \<longrightarrow> s_semAdd (semdTable s' d) = s_semAdd (semdTable s d)"
    and ok: "\<forall>e\<in>set (es1 @ es2). entry_ok (procTable s') (semdTable s') e"
      "entry_ok (procTable s') (semdTable s') (f, a, q)"
    and ds: "distinct (concat (map e_procs (es1 @ (f, a, q) # es2)))"
  shows "asl_list s' h (es1 @ (f, a, q) # es2) t fs"
proof -
  note D = asl_listD [OF asl]
  let ?xs = "h # map e_semd es1" and ?ys = "map e_semd es2 @ [t]"
  have fn: "f \<notin> set (nodes h (es1 @ es2) t)" using D(3) by auto
  have n': "nodes h (es1 @ (f, a, q) # es2) t = ?xs @ f # ?ys" by (simp add: nodes_def)
  have p1: "spath (s_next \<circ> semdTable s') (semd_h s') (?xs @ f # ?ys) None"
  proof -
    have "distinct (nodes h (es1 @ es2) t)" using D(3) by (simp only: distinct_append)
    with D(1) fn show ?thesis unfolding h' nx nodes_append by (intro spath_insert) simp_all
  qed
  have "last ?xs \<in> set ?xs" by (rule last_in_set) simp
  then have "last ?xs \<notin> set fs" "f \<notin> set fs" using D(3) by (auto simp: nodes_append)
  then have p2: "spath (s_next \<circ> semdTable s') (semdFree_h s') fs None"
    unfolding h' nx using D(2) by simp
  have st: "set (nodes h (es1 @ (f, a, q) # es2) t @ fs) = set (nodes h (es1 @ es2) t @ f # fs)"
    unfolding n' by (auto simp: nodes_append)
  have "f \<noteq> h" "f \<noteq> t" using fn by (auto simp: nodes_def)
  then have sent: "s_semAdd (semdTable s' h) = 0" "s_semAdd (semdTable s' t) = MAXINT"
    using D(5,6) ad by auto
  have dist: "distinct ((?xs @ f # ?ys) @ fs)" using D(3) fn by (auto simp: nodes_append)
  have srt: "sorted_wrt (<) (0 # map e_addr (es1 @ (f, a, q) # es2) @ [MAXINT])"
    using D(7) lo hi a by (auto simp: sorted_wrt_append)
  show ?thesis unfolding asl_list_def
    using p1 p2 dist sent srt ok ds D(4) st unfolding n' by auto
qed

text \<open>A descriptor unlinked and put on the free list.\<close>

lemma asl_list_unlink:
  assumes asl: "asl_list s h (es1 @ (d, a, q) # es2) t fs"
    and h': "semd_h s' = semd_h s" "semdFree_h s' = Some d"
    and nx: "s_next \<circ> semdTable s' = (s_next \<circ> semdTable s)
        (last (h # map e_semd es1) := s_next (semdTable s d), d := semdFree_h s)"
    and ad: "\<forall>i. i \<noteq> d \<longrightarrow> s_semAdd (semdTable s' i) = s_semAdd (semdTable s i)"
    and ok: "\<forall>e\<in>set (es1 @ es2). entry_ok (procTable s') (semdTable s') e"
  shows "asl_list s' h (es1 @ es2) t (d # fs)"
proof -
  note D = asl_listD [OF asl]
  let ?xs = "h # map e_semd es1" and ?ys = "map e_semd es2 @ [t]"
  have n: "nodes h (es1 @ (d, a, q) # es2) t = ?xs @ d # ?ys" by (simp add: nodes_def)
  have dn: "d \<notin> set (?xs @ ?ys @ fs)" using D(3) unfolding n by auto
  have "spath ((s_next \<circ> semdTable s)(last ?xs := (s_next \<circ> semdTable s) d)) (semd_h s) (?xs @ ?ys) None"
  proof -
    have "distinct (?xs @ d # ?ys)" using D(3) unfolding n by (simp only: distinct_append)
    with D(1) show ?thesis unfolding n by (intro spath_remove) simp_all
  qed
  then have p1: "spath (s_next \<circ> semdTable s') (semd_h s') (?xs @ ?ys) None"
    using dn unfolding h' nx by (subst spath_upd) auto
  have lx: "last ?xs \<in> set ?xs" by (rule last_in_set) simp
  then have "last ?xs \<notin> set fs" using D(3) unfolding n by auto
  then have p2: "spath (s_next \<circ> semdTable s') (semdFree_h s') (d # fs) None"
    unfolding h' nx using D(2) dn lx by simp
  have dist: "distinct ((?xs @ ?ys) @ d # fs)" "set ((?xs @ ?ys) @ d # fs) = {..<SEMDMAX}"
    using D(3,4) unfolding n by auto
  have "d \<noteq> h" "d \<noteq> t" using dn by auto
  then have sent: "s_semAdd (semdTable s' h) = 0" "s_semAdd (semdTable s' t) = MAXINT"
    using D(5,6) ad by auto
  have srt: "sorted_wrt (<) (0 # map e_addr (es1 @ es2) @ [MAXINT])"
    using D(7) by (auto simp: sorted_wrt_append)
  have "distinct (concat (map e_procs (es1 @ es2)))" using D(9) by auto
  then show ?thesis unfolding asl_list_def nodes_append
    using p1 p2 dist sent srt ok by simp
qed

section \<open>What the operations do\<close>

lemma insertProcQ_semd_run:
  fixes s :: "'a asl_store_scheme"
  assumes d: "d < SEMDMAX" and q: "procq (procTable s) (s_procQ (semdTable s d)) q"
    and p: "p < MAXPROC" "p \<notin> set q"
  shows "\<exists>T'. insertProcQ_semd (Some d) (Some p) s = Some (s\<lparr>procTable := T',
        semdTable := (semdTable s)(d := (semdTable s d)\<lparr>s_procQ := Some p\<rparr>)\<rparr>)
    \<and> procq T' (Some p) (q @ [p]) \<and> qframe (insert p (set q)) (procTable s) T'"
  using insertProcQ_run [OF q p] d by (fastforce simp: insertProcQ_semd_def)

lemma outProcQ_semd_run:
  fixes s :: "'a asl_store_scheme"
  assumes d: "d < SEMDMAX" and q: "procq (procTable s) (s_procQ (semdTable s d)) q"
    and p: "p \<in> set q"
  shows "\<exists>T' tp'. outProcQ_semd (Some d) (Some p) s = Some (Some p, s\<lparr>procTable := T',
        semdTable := (semdTable s)(d := (semdTable s d)\<lparr>s_procQ := tp'\<rparr>)\<rparr>)
    \<and> procq T' tp' (remove1 p q) \<and> qframe (set q - {p}) (procTable s) T'"
  using outProcQ_run [OF q p] d by (fastforce simp: outProcQ_semd_def)

lemma allocateSemd_run:
  fixes s :: "'a asl_store_scheme"
  assumes "semdFree_h s = Some f" "f < SEMDMAX"
  shows "allocateSemd a s = Some (Some f, s\<lparr>semdFree_h := s_next (semdTable s f),
      semdTable := (semdTable s)(f := \<lparr>s_next = None, s_semAdd = a, s_procQ = None\<rparr>)\<rparr>)"
  using assms by (cases "semdTable s f") (simp add: allocateSemd_def cleanSemd_def)

lemma allocateSemd_none: "semdFree_h s = None \<Longrightarrow> allocateSemd a s = Some (None, s)"
  by (simp add: allocateSemd_def)

lemma freeSemd_run:
  fixes s :: "'a asl_store_scheme"
  assumes "d < SEMDMAX"
  shows "freeSemd (Some d) s = Some (s\<lparr>semdFree_h := Some d,
      semdTable := (semdTable s)(d := \<lparr>s_next = semdFree_h s, s_semAdd = NULL, s_procQ = None\<rparr>)\<rparr>)"
  using assms by (cases "semdTable s d") (simp add: freeSemd_def cleanSemd_def)

text \<open>Blocking on a semaphore that is already active.\<close>

lemma insertBlocked_active:
  fixes s :: "'a asl_store_scheme"
  assumes asl: "asl_list s h (es1 @ (d, a, q) # es2) t fs" and p: "p < MAXPROC"
    and np: "\<forall>e\<in>set (es1 @ (d, a, q) # es2). p \<notin> set (e_procs e)"
  shows "\<exists>T' S'. insertBlocked a (Some p) s = Some (False, s\<lparr>procTable := T', semdTable := S'\<rparr>)
    \<and> asl_list (s\<lparr>procTable := T', semdTable := S'\<rparr>) h (es1 @ (d, a, q @ [p]) # es2) t fs
    \<and> qframe (insert p (set q)) ((procTable s)(p := (procTable s p)\<lparr>p_semAdd := a\<rparr>)) T'"
proof -
  note A = asl_list_addr [OF asl, of "(d, a, q)", simplified] and sp = asl_list_split [OF asl]
  have ok: "entry_ok (procTable s) (semdTable s) (d, a, q)" by (rule A)
  note at = searchSemd_at [of s h es1 "(d, a, q) # es2" t fs a, OF asl sp(1), simplified]
  have q: "procq (procTable s) (s_procQ (semdTable s d)) q" and pq: "p \<notin> set q"
    using ok np by (auto simp: entry_ok_def)
  let ?S = "(semdTable s)(d := (semdTable s d)\<lparr>s_procQ := Some p\<rparr>)"
  obtain T where run: "insertProcQ_semd (Some d) (Some p) s
      = Some (s\<lparr>procTable := T, semdTable := ?S\<rparr>)"
    and q': "procq T (Some p) (q @ [p])" and fr: "qframe (insert p (set q)) (procTable s) T"
    using insertProcQ_semd_run [OF A(3) q p pq] by blast
  define T' where "T' = T(p := (T p)\<lparr>p_semAdd := a\<rparr>)"
  have fr': "qframe (insert p (set q)) ((procTable s)(p := (procTable s p)\<lparr>p_semAdd := a\<rparr>)) T'"
    unfolding T'_def by (rule qframe_semAdd [OF fr]) simp
  let ?s = "s\<lparr>procTable := T', semdTable := ?S\<rparr>"
  have "insertBlocked a (Some p) s = Some (False, ?s)"
    using at A run p by (simp add: insertBlocked_def T'_def)
  moreover have "asl_list ?s h (es1 @ (d, a, q @ [p]) # es2) t fs"
  proof (rule asl_list_requeue [OF asl])
    show "\<forall>e\<in>set (es1 @ es2). entry_ok (procTable ?s) (semdTable ?s) e"
    proof
      fix e assume e: "e \<in> set (es1 @ es2)"
      then have "entry_ok (procTable s) (semdTable s) e" using asl_listD(8) [OF asl] by auto
      from this fr' have "entry_ok T' ?S e"
        by (rule entry_ok_qframe) (use e sp(3) np in auto)
      then show "entry_ok (procTable ?s) (semdTable ?s) e" by simp
    qed
    show "entry_ok (procTable ?s) (semdTable ?s) (d, a, q @ [p])"
      using ok q' procq_cong [of "q @ [p]" T' T] by (auto simp: entry_ok_def T'_def qframe_fields [OF fr])
    show "distinct (concat (map e_procs (es1 @ (d, a, q @ [p]) # es2)))"
      using asl_listD(9) [OF asl] np by auto
  qed (auto simp: fun_eq_iff)
  ultimately show ?thesis using fr' by blast
qed

text \<open>Blocking on a semaphore that is not active: a descriptor is taken from the free list.\<close>

lemma insertBlocked_new:
  fixes s :: "'a asl_store_scheme"
  assumes asl: "asl_list s h (es1 @ es2) t (f # fs)" and a: "0 < a" "a < MAXINT"
    and lo: "\<forall>e\<in>set es1. e_addr e < a" and hi: "\<forall>e\<in>set es2. a < e_addr e"
    and p: "p < MAXPROC" and np: "\<forall>e\<in>set (es1 @ es2). p \<notin> set (e_procs e)"
  shows "\<exists>T' S' fh. insertBlocked a (Some p) s
        = Some (False, s\<lparr>procTable := T', semdTable := S', semdFree_h := fh\<rparr>)
    \<and> asl_list (s\<lparr>procTable := T', semdTable := S', semdFree_h := fh\<rparr>) h (es1 @ (f, a, [p]) # es2) t fs
    \<and> qframe {p} ((procTable s)(p := (procTable s p)\<lparr>p_semAdd := a\<rparr>)) T'"
proof -
  note D = asl_listD [OF asl]
  let ?par = "last (h # map e_semd es1)" and ?n = "hd (map e_semd es2 @ [t])"
  have hi': "es2 \<noteq> [] \<Longrightarrow> a \<le> e_addr (hd es2)" using hi hd_in_set by (blast intro: less_imp_le)
  note at = searchSemd_at [OF asl lo hi']
  have na: "s_semAdd (semdTable s ?n) \<noteq> a" using at(6) a hi hd_in_set by (cases es2) auto
  have f: "semdFree_h s = Some f" "f < SEMDMAX" using D(2,4) by auto
  have fn: "f \<notin> set (h # map e_semd es1)" "f \<noteq> t" "f \<notin> e_semd ` set (es1 @ es2)"
    using D(3) by (simp_all add: nodes_append image_Un)
  have "?par \<in> set (h # map e_semd es1)" by (rule last_in_set) simp
  with fn have fp: "f \<noteq> ?par" "f \<noteq> h" "f \<noteq> t" "\<forall>e\<in>set (es1 @ es2). e_semd e \<noteq> f"
    by (metis, metis list.set_intros(1), metis, blast)
  define S' where "S' = (semdTable s)(f := \<lparr>s_next = Some ?n, s_semAdd = a, s_procQ = Some p\<rparr>,
      ?par := (semdTable s ?par)\<lparr>s_next := Some f\<rparr>)"
  define T' where "T' = (procTable s)(p := (procTable s p)\<lparr>p_prev := Some p, p_next := Some p, p_semAdd := a\<rparr>)"
  let ?s = "s\<lparr>procTable := T', semdTable := S', semdFree_h := s_next (semdTable s f)\<rparr>"
  have run: "insertBlocked a (Some p) s = Some (False, ?s)"
    using at na f fp(1) p
    by (simp add: insertBlocked_def allocateSemd_run insertProcQ_semd_def insertProcQ_def
        emptyProcQ_def S'_def T'_def fun_upd_twist)
  have fr: "qframe {p} ((procTable s)(p := (procTable s p)\<lparr>p_semAdd := a\<rparr>)) T'"
    by (auto simp: qframe_def T'_def)
  have "asl_list ?s h (es1 @ (f, a, [p]) # es2) t fs"
  proof (rule asl_list_link [OF asl lo hi a])
    show "s_next \<circ> semdTable ?s = (s_next \<circ> semdTable s)
        (f := (s_next \<circ> semdTable s) ?par, ?par := Some f)"
      using at(2) by (auto simp: S'_def fun_eq_iff)
    show "\<forall>e\<in>set (es1 @ es2). entry_ok (procTable ?s) (semdTable ?s) e"
    proof
      fix e assume e: "e \<in> set (es1 @ es2)"
      then have "entry_ok (procTable s) (semdTable s) e" using D(8) by auto
      from this fr have "entry_ok T' S' e"
        by (rule entry_ok_qframe) (use e np fp in \<open>auto simp: S'_def\<close>)
      then show "entry_ok (procTable ?s) (semdTable ?s) e" by simp
    qed
    show "entry_ok (procTable ?s) (semdTable ?s) (f, a, [p])"
      using fp(1) p by (simp add: entry_ok_def procq_def S'_def T'_def)
    show "distinct (concat (map e_procs (es1 @ (f, a, [p]) # es2)))"
      using D(9) np by auto
  qed (use fp in \<open>auto simp: S'_def\<close>)
  with run fr show ?thesis by blast
qed

text \<open>An address strictly inside the list that is not active is separated by the entries.\<close>

lemma asl_list_gap:
  assumes asl: "asl_list s h es t fs" and na: "a \<notin> e_addr ` set es"
  obtains es1 es2 where "es = es1 @ es2" "\<forall>e\<in>set es1. e_addr e < a" "\<forall>e\<in>set es2. a < e_addr e"
proof -
  obtain es1 es2 where es: "es = es1 @ es2" and lo: "\<forall>e\<in>set es1. e_addr e < a"
    and hi: "es2 \<noteq> [] \<Longrightarrow> a \<le> e_addr (hd es2)"
    using asl_list_find [OF asl] by blast
  have "a < e_addr e" if "e \<in> set es2" for e
  proof -
    have ne: "es2 \<noteq> []" using that by auto
    then have "a < e_addr (hd es2)" using hi na es hd_in_set [OF ne] by (auto simp: order_le_less)
    moreover have "sorted_wrt (<) (map e_addr es2)"
      using asl_listD(7) [OF asl] by (auto simp: es sorted_wrt_append)
    ultimately show ?thesis using that ne by (cases es2) auto
  qed
  with es lo show thesis by (intro that) auto
qed

lemma insertBlocked_full:
  assumes asl: "asl_list s h es t []" and a: "a < MAXINT" and na: "a \<notin> e_addr ` set es"
  shows "insertBlocked a p s = Some (True, s)"
proof -
  obtain es1 es2 where es: "es = es1 @ es2" and lo: "\<forall>e\<in>set es1. e_addr e < a"
    and hi: "\<forall>e\<in>set es2. a < e_addr e"
    using asl_list_gap [OF asl na] .
  have hi': "es2 \<noteq> [] \<Longrightarrow> a \<le> e_addr (hd es2)" using hi hd_in_set by (blast intro: less_imp_le)
  note at = searchSemd_at [OF asl [unfolded es] lo hi']
  have "s_semAdd (semdTable s (hd (map e_semd es2 @ [t]))) \<noteq> a"
    using at(6) a hi hd_in_set by (cases es2) auto
  moreover have "semdFree_h s = None" using asl_listD(2) [OF asl] by simp
  ultimately show ?thesis using at by (simp add: insertBlocked_def allocateSemd_none)
qed

text \<open>
  \<open>outBlocked\<close> and \<open>removeBlocked\<close> on a semaphore that is not active.
\<close>

lemma search_inactive:
  assumes asl: "asl_list s h es t fs" and a: "a < MAXINT" and na: "a \<notin> e_addr ` set es"
  shows "\<exists>par x n y. searchSemd a s = Some par \<and> rd_semd par s = Some x \<and> s_next x = Some n
    \<and> rd_semd (Some n) s = Some y \<and> s_semAdd y \<noteq> a"
proof -
  obtain es1 es2 where es: "es = es1 @ es2" and lo: "\<forall>e\<in>set es1. e_addr e < a"
    and hi: "\<forall>e\<in>set es2. a < e_addr e"
    using asl_list_gap [OF asl na] .
  have hi': "es2 \<noteq> [] \<Longrightarrow> a \<le> e_addr (hd es2)" using hi hd_in_set by (blast intro: less_imp_le)
  note at = searchSemd_at [OF asl [unfolded es] lo hi']
  have "s_semAdd (semdTable s (hd (map e_semd es2 @ [t]))) \<noteq> a"
    using at(6) a hi hd_in_set by (cases es2) auto
  with at show ?thesis by simp
qed

lemma removeBlocked_inactive:
  "asl_list s h es t fs \<Longrightarrow> a < MAXINT \<Longrightarrow> a \<notin> e_addr ` set es \<Longrightarrow> removeBlocked a s = Some (None, s)"
  by (drule (2) search_inactive) (auto simp: removeBlocked_def)

lemma headBlocked_inactive:
  "asl_list s h es t fs \<Longrightarrow> a < MAXINT \<Longrightarrow> a \<notin> e_addr ` set es \<Longrightarrow> headBlocked a s = Some None"
  by (drule (2) search_inactive) (auto simp: headBlocked_def)

lemma outBlocked_inactive:
  "asl_list s h es t fs \<Longrightarrow> p < MAXPROC \<Longrightarrow> p_semAdd (procTable s p) < MAXINT \<Longrightarrow>
   p_semAdd (procTable s p) \<notin> e_addr ` set es \<Longrightarrow> outBlocked (Some p) s = Some (None, s)"
  by (drule (2) search_inactive) (auto simp: outBlocked_def)

text \<open>What the guard of \<open>outBlocked\<close> sees: the second process of the queue.\<close>

lemma outBlocked_guard:
  assumes asl: "asl_list s h (es1 @ (d, a, q) # es2) t fs" and p: "p \<in> set q"
  defines "par \<equiv> last (h # map e_semd es1)"
  shows "outBlocked (Some p) s =
    (if q ! (1 mod length q) = p then do {
       (outedPcb, s1) \<leftarrow> outProcQ_semd (Some d) (Some p) s;
       par1 \<leftarrow> rd_semd (Some par) s1;
       let tempToBeRemoved = s_next par1;
       t \<leftarrow> rd_semd (s_next par1) s1;
       s2 \<leftarrow> upd_semd (Some par) (\<lambda>y. y\<lparr>s_next := s_next t\<rparr>) s1;
       s3 \<leftarrow> freeSemd tempToBeRemoved s2;
       Some (outedPcb, s3)
     } else outProcQ_semd (Some d) (Some p) s)"
proof -
  note A = asl_list_addr [OF asl, of "(d, a, q)", simplified] and sp = asl_list_split [OF asl]
  note at = searchSemd_at [of s h es1 "(d, a, q) # es2" t fs a, OF asl sp(1), simplified]
  have ok: "entry_ok (procTable s) (semdTable s) (d, a, q)" by (rule A)
  then have q: "procq (procTable s) (s_procQ (semdTable s d)) q" "q \<noteq> []"
    and pa: "p_semAdd (procTable s p) = a" "s_semAdd (semdTable s d) = a"
    using p by (auto simp: entry_ok_def)
  have v: "p < MAXPROC" "last q < MAXPROC" "hd q < MAXPROC"
    using procq_valid [OF q(1)] p q(2) by auto
  show ?thesis unfolding outBlocked_def par_def
    using v at pa A(3) procq_tail [OF q] procq_head [OF q] procq_second [OF q]
    by (simp add: headProcQ_def emptyProcQ_def cong: if_cong)
qed

text \<open>
  If \<open>p\<close> is not the second process of its queue, \<open>outBlocked\<close> takes it out and the others stay
  queued.
\<close>

lemma outBlocked_keep:
  fixes s :: "'a asl_store_scheme"
  assumes asl: "asl_list s h (es1 @ (d, a, q) # es2) t fs" and p: "p \<in> set q"
    and g: "q ! (1 mod length q) \<noteq> p"
  shows "\<exists>T' S'. outBlocked (Some p) s = Some (Some p, s\<lparr>procTable := T', semdTable := S'\<rparr>)
    \<and> asl_list (s\<lparr>procTable := T', semdTable := S'\<rparr>) h (es1 @ (d, a, remove1 p q) # es2) t fs
    \<and> qframe (set q - {p}) (procTable s) T'"
proof -
  note A = asl_list_addr [OF asl, of "(d, a, q)", simplified] and sp = asl_list_split [OF asl]
  have ok: "entry_ok (procTable s) (semdTable s) (d, a, q)" by (rule A)
  then have q: "procq (procTable s) (s_procQ (semdTable s d)) q" "distinct q"
    by (auto simp: entry_ok_def procq_distinct)
  obtain T' tp' where run: "outProcQ_semd (Some d) (Some p) s = Some (Some p, s\<lparr>procTable := T',
        semdTable := (semdTable s)(d := (semdTable s d)\<lparr>s_procQ := tp'\<rparr>)\<rparr>)"
    and q': "procq T' tp' (remove1 p q)" and fr: "qframe (set q - {p}) (procTable s) T'"
    using outProcQ_semd_run [OF A(3) q(1) p] by blast
  let ?S = "(semdTable s)(d := (semdTable s d)\<lparr>s_procQ := tp'\<rparr>)"
  let ?s = "s\<lparr>procTable := T', semdTable := ?S\<rparr>"
  have "q = [p]" if "remove1 p q = []" using that p by (cases q) (auto split: if_splits)
  then have ne: "remove1 p q \<noteq> []" using g by auto
  have "asl_list ?s h (es1 @ (d, a, remove1 p q) # es2) t fs"
  proof (rule asl_list_requeue [OF asl])
    show "\<forall>e\<in>set (es1 @ es2). entry_ok (procTable ?s) (semdTable ?s) e"
    proof
      fix e assume e: "e \<in> set (es1 @ es2)"
      then have "entry_ok (procTable s) (semdTable s) e" using asl_listD(8) [OF asl] by auto
      from this fr have "entry_ok T' ?S e"
        by (rule entry_ok_qframe) (use e sp(3) in auto)
      then show "entry_ok (procTable ?s) (semdTable ?s) e" by simp
    qed
    show "entry_ok (procTable ?s) (semdTable ?s) (d, a, remove1 p q)"
      using ok q' ne q(2) by (auto simp: entry_ok_def qframe_fields [OF fr] set_remove1_eq)
    show "distinct (concat (map e_procs (es1 @ (d, a, remove1 p q) # es2)))"
      using asl_listD(9) [OF asl] q(2) by (auto simp: set_remove1_eq)
  qed (auto simp: fun_eq_iff)
  then show ?thesis using outBlocked_guard [OF asl p] g run fr by (auto intro!: exI)
qed

text \<open>
  If \<open>p\<close> is the second process, or the only one, the descriptor is freed: with it goes every
  other process of the queue.
\<close>

lemma outBlocked_drop:
  fixes s :: "'a asl_store_scheme"
  assumes asl: "asl_list s h (es1 @ (d, a, q) # es2) t fs" and p: "p \<in> set q"
    and g: "q ! (1 mod length q) = p"
  shows "\<exists>T' S'. outBlocked (Some p) s
        = Some (Some p, s\<lparr>procTable := T', semdTable := S', semdFree_h := Some d\<rparr>)
    \<and> asl_list (s\<lparr>procTable := T', semdTable := S', semdFree_h := Some d\<rparr>) h (es1 @ es2) t (d # fs)
    \<and> qframe (set q - {p}) (procTable s) T' \<and> (\<exists>tp. procq T' tp (remove1 p q))"
proof -
  note A = asl_list_addr [OF asl, of "(d, a, q)", simplified] and sp = asl_list_split [OF asl]
  note at = searchSemd_at [of s h es1 "(d, a, q) # es2" t fs a, OF asl sp(1), simplified]
  let ?par = "last (h # map e_semd es1)"
  have ok: "entry_ok (procTable s) (semdTable s) (d, a, q)" by (rule A)
  then have q: "procq (procTable s) (s_procQ (semdTable s d)) q"
    by (auto simp: entry_ok_def)
  obtain T' tp' where run: "outProcQ_semd (Some d) (Some p) s = Some (Some p, s\<lparr>procTable := T',
        semdTable := (semdTable s)(d := (semdTable s d)\<lparr>s_procQ := tp'\<rparr>)\<rparr>)"
    and q': "procq T' tp' (remove1 p q)" and fr: "qframe (set q - {p}) (procTable s) T'"
    using outProcQ_semd_run [OF A(3) q p] by blast
  define S' where "S' = (semdTable s)(?par := (semdTable s ?par)\<lparr>s_next := s_next (semdTable s d)\<rparr>,
      d := \<lparr>s_next = semdFree_h s, s_semAdd = NULL, s_procQ = None\<rparr>)"
  let ?s = "s\<lparr>procTable := T', semdTable := S', semdFree_h := Some d\<rparr>"
  have "outBlocked (Some p) s = Some (Some p, ?s)"
    unfolding outBlocked_guard [OF asl p] using g run at A(3)
    by (simp add: freeSemd_run S'_def fun_upd_twist)
  moreover have "asl_list ?s h (es1 @ es2) t (d # fs)"
  proof (rule asl_list_unlink [OF asl])
    show "\<forall>e\<in>set (es1 @ es2). entry_ok (procTable ?s) (semdTable ?s) e"
    proof
      fix e assume e: "e \<in> set (es1 @ es2)"
      then have "entry_ok (procTable s) (semdTable s) e" using asl_listD(8) [OF asl] by auto
      from this fr have "entry_ok T' S' e"
        by (rule entry_ok_qframe) (use e sp(3) in \<open>auto simp: S'_def\<close>)
      then show "entry_ok (procTable ?s) (semdTable ?s) e" by simp
    qed
  qed (use at in \<open>auto simp: S'_def fun_eq_iff\<close>)
  ultimately show ?thesis using q' fr by blast
qed

text \<open>\<open>removeBlocked\<close> always asks for the head, where the guard of \<open>outBlocked\<close> is right.\<close>

lemma search_active:
  assumes asl: "asl_list s h (es1 @ (d, a, q) # es2) t fs"
  shows "\<exists>par x. searchSemd a s = Some par \<and> rd_semd par s = Some x \<and> s_next x = Some d
    \<and> rd_semd (Some d) s = Some (semdTable s d)" "s_semAdd (semdTable s d) = a"
    "procq (procTable s) (s_procQ (semdTable s d)) q" "q \<noteq> []"
proof -
  note A = asl_list_addr [OF asl, of "(d, a, q)", simplified] and sp = asl_list_split [OF asl]
  note at = searchSemd_at [of s h es1 "(d, a, q) # es2" t fs a, OF asl sp(1), simplified]
  show "\<exists>par x. searchSemd a s = Some par \<and> rd_semd par s = Some x \<and> s_next x = Some d
    \<and> rd_semd (Some d) s = Some (semdTable s d)" using at by simp
  show "s_semAdd (semdTable s d) = a" "procq (procTable s) (s_procQ (semdTable s d)) q" "q \<noteq> []"
    using A(7) by (simp_all add: entry_ok_def)
qed

lemma removeBlocked_out:
  assumes "asl_list s h (es1 @ (d, a, q) # es2) t fs"
  shows "removeBlocked a s = outBlocked (Some (hd q)) s"
  using search_active [OF assms] by (auto simp: removeBlocked_def headProcQ_run)

lemma headBlocked_active:
  assumes "asl_list s h (es1 @ (d, a, q) # es2) t fs"
  shows "headBlocked a s = Some (Some (hd q))"
  using search_active [OF assms] by (auto simp: headBlocked_def headProcQ_run procq_empty_iff)

lemma removeBlocked_last:
  fixes s :: "'a asl_store_scheme"
  assumes asl: "asl_list s h (es1 @ (d, a, [p]) # es2) t fs"
  shows "\<exists>T' S'. removeBlocked a s
        = Some (Some p, s\<lparr>procTable := T', semdTable := S', semdFree_h := Some d\<rparr>)
    \<and> asl_list (s\<lparr>procTable := T', semdTable := S', semdFree_h := Some d\<rparr>) h (es1 @ es2) t (d # fs)
    \<and> qframe {} (procTable s) T'"
  using outBlocked_drop [OF asl] removeBlocked_out [OF asl] by auto

lemma removeBlocked_more:
  fixes s :: "'a asl_store_scheme"
  assumes asl: "asl_list s h (es1 @ (d, a, p # q) # es2) t fs" and q: "q \<noteq> []"
  shows "\<exists>T' S'. removeBlocked a s = Some (Some p, s\<lparr>procTable := T', semdTable := S'\<rparr>)
    \<and> asl_list (s\<lparr>procTable := T', semdTable := S'\<rparr>) h (es1 @ (d, a, q) # es2) t fs
    \<and> qframe (set q) (procTable s) T'"
proof -
  have "distinct (p # q)" using asl_listD(9) [OF asl] by simp
  then have "(p # q) ! (1 mod length (p # q)) \<noteq> p" "set (p # q) - {p} = set q"
    using q by (cases q, auto)
  then show ?thesis using outBlocked_keep [OF asl, of p] removeBlocked_out [OF asl] by simp
qed

section \<open>Initialisation\<close>

lemma initASL_run:
  fixes s :: "'a asl_store_scheme"
  shows "\<exists>S' hd' fr'. initASL s = Some (s\<lparr>semdTable := S', semd_h := hd', semdFree_h := fr'\<rparr>)
    \<and> asl_list (s\<lparr>semdTable := S', semd_h := hd', semdFree_h := fr'\<rparr>) (MAXPROC + 1) [] MAXPROC
        (rev [0..<MAXPROC])"
proof -
  define I where "I = (\<lambda>n t. \<exists>S fr. t = s\<lparr>semdTable := S, semd_h := None, semdFree_h := fr\<rparr>
    \<and> spath (s_next \<circ> S) fr (rev [0..<n]) None)"
  have "\<exists>t. foldM (\<lambda>i. freeSemd (Some i)) [0..<SEMDMAX] (s\<lparr>semd_h := None, semdFree_h := None\<rparr>) = Some t
      \<and> I SEMDMAX t"
  proof (rule foldM_upt_inv)
    show "I 0 (s\<lparr>semd_h := None, semdFree_h := None\<rparr>)"
      unfolding I_def by (intro exI [of _ "semdTable s"] exI [of _ None]) simp
  next
    fix i t assume i: "i < SEMDMAX" and "I i t"
    then obtain S fr where t: "t = s\<lparr>semdTable := S, semd_h := None, semdFree_h := fr\<rparr>"
      and p: "spath (s_next \<circ> S) fr (rev [0..<i]) None"
      unfolding I_def by blast
    let ?S = "S(i := \<lparr>s_next = fr, s_semAdd = NULL, s_procQ = None\<rparr>)"
    have "freeSemd (Some i) t = Some (s\<lparr>semdTable := ?S, semd_h := None, semdFree_h := Some i\<rparr>)"
      using i by (simp add: freeSemd_run t)
    moreover have "spath (s_next \<circ> ?S) fr (rev [0..<i]) None"
      using p by (subst spath_cong [of _ _ "s_next \<circ> S"]) auto
    then have "I (Suc i) (s\<lparr>semdTable := ?S, semd_h := None, semdFree_h := Some i\<rparr>)"
      unfolding I_def by (intro exI [of _ ?S] exI [of _ "Some i"]) simp
    ultimately show "\<exists>t'. freeSemd (Some i) t = Some t' \<and> I (Suc i) t'" by blast
  qed
  then obtain S fr where fold: "foldM (\<lambda>i. freeSemd (Some i)) [0..<SEMDMAX]
      (s\<lparr>semd_h := None, semdFree_h := None\<rparr>) = Some (s\<lparr>semdTable := S, semd_h := None, semdFree_h := fr\<rparr>)"
    and p: "spath (s_next \<circ> S) fr (rev [0..<SEMDMAX]) None"
    unfolding I_def by blast
  let ?h = "MAXPROC + 1" and ?t = MAXPROC and ?fs = "rev [0..<MAXPROC]"
  have upt: "[0..<SEMDMAX] = [0..<MAXPROC] @ [?t, ?h]" by (simp add: SEMDMAX_def)
  have f: "fr = Some ?h" "s_next (S ?h) = Some ?t" "spath (s_next \<circ> S) (s_next (S ?t)) ?fs None"
    using p unfolding upt by auto
  have v: "?h < SEMDMAX" "?t < SEMDMAX" "?h \<noteq> ?t" by (simp_all add: SEMDMAX_def)
  define S' where "S' = S(?h := \<lparr>s_next = Some ?t, s_semAdd = 0, s_procQ = None\<rparr>,
      ?t := \<lparr>s_next = None, s_semAdd = MAXINT, s_procQ = None\<rparr>)"
  let ?s = "s\<lparr>semdTable := S', semd_h := Some ?h, semdFree_h := s_next (S ?t)\<rparr>"
  have "initASL s = Some ?s"
    using fold f v by (simp add: initASL_def allocateSemd_run S'_def fun_upd_twist)
  moreover have "spath (s_next \<circ> S') (s_next (S ?t)) ?fs None"
    using f(3) by (subst spath_cong [of _ _ "s_next \<circ> S"]) (auto simp: S'_def)
  then have "asl_list ?s ?h [] ?t ?fs"
    using v by (auto simp: asl_list_def nodes_def S'_def SEMDMAX_def order_le_less)
  ultimately show ?thesis by (intro exI conjI)
qed

section \<open>The semaphore contract\<close>

lemma waiting_Nil [simp]: "waiting [] a = []"
  by (simp add: waiting_def)

lemma waiting_Cons [simp]: "waiting ((d, b, q) # es) a = (if b = a then q else waiting es a)"
  by (simp add: waiting_def)

lemma waiting_none: "a \<notin> e_addr ` set es \<Longrightarrow> waiting es a = []"
  by (induction es) auto

lemma waiting_split:
  "a \<notin> e_addr ` set es1 \<Longrightarrow>
   waiting (es1 @ (d, a, q) # es2) = (waiting (es1 @ es2))(a := q)"
  by (induction es1) (auto simp: fun_eq_iff)

lemma waiting_append_none:
  "a \<notin> e_addr ` set (es1 @ es2) \<Longrightarrow> waiting (es1 @ es2) a = []"
  by (rule waiting_none)

lemma asl_waiting:
  assumes "asl_list s h (es1 @ (d, a, q) # es2) t fs"
  shows "waiting (es1 @ (d, a, q') # es2) = (waiting (es1 @ (d, a, q) # es2))(a := q')"
    "waiting (es1 @ (d, a, q) # es2) a = q"
    "waiting (es1 @ es2) = (waiting (es1 @ (d, a, q) # es2))(a := [])"
proof -
  have n: "a \<notin> e_addr ` set es1" "a \<notin> e_addr ` set (es1 @ es2)"
    using asl_list_split(1,2) [OF assms] by auto
  show "waiting (es1 @ (d, a, q') # es2) = (waiting (es1 @ (d, a, q) # es2))(a := q')"
    "waiting (es1 @ (d, a, q) # es2) a = q"
    using n(1) by (simp_all add: waiting_split)
  show "waiting (es1 @ es2) = (waiting (es1 @ (d, a, q) # es2))(a := [])"
    using n waiting_none [OF n(2)] by (auto simp: waiting_split fun_eq_iff)
qed

text \<open>The processes on the list, and why there is always a descriptor for one more.\<close>

definition blocked :: "entry list \<Rightarrow> nat list" where
  "blocked es = concat (map e_procs es)"

lemma asl_list_blocked:
  assumes "asl_list s h es t fs"
  shows "distinct (blocked es)" "set (blocked es) \<subseteq> {..<MAXPROC}" "length es \<le> length (blocked es)"
    "length es + length fs = MAXPROC"
proof -
  note D = asl_listD [OF assms]
  show "distinct (blocked es)" using D(9) by (simp add: blocked_def)
  show "set (blocked es) \<subseteq> {..<MAXPROC}"
    using D(8) by (force simp: blocked_def entry_ok_def dest: procq_valid)
  have "\<forall>e\<in>set es. e_procs e \<noteq> []" using D(8) by (auto simp: entry_ok_def)
  then show "length es \<le> length (blocked es)"
    unfolding blocked_def
  proof (induction es)
    case (Cons e es)
    then show ?case by (cases "e_procs e") auto
  qed simp
  have "length (nodes h es t @ fs) = card {..<SEMDMAX}"
    using distinct_card [OF D(3)] D(4) by simp
  then show "length es + length fs = MAXPROC" by (simp add: nodes_def SEMDMAX_def)
qed

lemma asl_list_room:
  assumes asl: "asl_list s h es t fs" and p: "p < MAXPROC" "p \<notin> set (blocked es)"
  shows "fs \<noteq> []"
proof
  note B = asl_list_blocked [OF asl]
  assume "fs = []"
  then have "MAXPROC \<le> length (blocked es)" using B(3,4) by simp
  moreover have "length (p # blocked es) \<le> MAXPROC"
    using B(1,2) p by (intro distinct_subset_length) auto
  ultimately show False by simp
qed

text \<open>
  \<open>asl_rel s W B\<close>: \<open>W a\<close> lists the processes blocked on the semaphore at \<open>a\<close>, in order, and \<open>B\<close>
  is the multiset of all of them.
\<close>

definition asl_rel :: "'a asl_store_scheme \<Rightarrow> (memaddr \<Rightarrow> nat list) \<Rightarrow> nat multiset \<Rightarrow> bool" where
  "asl_rel s W B \<longleftrightarrow>
     (\<exists>h es t fs. asl_list s h es t fs \<and> W = waiting es \<and> B = mset (blocked es))"

lemma asl_relI: "asl_list s h es t fs \<Longrightarrow> W = waiting es \<Longrightarrow> B = mset (blocked es) \<Longrightarrow> asl_rel s W B"
  unfolding asl_rel_def by blast

text \<open>The entry of an active semaphore.\<close>

lemma asl_rel_entry:
  assumes "asl_list s h es t fs" "waiting es a \<noteq> []"
  obtains es1 d es2 where "es = es1 @ (d, a, waiting es a) # es2"
proof -
  have "a \<in> e_addr ` set es" using waiting_none assms(2) by blast
  then obtain d q where "(d, a, q) \<in> set es" by auto
  then obtain es1 es2 where es: "es = es1 @ (d, a, q) # es2" by (meson split_list)
  then have "waiting es a = q" using asl_waiting(2) assms(1) by blast
  with es show thesis by (intro that) simp
qed

lemma asl_rel_obtain:
  assumes "asl_rel s W B" "W a = x # xs"
  obtains h es1 d es2 t fs where "asl_list s h (es1 @ (d, a, x # xs) # es2) t fs"
    "W = waiting (es1 @ (d, a, x # xs) # es2)" "B = mset (blocked (es1 @ (d, a, x # xs) # es2))"
proof -
  obtain h es t fs where asl: "asl_list s h es t fs" and W: "W = waiting es" "B = mset (blocked es)"
    using assms(1) unfolding asl_rel_def by blast
  have ne: "waiting es a = x # xs" using assms(2) W(1) by simp
  then obtain es1 d es2 where "es = es1 @ (d, a, x # xs) # es2"
    using asl_rel_entry [OF asl, of a] by (metis list.distinct(1))
  with asl W show thesis using that by simp
qed

lemma asl_rel_inactive:
  assumes "asl_list s h es t fs" "waiting es a = []"
  shows "a \<notin> e_addr ` set es"
proof
  assume "a \<in> e_addr ` set es"
  then obtain d q where m: "(d, a, q) \<in> set es" by auto
  then obtain es1 es2 where "es = es1 @ (d, a, q) # es2" by (meson split_list)
  then have "q = []" using assms asl_waiting(2) by metis
  then show False using asl_list_addr(7) [OF assms(1) m] by (simp add: entry_ok_def)
qed

lemma asl_relD:
  assumes "asl_rel s W B" "p \<in> set (W a)"
  shows "p \<in># B" "p < MAXPROC" "0 < a" "a < MAXINT" "p_semAdd (procTable s p) = a"
proof -
  obtain x xs where Wa: "W a = x # xs" using assms(2) by (cases "W a") auto
  obtain h es1 d es2 t fs where asl: "asl_list s h (es1 @ (d, a, x # xs) # es2) t fs"
    and W: "W = waiting (es1 @ (d, a, x # xs) # es2)"
    and B: "B = mset (blocked (es1 @ (d, a, x # xs) # es2))"
    using asl_rel_obtain [OF assms(1) Wa] .
  have p: "p \<in> set (x # xs)" using assms(2) Wa by simp
  note A = asl_list_addr [OF asl, of "(d, a, x # xs)"]
  show "p \<in># B" using p unfolding B by (auto simp: blocked_def)
  then show "p < MAXPROC" using asl_list_blocked(2) [OF asl] B by auto
  show "0 < a" "a < MAXINT" using A(1,2) by simp_all
  have "entry_ok (procTable s) (semdTable s) (d, a, x # xs)" using A(7) by simp
  with p show "p_semAdd (procTable s p) = a" by (auto simp: entry_ok_def)
qed

lemma asl_rel_covers:
  assumes "asl_rel s W B" "p \<in># B"
  obtains a where "p \<in> set (W a)"
proof -
  obtain h es t fs where asl: "asl_list s h es t fs" and W: "W = waiting es" "B = mset (blocked es)"
    using assms(1) unfolding asl_rel_def by blast
  then obtain d a q where "(d, a, q) \<in> set es" "p \<in> set q" using assms(2) by (auto simp: blocked_def)
  moreover then obtain es1 es2 where "es = es1 @ (d, a, q) # es2" by (meson split_list)
  ultimately have "p \<in> set (W a)" using asl asl_waiting(2) W by metis
  then show thesis by (rule that)
qed

lemma asl_rel_valid: "asl_rel s W B \<Longrightarrow> p \<in># B \<Longrightarrow> p < MAXPROC"
  using asl_rel_covers asl_relD(2) by metis

lemma asl_rel_semAdd: "asl_rel s W B \<Longrightarrow> p \<in># B \<Longrightarrow> p_semAdd (procTable s p) \<noteq> NULL"
  using asl_rel_covers asl_relD(4,5) by (metis MAXINT_def NULL_def order_less_irrefl)

lemma asl_rel_blocked_iff: "asl_rel s W B \<Longrightarrow> p \<in># B \<longleftrightarrow> (\<exists>a. p \<in> set (W a))"
  using asl_rel_covers asl_relD(1) by metis

lemma asl_rel_inj: "asl_rel s W B \<Longrightarrow> p \<in> set (W a) \<Longrightarrow> p \<in> set (W b) \<Longrightarrow> a = b"
  using asl_relD(5) by metis

text \<open>Only the links and the semaphore addresses of the blocked processes matter.\<close>

lemma asl_rel_cong:
  assumes "asl_rel s W B"
    and "semdTable s' = semdTable s" "semd_h s' = semd_h s" "semdFree_h s' = semdFree_h s"
    and T: "\<And>p. p \<in># B \<Longrightarrow> p_next (procTable s' p) = p_next (procTable s p)
      \<and> p_prev (procTable s' p) = p_prev (procTable s p)
      \<and> p_semAdd (procTable s' p) = p_semAdd (procTable s p)"
  shows "asl_rel s' W B"
proof -
  obtain h es t fs where asl: "asl_list s h es t fs" and W: "W = waiting es" "B = mset (blocked es)"
    using assms(1) unfolding asl_rel_def by blast
  have "\<forall>e\<in>set es. entry_ok (procTable s') (semdTable s') e"
  proof
    fix e assume e: "e \<in> set es"
    then have "entry_ok (procTable s) (semdTable s) e" using asl_listD(8) [OF asl] by blast
    then show "entry_ok (procTable s') (semdTable s') e"
      by (rule entry_ok_cong) (use assms(2) T e in \<open>auto simp: W(2) blocked_def\<close>)
  qed
  then have "asl_list s' h es t fs" using asl assms(2-4) by (simp add: asl_list_def)
  with W show ?thesis by (intro asl_relI)
qed

lemma asl_rel_insert:
  fixes s :: "'a asl_store_scheme"
  assumes r: "asl_rel s W B" and a: "0 < a" "a < MAXINT" and p: "p < MAXPROC" "p \<notin># B"
  shows "\<exists>T' S' fh. insertBlocked a (Some p) s
        = Some (False, s\<lparr>procTable := T', semdTable := S', semdFree_h := fh\<rparr>)
    \<and> asl_rel (s\<lparr>procTable := T', semdTable := S', semdFree_h := fh\<rparr>)
        (W(a := W a @ [p])) (add_mset p B)
    \<and> qframe (insert p (set (W a))) ((procTable s)(p := (procTable s p)\<lparr>p_semAdd := a\<rparr>)) T'"
proof -
  obtain h es t fs where asl: "asl_list s h es t fs" and W: "W = waiting es" and B: "B = mset (blocked es)"
    using r unfolding asl_rel_def by blast
  have np: "\<forall>e\<in>set es. p \<notin> set (e_procs e)" using p(2) by (auto simp: B blocked_def)
  show ?thesis
  proof (cases "W a = []")
    case False
    then obtain es1 d es2 where es: "es = es1 @ (d, a, W a) # es2"
      using asl_rel_entry [OF asl] W by metis
    obtain T' S' where run: "insertBlocked a (Some p) s = Some (False, s\<lparr>procTable := T', semdTable := S'\<rparr>)"
      and asl': "asl_list (s\<lparr>procTable := T', semdTable := S'\<rparr>) h (es1 @ (d, a, W a @ [p]) # es2) t fs"
      and fr: "qframe (insert p (set (W a))) ((procTable s)(p := (procTable s p)\<lparr>p_semAdd := a\<rparr>)) T'"
      using insertBlocked_active [OF asl [unfolded es] p(1)] np es by metis
    have "asl_rel (s\<lparr>procTable := T', semdTable := S'\<rparr>) (W(a := W a @ [p])) (add_mset p B)"
    proof (rule asl_relI [OF asl'])
      show "W(a := W a @ [p]) = waiting (es1 @ (d, a, W a @ [p]) # es2)"
        using asl_waiting(1) [OF asl [unfolded es], of "W a @ [p]"] es W by metis
      show "add_mset p B = mset (blocked (es1 @ (d, a, W a @ [p]) # es2))"
        unfolding B by (subst es) (simp add: blocked_def)
    qed
    with run fr show ?thesis by (intro exI [of _ T'] exI [of _ S'] exI [of _ "semdFree_h s"]) simp
  next
    case True
    then have na: "a \<notin> e_addr ` set es" using asl_rel_inactive [OF asl] W by simp
    obtain es1 es2 where es: "es = es1 @ es2" and lo: "\<forall>e\<in>set es1. e_addr e < a"
      and hi: "\<forall>e\<in>set es2. a < e_addr e" using asl_list_gap [OF asl na] .
    obtain f fs' where fs: "fs = f # fs'"
      using asl_list_room [OF asl p(1)] p(2) B by (cases fs) auto
    obtain T' S' fh where
      run: "insertBlocked a (Some p) s = Some (False, s\<lparr>procTable := T', semdTable := S', semdFree_h := fh\<rparr>)"
      and asl': "asl_list (s\<lparr>procTable := T', semdTable := S', semdFree_h := fh\<rparr>) h (es1 @ (f, a, [p]) # es2) t fs'"
      and fr: "qframe {p} ((procTable s)(p := (procTable s p)\<lparr>p_semAdd := a\<rparr>)) T'"
      using insertBlocked_new [OF asl [unfolded es fs] a lo hi p(1)] np es by metis
    have "asl_rel (s\<lparr>procTable := T', semdTable := S', semdFree_h := fh\<rparr>) (W(a := W a @ [p])) (add_mset p B)"
    proof (rule asl_relI [OF asl'])
      show "W(a := W a @ [p]) = waiting (es1 @ (f, a, [p]) # es2)"
        using na True es unfolding W by (subst waiting_split) auto
      show "add_mset p B = mset (blocked (es1 @ (f, a, [p]) # es2))"
        unfolding B es by (simp add: blocked_def)
    qed
    with run fr True show ?thesis by auto
  qed
qed

lemma asl_rel_remove_none:
  assumes "asl_rel s W B" "a < MAXINT" "W a = []"
  shows "removeBlocked a s = Some (None, s)" "headBlocked a s = Some None"
  using assms asl_rel_inactive removeBlocked_inactive headBlocked_inactive
  unfolding asl_rel_def by metis+

text \<open>No descriptor is left when \<open>MAXPROC\<close> semaphores are active.\<close>

lemma asl_rel_full:
  assumes r: "asl_rel s W B" and A: "card A = MAXPROC" "\<forall>x\<in>A. W x \<noteq> []"
    and a: "a < MAXINT" "W a = []"
  shows "insertBlocked a p s = Some (True, s)"
proof -
  obtain h es t fs where asl: "asl_list s h es t fs" and W: "W = waiting es"
    using r unfolding asl_rel_def by blast
  have "A \<subseteq> e_addr ` set es" using A(2) waiting_none unfolding W by blast
  then have "card A \<le> card (e_addr ` set es)" by (intro card_mono) simp_all
  also have "\<dots> \<le> length es" using card_image_le [of "set es" e_addr] card_length [of es] by simp
  finally have "MAXPROC \<le> length es" using A(1) by simp
  then have "fs = []" using asl_list_blocked(4) [OF asl] by (cases fs) simp_all
  with asl have "asl_list s h es t []" by simp
  then show ?thesis
    by (rule insertBlocked_full [OF _ a(1)]) (rule asl_rel_inactive [OF asl], use a(2) W in simp)
qed

lemma asl_rel_out_none:
  assumes r: "asl_rel s W B" and p: "p < MAXPROC" "p_semAdd (procTable s p) < MAXINT"
    "W (p_semAdd (procTable s p)) = []"
  shows "outBlocked (Some p) s = Some (None, s)"
proof -
  obtain h es t fs where asl: "asl_list s h es t fs" and W: "W = waiting es"
    using r unfolding asl_rel_def by blast
  show ?thesis
    by (rule outBlocked_inactive [OF asl p(1,2)]) (rule asl_rel_inactive [OF asl], use p(3) W in simp)
qed

lemma asl_rel_head:
  assumes "asl_rel s W B" "W a = p # ps"
  shows "headBlocked a s = Some (Some p)"
proof -
  obtain h es1 d es2 t fs where asl: "asl_list s h (es1 @ (d, a, p # ps) # es2) t fs"
    and "W = waiting (es1 @ (d, a, p # ps) # es2)"
    and "B = mset (blocked (es1 @ (d, a, p # ps) # es2))"
    using asl_rel_obtain [OF assms] .
  from headBlocked_active [OF asl] show ?thesis by simp
qed

text \<open>
  Taking a blocked process out, when it is not the second of a longer queue. Its own block is
  not touched.
\<close>

lemma asl_rel_out:
  fixes s :: "'a asl_store_scheme"
  assumes r: "asl_rel s W B" and p: "p \<in> set (W a)"
    and g: "W a = [p] \<or> W a ! (1 mod length (W a)) \<noteq> p"
  shows "\<exists>T' S' fh. outBlocked (Some p) s
        = Some (Some p, s\<lparr>procTable := T', semdTable := S', semdFree_h := fh\<rparr>)
    \<and> asl_rel (s\<lparr>procTable := T', semdTable := S', semdFree_h := fh\<rparr>)
        (W(a := remove1 p (W a))) (B - {#p#})
    \<and> qframe (set (W a) - {p}) (procTable s) T'"
proof -
  obtain x xs where Wx: "W a = x # xs" using p by (cases "W a") auto
  define q where "q = x # xs"
  obtain h es1 d es2 t fs where asl': "asl_list s h (es1 @ (d, a, q) # es2) t fs"
    and W: "W = waiting (es1 @ (d, a, q) # es2)"
    and B: "B = mset (blocked (es1 @ (d, a, q) # es2))"
    using asl_rel_obtain [OF r Wx] unfolding q_def .
  have Wq: "W a = q" using Wx q_def by simp
  have Be: "B = mset q + mset (blocked (es1 @ es2))"
    unfolding B by (simp add: blocked_def)
  have pq: "p \<in> set q" using p Wq by simp
  show ?thesis
  proof (cases "q = [p]")
    case True
    obtain T' S' where run: "outBlocked (Some p) s
        = Some (Some p, s\<lparr>procTable := T', semdTable := S', semdFree_h := Some d\<rparr>)"
      and asl2: "asl_list (s\<lparr>procTable := T', semdTable := S', semdFree_h := Some d\<rparr>) h (es1 @ es2) t (d # fs)"
      and fr: "qframe (set q - {p}) (procTable s) T'"
      using outBlocked_drop [OF asl' pq] True by auto
    have "asl_rel (s\<lparr>procTable := T', semdTable := S', semdFree_h := Some d\<rparr>)
        (W(a := remove1 p q)) (B - {#p#})"
      by (rule asl_relI [OF asl2]) (use asl_waiting(3) [OF asl'] W True Be in auto)
    with run fr show ?thesis unfolding Wq by blast
  next
    case False
    then have g': "q ! (1 mod length q) \<noteq> p" using g Wq by simp
    obtain T' S' where run: "outBlocked (Some p) s = Some (Some p, s\<lparr>procTable := T', semdTable := S'\<rparr>)"
      and asl2: "asl_list (s\<lparr>procTable := T', semdTable := S'\<rparr>) h (es1 @ (d, a, remove1 p q) # es2) t fs"
      and fr: "qframe (set q - {p}) (procTable s) T'"
      using outBlocked_keep [OF asl' pq g'] by blast
    have "asl_rel (s\<lparr>procTable := T', semdTable := S'\<rparr>) (W(a := remove1 p q)) (B - {#p#})"
    proof (rule asl_relI [OF asl2])
      show "W(a := remove1 p q) = waiting (es1 @ (d, a, remove1 p q) # es2)"
        using asl_waiting(1) [OF asl', of "remove1 p q"] W by metis
      show "B - {#p#} = mset (blocked (es1 @ (d, a, remove1 p q) # es2))"
      proof -
        obtain M where "mset q = add_mset p M" using pq by (metis multi_member_split set_mset_mset)
        then show ?thesis unfolding Be by (simp add: blocked_def)
      qed
    qed
    with run fr show ?thesis unfolding Wq by (intro exI [of _ T'] exI [of _ S'] exI [of _ "semdFree_h s"]) simp
  qed
qed

lemma asl_rel_distinct: "asl_rel s W B \<Longrightarrow> distinct (W a)"
proof (cases "W a = []")
  case False
  assume r: "asl_rel s W B"
  obtain x xs where Wa: "W a = x # xs" using False by (cases "W a") auto
  obtain h es1 d es2 t fs where asl: "asl_list s h (es1 @ (d, a, x # xs) # es2) t fs"
    and "W = waiting (es1 @ (d, a, x # xs) # es2)"
    and "B = mset (blocked (es1 @ (d, a, x # xs) # es2))"
    using asl_rel_obtain [OF r Wa] .
  show "distinct (W a)" unfolding Wa by (rule procq_distinct [OF search_active(3) [OF asl]])
qed simp

lemma asl_rel_remove:
  fixes s :: "'a asl_store_scheme"
  assumes r: "asl_rel s W B" and W: "W a = p # ps"
  shows "\<exists>T' S' fh. removeBlocked a s
        = Some (Some p, s\<lparr>procTable := T', semdTable := S', semdFree_h := fh\<rparr>)
    \<and> asl_rel (s\<lparr>procTable := T', semdTable := S', semdFree_h := fh\<rparr>) (W(a := ps)) (B - {#p#})
    \<and> qframe (set ps) (procTable s) T'"
proof -
  have d: "p \<notin> set ps" using asl_rel_distinct [OF r, of a] W by simp
  obtain h es1 d' es2 t fs where asl: "asl_list s h (es1 @ (d', a, p # ps) # es2) t fs"
    and "W = waiting (es1 @ (d', a, p # ps) # es2)"
    and "B = mset (blocked (es1 @ (d', a, p # ps) # es2))"
    using asl_rel_obtain [OF r W] .
  from removeBlocked_out [OF asl] have rm: "removeBlocked a s = outBlocked (Some p) s" by simp
  have "W a = [p] \<or> W a ! (1 mod length (W a)) \<noteq> p" using W d by (cases ps) auto
  from asl_rel_out [OF r _ this] show ?thesis using W d rm by simp
qed

text \<open>
  The contract the kernel's P and V operations rely on: blocking appends to the semaphore's
  list and always finds room, waking takes its head, and the other semaphores are not touched.
\<close>

fun block_all ::
  "(memaddr \<Rightarrow> nat \<Rightarrow> 's \<Rightarrow> (bool \<times> 's) option) \<Rightarrow> memaddr \<Rightarrow> nat list \<Rightarrow> 's \<Rightarrow> 's option" where
  "block_all blk a [] s = Some s"
| "block_all blk a (p # ps) s = blk a p s \<bind> (\<lambda>(f, s1). if f then None else block_all blk a ps s1)"

fun wake_times ::
  "(memaddr \<Rightarrow> 's \<Rightarrow> (nat option \<times> 's) option) \<Rightarrow> memaddr \<Rightarrow> nat \<Rightarrow> 's \<Rightarrow> (nat option list \<times> 's) option"
  where
  "wake_times wk a 0 s = Some ([], s)"
| "wake_times wk a (Suc n) s = do {
     (r, s1) \<leftarrow> wk a s;
     (rs, s2) \<leftarrow> wake_times wk a n s1;
     Some (r # rs, s2)
   }"

locale sem_queues =
  fixes repr :: "'s \<Rightarrow> (memaddr \<Rightarrow> nat list) \<Rightarrow> bool"
    and elem :: "nat \<Rightarrow> bool"
    and sem :: "memaddr \<Rightarrow> bool"
    and blk :: "memaddr \<Rightarrow> nat \<Rightarrow> 's \<Rightarrow> (bool \<times> 's) option"
    and wk :: "memaddr \<Rightarrow> 's \<Rightarrow> (nat option \<times> 's) option"
    and hdq :: "memaddr \<Rightarrow> 's \<Rightarrow> nat option option"
  assumes block_law: "repr s W \<Longrightarrow> sem a \<Longrightarrow> elem p \<Longrightarrow> \<forall>b. p \<notin> set (W b) \<Longrightarrow>
      \<exists>s'. blk a p s = Some (False, s') \<and> repr s' (W(a := W a @ [p]))"
    and wake_empty_law: "repr s W \<Longrightarrow> sem a \<Longrightarrow> W a = [] \<Longrightarrow> wk a s = Some (None, s)"
    and wake_law: "repr s W \<Longrightarrow> sem a \<Longrightarrow> W a = p # ps \<Longrightarrow>
      \<exists>s'. wk a s = Some (Some p, s') \<and> repr s' (W(a := ps))"
    and head_law: "repr s W \<Longrightarrow> sem a \<Longrightarrow>
      hdq a s = Some (case W a of [] \<Rightarrow> None | p # _ \<Rightarrow> Some p)"
begin

lemma block_all_appends:
  "repr s W \<Longrightarrow> sem a \<Longrightarrow> distinct ps \<Longrightarrow> \<forall>p\<in>set ps. elem p \<and> (\<forall>b. p \<notin> set (W b)) \<Longrightarrow>
   \<exists>s'. block_all blk a ps s = Some s' \<and> repr s' (W(a := W a @ ps))"
proof (induction ps arbitrary: W s)
  case (Cons p ps)
  obtain s1 where "blk a p s = Some (False, s1)" "repr s1 (W(a := W a @ [p]))"
    using block_law [of s W a p] Cons.prems by auto
  moreover have "\<exists>s'. block_all blk a ps s1 = Some s'
      \<and> repr s' ((W(a := W a @ [p]))(a := (W(a := W a @ [p])) a @ ps))"
    using Cons.prems by (intro Cons.IH [OF calculation(2)]) auto
  then have "\<exists>s'. block_all blk a ps s1 = Some s' \<and> repr s' (W(a := W a @ p # ps))"
    by (simp only: fun_upd_upd fun_upd_same append_assoc append_Cons append_Nil)
  ultimately show ?case by (simp del: fun_upd_apply)
qed (auto simp: fun_upd_triv)

lemma wake_times_drains:
  "repr s W \<Longrightarrow> sem a \<Longrightarrow> W a = ps @ qs \<Longrightarrow>
   \<exists>s'. wake_times wk a (length ps) s = Some (map Some ps, s') \<and> repr s' (W(a := qs))"
proof (induction ps arbitrary: W s)
  case Nil
  then have "W(a := qs) = W" by auto
  with Nil show ?case by simp
next
  case (Cons p ps)
  obtain s1 where "wk a s = Some (Some p, s1)" "repr s1 (W(a := ps @ qs))"
    using wake_law [of s W a p "ps @ qs"] Cons.prems by auto
  moreover have "\<exists>s'. wake_times wk a (length ps) s1 = Some (map Some ps, s')
      \<and> repr s' ((W(a := ps @ qs))(a := qs))"
    using Cons.prems by (intro Cons.IH [OF calculation(2)]) auto
  then have "\<exists>s'. wake_times wk a (length ps) s1 = Some (map Some ps, s') \<and> repr s' (W(a := qs))"
    by (simp only: fun_upd_upd)
  ultimately show ?case by (auto simp del: fun_upd_apply)
qed

lemma woken_in_order:
  assumes "repr s W" "sem a" "distinct ps" "\<forall>p\<in>set ps. elem p \<and> (\<forall>b. p \<notin> set (W b))"
  shows "\<exists>s1 s2. block_all blk a ps s = Some s1
    \<and> wake_times wk a (length (W a @ ps)) s1 = Some (map Some (W a @ ps), s2)
    \<and> repr s2 (W(a := [])) \<and> hdq a s2 = Some None"
proof -
  obtain s1 where b: "block_all blk a ps s = Some s1" "repr s1 (W(a := W a @ ps))"
    using block_all_appends assms by blast
  then obtain s2 where w: "wake_times wk a (length (W a @ ps)) s1 = Some (map Some (W a @ ps), s2)"
    "repr s2 (W(a := []))"
    using wake_times_drains [of s1 "W(a := W a @ ps)" a "W a @ ps" "[]"] assms(2) by auto
  show ?thesis using b w head_law [OF w(2) assms(2)] by auto
qed

end

interpretation asl: sem_queues "\<lambda>s W. \<exists>B. asl_rel s W B" "\<lambda>p. p < MAXPROC" "\<lambda>a. 0 < a \<and> a < MAXINT"
  "\<lambda>a p. insertBlocked a (Some p)" removeBlocked headBlocked
proof
  fix s :: "'a asl_store_scheme" and W a p
  assume "\<exists>B. asl_rel s W B" "0 < a \<and> a < MAXINT" "p < MAXPROC" "\<forall>b. p \<notin> set (W b)"
  moreover from this obtain B where "asl_rel s W B" "p \<notin># B" using asl_rel_blocked_iff by metis
  ultimately show "\<exists>s'. insertBlocked a (Some p) s = Some (False, s')
      \<and> (\<exists>B. asl_rel s' (W(a := W a @ [p])) B)"
    using asl_rel_insert [of s W B a p] by blast
next
  fix s :: "'a asl_store_scheme" and W a p ps
  assume "\<exists>B. asl_rel s W B" "W a = p # ps"
  then show "\<exists>s'. removeBlocked a s = Some (Some p, s') \<and> (\<exists>B. asl_rel s' (W(a := ps)) B)"
    using asl_rel_remove by blast
next
  fix s :: "'a asl_store_scheme" and W a
  assume "\<exists>B. asl_rel s W B" "0 < a \<and> a < MAXINT"
  then show "headBlocked a s = Some (case W a of [] \<Rightarrow> None | p # _ \<Rightarrow> Some p)"
    by (cases "W a") (auto simp: asl_rel_remove_none asl_rel_head)
qed (auto simp: asl_rel_remove_none)

lemma asl_rel_strand:
  fixes s :: "'a asl_store_scheme"
  assumes r: "asl_rel s W B" and W: "W a = p1 # p2 # ps"
  shows "\<exists>T' S' fh. outBlocked (Some p2) s
        = Some (Some p2, s\<lparr>procTable := T', semdTable := S', semdFree_h := fh\<rparr>)
    \<and> asl_rel (s\<lparr>procTable := T', semdTable := S', semdFree_h := fh\<rparr>)
        (W(a := [])) (B - mset (W a))
    \<and> qframe (set (W a) - {p2}) (procTable s) T' \<and> (\<exists>tp. procq T' tp (p1 # ps))"
proof -
  obtain h es1 d es2 t fs where asl: "asl_list s h (es1 @ (d, a, p1 # p2 # ps) # es2) t fs"
    and We: "W = waiting (es1 @ (d, a, p1 # p2 # ps) # es2)"
    and B: "B = mset (blocked (es1 @ (d, a, p1 # p2 # ps) # es2))"
    using asl_rel_obtain [OF r W] .
  obtain T' S' where run: "outBlocked (Some p2) s
        = Some (Some p2, s\<lparr>procTable := T', semdTable := S', semdFree_h := Some d\<rparr>)"
    and asl2: "asl_list (s\<lparr>procTable := T', semdTable := S', semdFree_h := Some d\<rparr>) h (es1 @ es2) t (d # fs)"
    and fr: "qframe (set (p1 # p2 # ps) - {p2}) (procTable s) T'"
    and rest: "\<exists>tp. procq T' tp (remove1 p2 (p1 # p2 # ps))"
    using outBlocked_drop [OF asl, of p2] by auto
  have "p1 \<noteq> p2"
    using asl_list_addr [OF asl, of "(d, a, p1 # p2 # ps)"] asl_listD(9) [OF asl] by auto
  have "asl_rel (s\<lparr>procTable := T', semdTable := S', semdFree_h := Some d\<rparr>) (W(a := [])) (B - mset (W a))"
    by (rule asl_relI [OF asl2])
      (use asl_waiting(3) [OF asl] We W B in \<open>auto simp: blocked_def\<close>)
  with run fr rest \<open>p1 \<noteq> p2\<close> show ?thesis unfolding W by auto
qed

section \<open>Properties\<close>

text \<open>
  States for the witnesses: an initialised list, and the same list after 4, 7 and 2 have blocked
  on \<open>0x100\<close> and 5 on \<open>0x200\<close>.
\<close>

definition ex_asl0 :: asl_store where
  "ex_asl0 = the (initASL \<lparr>procTable = (\<lambda>_. ex_pcb), pcbFree_h = None,
     semdTable = (\<lambda>_. \<lparr>s_next = None, s_semAdd = 0, s_procQ = None\<rparr>),
     semd_h = None, semdFree_h = None\<rparr>)"

definition ex_asl :: asl_store where
  "ex_asl = the (block_all (\<lambda>a p. insertBlocked a (Some p)) 0x200 [5]
     (the (block_all (\<lambda>a p. insertBlocked a (Some p)) 0x100 [4, 7, 2] ex_asl0)))"

definition ex_W :: "memaddr \<Rightarrow> nat list" where
  "ex_W = (\<lambda>_. [])(0x100 := [4, 7, 2], 0x200 := [5])"

lemma ex_asl0_list: "asl_list ex_asl0 21 [] 20 (rev [0..<20])"
  unfolding ex_asl0_def
  using initASL_run [of "\<lparr>procTable = (\<lambda>_. ex_pcb), pcbFree_h = None,
     semdTable = (\<lambda>_. \<lparr>s_next = None, s_semAdd = 0, s_procQ = None\<rparr>),
     semd_h = None, semdFree_h = None\<rparr>"]
  by (auto simp: MAXPROC_def simp del: upt_rec_numeral)

lemma ex_asl0_rel: "asl_rel ex_asl0 (\<lambda>_. []) {#}"
  by (rule asl_relI [OF ex_asl0_list]) (auto simp: blocked_def)

lemma ex_asl_rel: "\<exists>B. asl_rel ex_asl ex_W B"
proof -
  let ?blk = "\<lambda>a p (s :: asl_store). insertBlocked a (Some p) s"
  obtain s1 where 1: "block_all ?blk 0x100 [4, 7, 2] ex_asl0 = Some s1"
    "\<exists>B. asl_rel s1 ((\<lambda>_. [])(0x100 := [4, 7, 2])) B"
    using asl.block_all_appends [of ex_asl0 "\<lambda>_. []" "0x100" "[4, 7, 2]"] ex_asl0_rel
    by (auto simp: MAXPROC_def MAXINT_def)
  obtain s2 where 2: "block_all ?blk 0x200 [5] s1 = Some s2" "\<exists>B. asl_rel s2 ex_W B"
    using asl.block_all_appends [OF 1(2), of "0x200" "[5]"]
    by (auto simp: MAXPROC_def MAXINT_def ex_W_def)
  have "ex_asl = s2" unfolding ex_asl_def using 1(1) 2(1) by simp
  with 2(2) show ?thesis by simp
qed

text \<open>
  The search of the active list always ends, and at the right descriptor: for every address
  the result is the last descriptor whose address is below it (the head sentinel if there is
  none), and the successor it returns the predecessor of has an address that is not below it.
\<close>

theorem searchSemd_predecessor:
  fixes s :: "'a asl_store_scheme"
  assumes "asl_list s h es t fs"
  shows "\<exists>par n. searchSemd a s = Some (Some par) \<and> par \<in> insert h (e_semd ` set es)
    \<and> (par = h \<or> s_semAdd (semdTable s par) < a)
    \<and> s_next (semdTable s par) = Some n \<and> n \<in> insert t (e_semd ` set es)
    \<and> a \<le> s_semAdd (semdTable s n)"
proof -
  obtain es1 es2 where es: "es = es1 @ es2" and lo: "\<forall>e\<in>set es1. e_addr e < a"
    and hi: "es2 \<noteq> [] \<Longrightarrow> a \<le> e_addr (hd es2)"
    using asl_list_find [OF assms] by blast
  note at = searchSemd_at [OF assms [unfolded es] lo hi]
  have "s_semAdd (semdTable s (e_semd e)) = e_addr e" if "e \<in> set es" for e
    using asl_listD(8) [OF assms] that by (auto simp: entry_ok_def)
  then show ?thesis using at es lo hi
    by (cases es1 rule: rev_cases; cases es2) (auto simp: asl_listD)
qed

theorem searchSemd_predecessor_witness:
  "\<exists>par n. searchSemd 0x180 ex_asl = Some (Some par) \<and> s_next (semdTable ex_asl par) = Some n
    \<and> 0x180 \<le> s_semAdd (semdTable ex_asl n)"
proof -
  obtain h es t fs where "asl_list ex_asl h es t fs" using ex_asl_rel by (auto simp: asl_rel_def)
  from searchSemd_predecessor [OF this, of "0x180"] show ?thesis by blast
qed

text \<open>
  initASL builds the semaphore lists from any earlier contents of memory: it returns, no
  semaphore has a waiting process, the two sentinels enclose an empty list, all 20 other
  descriptors are free, and no process control block has changed.
\<close>

theorem initASL_empty:
  "\<exists>s'. initASL s = Some s' \<and> asl_list s' (MAXPROC + 1) [] MAXPROC (rev [0..<MAXPROC])
     \<and> asl_rel s' (\<lambda>_. []) {#} \<and> procTable s' = procTable s"
proof -
  obtain s' where 1: "initASL s = Some s'" "procTable s' = procTable s"
    and 2: "asl_list s' (MAXPROC + 1) [] MAXPROC (rev [0..<MAXPROC])"
    using initASL_run [of s] by force
  from 2 have "asl_rel s' (\<lambda>_. []) {#}" by (rule asl_relI) (auto simp: blocked_def)
  with 1 2 show ?thesis by blast
qed

text \<open>
  C31. Blocking appends: insertBlocked of a process that waits nowhere puts it at the end of the
  queue of the semaphore, on a list that may not have had the semaphore before, always finds a
  descriptor (it never returns TRUE), records the semaphore in the process, and changes no other
  semaphore's queue.
\<close>

theorem insertBlocked_appends:
  fixes s :: "'a asl_store_scheme"
  assumes "asl_rel s W B" and "0 < a" and "a < MAXINT" and "p < MAXPROC" and "p \<notin># B"
  shows "\<exists>s'. insertBlocked a (Some p) s = Some (False, s')
    \<and> asl_rel s' (W(a := W a @ [p])) (add_mset p B) \<and> p_semAdd (procTable s' p) = a
    \<and> qframe (insert p (set (W a))) ((procTable s)(p := (procTable s p)\<lparr>p_semAdd := a\<rparr>)) (procTable s')"
proof -
  obtain T' S' fh where r: "insertBlocked a (Some p) s
        = Some (False, s\<lparr>procTable := T', semdTable := S', semdFree_h := fh\<rparr>)"
    "asl_rel (s\<lparr>procTable := T', semdTable := S', semdFree_h := fh\<rparr>) (W(a := W a @ [p])) (add_mset p B)"
    "qframe (insert p (set (W a))) ((procTable s)(p := (procTable s p)\<lparr>p_semAdd := a\<rparr>)) T'"
    using asl_rel_insert [OF assms] by blast
  have "p_semAdd (procTable (s\<lparr>procTable := T', semdTable := S', semdFree_h := fh\<rparr>) p) = a"
    by (rule asl_relD(5) [OF r(2)]) simp
  with r show ?thesis by simp
qed

theorem insertBlocked_appends_witness:
  "\<exists>s'. insertBlocked 0x300 (Some 9) ex_asl0 = Some (False, s')
     \<and> asl_rel s' ((\<lambda>_. [])(0x300 := [9])) {#9#}"
  using insertBlocked_appends [OF ex_asl0_rel, of "0x300" 9]
  by (auto simp: MAXINT_def MAXPROC_def)

text \<open>
  C32. Waking takes the first process: removeBlocked returns the head of the semaphore's queue
  and leaves the rest, frees the descriptor when the queue becomes empty, returns NULL without
  any change when nothing waits, and leaves every other semaphore's queue alone. The field
  p_semAdd of the process it returns still holds the semaphore's address.
\<close>

theorem removeBlocked_pops:
  fixes s :: "'a asl_store_scheme"
  assumes "asl_rel s W B" and "a < MAXINT"
  shows "\<exists>s'. removeBlocked a s = Some (if W a = [] then None else Some (hd (W a)), s')
    \<and> (W a = [] \<longrightarrow> s' = s)
    \<and> asl_rel s' (W(a := tl (W a))) (B - mset (take 1 (W a)))
    \<and> (W a \<noteq> [] \<longrightarrow> p_semAdd (procTable s' (hd (W a))) = a)"
proof (cases "W a")
  case Nil
  then have "W(a := tl (W a)) = W" by (simp add: fun_upd_idem)
  with Nil asl_rel_remove_none [OF assms] assms(1) show ?thesis by simp
next
  case (Cons p ps)
  obtain T' S' fh where r: "removeBlocked a s
        = Some (Some p, s\<lparr>procTable := T', semdTable := S', semdFree_h := fh\<rparr>)"
    "asl_rel (s\<lparr>procTable := T', semdTable := S', semdFree_h := fh\<rparr>) (W(a := ps)) (B - {#p#})"
    and fr: "qframe (set ps) (procTable s) T'"
    using asl_rel_remove [of s W B a p ps, OF assms(1) Cons] by blast
  have "p_semAdd (T' p) = a"
    using asl_relD(5) [OF assms(1), of p a] Cons by (simp add: qframe_fields [OF fr])
  with r Cons show ?thesis by simp
qed

theorem removeBlocked_pops_witness:
  "\<exists>s' B. removeBlocked 0x100 ex_asl = Some (Some 4, s')
     \<and> asl_rel s' (ex_W(0x100 := [7, 2])) B"
proof -
  have W: "ex_W 0x100 = [4, 7, 2]" by (simp add: ex_W_def)
  obtain B where "asl_rel ex_asl ex_W B" using ex_asl_rel ..
  from removeBlocked_pops [OF this, of "0x100"] show ?thesis by (auto simp: W MAXINT_def)
qed

text \<open>
  headBlocked returns the process that removeBlocked would return, and NULL when the
  semaphore has none, without changing the state.
\<close>

theorem headBlocked_first:
  fixes s :: "'a asl_store_scheme"
  assumes "asl_rel s W B" and "a < MAXINT"
  shows "headBlocked a s = Some (if W a = [] then None else Some (hd (W a)))"
  using assms by (cases "W a") (auto simp: asl_rel_remove_none asl_rel_head)

theorem headBlocked_first_witness:
  "headBlocked 0x100 ex_asl = Some (Some 4) \<and> headBlocked 0x300 ex_asl = Some None"
proof -
  obtain B where "asl_rel ex_asl ex_W B" using ex_asl_rel ..
  from headBlocked_first [OF this, of "0x100"] headBlocked_first [OF this, of "0x300"]
  show ?thesis by (auto simp: ex_W_def MAXINT_def)
qed

text \<open>
  C30. Semaphores are fair: processes that block on a semaphore one after the other are woken in
  that order, after those that waited before them; then nothing waits there, and the queues of
  the other semaphores are as before.
\<close>

theorem semaphore_fifo:
  fixes s :: "'a asl_store_scheme"
  assumes "asl_rel s W B" and "0 < a \<and> a < MAXINT" and "distinct ps"
    and "\<forall>p\<in>set ps. p < MAXPROC \<and> (\<forall>b. p \<notin> set (W b))"
  shows "\<exists>s1 s2 B'. block_all (\<lambda>a p. insertBlocked a (Some p)) a ps s = Some s1
    \<and> wake_times removeBlocked a (length (W a @ ps)) s1 = Some (map Some (W a @ ps), s2)
    \<and> asl_rel s2 (W(a := [])) B' \<and> headBlocked a s2 = Some None"
  using asl.woken_in_order [of s W a ps] assms by blast

theorem semaphore_fifo_witness:
  "\<exists>s1 s2. block_all (\<lambda>a p. insertBlocked a (Some p)) 0x200 [9, 0] ex_asl = Some s1
    \<and> wake_times removeBlocked 0x200 3 s1 = Some ([Some 5, Some 9, Some 0], s2)"
proof -
  obtain B where r: "asl_rel ex_asl ex_W B" using ex_asl_rel ..
  have h: "0 < (0x200 :: memaddr) \<and> 0x200 < MAXINT" "distinct [9, 0 :: nat]"
    "\<forall>p\<in>set [9, 0]. p < MAXPROC \<and> (\<forall>b. p \<notin> set (ex_W b))"
    by (simp_all add: MAXINT_def MAXPROC_def ex_W_def)
  have m: "map Some (ex_W 0x200 @ [9, 0]) = [Some 5, Some 9, Some 0]"
    "length (ex_W 0x200 @ [9, 0]) = 3" by (simp_all add: ex_W_def)
  show ?thesis using semaphore_fifo [OF r h] unfolding m by blast
qed

text \<open>
  C33. outBlocked takes a blocked process out and leaves the other processes of its semaphore
  queued in their order, when it waits alone or is not the second in the queue.
\<close>

theorem outBlocked_removes:
  fixes s :: "'a asl_store_scheme"
  assumes "asl_rel s W B" and "p \<in> set (W a)"
    and "W a = [p] \<or> W a ! (1 mod length (W a)) \<noteq> p"
  shows "\<exists>s'. outBlocked (Some p) s = Some (Some p, s')
    \<and> asl_rel s' (W(a := remove1 p (W a))) (B - {#p#})
    \<and> qframe (set (W a) - {p}) (procTable s) (procTable s')"
proof -
  obtain T' S' fh where "outBlocked (Some p) s
        = Some (Some p, s\<lparr>procTable := T', semdTable := S', semdFree_h := fh\<rparr>)"
    "asl_rel (s\<lparr>procTable := T', semdTable := S', semdFree_h := fh\<rparr>) (W(a := remove1 p (W a))) (B - {#p#})"
    "qframe (set (W a) - {p}) (procTable s) T'"
    using asl_rel_out [OF assms] by blast
  then show ?thesis by simp
qed

theorem outBlocked_removes_witness:
  "(\<exists>s' B. outBlocked (Some 2) ex_asl = Some (Some 2, s') \<and> asl_rel s' (ex_W(0x100 := [4, 7])) B)
   \<and> (\<exists>s' B. outBlocked (Some 5) ex_asl = Some (Some 5, s') \<and> asl_rel s' (ex_W(0x200 := [])) B)"
proof -
  have W: "ex_W 0x100 = [4, 7, 2]" "ex_W 0x200 = [5]" by (simp_all add: ex_W_def)
  obtain B where "asl_rel ex_asl ex_W B" using ex_asl_rel ..
  from outBlocked_removes [OF this, of 2 "0x100"] outBlocked_removes [OF this, of 5 "0x200"]
  show ?thesis by (auto simp: W)
qed

text \<open>
  C34. outBlocked of the second process in a queue frees the semaphore's descriptor, because its
  test for the last process compares the head's successor: every other process of the queue is
  lost. Each keeps the semaphore's address, and they stay linked to one another in a circular
  queue in their old order, but no semaphore's list reaches them, and removeBlocked on the address
  finds nobody.
\<close>

theorem outBlocked_second_strands:
  fixes s :: "'a asl_store_scheme"
  assumes "asl_rel s W B" and "W a = p1 # p2 # ps"
  shows "\<exists>s'. outBlocked (Some p2) s = Some (Some p2, s')
    \<and> asl_rel s' (W(a := [])) (B - mset (p1 # p2 # ps))
    \<and> (\<forall>q \<in> set (p1 # ps). p_semAdd (procTable s' q) = a)
    \<and> (\<exists>tp. procq (procTable s') tp (p1 # ps)) \<and> removeBlocked a s' = Some (None, s')"
proof -
  obtain T' S' fh tp where r: "outBlocked (Some p2) s
        = Some (Some p2, s\<lparr>procTable := T', semdTable := S', semdFree_h := fh\<rparr>)"
    "asl_rel (s\<lparr>procTable := T', semdTable := S', semdFree_h := fh\<rparr>) (W(a := [])) (B - mset (W a))"
    "qframe (set (W a) - {p2}) (procTable s) T'" "procq T' tp (p1 # ps)"
    using asl_rel_strand [OF assms] by blast
  have "a < MAXINT" "\<forall>q \<in> set (p1 # ps). p_semAdd (T' q) = a"
    using asl_relD [OF assms(1), of _ a] assms(2) by (auto simp: qframe_fields [OF r(3)])
  with r asl_rel_remove_none(1) [OF r(2), of a] assms(2) show ?thesis by (intro exI conjI) simp_all
qed

theorem outBlocked_second_strands_witness:
  "\<exists>s' tp. outBlocked (Some 7) ex_asl = Some (Some 7, s') \<and> p_semAdd (procTable s' 4) = 0x100
     \<and> p_semAdd (procTable s' 2) = 0x100 \<and> procq (procTable s') tp [4, 2]
     \<and> removeBlocked 0x100 s' = Some (None, s')"
proof -
  have W: "ex_W 0x100 = [4, 7, 2]" by (simp add: ex_W_def)
  obtain B where "asl_rel ex_asl ex_W B" using ex_asl_rel ..
  from outBlocked_second_strands [OF this W] show ?thesis by auto
qed

end
