(* ===== verification/Block_Places.thy ===== *)
theory Block_Places
  imports Asl
begin

text \<open>
  Where every process control block is. \<open>pool\<close> is the free list and one process queue, the
  other blocks being elsewhere; \<open>places\<close> adds the active semaphore list and the blocks that the
  caller has in hand. Both are kept by every operation of \<open>phase1\<close>, so their users (the phase 1
  test program and the nucleus) never look at a link.
\<close>

section \<open>The free list and a queue\<close>

definition pool ::
  "'a pcb_store_scheme \<Rightarrow> pcb_PTR \<Rightarrow> nat list \<Rightarrow> nat list \<Rightarrow> nat multiset \<Rightarrow> bool" where
  "pool s tp F R M \<longleftrightarrow>
     procq (procTable s) (pcbFree_h s) F \<and> procq (procTable s) tp R
     \<and> mset (F @ R) + M = mset [0..<MAXPROC]"

text \<open>The places are disjoint and cover the table.\<close>

lemma mset_upt_disj:
  assumes "mset xs + B = mset [0..<n]"
  shows "distinct xs" "\<And>p. p \<in> set xs \<Longrightarrow> p \<notin># B" "\<And>p. p \<in> set xs \<Longrightarrow> p < n" "\<And>p. p \<in># B \<Longrightarrow> p < n"
proof -
  have "count (mset [0..<n]) p \<le> 1" for p
    using distinct_count_atmost_1 [of "[0..<n]"] by simp
  then have c: "count (mset xs) p + count B p \<le> 1" for p
    by (metis assms count_union)
  show "distinct xs"
    unfolding distinct_count_atmost_1
  proof
    fix a
    have "count (mset xs) a \<le> 1" using c [of a] by simp
    moreover have "a \<in> set xs \<Longrightarrow> 0 < count (mset xs) a"
      by (metis count_greater_zero_iff set_mset_mset)
    ultimately have "count (mset xs) a = 1" if "a \<in> set xs" using that by linarith
    then show "count (mset xs) a = (if a \<in> set xs then 1 else 0)" by (simp only: count_mset_0_iff split: if_splits) simp
  qed
  show "p \<notin># B" if "p \<in> set xs" for p
  proof
    assume "p \<in># B"
    then have "count (mset xs) p > 0" "count B p > 0" using that by simp_all
    then show False using c [of p] by linarith
  qed
  have "p \<in># mset xs + B \<Longrightarrow> p < n" for p unfolding assms by simp
  then show "p \<in> set xs \<Longrightarrow> p < n" "p \<in># B \<Longrightarrow> p < n" for p by simp_all
qed

lemma poolD:
  assumes "pool s tp F R M"
  shows "procq (procTable s) (pcbFree_h s) F" "procq (procTable s) tp R"
    "mset (F @ R) + M = mset [0..<MAXPROC]" "distinct (F @ R)"
    "\<And>p. p \<in> set F \<union> set R \<Longrightarrow> p \<notin># M" "\<And>p. p \<in> set F \<union> set R \<or> p \<in># M \<Longrightarrow> p < MAXPROC"
  using assms mset_upt_disj [of "F @ R" M MAXPROC] unfolding pool_def by auto

lemma pool_cong:
  assumes "pool s tp F R M" "pcbFree_h s' = pcbFree_h s"
    and "\<And>p. p \<notin># M \<Longrightarrow> p_next (procTable s' p) = p_next (procTable s p)
        \<and> p_prev (procTable s' p) = p_prev (procTable s p)"
  shows "pool s' tp F R M"
proof -
  note d = poolD [OF assms(1)]
  have "procq (procTable s') (pcbFree_h s') F"
    using d(1,5) assms(3) unfolding assms(2) by (subst procq_cong [of F _ "procTable s"]) auto
  moreover have "procq (procTable s') tp R"
    using d(2,5) assms(3) by (subst procq_cong [of R _ "procTable s"]) auto
  ultimately show ?thesis using d(3) by (simp add: pool_def)
qed

lemma pool_alloc:
  fixes s :: "'a pcb_store_scheme"
  assumes q: "pool s tp (p # F) R M"
  shows "\<exists>T' h. allocPcb s = Some (Some p, s\<lparr>procTable := T', pcbFree_h := h\<rparr>)
    \<and> pool (s\<lparr>procTable := T', pcbFree_h := h\<rparr>) tp F R (add_mset p M)
    \<and> qframe (set F) ((procTable s)(p := clean_pcb (procTable s p))) T'"
proof -
  note d = poolD [OF q]
  obtain T' h where run: "allocPcb s = Some (Some p, s\<lparr>procTable := T', pcbFree_h := h\<rparr>)"
    and q': "procq T' h F" and fr: "qframe (set F) ((procTable s)(p := clean_pcb (procTable s p))) T'"
    using allocPcb_run [OF d(1)] by blast
  have "T' x = procTable s x" if "x \<in> set R" for x
    using that d(4) by (subst qframe_out [OF fr]) auto
  then have "procq T' tp R" using d(2) by (subst procq_cong [of R _ "procTable s"]) simp_all
  then have "pool (s\<lparr>procTable := T', pcbFree_h := h\<rparr>) tp F R (add_mset p M)"
    using q' d(3) by (simp add: pool_def)
  with run fr show ?thesis by blast
qed

lemma pool_alloc_none: "pool s tp [] R M \<Longrightarrow> allocPcb s = Some (None, s)"
  by (rule allocPcb_none) (simp add: pool_def)

lemma pool_free:
  fixes s :: "'a pcb_store_scheme"
  assumes q: "pool s tp F R (add_mset p M)"
  shows "\<exists>T'. freePcb (Some p) s = Some (s\<lparr>procTable := T', pcbFree_h := Some p\<rparr>)
    \<and> pool (s\<lparr>procTable := T', pcbFree_h := Some p\<rparr>) tp (F @ [p]) R M
    \<and> qframe (insert p (set F)) ((procTable s)(p := clean_pcb (procTable s p))) T'"
proof -
  note d = poolD [OF q]
  have p: "p < MAXPROC" "p \<notin> set F" "p \<notin> set R" using d(5) [of p] d(6) [of p] by auto
  obtain T' where run: "freePcb (Some p) s = Some (s\<lparr>procTable := T', pcbFree_h := Some p\<rparr>)"
    and q': "procq T' (Some p) (F @ [p])"
    and fr: "qframe (insert p (set F)) ((procTable s)(p := clean_pcb (procTable s p))) T'"
    using freePcb_run [OF d(1) p(1,2)] by blast
  have "T' x = procTable s x" if "x \<in> set R" for x
    using that d(4) p(3) by (subst qframe_out [OF fr]) auto
  then have "procq T' tp R" using d(2) by (subst procq_cong [of R _ "procTable s"]) simp_all
  then have "pool (s\<lparr>procTable := T', pcbFree_h := Some p\<rparr>) tp (F @ [p]) R M"
    using q' d(3) by (simp add: pool_def)
  with run fr show ?thesis by blast
qed

lemma pool_insert:
  fixes s :: "'a pcb_store_scheme"
  assumes q: "pool s tp F R (add_mset p M)"
  shows "\<exists>T'. insertProcQ tp (Some p) s = Some (Some p, s\<lparr>procTable := T'\<rparr>)
    \<and> pool (s\<lparr>procTable := T'\<rparr>) (Some p) F (R @ [p]) M
    \<and> qframe (insert p (set R)) (procTable s) T'"
proof -
  note d = poolD [OF q]
  have p: "p < MAXPROC" "p \<notin> set F" "p \<notin> set R" using d(5) [of p] d(6) [of p] by auto
  obtain T' where run: "insertProcQ tp (Some p) s = Some (Some p, s\<lparr>procTable := T'\<rparr>)"
    and q': "procq T' (Some p) (R @ [p])" and fr: "qframe (insert p (set R)) (procTable s) T'"
    using insertProcQ_run [OF d(2) p(1,3)] by blast
  have "procq T' (pcbFree_h s) F" using d(4) p(2) by (intro procq_frame [OF d(1) fr]) auto
  then have "pool (s\<lparr>procTable := T'\<rparr>) (Some p) F (R @ [p]) M"
    using q' d(3) by (simp add: pool_def)
  with run fr show ?thesis by blast
qed

lemma pool_out:
  fixes s :: "'a pcb_store_scheme"
  assumes q: "pool s tp F R M" and p: "p \<in> set R"
  shows "\<exists>T' tp'. outProcQ tp (Some p) s = Some (Some p, tp', s\<lparr>procTable := T'\<rparr>)
    \<and> pool (s\<lparr>procTable := T'\<rparr>) tp' F (remove1 p R) (add_mset p M)
    \<and> qframe (set R) (procTable s) T'"
proof -
  note d = poolD [OF q]
  obtain T' tp' where run: "outProcQ tp (Some p) s = Some (Some p, tp', s\<lparr>procTable := T'\<rparr>)"
    and q': "procq T' tp' (remove1 p R)" and fr0: "qframe (set R - {p}) (procTable s) T'"
    using outProcQ_run [OF d(2) p] by blast
  have fr: "qframe (set R) (procTable s) T'" by (rule qframe_mono [OF fr0]) blast
  have "procq T' (pcbFree_h s) F" using d(4) by (intro procq_frame [OF d(1) fr]) auto
  moreover obtain Q where "mset R = add_mset p Q" using p by (metis multi_member_split set_mset_mset)
  ultimately have "pool (s\<lparr>procTable := T'\<rparr>) tp' F (remove1 p R) (add_mset p M)"
    using q' d(3) by (simp add: pool_def)
  with run fr show ?thesis by blast
qed

lemma pool_out_absent:
  "pool s tp F R M \<Longrightarrow> p \<notin> set R \<Longrightarrow> outProcQ tp (Some p) s = Some (None, tp, s)"
  using outProcQ_absent unfolding pool_def by blast

lemma pool_remove:
  fixes s :: "'a pcb_store_scheme"
  assumes q: "pool s tp F (p # R) M"
  shows "\<exists>T' tp'. removeProcQ tp s = Some (Some p, tp', s\<lparr>procTable := T'\<rparr>)
    \<and> pool (s\<lparr>procTable := T'\<rparr>) tp' F R (add_mset p M)
    \<and> qframe (set R) (procTable s) T'"
proof -
  note d = poolD [OF q]
  obtain T' tp' where run: "removeProcQ tp s = Some (Some p, tp', s\<lparr>procTable := T'\<rparr>)"
    and q': "procq T' tp' R" and fr: "qframe (set R) (procTable s) T'"
    using removeProcQ_run [OF d(2)] by blast
  have "procq T' (pcbFree_h s) F" using d(4) by (intro procq_frame [OF d(1) fr]) auto
  then have "pool (s\<lparr>procTable := T'\<rparr>) tp' F R (add_mset p M)"
    using q' d(3) by (simp add: pool_def)
  with run fr show ?thesis by blast
qed

lemma pool_remove_none: "pool s tp F [] M \<Longrightarrow> removeProcQ tp s = Some (None, None, s)"
  using removeProcQ_empty unfolding pool_def by blast

lemma pool_head: "pool s tp F R M \<Longrightarrow> headProcQ tp s = Some (if R = [] then None else Some (hd R))"
  using headProcQ_run unfolding pool_def by blast

lemma pool_empty: "pool s tp F R M \<Longrightarrow> emptyProcQ tp = (R = [])"
  using procq_empty_iff unfolding pool_def by blast


section \<open>With the semaphore list\<close>

text \<open>
  \<open>W a\<close> waits on the semaphore at \<open>a\<close>, \<open>H\<close> is in hand. No block of the queue names a semaphore.
\<close>

definition places ::
  "'a asl_store_scheme \<Rightarrow> pcb_PTR \<Rightarrow> nat list \<Rightarrow> nat list \<Rightarrow> (memaddr \<Rightarrow> nat list) \<Rightarrow> nat list \<Rightarrow> bool"
  where
  "places s tp F R W H \<longleftrightarrow>
     (\<exists>B. asl_rel s W B \<and> pool s tp F R (mset H + B)) \<and> (\<forall>p\<in>set R. p_semAdd (procTable s p) = NULL)"

lemma placesE:
  assumes "places s tp F R W H"
  obtains B where "asl_rel s W B" "pool s tp F R (mset H + B)"
    "\<forall>p\<in>set R. p_semAdd (procTable s p) = NULL"
    "\<forall>p. p \<in># B \<longrightarrow> p < MAXPROC \<and> p \<notin> set F \<and> p \<notin> set R \<and> p \<notin> set H"
proof -
  obtain B where B: "asl_rel s W B" "pool s tp F R (mset H + B)" "\<forall>p\<in>set R. p_semAdd (procTable s p) = NULL"
    using assms unfolding places_def by blast
  have "mset (F @ R @ H) + B = mset [0..<MAXPROC]" using poolD(3) [OF B(2)] by (simp add: ac_simps)
  from mset_upt_disj(2,4) [OF this] have "p \<in># B \<Longrightarrow> p < MAXPROC \<and> p \<notin> set F \<and> p \<notin> set R \<and> p \<notin> set H" for p
    by auto
  with B show thesis using that by blast
qed

lemma placesI:
  "asl_rel s W B \<Longrightarrow> pool s tp F R (mset H + B) \<Longrightarrow> (\<And>p. p \<in> set R \<Longrightarrow> p_semAdd (procTable s p) = NULL) \<Longrightarrow>
   places s tp F R W H"
  unfolding places_def by blast

lemma places_distinct:
  assumes "places s tp F R W H"
  shows "distinct (F @ R @ H)" "\<And>p. p \<in> set (F @ R @ H) \<Longrightarrow> p < MAXPROC"
    "\<And>p a. p \<in> set (F @ R @ H) \<Longrightarrow> p \<notin> set (W a)"
proof -
  obtain B where B: "asl_rel s W B" "pool s tp F R (mset H + B)" using assms unfolding places_def by blast
  have "mset (F @ R @ H) + B = mset [0..<MAXPROC]" using poolD(3) [OF B(2)] by (simp add: ac_simps)
  note m = mset_upt_disj [OF this]
  show "distinct (F @ R @ H)" by (rule m(1))
  show "p < MAXPROC" if "p \<in> set (F @ R @ H)" for p by (rule m(3) [OF that])
  show "p \<notin> set (W a)" if "p \<in> set (F @ R @ H)" for p a
    using m(2) [OF that] asl_relD(1) [where W = W, OF B(1)] by blast
qed

lemma places_wait:
  assumes "places s tp F R W H" "p \<in> set (W a)"
  shows "p < MAXPROC" "0 < a" "a < MAXINT" "p_semAdd (procTable s p) = a"
proof -
  obtain B where "asl_rel s W B" using assms(1) unfolding places_def by blast
  from asl_relD(2-5) [where W = W, OF this assms(2)]
  show "p < MAXPROC" "0 < a" "a < MAXINT" "p_semAdd (procTable s p) = a" by blast+
qed

lemma places_wait_distinct: "places s tp F R W H \<Longrightarrow> distinct (W a)"
  using asl_rel_distinct unfolding places_def by blast

lemma places_wait_unique: "places s tp F R W H \<Longrightarrow> p \<in> set (W a) \<Longrightarrow> p \<in> set (W b) \<Longrightarrow> a = b"
  using asl_rel_inj unfolding places_def by blast

text \<open>Only the heads, the descriptors, the queue links and \<open>p_semAdd\<close> of queued blocks matter.\<close>

lemma places_cong:
  assumes k: "places s tp F R W H"
    and eq: "pcbFree_h s' = pcbFree_h s"
      "semdTable s' = semdTable s" "semd_h s' = semd_h s" "semdFree_h s' = semdFree_h s"
    and T: "\<And>p. p \<notin> set H \<Longrightarrow> p_next (procTable s' p) = p_next (procTable s p)
        \<and> p_prev (procTable s' p) = p_prev (procTable s p)
        \<and> p_semAdd (procTable s' p) = p_semAdd (procTable s p)"
  shows "places s' tp F R W H"
proof -
  obtain B where B: "asl_rel s W B" "pool s tp F R (mset H + B)"
    "\<forall>p\<in>set R. p_semAdd (procTable s p) = NULL"
    "\<forall>p. p \<in># B \<longrightarrow> p < MAXPROC \<and> p \<notin> set F \<and> p \<notin> set R \<and> p \<notin> set H" using placesE [OF k] .
  have "asl_rel s' W B" by (rule asl_rel_cong [OF B(1) eq(2-4)]) (use T B(4) in blast)
  moreover have "pool s' tp F R (mset H + B)" by (rule pool_cong [OF B(2) eq(1)]) (use T in auto)
  moreover have "p \<notin> set H" if "p \<in> set R" for p using places_distinct(1) [OF k] that by auto
  ultimately show ?thesis using B(3) T by (intro placesI) auto
qed

lemma places_alloc:
  fixes s :: "'a asl_store_scheme"
  assumes k: "places s tp (p # F) R W H"
  shows "\<exists>T' h. allocPcb s = Some (Some p, s\<lparr>procTable := T', pcbFree_h := h\<rparr>)
    \<and> places (s\<lparr>procTable := T', pcbFree_h := h\<rparr>) tp F R W (p # H)
    \<and> qframe (set F) ((procTable s)(p := clean_pcb (procTable s p))) T'"
proof -
  obtain B where B: "asl_rel s W B" "pool s tp (p # F) R (mset H + B)"
    "\<forall>x\<in>set R. p_semAdd (procTable s x) = NULL"
    "\<forall>x. x \<in># B \<longrightarrow> x < MAXPROC \<and> x \<notin> set (p # F) \<and> x \<notin> set R \<and> x \<notin> set H" using placesE [OF k] .
  obtain T' h where run: "allocPcb s = Some (Some p, s\<lparr>procTable := T', pcbFree_h := h\<rparr>)"
    and q: "pool (s\<lparr>procTable := T', pcbFree_h := h\<rparr>) tp F R (add_mset p (mset H + B))"
    and fr: "qframe (set F) ((procTable s)(p := clean_pcb (procTable s p))) T'"
    using pool_alloc [OF B(2)] by blast
  have out: "T' x = procTable s x" if "x \<in> set R \<or> x \<in># B" for x
    using that B(4) places_distinct(1) [OF k] by (subst qframe_out [OF fr]) auto
  have "asl_rel (s\<lparr>procTable := T', pcbFree_h := h\<rparr>) W B"
    by (rule asl_rel_cong [OF B(1)]) (use out in auto)
  then have "places (s\<lparr>procTable := T', pcbFree_h := h\<rparr>) tp F R W (p # H)"
    using q B(3) out by (intro placesI) auto
  with run fr show ?thesis by blast
qed

lemma places_free:
  fixes s :: "'a asl_store_scheme"
  assumes k: "places s tp F R W (p # H)"
  shows "\<exists>T'. freePcb (Some p) s = Some (s\<lparr>procTable := T', pcbFree_h := Some p\<rparr>)
    \<and> places (s\<lparr>procTable := T', pcbFree_h := Some p\<rparr>) tp (F @ [p]) R W H
    \<and> qframe (insert p (set F)) ((procTable s)(p := clean_pcb (procTable s p))) T'"
proof -
  obtain B where B: "asl_rel s W B" "pool s tp F R (mset (p # H) + B)"
    "\<forall>x\<in>set R. p_semAdd (procTable s x) = NULL"
    "\<forall>x. x \<in># B \<longrightarrow> x < MAXPROC \<and> x \<notin> set F \<and> x \<notin> set R \<and> x \<notin> set (p # H)" using placesE [OF k] .
  obtain T' where run: "freePcb (Some p) s = Some (s\<lparr>procTable := T', pcbFree_h := Some p\<rparr>)"
    and q: "pool (s\<lparr>procTable := T', pcbFree_h := Some p\<rparr>) tp (F @ [p]) R (mset H + B)"
    and fr: "qframe (insert p (set F)) ((procTable s)(p := clean_pcb (procTable s p))) T'"
    using pool_free [of s tp F R p "mset H + B"] B(2) by auto
  have out: "T' x = procTable s x" if "x \<in> set R \<or> x \<in># B" for x
    using that B(4) places_distinct(1) [OF k] by (subst qframe_out [OF fr]) auto
  have "asl_rel (s\<lparr>procTable := T', pcbFree_h := Some p\<rparr>) W B"
    by (rule asl_rel_cong [OF B(1)]) (use out in auto)
  then have "places (s\<lparr>procTable := T', pcbFree_h := Some p\<rparr>) tp (F @ [p]) R W H"
    using q B(3) out by (intro placesI) auto
  with run fr show ?thesis by blast
qed

lemma places_insert:
  fixes s :: "'a asl_store_scheme"
  assumes k: "places s tp F R W (p # H)" and n: "p_semAdd (procTable s p) = NULL"
  shows "\<exists>T'. insertProcQ tp (Some p) s = Some (Some p, s\<lparr>procTable := T'\<rparr>)
    \<and> places (s\<lparr>procTable := T'\<rparr>) (Some p) F (R @ [p]) W H
    \<and> qframe (insert p (set R)) (procTable s) T'"
proof -
  obtain B where B: "asl_rel s W B" "pool s tp F R (mset (p # H) + B)"
    "\<forall>x\<in>set R. p_semAdd (procTable s x) = NULL"
    "\<forall>x. x \<in># B \<longrightarrow> x < MAXPROC \<and> x \<notin> set F \<and> x \<notin> set R \<and> x \<notin> set (p # H)" using placesE [OF k] .
  obtain T' where run: "insertProcQ tp (Some p) s = Some (Some p, s\<lparr>procTable := T'\<rparr>)"
    and q: "pool (s\<lparr>procTable := T'\<rparr>) (Some p) F (R @ [p]) (mset H + B)"
    and fr: "qframe (insert p (set R)) (procTable s) T'"
    using pool_insert [of s tp F R p "mset H + B"] B(2) by auto
  have "asl_rel (s\<lparr>procTable := T'\<rparr>) W B"
    by (rule asl_rel_cong [OF B(1)]) (use B(4) qframe_out [OF fr] in auto)
  then have "places (s\<lparr>procTable := T'\<rparr>) (Some p) F (R @ [p]) W H"
    using q B(3) n by (intro placesI) (auto simp: qframe_fields [OF fr])
  with run fr show ?thesis by blast
qed

lemma places_out:
  fixes s :: "'a asl_store_scheme"
  assumes k: "places s tp F R W H" and p: "p \<in> set R"
  shows "\<exists>T' tp'. outProcQ tp (Some p) s = Some (Some p, tp', s\<lparr>procTable := T'\<rparr>)
    \<and> places (s\<lparr>procTable := T'\<rparr>) tp' F (remove1 p R) W (p # H)
    \<and> qframe (set R) (procTable s) T'"
proof -
  obtain B where B: "asl_rel s W B" "pool s tp F R (mset H + B)"
    "\<forall>x\<in>set R. p_semAdd (procTable s x) = NULL"
    "\<forall>x. x \<in># B \<longrightarrow> x < MAXPROC \<and> x \<notin> set F \<and> x \<notin> set R \<and> x \<notin> set H" using placesE [OF k] .
  obtain T' tp' where run: "outProcQ tp (Some p) s = Some (Some p, tp', s\<lparr>procTable := T'\<rparr>)"
    and q: "pool (s\<lparr>procTable := T'\<rparr>) tp' F (remove1 p R) (add_mset p (mset H + B))"
    and fr: "qframe (set R) (procTable s) T'" using pool_out [OF B(2) p] by blast
  have "asl_rel (s\<lparr>procTable := T'\<rparr>) W B"
    by (rule asl_rel_cong [OF B(1)]) (use B(4) qframe_out [OF fr] in auto)
  then have "places (s\<lparr>procTable := T'\<rparr>) tp' F (remove1 p R) W (p # H)"
    using q B(3) notin_set_remove1 [of _ R p] by (intro placesI) (auto simp: qframe_fields [OF fr])
  with run fr show ?thesis by blast
qed

lemma places_remove:
  fixes s :: "'a asl_store_scheme"
  assumes k: "places s tp F (p # R) W H"
  shows "\<exists>T' tp'. removeProcQ tp s = Some (Some p, tp', s\<lparr>procTable := T'\<rparr>)
    \<and> places (s\<lparr>procTable := T'\<rparr>) tp' F R W (p # H)
    \<and> qframe (set R) (procTable s) T' \<and> p_semAdd (procTable s p) = NULL"
proof -
  obtain B where B: "asl_rel s W B" "pool s tp F (p # R) (mset H + B)"
    "\<forall>x\<in>set (p # R). p_semAdd (procTable s x) = NULL"
    "\<forall>x. x \<in># B \<longrightarrow> x < MAXPROC \<and> x \<notin> set F \<and> x \<notin> set (p # R) \<and> x \<notin> set H" using placesE [OF k] .
  obtain T' tp' where run: "removeProcQ tp s = Some (Some p, tp', s\<lparr>procTable := T'\<rparr>)"
    and q: "pool (s\<lparr>procTable := T'\<rparr>) tp' F R (add_mset p (mset H + B))"
    and fr: "qframe (set R) (procTable s) T'" using pool_remove [OF B(2)] by blast
  have "asl_rel (s\<lparr>procTable := T'\<rparr>) W B"
    by (rule asl_rel_cong [OF B(1)]) (use B(4) qframe_out [OF fr] in auto)
  then have "places (s\<lparr>procTable := T'\<rparr>) tp' F R W (p # H)"
    using q B(3) by (intro placesI) (auto simp: qframe_fields [OF fr])
  with run fr B(3) show ?thesis by auto
qed


lemma places_block:
  fixes s :: "'a asl_store_scheme"
  assumes k: "places s tp F R W (p # H)" and a: "0 < a" "a < MAXINT"
  shows "\<exists>T' S' fh. insertBlocked a (Some p) s
        = Some (False, s\<lparr>procTable := T', semdTable := S', semdFree_h := fh\<rparr>)
    \<and> places (s\<lparr>procTable := T', semdTable := S', semdFree_h := fh\<rparr>) tp F R (W(a := W a @ [p])) H
    \<and> qframe (insert p (set (W a))) ((procTable s)(p := (procTable s p)\<lparr>p_semAdd := a\<rparr>)) T'"
proof -
  obtain B where B: "asl_rel s W B" "pool s tp F R (mset (p # H) + B)"
    "\<forall>x\<in>set R. p_semAdd (procTable s x) = NULL"
    "\<forall>x. x \<in># B \<longrightarrow> x < MAXPROC \<and> x \<notin> set F \<and> x \<notin> set R \<and> x \<notin> set (p # H)" using placesE [OF k] .
  note d = places_distinct [OF k]
  have p: "p < MAXPROC" "p \<notin># B" using d(2) [of p] B(4) by auto
  let ?T0 = "(procTable s)(p := (procTable s p)\<lparr>p_semAdd := a\<rparr>)"
  obtain T' S' fh where run: "insertBlocked a (Some p) s
        = Some (False, s\<lparr>procTable := T', semdTable := S', semdFree_h := fh\<rparr>)"
    and r: "asl_rel (s\<lparr>procTable := T', semdTable := S', semdFree_h := fh\<rparr>) (W(a := W a @ [p])) (add_mset p B)"
    and fr: "qframe (insert p (set (W a))) ?T0 T'"
    using asl_rel_insert [OF B(1) a p] by blast
  have out: "T' x = procTable s x" if "x \<in> set F \<union> set R" for x
    using that d(1) d(3) [of x a] by (subst qframe_out [OF fr]) auto
  let ?s = "s\<lparr>procTable := T', semdTable := S', semdFree_h := fh\<rparr>"
  have "procq T' (pcbFree_h s) F"
    using poolD(1) [OF B(2)] out by (subst procq_cong [of F _ "procTable s"]) auto
  moreover have "procq T' tp R"
    using poolD(2) [OF B(2)] out by (subst procq_cong [of R _ "procTable s"]) auto
  ultimately have "pool ?s tp F R (mset H + add_mset p B)"
    using poolD(3) [OF B(2)] by (simp add: pool_def)
  then have "places ?s tp F R (W(a := W a @ [p])) H" using r B(3) out by (intro placesI) auto
  with run fr show ?thesis by blast
qed

text \<open>Taking a process off a semaphore: what \<open>removeBlocked\<close> and \<open>outBlocked\<close> leave.\<close>

lemma places_unblock:
  fixes s :: "'a asl_store_scheme"
  assumes k: "places s tp F R W H" and B: "asl_rel s W B" "pool s tp F R (mset H + B)"
    and p: "p \<in> set (W a)"
    and r: "asl_rel (s\<lparr>procTable := T', semdTable := S', semdFree_h := fh\<rparr>) (W(a := q)) (B - {#p#})"
    and fr: "qframe (set (W a)) (procTable s) T'"
  shows "places (s\<lparr>procTable := T', semdTable := S', semdFree_h := fh\<rparr>) tp F R (W(a := q)) (p # H)"
proof -
  have n: "\<forall>x\<in>set R. p_semAdd (procTable s x) = NULL" using k unfolding places_def by blast
  have "p \<in># B" using asl_relD(1) [where W = W, OF B(1) p] .
  then obtain B' where B': "B = add_mset p B'" by (meson multi_member_split)
  have out: "x \<notin> set (W a)" if "x \<in> set F \<union> set R" for x
    using that places_distinct(3) [OF k, of x a] by auto
  have "procq T' (pcbFree_h s) F" using out by (intro procq_frame [OF poolD(1) [OF B(2)] fr]) auto
  moreover have "procq T' tp R" using out by (intro procq_frame [OF poolD(2) [OF B(2)] fr]) auto
  ultimately have "pool (s\<lparr>procTable := T', semdTable := S', semdFree_h := fh\<rparr>) tp F R (mset (p # H) + B')"
    using poolD(3) [OF B(2)] B' by (simp add: pool_def)
  then show ?thesis using r n B' by (intro placesI) (auto simp: qframe_fields [OF fr])
qed

lemma places_wake:
  fixes s :: "'a asl_store_scheme"
  assumes k: "places s tp F R W H" and W: "W a = p # ps"
  shows "\<exists>T' S' fh. removeBlocked a s
        = Some (Some p, s\<lparr>procTable := T', semdTable := S', semdFree_h := fh\<rparr>)
    \<and> places (s\<lparr>procTable := T', semdTable := S', semdFree_h := fh\<rparr>) tp F R (W(a := ps)) (p # H)
    \<and> qframe (set ps) (procTable s) T'"
proof -
  obtain B where B: "asl_rel s W B" "pool s tp F R (mset H + B)" using k unfolding places_def by blast
  obtain T' S' fh where run: "removeBlocked a s
        = Some (Some p, s\<lparr>procTable := T', semdTable := S', semdFree_h := fh\<rparr>)"
    and r: "asl_rel (s\<lparr>procTable := T', semdTable := S', semdFree_h := fh\<rparr>) (W(a := ps)) (B - {#p#})"
    and fr: "qframe (set ps) (procTable s) T'"
    using asl_rel_remove [where W = W, OF B(1) W] by blast
  have "qframe (set (W a)) (procTable s) T'" by (rule qframe_mono [OF fr]) (simp add: W subset_insertI)
  from places_unblock [OF k B _ r this] run fr W show ?thesis by auto
qed

text \<open>When \<open>outBlocked\<close> is right for \<open>p\<close>: it waits alone, or it is not the second in the queue.\<close>

definition removable :: "nat \<Rightarrow> (memaddr \<Rightarrow> nat list) \<Rightarrow> bool" where
  "removable p W \<longleftrightarrow>
     (\<forall>a. p \<in> set (W a) \<longrightarrow> W a = [p] \<or> W a ! (1 mod length (W a)) \<noteq> p)"

lemma places_outBlocked:
  fixes s :: "'a asl_store_scheme"
  assumes k: "places s tp F R W H" and p: "p \<in> set (W a)" and g: "removable p W"
  shows "\<exists>T' S' fh. outBlocked (Some p) s
        = Some (Some p, s\<lparr>procTable := T', semdTable := S', semdFree_h := fh\<rparr>)
    \<and> places (s\<lparr>procTable := T', semdTable := S', semdFree_h := fh\<rparr>) tp F R (W(a := remove1 p (W a))) (p # H)
    \<and> qframe (set (W a)) (procTable s) T'"
proof -
  obtain B where B: "asl_rel s W B" "pool s tp F R (mset H + B)" using k unfolding places_def by blast
  obtain T' S' fh where run: "outBlocked (Some p) s
        = Some (Some p, s\<lparr>procTable := T', semdTable := S', semdFree_h := fh\<rparr>)"
    and r: "asl_rel (s\<lparr>procTable := T', semdTable := S', semdFree_h := fh\<rparr>)
        (W(a := remove1 p (W a))) (B - {#p#})"
    and fr0: "qframe (set (W a) - {p}) (procTable s) T'"
    using asl_rel_out [where W = W, OF B(1) p] g p unfolding removable_def by blast
  have fr: "qframe (set (W a)) (procTable s) T'" by (rule qframe_mono [OF fr0]) blast
  from places_unblock [OF k B p r fr] run fr show ?thesis by blast
qed

lemma places_wake_none: "places s tp F R W H \<Longrightarrow> a < MAXINT \<Longrightarrow> W a = [] \<Longrightarrow> removeBlocked a s = Some (None, s)"
  using asl_rel_remove_none(1) unfolding places_def by blast

lemma places_head:
  assumes "places s tp F R W H" "a < MAXINT"
  shows "headBlocked a s = Some (if W a = [] then None else Some (hd (W a)))"
proof -
  obtain B where "asl_rel s W B" using assms(1) unfolding places_def by blast
  from asl_rel_head [OF this] asl_rel_remove_none(2) [OF this assms(2)] show ?thesis by (cases "W a") auto
qed

lemma places_block_full:
  assumes "places s tp F R W H" "card A = MAXPROC" "\<forall>x\<in>A. W x \<noteq> []" "a < MAXINT" "W a = []"
  shows "insertBlocked a p s = Some (True, s)"
  using asl_rel_full [of s W _ A a p] assms unfolding places_def by blast

lemma places_out_none:
  assumes "places s tp F R W H" "p < MAXPROC" "p_semAdd (procTable s p) < MAXINT"
    "W (p_semAdd (procTable s p)) = []"
  shows "outBlocked (Some p) s = Some (None, s)"
  using asl_rel_out_none [of s W _ p] assms unfolding places_def by blast

end
