(* ===== verification/Kernel_State.thy ===== *)
theory Kernel_State
  imports Pcb_Tree Block_Places "HOL-Library.Signed_Division"
begin

text \<open>
  The state of the nucleus (the globals of \<open>phase2/initial.c\<close>), the memory and the hardware
  registers its code reads and writes, and the helpers every handler uses: semaphores in
  memory, saved processor states, \<open>stateCopy\<close>, the clock macros, and how a handler ends.

  Memory is split by type. \<open>int_mem\<close> holds the integers that semaphore pointers reach, among
  them the device semaphores at \<open>devSemTable_addr + 4 * i\<close>; \<open>st_mem\<close> holds the processor states
  that \<open>state_PTR\<close>s reach, among them the old and new areas. An address that is not mapped
  (unaligned, outside RAM, \<open>NULL\<close>) has no value and an access to it faults. Objects of
  different types do not overlap.
\<close>

section \<open>State\<close>

record kernel = asl_store +
  processCount :: int
  softBlockCount :: int
  currentProcess :: pcb_PTR
  readyQue :: pcb_PTR
  time :: word32
  waitFlag :: int
  int_mem :: "memaddr \<Rightarrow> word32 option"
  st_mem :: "memaddr \<Rightarrow> state_t option"
  devSemTable_addr :: memaddr
  busreg :: devregarea_t
  tod :: "nat \<Rightarrow> word32"
  tod_reads :: nat
  localtimer :: word32
  cp0_status :: word32

text \<open>
  The last six fields are the machine: the link-time address of \<open>devSemTable\<close>, the bus register
  area at \<open>RAMBASEADDR\<close>, the processor's local timer and status register. \<open>TODLO\<close> changes
  between reads: \<open>tod n\<close> is the value the \<open>n\<close>-th read sees, and \<open>tod_reads\<close> counts the reads.
\<close>

section \<open>Semaphores in memory\<close>

definition rd_int :: "memaddr \<Rightarrow> kernel \<Rightarrow> word32 option" where
  "rd_int a s = int_mem s a"

definition wr_int :: "memaddr \<Rightarrow> word32 \<Rightarrow> kernel \<Rightarrow> kernel option" where
  "wr_int a v s =
     (case int_mem s a of None \<Rightarrow> None | Some _ \<Rightarrow> Some (s\<lparr>int_mem := (int_mem s)(a \<mapsto> v)\<rparr>))"

text \<open>\<open>&(devSemTable[n])\<close>, with the machine's wrapping address arithmetic.\<close>

definition devSem_addr :: "kernel \<Rightarrow> int \<Rightarrow> memaddr" where
  "devSem_addr s n = devSemTable_addr s + 4 * word_of_int n"

section \<open>Processor states\<close>

text \<open>A \<open>state_PTR\<close> reaches a state in memory or the \<open>p_s\<close> field of a process control block.\<close>

datatype state_ref = StAt memaddr | StOf pcb_PTR

fun rd_state :: "state_ref \<Rightarrow> kernel \<Rightarrow> state_t option" where
  "rd_state (StAt a) s = st_mem s a"
| "rd_state (StOf p) s = map_option p_s (rd_pcb p s)"

fun upd_state :: "state_ref \<Rightarrow> (state_t \<Rightarrow> state_t) \<Rightarrow> kernel \<Rightarrow> kernel option" where
  "upd_state (StAt a) f s =
     (case st_mem s a of
        None \<Rightarrow> None
      | Some st \<Rightarrow> Some (s\<lparr>st_mem := (st_mem s)(a \<mapsto> f st)\<rparr>))"
| "upd_state (StOf p) f s = upd_pcb p (\<lambda>x. x\<lparr>p_s := f (p_s x)\<rparr>) s"

definition stateCopy :: "state_ref \<Rightarrow> state_ref \<Rightarrow> kernel \<Rightarrow> kernel option" where
  "stateCopy old new s = do {
     o1 \<leftarrow> rd_state old s;
     s1 \<leftarrow> upd_state new (\<lambda>x. x\<lparr>s_asid := s_asid o1\<rparr>) s;
     o2 \<leftarrow> rd_state old s1;
     s2 \<leftarrow> upd_state new (\<lambda>x. x\<lparr>s_cause := s_cause o2\<rparr>) s1;
     o3 \<leftarrow> rd_state old s2;
     s3 \<leftarrow> upd_state new (\<lambda>x. x\<lparr>s_status := s_status o3\<rparr>) s2;
     o4 \<leftarrow> rd_state old s3;
     s4 \<leftarrow> upd_state new (\<lambda>x. x\<lparr>s_pc := s_pc o4\<rparr>) s3;
     foldM (\<lambda>i t. do {
         oi \<leftarrow> rd_state old t;
         upd_state new (\<lambda>x. x\<lparr>s_reg := (s_reg x)[i := s_reg oi ! i]\<rparr>) t
       }) [0..<STATEREGNUM] s4
   }"

text \<open>\<open>stateCopyPCB\<close> is the same sequence of assignments into \<open>p->p_s\<close>.\<close>

definition stateCopyPCB :: "pcb_PTR \<Rightarrow> state_ref \<Rightarrow> kernel \<Rightarrow> kernel option" where
  "stateCopyPCB p st s = stateCopy st (StOf p) s"

section \<open>Clocks\<close>

text \<open>\<open>STCK(T)\<close>: the signed quotient of \<open>TODLO\<close> and \<open>TIMESCALE\<close>.\<close>

definition STCK :: "kernel \<Rightarrow> (word32 \<times> kernel) option" where
  "STCK s =
     (if timescale (busreg s) = 0 then None
      else Some (word_of_int (sint (tod s (tod_reads s)) sdiv sint (timescale (busreg s))),
                 s\<lparr>tod_reads := Suc (tod_reads s)\<rparr>))"

definition LDIT :: "word32 \<Rightarrow> kernel \<Rightarrow> kernel" where
  "LDIT T s = s\<lparr>busreg := (busreg s)\<lparr>intervaltimer := T * timescale (busreg s)\<rparr>\<rparr>"

section \<open>How a handler ends\<close>

text \<open>
  \<open>LDST\<close>, \<open>HALT\<close>, \<open>PANIC\<close> (of the machine's library) do not return; \<open>WAIT\<close> idles until an
  interrupt starts \<open>interruptHandler\<close>. \<open>Exit_return\<close> is the end of a C function body: for an
  exception handler, a return to a caller that does not exist.
\<close>

datatype kexit = Exit_LDST state_t | Exit_HALT | Exit_PANIC | Exit_WAIT | Exit_return

type_synonym outcome = "(kexit \<times> kernel) option"

definition LDST :: "state_ref \<Rightarrow> kernel \<Rightarrow> outcome" where
  "LDST r s = do { st \<leftarrow> rd_state r s; Some (Exit_LDST st, s) }"

text \<open>\<open>f(); rest\<close>: the rest runs only if \<open>f\<close> returns.\<close>

definition kseq :: "outcome \<Rightarrow> (kernel \<Rightarrow> outcome) \<Rightarrow> outcome" where
  "kseq m k = do {
     (e, s) \<leftarrow> m;
     (case e of Exit_return \<Rightarrow> k s | _ \<Rightarrow> Some (e, s))
   }"

lemma kseq_simps [simp]:
  "kseq None k = None"
  "kseq (Some (Exit_return, s)) k = k s"
  "kseq (Some (Exit_LDST st, s)) k = Some (Exit_LDST st, s)"
  "kseq (Some (Exit_HALT, s)) k = Some (Exit_HALT, s)"
  "kseq (Some (Exit_PANIC, s)) k = Some (Exit_PANIC, s)"
  "kseq (Some (Exit_WAIT, s)) k = Some (Exit_WAIT, s)"
  by (simp_all add: kseq_def)

text \<open>\<open>insertProcQ(&readyQue, p)\<close>.\<close>

definition insertReady :: "pcb_PTR \<Rightarrow> kernel \<Rightarrow> kernel option" where
  "insertReady p s = do {
     (rq, s1) \<leftarrow> insertProcQ (readyQue s) p s;
     Some (s1\<lparr>readyQue := rq\<rparr>)
   }"

text \<open>\<open>p->p_time = p->p_time + (currTime - time)\<close>.\<close>

definition chargeTime :: "pcb_PTR \<Rightarrow> word32 \<Rightarrow> kernel \<Rightarrow> kernel option" where
  "chargeTime p currTime s = upd_pcb p (\<lambda>x. x\<lparr>p_time := p_time x + (currTime - time s)\<rparr>) s"

section \<open>Facts about memory\<close>

lemma rd_int_wr_int:
  "wr_int a v s = Some s' \<Longrightarrow> rd_int b s' = (if b = a then Some v else rd_int b s)"
  by (auto simp: wr_int_def rd_int_def split: option.splits)

lemma wr_int_run [simp]:
  "int_mem s a = Some u \<Longrightarrow> wr_int a v s = Some (s\<lparr>int_mem := (int_mem s)(a \<mapsto> v)\<rparr>)"
  by (simp add: wr_int_def)

lemma upd_state_Some:
  "rd_state r s = Some st \<Longrightarrow> \<exists>s'. upd_state r f s = Some s' \<and> rd_state r s' = Some (f st)"
  by (cases r) (auto simp: rd_pcb_def upd_pcb_def split: option.splits if_splits)

lemma rd_upd_state:
  assumes "upd_state r f s = Some s'"
  shows "rd_state r' s' = (if r' = r then map_option f (rd_state r s) else rd_state r' s)"
  using assms
  by (cases r; cases r') (auto simp: rd_pcb_def upd_pcb_def split: option.splits if_splits)

lemma upd_upd_state:
  "upd_state r f s = Some s1 \<Longrightarrow> upd_state r g s1 = upd_state r (g \<circ> f) s"
  by (cases r) (auto simp: upd_pcb_def split: option.splits if_splits)

lemma upd_state_cong:
  "rd_state r s = Some st \<Longrightarrow> f st = g st \<Longrightarrow> upd_state r f s = upd_state r g s"
  by (cases r) (auto simp: rd_pcb_def upd_pcb_def split: option.splits if_splits)

text \<open>
  \<open>stateCopy\<close> assigns field by field and register by register. After the first \<open>i\<close> registers
  the destination is this mixture; after all of them it is the source.
\<close>

definition copied :: "state_t \<Rightarrow> nat \<Rightarrow> state_t \<Rightarrow> state_t" where
  "copied st i x = x\<lparr>s_asid := s_asid st, s_cause := s_cause st, s_status := s_status st,
     s_pc := s_pc st, s_reg := take i (s_reg st) @ drop i (s_reg x)\<rparr>"

lemma copied_self: "copied st i st = st"
  by (simp add: copied_def)

lemma copied_all: "wf_state st \<Longrightarrow> wf_state x \<Longrightarrow> copied st STATEREGNUM x = st"
  by (simp add: copied_def wf_state_def)

lemma copied_step:
  assumes "wf_state st" "wf_state x" "i < STATEREGNUM"
  shows "(copied st i x)\<lparr>s_reg := (s_reg (copied st i x))[i := s_reg st ! i]\<rparr> = copied st (Suc i) x"
proof -
  have "(take i (s_reg st) @ drop i (s_reg x))[i := s_reg st ! i]
      = take (Suc i) (s_reg st) @ drop (Suc i) (s_reg x)"
    using assms unfolding wf_state_def
    by (simp add: list_update_append take_Suc_conv_app_nth Cons_nth_drop_Suc [symmetric] min_def)
  then show ?thesis by (simp add: copied_def)
qed

lemma stateCopy_run:
  assumes old: "rd_state old s = Some st" "wf_state st"
    and new: "rd_state new s = Some x" "wf_state x"
  shows "stateCopy old new s = upd_state new (\<lambda>_. st) s"
proof -
  have src: "rd_state old t = Some st" if "upd_state new f s = Some t" "f st = st" for f t
    using rd_upd_state [OF that(1), of old] old(1) that(2) by auto
  have ex: "\<exists>t. upd_state new f s = Some t" for f
    using upd_state_Some [OF new(1)] by blast
  define f1 where "f1 = (\<lambda>x :: state_t. x\<lparr>s_asid := s_asid st\<rparr>)"
  define f2 where "f2 = (\<lambda>x. x\<lparr>s_cause := s_cause st\<rparr>) \<circ> f1"
  define f3 where "f3 = (\<lambda>x. x\<lparr>s_status := s_status st\<rparr>) \<circ> f2"
  define f4 where "f4 = (\<lambda>x. x\<lparr>s_pc := s_pc st\<rparr>) \<circ> f3"
  have fix_st: "f1 st = st" "f2 st = st" "f3 st = st" "f4 st = st"
    by (simp_all add: f1_def f2_def f3_def f4_def)
  have f4: "f4 y = copied st 0 y" for y
    by (simp add: f1_def f2_def f3_def f4_def copied_def)
  obtain s1 s2 s3 s4 where u: "upd_state new f1 s = Some s1" "upd_state new f2 s = Some s2"
    "upd_state new f3 s = Some s3" "upd_state new f4 s = Some s4" using ex by metis
  have steps: "upd_state new (\<lambda>x. x\<lparr>s_cause := s_cause st\<rparr>) s1 = Some s2"
    "upd_state new (\<lambda>x. x\<lparr>s_status := s_status st\<rparr>) s2 = Some s3"
    "upd_state new (\<lambda>x. x\<lparr>s_pc := s_pc st\<rparr>) s3 = Some s4"
    using u by (simp_all add: upd_upd_state [OF u(1)] upd_upd_state [OF u(2)]
        upd_upd_state [OF u(3)] f2_def [symmetric] f3_def [symmetric] f4_def [symmetric])
  let ?body = "\<lambda>i t. do {
         oi \<leftarrow> rd_state old t;
         upd_state new (\<lambda>x. x\<lparr>s_reg := (s_reg x)[i := s_reg oi ! i]\<rparr>) t
       }"
  have "\<exists>t. foldM ?body [0..<STATEREGNUM] s4 = Some t
      \<and> upd_state new (copied st STATEREGNUM) s = Some t"
  proof (rule foldM_upt_inv [where I = "\<lambda>i t. upd_state new (copied st i) s = Some t"])
    show "upd_state new (copied st 0) s = Some s4" using u(4) f4 by (metis f4 ext)
  next
    fix i t assume i: "i < STATEREGNUM" and t: "upd_state new (copied st i) s = Some t"
    have "rd_state old t = Some st" using src [OF t copied_self] .
    moreover have "upd_state new (\<lambda>x. x\<lparr>s_reg := (s_reg x)[i := s_reg st ! i]\<rparr>) t
        = upd_state new (copied st (Suc i)) s"
      unfolding upd_upd_state [OF t]
      by (rule upd_state_cong [OF new(1)]) (use copied_step [OF old(2) new(2) i] in simp)
    ultimately show "\<exists>t'. ?body i t = Some t' \<and> upd_state new (copied st (Suc i)) s = Some t'"
      using ex by simp
  qed
  moreover have "upd_state new (copied st STATEREGNUM) s = upd_state new (\<lambda>_. st) s"
    by (rule upd_state_cong [OF new(1)]) (rule copied_all [OF old(2) new(2)])
  ultimately have "foldM ?body [0..<STATEREGNUM] s4 = upd_state new (\<lambda>_. st) s" by auto
  then show ?thesis
    unfolding stateCopy_def using old(1) src [OF u(1) fix_st(1)] src [OF u(2) fix_st(2)]
      src [OF u(3) fix_st(3)] u(1) steps by (simp add: f1_def)
qed

section \<open>Properties\<close>

text \<open>A machine for the witnesses, before the nucleus has run.\<close>

definition ex_bus :: devregarea_t where
  "ex_bus = \<lparr>rambase = 0x20000000, ramsize = 0x80000, execbase = 0, execsize = 0, bootbase = 0,
     bootsize = 0, todhi = 0, todlo = 0, intervaltimer = 0, timescale = 1,
     inst_dev = (\<lambda>_. 0), interrupt_dev = (\<lambda>_. 0),
     devreg = (\<lambda>_. \<lparr>d_status = 1, d_command = 0, d_data0 = 1, d_data1 = 0\<rparr>)\<rparr>"

definition ex_machine :: kernel where
  "ex_machine = \<lparr>procTable = (\<lambda>_. ex_pcb), pcbFree_h = None,
     semdTable = (\<lambda>_. \<lparr>s_next = None, s_semAdd = 0, s_procQ = None\<rparr>), semd_h = None, semdFree_h = None,
     processCount = 0, softBlockCount = 0, currentProcess = None, readyQue = None, time = 0,
     waitFlag = 0, int_mem = (\<lambda>a. if a = NULL then None else Some 0),
     st_mem = (\<lambda>a. if a = NULL then None else Some ex_state), devSemTable_addr = 0x20002000,
     busreg = ex_bus, tod = (\<lambda>n. word_of_nat (10 * n)), tod_reads = 0, localtimer = 0,
     cp0_status = 0\<rparr>"

definition ex_other :: state_t where
  "ex_other = \<lparr>s_asid = 1, s_cause = 2, s_status = 3, s_pc = 4, s_reg = map word_of_nat [0..<31]\<rparr>"

text \<open>
  stateCopy copies a whole processor state: whatever the two pointers reach, also the same
  state, after its assignments and its loop over the 31 registers the destination equals the
  source in every field, and nothing else in memory has changed.
\<close>

theorem stateCopy_copies:
  assumes "rd_state old s = Some st" and "wf_state st"
    and "rd_state new s = Some x" and "wf_state x"
  shows "\<exists>s'. stateCopy old new s = Some s' \<and> rd_state new s' = Some st
    \<and> (\<forall>r. r \<noteq> new \<longrightarrow> rd_state r s' = rd_state r s)"
proof -
  obtain s' where u: "upd_state new (\<lambda>_. st) s = Some s'" "rd_state new s' = Some st"
    using upd_state_Some [OF assms(3)] by metis
  then show ?thesis using stateCopy_run [OF assms] rd_upd_state [OF u(1)] by auto
qed

theorem stateCopy_copies_witness:
  "\<exists>s'. stateCopy (StAt SYSCALLOLDAREA) (StOf (Some 3))
        (ex_machine\<lparr>st_mem := (st_mem ex_machine)(SYSCALLOLDAREA \<mapsto> ex_other)\<rparr>) = Some s'
     \<and> p_s (procTable s' 3) = ex_other"
proof -
  let ?s = "ex_machine\<lparr>st_mem := (st_mem ex_machine)(SYSCALLOLDAREA \<mapsto> ex_other)\<rparr>"
  have "rd_state (StAt SYSCALLOLDAREA) ?s = Some ex_other" "wf_state ex_other"
    "rd_state (StOf (Some 3)) ?s = Some ex_state" "wf_state ex_state"
    by (simp_all add: ex_other_def ex_state_def wf_state_def STATEREGNUM_def ex_machine_def
        ex_pcb_def MAXPROC_def)
  from stateCopy_copies [OF this] show ?thesis by (auto simp: MAXPROC_def)
qed

end
