(* ===== verification/Kernel_Inv.thy ===== *)
theory Kernel_Inv
  imports Kernel_State
begin

text \<open>
  The abstract kernel and what relates the concrete state to it.

  Abstractly, every process control block is in exactly one place: on the free list, on the
  ready queue, on the queue of one semaphore, or running. \<open>kq\<close> says that of the linked
  structures, with the blocks a handler has in hand in the middle of an operation; \<open>krel\<close> adds
  the counters and \<open>currentProcess\<close> and holds between handlers. The lemmas about \<open>kq\<close> give the
  effect of each queue operation on it, so that the handlers are verified without looking at a
  link again.
\<close>

section \<open>The queues\<close>

definition kq ::
  "kernel \<Rightarrow> nat list \<Rightarrow> nat list \<Rightarrow> (memaddr \<Rightarrow> nat list) \<Rightarrow> nat list \<Rightarrow> bool" where
  "kq s F R W H \<longleftrightarrow> places s (readyQue s) F R W H"

lemma kqD:
  assumes "kq s F R W H"
  shows "procq (procTable s) (pcbFree_h s) F" "procq (procTable s) (readyQue s) R"
    "\<And>p. p \<in> set R \<Longrightarrow> p_semAdd (procTable s p) = NULL"
  using assms unfolding kq_def places_def pool_def by blast+

lemma kq_distinct:
  assumes "kq s F R W H"
  shows "distinct (F @ R @ H)" "\<And>p. p \<in> set (F @ R @ H) \<Longrightarrow> p < MAXPROC"
    "\<And>p a. p \<in> set (F @ R @ H) \<Longrightarrow> p \<notin> set (W a)"
  using places_distinct [OF assms [unfolded kq_def]] by blast+

lemma kq_wait:
  assumes "kq s F R W H" "p \<in> set (W a)"
  shows "p < MAXPROC" "0 < a" "a < MAXINT" "p_semAdd (procTable s p) = a"
  using places_wait [where W = W, OF assms(1) [unfolded kq_def] assms(2)] by blast+

lemma kq_wait_distinct: "kq s F R W H \<Longrightarrow> distinct (W a)"
  unfolding kq_def by (rule places_wait_distinct)

lemma kq_wait_unique: "kq s F R W H \<Longrightarrow> p \<in> set (W a) \<Longrightarrow> p \<in> set (W b) \<Longrightarrow> a = b"
  unfolding kq_def by (rule places_wait_unique)

lemma kq_wake_none: "kq s F R W H \<Longrightarrow> a < MAXINT \<Longrightarrow> W a = [] \<Longrightarrow> removeBlocked a s = Some (None, s)"
  unfolding kq_def by (rule places_wake_none)

lemma kq_head:
  "kq s F R W H \<Longrightarrow> a < MAXINT \<Longrightarrow>
   headBlocked a s = Some (if W a = [] then None else Some (hd (W a)))"
  unfolding kq_def by (rule places_head)

text \<open>Only the heads, the descriptors, the queue links and \<open>p_semAdd\<close> of queued blocks matter.\<close>

lemma kq_cong:
  assumes "kq s F R W H"
    and "pcbFree_h s' = pcbFree_h s" "readyQue s' = readyQue s"
      "semdTable s' = semdTable s" "semd_h s' = semd_h s" "semdFree_h s' = semdFree_h s"
    and "\<And>p. p \<notin> set H \<Longrightarrow> p_next (procTable s' p) = p_next (procTable s p)
        \<and> p_prev (procTable s' p) = p_prev (procTable s p)
        \<and> p_semAdd (procTable s' p) = p_semAdd (procTable s p)"
  shows "kq s' F R W H"
  using places_cong [of s "readyQue s" F R W H s'] assms by (simp add: kq_def)

text \<open>The order of the blocks in hand does not matter.\<close>

lemma kq_hand: "kq s F R W H \<Longrightarrow> mset H' = mset H \<Longrightarrow> kq s F R W H'"
  by (simp add: kq_def places_def)

lemma kq_insertReady:
  fixes s :: kernel
  assumes "kq s F R W (p # H)" and "p_semAdd (procTable s p) = NULL"
  shows "\<exists>T'. insertReady (Some p) s = Some (s\<lparr>procTable := T', readyQue := Some p\<rparr>)
    \<and> kq (s\<lparr>procTable := T', readyQue := Some p\<rparr>) F (R @ [p]) W H
    \<and> qframe (insert p (set R)) (procTable s) T'"
proof -
  obtain T' where "insertProcQ (readyQue s) (Some p) s = Some (Some p, s\<lparr>procTable := T'\<rparr>)"
    and "places (s\<lparr>procTable := T'\<rparr>) (Some p) F (R @ [p]) W H"
    and "qframe (insert p (set R)) (procTable s) T'"
    using places_insert [OF assms(1) [unfolded kq_def] assms(2)] by blast
  moreover from this(2) have "places (s\<lparr>procTable := T', readyQue := Some p\<rparr>) (Some p) F (R @ [p]) W H"
    by (rule places_cong) simp_all
  ultimately show ?thesis by (auto simp: insertReady_def kq_def)
qed

lemma kq_removeReady:
  fixes s :: kernel
  assumes "kq s F (p # R) W H"
  shows "\<exists>T' rq. removeProcQ (readyQue s) s = Some (Some p, rq, s\<lparr>procTable := T'\<rparr>)
    \<and> kq (s\<lparr>procTable := T', readyQue := rq\<rparr>) F R W (p # H)
    \<and> qframe (set R) (procTable s) T' \<and> p_semAdd (procTable s p) = NULL"
proof -
  obtain T' rq where "removeProcQ (readyQue s) s = Some (Some p, rq, s\<lparr>procTable := T'\<rparr>)"
    and "places (s\<lparr>procTable := T'\<rparr>) rq F R W (p # H)"
    and "qframe (set R) (procTable s) T'" "p_semAdd (procTable s p) = NULL"
    using places_remove [OF assms [unfolded kq_def]] by blast
  moreover from this(2) have "places (s\<lparr>procTable := T', readyQue := rq\<rparr>) rq F R W (p # H)"
    by (rule places_cong) simp_all
  ultimately show ?thesis by (auto simp: kq_def)
qed

lemma kq_outReady:
  fixes s :: kernel
  assumes "kq s F R W H" and "p \<in> set R"
  shows "\<exists>T' rq. outProcQ (readyQue s) (Some p) s = Some (Some p, rq, s\<lparr>procTable := T'\<rparr>)
    \<and> kq (s\<lparr>procTable := T', readyQue := rq\<rparr>) F (remove1 p R) W (p # H)
    \<and> qframe (set R) (procTable s) T'"
proof -
  obtain T' rq where "outProcQ (readyQue s) (Some p) s = Some (Some p, rq, s\<lparr>procTable := T'\<rparr>)"
    and "places (s\<lparr>procTable := T'\<rparr>) rq F (remove1 p R) W (p # H)"
    and "qframe (set R) (procTable s) T'"
    using places_out [OF assms(1) [unfolded kq_def] assms(2)] by blast
  moreover from this(2) have "places (s\<lparr>procTable := T', readyQue := rq\<rparr>) rq F (remove1 p R) W (p # H)"
    by (rule places_cong) simp_all
  ultimately show ?thesis by (auto simp: kq_def)
qed

lemma kq_block:
  fixes s :: kernel
  assumes "kq s F R W (p # H)" and "0 < a" "a < MAXINT"
  shows "\<exists>T' S' fh. insertBlocked a (Some p) s
        = Some (False, s\<lparr>procTable := T', semdTable := S', semdFree_h := fh\<rparr>)
    \<and> kq (s\<lparr>procTable := T', semdTable := S', semdFree_h := fh\<rparr>) F R (W(a := W a @ [p])) H
    \<and> qframe (insert p (set (W a))) ((procTable s)(p := (procTable s p)\<lparr>p_semAdd := a\<rparr>)) T'"
  using places_block [OF assms(1) [unfolded kq_def] assms(2,3)] by (simp add: kq_def)

lemma kq_wake:
  fixes s :: kernel
  assumes "kq s F R W H" and "W a = p # ps"
  shows "\<exists>T' S' fh. removeBlocked a s
        = Some (Some p, s\<lparr>procTable := T', semdTable := S', semdFree_h := fh\<rparr>)
    \<and> kq (s\<lparr>procTable := T', semdTable := S', semdFree_h := fh\<rparr>) F R (W(a := ps)) (p # H)
    \<and> qframe (set ps) (procTable s) T'"
  using places_wake [where W = W, OF assms(1) [unfolded kq_def] assms(2)] by (simp add: kq_def)

lemma kq_outBlocked:
  fixes s :: kernel
  assumes "kq s F R W H" and "p \<in> set (W a)" and "removable p W"
  shows "\<exists>T' S' fh. outBlocked (Some p) s
        = Some (Some p, s\<lparr>procTable := T', semdTable := S', semdFree_h := fh\<rparr>)
    \<and> kq (s\<lparr>procTable := T', semdTable := S', semdFree_h := fh\<rparr>) F R (W(a := remove1 p (W a))) (p # H)
    \<and> qframe (set (W a)) (procTable s) T'"
  using places_outBlocked [where W = W, OF assms(1) [unfolded kq_def] assms(2,3)] by (simp add: kq_def)

lemma kq_free:
  fixes s :: kernel
  assumes "kq s F R W (p # H)"
  shows "\<exists>T'. freePcb (Some p) s = Some (s\<lparr>procTable := T', pcbFree_h := Some p\<rparr>)
    \<and> kq (s\<lparr>procTable := T', pcbFree_h := Some p\<rparr>) (F @ [p]) R W H
    \<and> qframe (insert p (set F)) ((procTable s)(p := clean_pcb (procTable s p))) T'"
  using places_free [OF assms [unfolded kq_def]] by (simp add: kq_def)

lemma kq_alloc:
  fixes s :: kernel
  assumes "kq s (p # F) R W H"
  shows "\<exists>T' h. allocPcb s = Some (Some p, s\<lparr>procTable := T', pcbFree_h := h\<rparr>)
    \<and> kq (s\<lparr>procTable := T', pcbFree_h := h\<rparr>) F R W (p # H)
    \<and> qframe (set F) ((procTable s)(p := clean_pcb (procTable s p))) T'"
  using places_alloc [OF assms [unfolded kq_def]] by (simp add: kq_def)

section \<open>The device semaphores\<close>

definition devsem :: "memaddr \<Rightarrow> nat \<Rightarrow> memaddr" where
  "devsem b i = b + 4 * word_of_nat i"

lemma devSem_addr_devsem: "devSem_addr s (int i) = devsem (devSemTable_addr s) i"
  by (simp add: devSem_addr_def devsem_def)

text \<open>Where the linker may place the table of 49 integers: not at 0 and below \<open>MAXINT\<close>.\<close>

definition dev_range :: "memaddr \<Rightarrow> bool" where
  "dev_range b \<longleftrightarrow> 0 < b \<and> uint b + 4 * int DEVSEMS \<le> uint MAXINT"

lemma uint_devsem:
  assumes "dev_range b" "i < DEVSEMS"
  shows "uint (devsem b i) = uint b + 4 * int i"
proof -
  have lim: "uint b + 4 * int i < 2 ^ 32" "4 * int i < 2 ^ 32" "0 \<le> uint b"
    using assms by (simp_all add: dev_range_def DEVSEMS_49 MAXINT_def)
  have "uint (4 * word_of_nat i :: word32) = 4 * int i"
    using lim(2) by (simp add: uint_word_ariths unsigned_of_nat take_bit_eq_mod)
  then show ?thesis using lim by (simp add: devsem_def uint_word_ariths)
qed

lemma devsem_bounds:
  assumes "dev_range b" "i < DEVSEMS"
  shows "0 < devsem b i" "devsem b i < MAXINT"
proof -
  have "uint b > 0" using assms(1) by (simp add: dev_range_def word_less_def)
  then show "0 < devsem b i" using uint_devsem [OF assms] by (simp add: word_less_def)
  have "uint (devsem b i) < uint MAXINT"
    using uint_devsem [OF assms] assms unfolding dev_range_def by linarith
  then show "devsem b i < MAXINT" by (simp only: word_less_def)
qed

lemma devsem_inj:
  "dev_range b \<Longrightarrow> i < DEVSEMS \<Longrightarrow> j < DEVSEMS \<Longrightarrow> devsem b i = devsem b j \<longleftrightarrow> i = j"
  by (metis uint_devsem add_left_cancel mult_left_cancel of_nat_eq_iff zero_neq_numeral)

definition is_dev :: "memaddr \<Rightarrow> memaddr \<Rightarrow> bool" where
  "is_dev b a \<longleftrightarrow> (\<exists>i<DEVSEMS. a = devsem b i)"

text \<open>How many processes wait for a device or the clock.\<close>

definition soft :: "memaddr \<Rightarrow> (memaddr \<Rightarrow> nat list) \<Rightarrow> nat" where
  "soft b W = (\<Sum>i<DEVSEMS. length (W (devsem b i)))"

lemma soft_other: "\<not> is_dev b a \<Longrightarrow> soft b (W(a := q)) = soft b W"
  unfolding soft_def is_dev_def by (intro sum.cong) auto

lemma soft_upd:
  assumes "dev_range b" "i < DEVSEMS"
  shows "soft b (W(devsem b i := q)) + length (W (devsem b i)) = soft b W + length q"
proof -
  have i: "i \<in> {..<DEVSEMS}" "finite {..<DEVSEMS}" using assms(2) by auto
  have "(\<Sum>j\<in>{..<DEVSEMS} - {i}. length ((W(devsem b i := q)) (devsem b j)))
      = (\<Sum>j\<in>{..<DEVSEMS} - {i}. length (W (devsem b j)))"
    using devsem_inj [OF assms(1)] assms(2) by (intro sum.cong) auto
  then show ?thesis unfolding soft_def sum.remove [OF i(2,1)] by simp
qed

section \<open>The abstract kernel\<close>

text \<open>
  Where every block is, the saved state of every process, the integers in memory and the
  address of the device semaphores.
\<close>

record akernel =
  a_free :: "nat list"
  a_ready :: "nat list"
  a_waits :: "memaddr \<Rightarrow> nat list"
  a_run :: "nat option"
  a_ctx :: "nat \<Rightarrow> state_t"
  a_sem :: "memaddr \<Rightarrow> word32 option"
  a_base :: memaddr

text \<open>What the code relies on of the machine: the mapped memory, registers and the time scale.\<close>

definition kareas :: "memaddr set" where
  "kareas = {SYSCALLNEWAREA, SYSCALLOLDAREA, PROGRAMTRAPNEWAREA, PROGRAMTRAPOLDAREA,
     TLBMANAGEMENTNEWAREA, TLBMANAGEMENTOLDAREA, INTERRUPTNEWAREA, INTERRUPTOLDAREA}"

definition mem_ok :: "kernel \<Rightarrow> bool" where
  "mem_ok s \<longleftrightarrow>
     timescale (busreg s) \<noteq> 0 \<and> dev_range (devSemTable_addr s)
     \<and> (\<forall>i<DEVSEMS. int_mem s (devsem (devSemTable_addr s) i) \<noteq> None)
     \<and> (\<forall>a st. st_mem s a = Some st \<longrightarrow> wf_state st)
     \<and> (\<forall>p<MAXPROC. wf_state (p_s (procTable s p)))
     \<and> (\<forall>a\<in>kareas. st_mem s a \<noteq> None)"

definition hand :: "nat option \<Rightarrow> nat list" where
  "hand r = (case r of None \<Rightarrow> [] | Some p \<Rightarrow> [p])"

lemma hand_simps [simp]: "hand None = []" "hand (Some p) = [p]"
  by (simp_all add: hand_def)

definition krel :: "kernel \<Rightarrow> akernel \<Rightarrow> bool" where
  "krel s A \<longleftrightarrow>
     kq s (a_free A) (a_ready A) (a_waits A) (hand (a_run A))
     \<and> currentProcess s = a_run A
     \<and> (\<forall>p. a_run A = Some p \<longrightarrow> p_semAdd (procTable s p) = NULL)
     \<and> a_ctx A = p_s \<circ> procTable s \<and> a_sem A = int_mem s \<and> a_base A = devSemTable_addr s
     \<and> processCount s = int MAXPROC - int (length (a_free A))
     \<and> softBlockCount s = int (soft (a_base A) (a_waits A))
     \<and> mem_ok s"

lemma krelD:
  assumes "krel s A"
  shows "kq s (a_free A) (a_ready A) (a_waits A) (hand (a_run A))"
    "currentProcess s = a_run A"
    "a_run A = Some p \<Longrightarrow> p_semAdd (procTable s p) = NULL"
    "a_run A = Some p \<Longrightarrow> p < MAXPROC"
    "a_ctx A = p_s \<circ> procTable s" "a_sem A = int_mem s" "a_base A = devSemTable_addr s"
    "processCount s = int MAXPROC - int (length (a_free A))"
    "softBlockCount s = int (soft (a_base A) (a_waits A))" "mem_ok s"
proof -
  show "kq s (a_free A) (a_ready A) (a_waits A) (hand (a_run A))"
    "currentProcess s = a_run A"
    "a_run A = Some p \<Longrightarrow> p_semAdd (procTable s p) = NULL"
    "a_ctx A = p_s \<circ> procTable s" "a_sem A = int_mem s" "a_base A = devSemTable_addr s"
    "processCount s = int MAXPROC - int (length (a_free A))"
    "softBlockCount s = int (soft (a_base A) (a_waits A))" "mem_ok s"
    using assms unfolding krel_def by auto
  then show "a_run A = Some p \<Longrightarrow> p < MAXPROC" by (auto dest!: kq_distinct(2) [of _ _ _ _ _ p])
qed

lemma mem_okD:
  assumes "mem_ok s"
  shows "timescale (busreg s) \<noteq> 0" "dev_range (devSemTable_addr s)"
    "i < DEVSEMS \<Longrightarrow> \<exists>v. int_mem s (devsem (devSemTable_addr s) i) = Some v"
    "st_mem s a = Some st \<Longrightarrow> wf_state st" "p < MAXPROC \<Longrightarrow> wf_state (p_s (procTable s p))"
    "a \<in> kareas \<Longrightarrow> \<exists>st. st_mem s a = Some st"
  using assms unfolding mem_ok_def by auto

section \<open>The abstract operations\<close>

text \<open>What the dispatcher does, and how it ends.\<close>

definition a_dispatch :: "akernel \<Rightarrow> akernel" where
  "a_dispatch A =
     (case a_ready A of [] \<Rightarrow> A | p # ps \<Rightarrow> A\<lparr>a_ready := ps, a_run := Some p\<rparr>)"

definition a_exit :: "akernel \<Rightarrow> kexit" where
  "a_exit A =
     (case a_ready A of
        p # _ \<Rightarrow> Exit_LDST (a_ctx A p)
      | [] \<Rightarrow> if length (a_free A) = MAXPROC then Exit_HALT
              else if soft (a_base A) (a_waits A) = 0 then Exit_PANIC else Exit_WAIT)"

text \<open>The running process waits on \<open>a\<close>, with \<open>st\<close> as its saved state.\<close>

definition a_block :: "memaddr \<Rightarrow> state_t \<Rightarrow> akernel \<Rightarrow> akernel" where
  "a_block a st A =
     (case a_run A of
        None \<Rightarrow> A
      | Some p \<Rightarrow> A\<lparr>a_ctx := (a_ctx A)(p := st), a_waits := (a_waits A)(a := a_waits A a @ [p]),
                     a_run := None\<rparr>)"

text \<open>The first process that waits on \<open>a\<close>, if there is one, becomes ready.\<close>

definition a_wake :: "memaddr \<Rightarrow> akernel \<Rightarrow> akernel" where
  "a_wake a A =
     (case a_waits A a of
        [] \<Rightarrow> A
      | p # ps \<Rightarrow> A\<lparr>a_waits := (a_waits A)(a := ps), a_ready := a_ready A @ [p]\<rparr>)"

definition a_setsem :: "memaddr \<Rightarrow> word32 \<Rightarrow> akernel \<Rightarrow> akernel" where
  "a_setsem a v A = A\<lparr>a_sem := (a_sem A)(a \<mapsto> v)\<rparr>"

lemmas a_ops = a_dispatch_def a_exit_def a_block_def a_wake_def a_setsem_def

section \<open>What keeps the relation\<close>

lemma krel_cong:
  assumes r: "krel s A"
    and eq: "pcbFree_h s' = pcbFree_h s" "readyQue s' = readyQue s"
      "semdTable s' = semdTable s" "semd_h s' = semd_h s" "semdFree_h s' = semdFree_h s"
      "currentProcess s' = currentProcess s" "processCount s' = processCount s"
      "softBlockCount s' = softBlockCount s" "int_mem s' = int_mem s" "st_mem s' = st_mem s"
      "devSemTable_addr s' = devSemTable_addr s" "timescale (busreg s') = timescale (busreg s)"
    and T: "\<And>p. p_next (procTable s' p) = p_next (procTable s p)
        \<and> p_prev (procTable s' p) = p_prev (procTable s p)
        \<and> p_semAdd (procTable s' p) = p_semAdd (procTable s p)
        \<and> p_s (procTable s' p) = p_s (procTable s p)"
  shows "krel s' A"
proof -
  have "kq s' (a_free A) (a_ready A) (a_waits A) (hand (a_run A))"
    by (rule kq_cong [OF krelD(1) [OF r] eq(1-5)]) (use T in blast)
  then show ?thesis using r T unfolding krel_def mem_ok_def eq by auto
qed

lemma krel_setsem:
  assumes r: "krel s A" and v: "int_mem s a = Some u"
  shows "krel (s\<lparr>int_mem := (int_mem s)(a \<mapsto> v)\<rparr>) (a_setsem a v A)"
proof -
  have "kq (s\<lparr>int_mem := (int_mem s)(a \<mapsto> v)\<rparr>) (a_free A) (a_ready A) (a_waits A) (hand (a_run A))"
    by (rule kq_cong [OF krelD(1) [OF r]]) simp_all
  then show ?thesis using r by (auto simp: krel_def mem_ok_def a_setsem_def)
qed

text \<open>The saved state of a process becomes \<open>st\<close>.\<close>

lemma krel_ctx:
  assumes r: "krel s A" and p: "p < MAXPROC" and st: "wf_state st"
  shows "krel (s\<lparr>procTable := (procTable s)(p := (procTable s p)\<lparr>p_s := st\<rparr>)\<rparr>)
    (A\<lparr>a_ctx := (a_ctx A)(p := st)\<rparr>)"
proof -
  have "kq (s\<lparr>procTable := (procTable s)(p := (procTable s p)\<lparr>p_s := st\<rparr>)\<rparr>)
      (a_free A) (a_ready A) (a_waits A) (hand (a_run A))"
    by (rule kq_cong [OF krelD(1) [OF r]]) simp_all
  then show ?thesis using r st by (auto simp: krel_def mem_ok_def fun_eq_iff)
qed

lemma stateCopy_saved:
  assumes "krel s A" and "p < MAXPROC" and "st_mem s a = Some st"
  shows "stateCopy (StAt a) (StOf (Some p)) s
    = Some (s\<lparr>procTable := (procTable s)(p := (procTable s p)\<lparr>p_s := st\<rparr>)\<rparr>)"
  using stateCopy_run [of "StAt a" s st "StOf (Some p)"] assms mem_okD(4,5) [OF krelD(10) [OF assms(1)]]
  by simp

lemma chargeTime_run:
  "p < MAXPROC \<Longrightarrow> chargeTime (Some p) t s
    = Some (s\<lparr>procTable := (procTable s)(p := (procTable s p)\<lparr>p_time := p_time (procTable s p) + (t - time s)\<rparr>)\<rparr>)"
  by (simp add: chargeTime_def)

text \<open>
  The running process joins the queue of a semaphore. \<open>n\<close> is what the handler adds to
  \<open>softBlockCount\<close>, before or after: \<open>c\<close> is the count before.
\<close>

lemma krel_block_gen:
  assumes r: "krel (s\<lparr>softBlockCount := c\<rparr>) A" and p: "a_run A = Some p" and a: "0 < a" "a < MAXINT"
    and n: "n = (if is_dev (a_base A) a then 1 else 0)"
  shows "\<exists>T' S' fh. insertBlocked a (Some p) s
        = Some (False, s\<lparr>procTable := T', semdTable := S', semdFree_h := fh\<rparr>)
    \<and> krel (s\<lparr>procTable := T', semdTable := S', semdFree_h := fh, currentProcess := None,
              softBlockCount := c + n\<rparr>)
        (A\<lparr>a_waits := (a_waits A)(a := a_waits A a @ [p]), a_run := None\<rparr>)
    \<and> qframe (insert p (set (a_waits A a))) ((procTable s)(p := (procTable s p)\<lparr>p_semAdd := a\<rparr>)) T'"
proof -
  have "kq (s\<lparr>softBlockCount := c\<rparr>) (a_free A) (a_ready A) (a_waits A) [p]" using krelD(1) [OF r] p by simp
  then have k: "kq s (a_free A) (a_ready A) (a_waits A) [p]" by (rule kq_cong) simp_all
  obtain T' S' fh where run: "insertBlocked a (Some p) s
        = Some (False, s\<lparr>procTable := T', semdTable := S', semdFree_h := fh\<rparr>)"
    and k': "kq (s\<lparr>procTable := T', semdTable := S', semdFree_h := fh\<rparr>)
        (a_free A) (a_ready A) ((a_waits A)(a := a_waits A a @ [p])) []"
    and fr: "qframe (insert p (set (a_waits A a))) ((procTable s)(p := (procTable s p)\<lparr>p_semAdd := a\<rparr>)) T'"
    using kq_block [OF k a] by blast
  let ?s = "s\<lparr>procTable := T', semdTable := S', semdFree_h := fh, currentProcess := None,
              softBlockCount := c + n\<rparr>"
  have "kq ?s (a_free A) (a_ready A) ((a_waits A)(a := a_waits A a @ [p])) []"
    by (rule kq_cong [OF k']) simp_all
  moreover have "int (soft (a_base A) ((a_waits A)(a := a_waits A a @ [p])))
      = int (soft (a_base A) (a_waits A)) + n"
  proof (cases "is_dev (a_base A) a")
    case True
    then obtain i where i: "i < DEVSEMS" "a = devsem (a_base A) i" by (auto simp: is_dev_def)
    have "dev_range (a_base A)" using krelD(7,10) [OF r] mem_okD(2) by metis
    from soft_upd [OF this i(1), of "a_waits A" "a_waits A a @ [p]"] show ?thesis
      using i(2) n True by simp
  qed (use n in \<open>simp add: soft_other\<close>)
  moreover have "p_s (T' q) = p_s (procTable s q)" for q by (simp add: qframe_fields [OF fr])
  ultimately have "krel ?s (A\<lparr>a_waits := (a_waits A)(a := a_waits A a @ [p]), a_run := None\<rparr>)"
    using r by (auto simp: krel_def mem_ok_def fun_eq_iff)
  with run fr show ?thesis by blast
qed

lemmas krel_block = krel_block_gen [where c = "softBlockCount s" and s = s for s, simplified]

text \<open>The first waiting process becomes ready, once \<open>p_semAdd\<close> is cleared.\<close>

lemma krel_wake:
  assumes r: "krel s A" and W: "a_waits A a = p # ps"
    and n: "n = (if is_dev (a_base A) a then 1 else 0)"
  shows "\<exists>T1 S' fh. removeBlocked a s
        = Some (Some p, s\<lparr>procTable := T1, semdTable := S', semdFree_h := fh\<rparr>)
    \<and> p < MAXPROC \<and> p_s (T1 p) = a_ctx A p
    \<and> (\<forall>f. (\<forall>x. p_semAdd (f x) = NULL \<and> p_next (f x) = p_next x \<and> p_prev (f x) = p_prev x) \<longrightarrow>
         wf_state (p_s (f (T1 p))) \<longrightarrow>
        (\<exists>T2. insertReady (Some p) (s\<lparr>semdTable := S', semdFree_h := fh, procTable := T1(p := f (T1 p))\<rparr>)
           = Some (s\<lparr>semdTable := S', semdFree_h := fh, procTable := T2, readyQue := Some p\<rparr>)
         \<and> krel (s\<lparr>semdTable := S', semdFree_h := fh, procTable := T2, readyQue := Some p,
               softBlockCount := softBlockCount s - n\<rparr>)
             (a_wake a A\<lparr>a_ctx := (a_ctx A)(p := p_s (f (T1 p)))\<rparr>)
         \<and> (\<forall>q. p_time (T2 q) = (if q = p then p_time (f (T1 p)) else p_time (procTable s q)))))
    \<and> p_time (T1 p) = p_time (procTable s p)"
proof -
  obtain T1 S' fh where run: "removeBlocked a s
        = Some (Some p, s\<lparr>procTable := T1, semdTable := S', semdFree_h := fh\<rparr>)"
    and k1: "kq (s\<lparr>procTable := T1, semdTable := S', semdFree_h := fh\<rparr>)
        (a_free A) (a_ready A) ((a_waits A)(a := ps)) (p # hand (a_run A))"
    and fr1: "qframe (set ps) (procTable s) T1"
    using kq_wake [where W = "a_waits A", OF krelD(1) [OF r] W] by blast
  have p: "p < MAXPROC" using kq_distinct(2) [OF k1] by simp
  have soft: "int (soft (a_base A) ((a_waits A)(a := ps))) = int (soft (a_base A) (a_waits A)) - n"
  proof (cases "is_dev (a_base A) a")
    case True
    then obtain i where i: "i < DEVSEMS" "a = devsem (a_base A) i" by (auto simp: is_dev_def)
    have "dev_range (a_base A)" using krelD(7,10) [OF r] mem_okD(2) by metis
    from soft_upd [OF this i(1), of "a_waits A" ps] show ?thesis using i(2) n True W by simp
  qed (use n in \<open>simp add: soft_other\<close>)
  have "\<exists>T2. insertReady (Some p) (s\<lparr>semdTable := S', semdFree_h := fh, procTable := T1(p := f (T1 p))\<rparr>)
         = Some (s\<lparr>semdTable := S', semdFree_h := fh, procTable := T2, readyQue := Some p\<rparr>)
       \<and> krel (s\<lparr>semdTable := S', semdFree_h := fh, procTable := T2, readyQue := Some p,
             softBlockCount := softBlockCount s - n\<rparr>)
           (a_wake a A\<lparr>a_ctx := (a_ctx A)(p := p_s (f (T1 p)))\<rparr>)
       \<and> (\<forall>q. p_time (T2 q) = (if q = p then p_time (f (T1 p)) else p_time (procTable s q)))"
    if f: "\<forall>x. p_semAdd (f x) = NULL \<and> p_next (f x) = p_next x \<and> p_prev (f x) = p_prev x"
      and wf: "wf_state (p_s (f (T1 p)))" for f
  proof -
    let ?s1 = "s\<lparr>semdTable := S', semdFree_h := fh, procTable := T1(p := f (T1 p))\<rparr>"
    have k2: "kq ?s1 (a_free A) (a_ready A) ((a_waits A)(a := ps)) (p # hand (a_run A))"
      by (rule kq_cong [OF k1]) (use f in auto)
    have "p_semAdd (procTable ?s1 p) = NULL" using f by simp
    from kq_insertReady [OF k2 this] obtain T2 where
      run2: "insertReady (Some p) ?s1 = Some (?s1\<lparr>procTable := T2, readyQue := Some p\<rparr>)"
      and k3: "kq (?s1\<lparr>procTable := T2, readyQue := Some p\<rparr>) (a_free A) (a_ready A @ [p])
          ((a_waits A)(a := ps)) (hand (a_run A))"
      and fr2: "qframe (insert p (set (a_ready A))) (procTable ?s1) T2" by blast
    let ?s = "s\<lparr>semdTable := S', semdFree_h := fh, procTable := T2, readyQue := Some p,
             softBlockCount := softBlockCount s - n\<rparr>"
    have k4: "kq ?s (a_free A) (a_ready A @ [p]) ((a_waits A)(a := ps)) (hand (a_run A))"
      by (rule kq_cong [OF k3]) simp_all
    have T2: "p_s (T2 q) = (if q = p then p_s (f (T1 p)) else p_s (procTable s q))"
      "p_semAdd (T2 q) = (if q = p then NULL else p_semAdd (procTable s q))" for q
      using f by (simp_all add: qframe_fields [OF fr2] qframe_fields [OF fr1])
    have "krel ?s (a_wake a A\<lparr>a_ctx := (a_ctx A)(p := p_s (f (T1 p)))\<rparr>)"
      using r k4 soft T2 wf W by (auto simp: krel_def mem_ok_def a_wake_def fun_eq_iff)
    with run2 show ?thesis by (intro exI [of _ T2]) (simp add: qframe_fields [OF fr2] qframe_fields [OF fr1])
  qed
  moreover have "p_s (T1 p) = a_ctx A p" "p_time (T1 p) = p_time (procTable s p)"
    using krelD(5) [OF r] by (simp_all add: qframe_fields [OF fr1])
  ultimately show ?thesis using run p by blast
qed

lemma krel_wake_with:
  assumes r: "krel s A" and W: "a_waits A a = p # ps"
    and n: "n = (if is_dev (a_base A) a then 1 else 0)"
    and f: "\<And>x. p_semAdd (f x) = NULL" "\<And>x. p_next (f x) = p_next x" "\<And>x. p_prev (f x) = p_prev x"
      "\<And>x. p_s (f x) = g (p_s x)" "\<And>x. p_time (f x) = p_time x" and g: "wf_state (a_ctx A p) \<Longrightarrow> wf_state (g (a_ctx A p))"
  shows "\<exists>T1 S' fh T2. removeBlocked a s
        = Some (Some p, s\<lparr>procTable := T1, semdTable := S', semdFree_h := fh\<rparr>)
    \<and> p < MAXPROC
    \<and> insertReady (Some p) (s\<lparr>semdTable := S', semdFree_h := fh, procTable := T1(p := f (T1 p))\<rparr>)
        = Some (s\<lparr>semdTable := S', semdFree_h := fh, procTable := T2, readyQue := Some p\<rparr>)
    \<and> krel (s\<lparr>semdTable := S', semdFree_h := fh, procTable := T2, readyQue := Some p,
            softBlockCount := softBlockCount s - n\<rparr>)
        (a_wake a A\<lparr>a_ctx := (a_ctx A)(p := g (a_ctx A p))\<rparr>)
    \<and> (\<forall>q. p_time (T2 q) = p_time (procTable s q))"
proof -
  obtain T1 S' fh where 1: "removeBlocked a s
        = Some (Some p, s\<lparr>procTable := T1, semdTable := S', semdFree_h := fh\<rparr>)"
    and p: "p < MAXPROC" "p_s (T1 p) = a_ctx A p" "p_time (T1 p) = p_time (procTable s p)"
    and ex: "\<And>f. \<forall>x. p_semAdd (f x) = NULL \<and> p_next (f x) = p_next x \<and> p_prev (f x) = p_prev x \<Longrightarrow>
         wf_state (p_s (f (T1 p))) \<Longrightarrow>
        (\<exists>T2. insertReady (Some p) (s\<lparr>semdTable := S', semdFree_h := fh, procTable := T1(p := f (T1 p))\<rparr>)
           = Some (s\<lparr>semdTable := S', semdFree_h := fh, procTable := T2, readyQue := Some p\<rparr>)
         \<and> krel (s\<lparr>semdTable := S', semdFree_h := fh, procTable := T2, readyQue := Some p,
               softBlockCount := softBlockCount s - n\<rparr>)
             (a_wake a A\<lparr>a_ctx := (a_ctx A)(p := p_s (f (T1 p)))\<rparr>)
         \<and> (\<forall>q. p_time (T2 q) = (if q = p then p_time (f (T1 p)) else p_time (procTable s q))))"
    using krel_wake [OF r W n] by blast
  have "wf_state (p_s (f (T1 p)))"
    using p f(4) g mem_okD(5) [OF krelD(10) [OF r] p(1)] krelD(5) [OF r] by simp
  with ex [of f] f(1-3) obtain T2 where T2:
    "insertReady (Some p) (s\<lparr>semdTable := S', semdFree_h := fh, procTable := T1(p := f (T1 p))\<rparr>)
       = Some (s\<lparr>semdTable := S', semdFree_h := fh, procTable := T2, readyQue := Some p\<rparr>)"
    "krel (s\<lparr>semdTable := S', semdFree_h := fh, procTable := T2, readyQue := Some p,
            softBlockCount := softBlockCount s - n\<rparr>)
        (a_wake a A\<lparr>a_ctx := (a_ctx A)(p := p_s (f (T1 p)))\<rparr>)"
    "\<forall>q. p_time (T2 q) = (if q = p then p_time (f (T1 p)) else p_time (procTable s q))" by blast
  have "\<forall>q. p_time (T2 q) = p_time (procTable s q)" using T2(3) p(3) f(5) by simp
  moreover note T2(1) T2(2) [unfolded f(4) p(2)]
  ultimately show ?thesis using 1 p(1) by blast
qed

lemma krel_wake_plain:
  assumes r: "krel s A" and W: "a_waits A a = p # ps" and n: "\<not> is_dev (a_base A) a"
  shows "\<exists>T1 S' fh T2. removeBlocked a s
        = Some (Some p, s\<lparr>procTable := T1, semdTable := S', semdFree_h := fh\<rparr>)
    \<and> p < MAXPROC
    \<and> insertReady (Some p) (s\<lparr>semdTable := S', semdFree_h := fh, procTable := T1(p := (T1 p)\<lparr>p_semAdd := NULL\<rparr>)\<rparr>)
        = Some (s\<lparr>semdTable := S', semdFree_h := fh, procTable := T2, readyQue := Some p\<rparr>)
    \<and> krel (s\<lparr>semdTable := S', semdFree_h := fh, procTable := T2, readyQue := Some p\<rparr>) (a_wake a A)"
proof -
  have "a_wake a A\<lparr>a_ctx := (a_ctx A)(p := id (a_ctx A p))\<rparr> = a_wake a A"
    using W by (simp add: a_wake_def)
  then show ?thesis
    using krel_wake_with [OF r W, of 0 "\<lambda>x. x\<lparr>p_semAdd := NULL\<rparr>" id] n by simp blast
qed

text \<open>The P and V operations on an integer.\<close>

definition a_V :: "memaddr \<Rightarrow> akernel \<Rightarrow> akernel" where
  "a_V a A =
     (let v = the (a_sem A a) + 1; A1 = a_setsem a v A
      in if sint v \<le> 0 then a_wake a A1 else A1)"

definition a_P :: "memaddr \<Rightarrow> state_t \<Rightarrow> akernel \<Rightarrow> akernel" where
  "a_P a st A =
     (let v = the (a_sem A a) - 1; A1 = a_setsem a v A
      in if sint v < 0 then a_block a st A1 else A1)"

section \<open>The initial queues\<close>

lemma kq_init:
  fixes s :: kernel
  assumes "readyQue s = None"
  shows "\<exists>s1 T' h S' sh fh. initPcbs s = Some s1
    \<and> initASL s1 = Some (s\<lparr>procTable := T', pcbFree_h := h, semdTable := S', semd_h := sh, semdFree_h := fh\<rparr>)
    \<and> kq (s\<lparr>procTable := T', pcbFree_h := h, semdTable := S', semd_h := sh, semdFree_h := fh\<rparr>)
        [0..<MAXPROC] [] (\<lambda>_. []) []
    \<and> (\<forall>p. p_s (T' p) = p_s (procTable s p)) \<and> (\<forall>p<MAXPROC. unrelated (T' p))"
proof -
  obtain T' h where 1: "initPcbs s = Some (s\<lparr>procTable := T', pcbFree_h := h\<rparr>)"
    and q: "procq T' h [0..<MAXPROC]" "\<forall>i<MAXPROC. unrelated (T' i)" "\<forall>i. p_s (T' i) = p_s (procTable s i)"
    using initPcbs_run by blast
  obtain S' sh fh where 2: "initASL (s\<lparr>procTable := T', pcbFree_h := h\<rparr>)
      = Some (s\<lparr>procTable := T', pcbFree_h := h, semdTable := S', semd_h := sh, semdFree_h := fh\<rparr>)"
    and asl: "asl_list (s\<lparr>procTable := T', pcbFree_h := h, semdTable := S', semd_h := sh, semdFree_h := fh\<rparr>)
        (MAXPROC + 1) [] MAXPROC (rev [0..<MAXPROC])"
    using initASL_run [of "s\<lparr>procTable := T', pcbFree_h := h\<rparr>"] by auto
  have "asl_rel (s\<lparr>procTable := T', pcbFree_h := h, semdTable := S', semd_h := sh, semdFree_h := fh\<rparr>)
      (\<lambda>_. []) {#}"
    by (rule asl_relI [OF asl]) (auto simp: blocked_def)
  then have "kq (s\<lparr>procTable := T', pcbFree_h := h, semdTable := S', semd_h := sh, semdFree_h := fh\<rparr>)
        [0..<MAXPROC] [] (\<lambda>_. []) []"
    using q(1) assms by (simp add: kq_def places_def pool_def)
  with 1 2 q(2,3) show ?thesis by blast
qed

section \<open>A state for the witnesses\<close>

text \<open>
  Process 0 runs, 1 and 2 are ready, 3 waits on the semaphore at \<open>0x20001000\<close> and 4 for the
  pseudo clock.
\<close>

definition ex_kernel :: kernel where
  "ex_kernel = the (do {
     s \<leftarrow> initPcbs ex_machine; s \<leftarrow> initASL s;
     (_, s) \<leftarrow> allocPcb s; (_, s) \<leftarrow> allocPcb s; (_, s) \<leftarrow> allocPcb s;
     (_, s) \<leftarrow> allocPcb s; (_, s) \<leftarrow> allocPcb s;
     s \<leftarrow> insertReady (Some 1) s; s \<leftarrow> insertReady (Some 2) s;
     (_, s) \<leftarrow> insertBlocked 0x20001000 (Some 3) s;
     (_, s) \<leftarrow> insertBlocked (devsem 0x20002000 CLOCKSEM) (Some 4) s;
     Some (s\<lparr>currentProcess := Some 0, processCount := 5, softBlockCount := 1,
       int_mem := (int_mem s)(0x20001000 \<mapsto> -1, devsem 0x20002000 CLOCKSEM \<mapsto> -1)\<rparr>)
   })"

definition ex_abs :: akernel where
  "ex_abs = \<lparr>a_free = [5..<20], a_ready = [1, 2],
     a_waits = (\<lambda>_. [])(0x20001000 := [3], devsem 0x20002000 CLOCKSEM := [4]),
     a_run = Some 0, a_ctx = (\<lambda>_. ex_state),
     a_sem = (int_mem ex_machine)(0x20001000 \<mapsto> -1, devsem 0x20002000 CLOCKSEM \<mapsto> -1),
     a_base = 0x20002000\<rparr>"

text \<open>What every step of that script keeps.\<close>

definition blank :: "kernel \<Rightarrow> kernel" where
  "blank s = s\<lparr>procTable := procTable ex_machine, pcbFree_h := None,
     semdTable := semdTable ex_machine, semd_h := None, semdFree_h := None, readyQue := None\<rparr>"

lemma blank_upd:
  "blank (s\<lparr>procTable := T\<rparr>) = blank s" "blank (s\<lparr>pcbFree_h := h\<rparr>) = blank s"
  "blank (s\<lparr>semdTable := S\<rparr>) = blank s" "blank (s\<lparr>semd_h := h\<rparr>) = blank s"
  "blank (s\<lparr>semdFree_h := h\<rparr>) = blank s" "blank (s\<lparr>readyQue := h\<rparr>) = blank s"
  "blank ex_machine = ex_machine"
  by (simp_all add: blank_def ex_machine_def)

lemma blankD:
  assumes "blank s = ex_machine"
  shows "int_mem s = int_mem ex_machine" "st_mem s = st_mem ex_machine" "busreg s = ex_bus"
    "devSemTable_addr s = 0x20002000"
proof -
  have "int_mem (blank s) = int_mem s" "st_mem (blank s) = st_mem s" "busreg (blank s) = busreg s"
    "devSemTable_addr (blank s) = devSemTable_addr s" by (simp_all add: blank_def)
  then show "int_mem s = int_mem ex_machine" "st_mem s = st_mem ex_machine" "busreg s = ex_bus"
    "devSemTable_addr s = 0x20002000" unfolding assms by (simp_all add: ex_machine_def)
qed

definition scripted :: "kernel \<Rightarrow> nat list \<Rightarrow> nat list \<Rightarrow> (memaddr \<Rightarrow> nat list) \<Rightarrow> nat list \<Rightarrow> bool" where
  "scripted s F R W H \<longleftrightarrow>
     blank s = ex_machine \<and> kq s F R W H \<and> (\<forall>p. p_s (procTable s p) = ex_state)
     \<and> (\<forall>p\<in>set H. p_semAdd (procTable s p) = NULL)"

lemma scripted_alloc:
  assumes "scripted s (p # F) R W H"
  obtains s' where "allocPcb s = Some (Some p, s')" "scripted s' F R W (p # H)"
proof -
  have s: "blank s = ex_machine" and k: "kq s (p # F) R W H"
    and ps: "\<forall>p. p_s (procTable s p) = ex_state" "\<forall>p\<in>set H. p_semAdd (procTable s p) = NULL"
    using assms by (auto simp: scripted_def)
  obtain T' h' where run: "allocPcb s = Some (Some p, s\<lparr>procTable := T', pcbFree_h := h'\<rparr>)"
    and k': "kq (s\<lparr>procTable := T', pcbFree_h := h'\<rparr>) F R W (p # H)"
    and fr: "qframe (set F) ((procTable s)(p := clean_pcb (procTable s p))) T'"
    using kq_alloc [OF k] by blast
  have c: "p_s (clean_pcb x) = p_s x" "p_semAdd (clean_pcb x) = NULL" for x
    by (simp_all add: clean_pcb_def)
  have "\<forall>q. p_s (T' q) = ex_state" "\<forall>q\<in>set (p # H). p_semAdd (T' q) = NULL"
    using ps s by (auto simp: qframe_fields [OF fr] c)
  with k' have "scripted (s\<lparr>procTable := T', pcbFree_h := h'\<rparr>) F R W (p # H)"
    using s by (simp add: scripted_def blank_upd)
  with run show thesis by (rule that)
qed

lemma scripted_ready:
  assumes "scripted s F R W (p # H)"
  obtains s' where "insertReady (Some p) s = Some s'" "scripted s' F (R @ [p]) W H"
proof -
  have s: "blank s = ex_machine" and k: "kq s F R W (p # H)"
    and ps: "\<forall>p. p_s (procTable s p) = ex_state" "\<forall>p\<in>set (p # H). p_semAdd (procTable s p) = NULL"
    using assms by (auto simp: scripted_def)
  have n: "p_semAdd (procTable s p) = NULL" using ps s by simp
  obtain T' where run: "insertReady (Some p) s = Some (s\<lparr>procTable := T', readyQue := Some p\<rparr>)"
    and k': "kq (s\<lparr>procTable := T', readyQue := Some p\<rparr>) F (R @ [p]) W H"
    and fr: "qframe (insert p (set R)) (procTable s) T'"
    using kq_insertReady [OF k n] by blast
  have "\<forall>q. p_s (T' q) = ex_state" "\<forall>q\<in>set H. p_semAdd (T' q) = NULL"
    using ps s by (auto simp: qframe_fields [OF fr])
  with k' have "scripted (s\<lparr>procTable := T', readyQue := Some p\<rparr>) F (R @ [p]) W H"
    using s by (simp add: scripted_def blank_upd)
  with run show thesis by (rule that)
qed

lemma scripted_block:
  assumes "scripted s F R W (p # H)" and a: "0 < a" "a < MAXINT"
  obtains s' where "insertBlocked a (Some p) s = Some (False, s')" "scripted s' F R (W(a := W a @ [p])) H"
proof -
  have s: "blank s = ex_machine" and k: "kq s F R W (p # H)"
    and ps: "\<forall>p. p_s (procTable s p) = ex_state" "\<forall>p\<in>set (p # H). p_semAdd (procTable s p) = NULL"
    using assms(1) by (auto simp: scripted_def)
  have "p \<notin> set H" using kq_distinct(1) [OF k] by auto
  obtain T' S' fh' where run: "insertBlocked a (Some p) s
        = Some (False, s\<lparr>procTable := T', semdTable := S', semdFree_h := fh'\<rparr>)"
    and k': "kq (s\<lparr>procTable := T', semdTable := S', semdFree_h := fh'\<rparr>) F R (W(a := W a @ [p])) H"
    and fr: "qframe (insert p (set (W a))) ((procTable s)(p := (procTable s p)\<lparr>p_semAdd := a\<rparr>)) T'"
    using kq_block [OF k a] by blast
  have "\<forall>q. p_s (T' q) = ex_state" "\<forall>q\<in>set H. p_semAdd (T' q) = NULL"
    using ps s \<open>p \<notin> set H\<close> by (auto simp: qframe_fields [OF fr])
  with k' have "scripted (s\<lparr>procTable := T', semdTable := S', semdFree_h := fh'\<rparr>) F R (W(a := W a @ [p])) H"
    using s by (simp add: scripted_def blank_upd)
  with run show thesis by (rule that)
qed

lemma ex_range: "dev_range 0x20002000" "\<not> is_dev 0x20002000 0x20001000"
proof -
  show r: "dev_range 0x20002000" by (simp add: dev_range_def DEVSEMS_49 MAXINT_def)
  show "\<not> is_dev 0x20002000 0x20001000"
  proof
    assume "is_dev 0x20002000 0x20001000"
    then obtain i where "i < DEVSEMS" "0x20001000 = devsem 0x20002000 i" by (auto simp: is_dev_def)
    then show False using uint_devsem [OF r, of i] by simp
  qed
qed

lemma ex_scripted_start:
  "\<exists>s0 s1. initPcbs ex_machine = Some s0 \<and> initASL s0 = Some s1
     \<and> scripted s1 [0..<MAXPROC] [] (\<lambda>_. []) []"
proof -
  have "readyQue ex_machine = None" "p_s (procTable ex_machine p) = ex_state" for p
    by (simp_all add: ex_machine_def ex_pcb_def)
  with kq_init [of ex_machine] show ?thesis by (auto simp: scripted_def blank_upd)
qed

lemma ex_machine_int: "i < DEVSEMS \<Longrightarrow> int_mem ex_machine (devsem 0x20002000 i) = Some 0"
  using devsem_bounds [OF ex_range(1), of i] by (auto simp: ex_machine_def NULL_def MAXINT_def)

lemma scripted_krel:
  assumes k: "scripted s F R W (hand r)" and M: "\<forall>i<DEVSEMS. M (devsem 0x20002000 i) \<noteq> None"
  shows "krel (s\<lparr>currentProcess := r, processCount := int MAXPROC - int (length F),
      softBlockCount := int (soft 0x20002000 W), int_mem := M\<rparr>)
    \<lparr>a_free = F, a_ready = R, a_waits = W, a_run = r, a_ctx = (\<lambda>_. ex_state), a_sem = M,
     a_base = 0x20002000\<rparr>"
proof -
  let ?s = "s\<lparr>currentProcess := r, processCount := int MAXPROC - int (length F),
      softBlockCount := int (soft 0x20002000 W), int_mem := M\<rparr>"
  have s: "blank s = ex_machine" and q: "kq s F R W (hand r)"
    and ps: "\<forall>p. p_s (procTable s p) = ex_state" "\<forall>p\<in>set (hand r). p_semAdd (procTable s p) = NULL"
    using k by (auto simp: scripted_def)
  have "kq ?s F R W (hand r)" by (rule kq_cong [OF q]) simp_all
  moreover have "wf_state ex_state" by (simp add: wf_state_def ex_state_def STATEREGNUM_def)
  then have "mem_ok ?s"
    using ex_range(1) ps M
    by (auto simp: mem_ok_def blankD [OF s] ex_machine_def ex_bus_def kareas_def area_defs NULL_def
        split: if_splits)
  ultimately show ?thesis using ps by (auto simp: krel_def blankD [OF s])
qed

lemma ex_kernel_krel: "krel ex_kernel ex_abs"
proof -
  let ?c = "devsem 0x20002000 CLOCKSEM"
  have clock: "CLOCKSEM < DEVSEMS" by (simp add: DEVSEMS_49 CLOCKSEM_48)
  have c: "0 < ?c" "?c < MAXINT" "?c \<noteq> 0x20001000"
    using devsem_bounds [OF ex_range(1) clock] ex_range(2) clock unfolding is_dev_def by metis+
  have u: "[0..<MAXPROC] = 0 # 1 # 2 # 3 # 4 # [5..<20]" by (simp add: MAXPROC_def upt_rec)
  obtain s0 s1 where s0: "initPcbs ex_machine = Some s0" "initASL s0 = Some s1"
    and "scripted s1 [0..<MAXPROC] [] (\<lambda>_. []) []"
    using ex_scripted_start by blast
  then have k1: "scripted s1 (0 # 1 # 2 # 3 # 4 # [5..<20]) [] (\<lambda>_. []) []" unfolding u by simp
  obtain s2 where s2: "allocPcb s1 = Some (Some 0, s2)"
    and k2: "scripted s2 (1 # 2 # 3 # 4 # [5..<20]) [] (\<lambda>_. []) [0]" using scripted_alloc [OF k1] .
  obtain s3 where s3: "allocPcb s2 = Some (Some 1, s3)"
    and k3: "scripted s3 (2 # 3 # 4 # [5..<20]) [] (\<lambda>_. []) [1, 0]" using scripted_alloc [OF k2] .
  obtain s4 where s4: "allocPcb s3 = Some (Some 2, s4)"
    and k4: "scripted s4 (3 # 4 # [5..<20]) [] (\<lambda>_. []) [2, 1, 0]" using scripted_alloc [OF k3] .
  obtain s5 where s5: "allocPcb s4 = Some (Some 3, s5)"
    and k5: "scripted s5 (4 # [5..<20]) [] (\<lambda>_. []) [3, 2, 1, 0]" using scripted_alloc [OF k4] .
  obtain s6 where s6: "allocPcb s5 = Some (Some 4, s6)"
    and "scripted s6 [5..<20] [] (\<lambda>_. []) [4, 3, 2, 1, 0]" using scripted_alloc [OF k5] .
  then have k6: "scripted s6 [5..<20] [] (\<lambda>_. []) [1, 2, 3, 4, 0]"
    unfolding scripted_def by (auto intro: kq_hand)
  obtain s7 where s7: "insertReady (Some 1) s6 = Some s7"
    and k7: "scripted s7 [5..<20] ([] @ [1]) (\<lambda>_. []) [2, 3, 4, 0]" using scripted_ready [OF k6] .
  obtain s8 where s8: "insertReady (Some 2) s7 = Some s8"
    and k8: "scripted s8 [5..<20] (([] @ [1]) @ [2]) (\<lambda>_. []) [3, 4, 0]" using scripted_ready [OF k7] .
  obtain s9 where s9: "insertBlocked 0x20001000 (Some 3) s8 = Some (False, s9)"
    and k9: "scripted s9 [5..<20] (([] @ [1]) @ [2]) ((\<lambda>_. [])(0x20001000 := [] @ [3])) [4, 0]"
    using scripted_block [OF k8, of "0x20001000"] by (auto simp: MAXINT_def)
  obtain sA where sA: "insertBlocked ?c (Some 4) s9 = Some (False, sA)"
    and kA: "scripted sA [5..<20] [1, 2] (a_waits ex_abs) [0]"
    using scripted_block [OF k9 c(1,2)] c(3) by (auto simp: ex_abs_def)
  have e: "ex_kernel = sA\<lparr>currentProcess := Some 0, processCount := 5, softBlockCount := 1,
       int_mem := (int_mem sA)(0x20001000 \<mapsto> -1, ?c \<mapsto> -1)\<rparr>"
    unfolding ex_kernel_def using s0 s2 s3 s4 s5 s6 s7 s8 s9 sA by simp
  have k: "scripted sA [5..<20] [1, 2] (a_waits ex_abs) (hand (Some 0))" using kA by simp
  have soft: "soft 0x20002000 (a_waits ex_abs) = 1"
    using soft_upd [OF ex_range(1) clock, of "(\<lambda>_. [])(0x20001000 := [3])" "[4]"] c(3)
      soft_other [OF ex_range(2), of "\<lambda>_. []" "[3]"]
    by (simp add: ex_abs_def soft_def)
  let ?M = "(int_mem ex_machine)(0x20001000 \<mapsto> -1, ?c \<mapsto> -1)"
  have "int_mem sA = int_mem ex_machine" using kA by (simp add: scripted_def blankD)
  moreover have M: "\<forall>i<DEVSEMS. ?M (devsem 0x20002000 i) \<noteq> None"
    using ex_machine_int by simp
  ultimately show ?thesis
    unfolding e using soft scripted_krel [where M = ?M, OF k M] by (simp add: ex_abs_def MAXPROC_def)
qed

text \<open>The same machine with no free block: process 0 runs and all others are ready.\<close>

lemma scripted_all:
  "scripted s F R W H \<Longrightarrow> \<exists>s'. scripted s' [] (R @ F) W H"
proof (induction F arbitrary: s R)
  case (Cons p F)
  obtain s1 where "scripted s1 F R W (p # H)" using scripted_alloc [OF Cons.prems] .
  then obtain s2 where "scripted s2 F (R @ [p]) W H" using scripted_ready by metis
  from Cons.IH [OF this] show ?case by simp
qed auto

lemma ex_full:
  "\<exists>s A. krel s A \<and> a_run A = Some 0 \<and> a_free A = []"
proof -
  obtain s1 where "scripted s1 [0..<MAXPROC] [] (\<lambda>_. []) []"
    using ex_scripted_start by blast
  then have k: "scripted s1 (0 # [1..<MAXPROC]) [] (\<lambda>_. []) []" by (simp add: MAXPROC_def upt_rec)
  obtain s2 where "scripted s2 [1..<MAXPROC] [] (\<lambda>_. []) [0]" using scripted_alloc [OF k] .
  then obtain s3 where "scripted s3 [] ([] @ [1..<MAXPROC]) (\<lambda>_. []) [0]"
    using scripted_all by blast
  then have "scripted s3 [] ([] @ [1..<MAXPROC]) (\<lambda>_. []) (hand (Some 0))" by simp
  from scripted_krel [OF this, of "int_mem ex_machine"] ex_machine_int show ?thesis
    by fastforce
qed

lemma krel_st_mem:
  assumes "krel s A" "wf_state st"
  shows "krel (s\<lparr>st_mem := (st_mem s)(a \<mapsto> st)\<rparr>) A"
proof -
  have "kq (s\<lparr>st_mem := (st_mem s)(a \<mapsto> st)\<rparr>) (a_free A) (a_ready A) (a_waits A) (hand (a_run A))"
    by (rule kq_cong [OF krelD(1) [OF assms(1)]]) simp_all
  then show ?thesis using assms by (auto simp: krel_def mem_ok_def)
qed

text \<open>The system call \<open>n\<close> of the running process, with arguments in \<open>a1\<close> to \<open>a3\<close>.\<close>

definition sys_state :: "word32 \<Rightarrow> word32 \<Rightarrow> word32 \<Rightarrow> word32 \<Rightarrow> state_t" where
  "sys_state n x y z = ex_state\<lparr>s_reg := (replicate 31 0)[3 := n, 4 := x, 5 := y, 6 := z]\<rparr>"

definition ex_sys :: "word32 \<Rightarrow> word32 \<Rightarrow> word32 \<Rightarrow> word32 \<Rightarrow> kernel" where
  "ex_sys n x y z =
     ex_kernel\<lparr>st_mem := (st_mem ex_kernel)(SYSCALLOLDAREA \<mapsto> sys_state n x y z)\<rparr>"

lemma sys_state_simps [simp]:
  "wf_state (sys_state n x y z)" "s_a0 (sys_state n x y z) = n" "s_a1 (sys_state n x y z) = x"
  "s_a2 (sys_state n x y z) = y" "s_a3 (sys_state n x y z) = z" "s_status (sys_state n x y z) = 0"
  by (simp_all add: sys_state_def wf_state_def STATEREGNUM_def reg_defs ex_state_def)

lemma ex_sys_simps [simp]:
  "krel (ex_sys n x y z) ex_abs" "st_mem (ex_sys n x y z) SYSCALLOLDAREA = Some (sys_state n x y z)"
  using krel_st_mem [OF ex_kernel_krel] by (simp_all add: ex_sys_def)

text \<open>A process that waits for device semaphore \<open>i\<close>, with process 0 running or none.\<close>

lemma ex_waiting:
  assumes i: "i < DEVSEMS"
  shows "\<exists>s A. krel s A \<and> a_run A = Some 0 \<and> a_ready A = [] \<and> a_base A = 0x20002000
      \<and> a_waits A = (\<lambda>_. [])(devsem 0x20002000 i := [1])
      \<and> a_sem A = (int_mem ex_machine)(devsem 0x20002000 i \<mapsto> -1) \<and> a_ctx A = (\<lambda>_. ex_state)"
    and "\<exists>s A. krel s A \<and> a_run A = None \<and> a_ready A = [] \<and> a_base A = 0x20002000
      \<and> a_waits A = (\<lambda>_. [])(devsem 0x20002000 i := [0])
      \<and> a_sem A = (int_mem ex_machine)(devsem 0x20002000 i \<mapsto> -1) \<and> a_ctx A = (\<lambda>_. ex_state)"
proof -
  let ?a = "devsem 0x20002000 i" and ?M = "(int_mem ex_machine)(devsem 0x20002000 i \<mapsto> -1)"
  note a = devsem_bounds [OF ex_range(1) i]
  have M: "\<forall>j<DEVSEMS. ?M (devsem 0x20002000 j) \<noteq> None" using ex_machine_int by simp
  obtain s1 where "scripted s1 [0..<MAXPROC] [] (\<lambda>_. []) []" using ex_scripted_start by blast
  moreover have "[0..<MAXPROC] = 0 # 1 # [2..<MAXPROC]" by code_simp
  ultimately have k: "scripted s1 (0 # 1 # [2..<MAXPROC]) [] (\<lambda>_. []) []" by simp
  obtain s2 where k2: "scripted s2 (1 # [2..<MAXPROC]) [] (\<lambda>_. []) [0]" using scripted_alloc [OF k] .
  obtain t where t: "scripted t (1 # [2..<MAXPROC]) [] ((\<lambda>_. [])(?a := [] @ [0])) []"
    using scripted_block [OF k2 a] .
  obtain s3 where k3: "scripted s3 [2..<MAXPROC] [] (\<lambda>_. []) [1, 0]" using scripted_alloc [OF k2] .
  obtain s4 where s4: "scripted s4 [2..<MAXPROC] [] ((\<lambda>_. [])(?a := [] @ [1])) [0]"
    using scripted_block [OF k3 a] .
  show "\<exists>s A. krel s A \<and> a_run A = Some 0 \<and> a_ready A = [] \<and> a_base A = 0x20002000
      \<and> a_waits A = (\<lambda>_. [])(?a := [1]) \<and> a_sem A = ?M \<and> a_ctx A = (\<lambda>_. ex_state)"
    by (rule exI, rule exI, rule conjI, rule scripted_krel [where r = "Some 0" and M = ?M])
      (use s4 M in simp_all)
  show "\<exists>s A. krel s A \<and> a_run A = None \<and> a_ready A = [] \<and> a_base A = 0x20002000
      \<and> a_waits A = (\<lambda>_. [])(?a := [0]) \<and> a_sem A = ?M \<and> a_ctx A = (\<lambda>_. ex_state)"
    by (rule exI, rule exI, rule conjI, rule scripted_krel [where r = None and M = ?M])
      (use t M in simp_all)
qed

text \<open>The same states at an interrupt.\<close>

definition at_int :: "state_t \<Rightarrow> int \<Rightarrow> (nat \<Rightarrow> word32) \<Rightarrow> device_t \<Rightarrow> kernel \<Rightarrow> kernel" where
  "at_int st w f d s = s\<lparr>st_mem := (st_mem s)(INTERRUPTOLDAREA \<mapsto> st), waitFlag := w,
     busreg := (busreg s)\<lparr>interrupt_dev := f, devreg := (\<lambda>_. d)\<rparr>\<rparr>"

lemma at_int_krel:
  assumes "krel s A" "wf_state st"
  shows "krel (at_int st w f d s) A" "st_mem (at_int st w f d s) INTERRUPTOLDAREA = Some st"
    "waitFlag (at_int st w f d s) = w" "devreg (busreg (at_int st w f d s)) = (\<lambda>_. d)"
    "interrupt_dev (busreg (at_int st w f d s)) = f"
  by (rule krel_cong [OF krel_st_mem [OF assms, of INTERRUPTOLDAREA]]) (simp_all add: at_int_def)

definition int_state :: "word32 \<Rightarrow> state_t" where
  "int_state c = ex_state\<lparr>s_cause := c\<rparr>"

lemma int_state_simps [simp]: "wf_state (int_state c)" "s_cause (int_state c) = c"
  by (simp_all add: int_state_def wf_state_def ex_state_def STATEREGNUM_def)

end
