(* ===== verification/Scheduler.thy ===== *)
theory Scheduler
  imports Kernel_Inv
begin

text \<open>
  The round-robin dispatcher: \<open>phase2/scheduler.c\<close>, its refinement of \<^const>\<open>a_dispatch\<close>, and the
  contract the handlers that end in it rely on.
\<close>

section \<open>The code\<close>

definition scheduler :: "kernel \<Rightarrow> outcome" where
  "scheduler s = do {
     (process, rq, s1) \<leftarrow> removeProcQ (readyQue s) s;
     let s2 = s1\<lparr>readyQue := rq\<rparr>;
     if process = None then
       if processCount s2 = 0 then Some (Exit_HALT, s2)
       else if softBlockCount s2 = 0 then Some (Exit_PANIC, s2)
       else Some (Exit_WAIT, s2\<lparr>waitFlag := 1, cp0_status := SCHEDULERINTSUNMASKED\<rparr>)
     else do {
       let s3 = s2\<lparr>waitFlag := 0, currentProcess := process, localtimer := 5000\<rparr>;
       (t, s4) \<leftarrow> STCK s3;
       LDST (StOf process) (s4\<lparr>time := t\<rparr>)
     }
   }"

section \<open>What it does\<close>

definition clock_value :: "kernel \<Rightarrow> word32" where
  "clock_value s = word_of_int (sint (tod s (tod_reads s)) sdiv sint (timescale (busreg s)))"

lemma STCK_run:
  "timescale (busreg s) \<noteq> 0 \<Longrightarrow> STCK s = Some (clock_value s, s\<lparr>tod_reads := Suc (tod_reads s)\<rparr>)"
  by (simp add: STCK_def clock_value_def)

lemma scheduler_empty:
  assumes "procq (procTable s) (readyQue s) []"
  shows "scheduler s =
    (if processCount s = 0 then Some (Exit_HALT, s)
     else if softBlockCount s = 0 then Some (Exit_PANIC, s)
     else Some (Exit_WAIT, s\<lparr>waitFlag := 1, cp0_status := SCHEDULERINTSUNMASKED\<rparr>))"
  using removeProcQ_empty [OF assms] assms by (simp add: scheduler_def)

lemma scheduler_next:
  fixes s :: kernel
  assumes k: "kq s F (p # R) W H" and t: "timescale (busreg s) \<noteq> 0"
  shows "\<exists>T' rq. let s' = s\<lparr>procTable := T', readyQue := rq, waitFlag := 0, currentProcess := Some p,
        localtimer := 5000, tod_reads := Suc (tod_reads s), time := clock_value s\<rparr>
     in scheduler s = Some (Exit_LDST (p_s (procTable s p)), s')
        \<and> kq s' F R W (p # H) \<and> qframe (set R) (procTable s) T'"
proof -
  obtain T' rq where run: "removeProcQ (readyQue s) s = Some (Some p, rq, s\<lparr>procTable := T'\<rparr>)"
    and k': "kq (s\<lparr>procTable := T', readyQue := rq\<rparr>) F R W (p # H)"
    and fr: "qframe (set R) (procTable s) T'"
    using kq_removeReady [OF k] by blast
  let ?s = "s\<lparr>procTable := T', readyQue := rq, waitFlag := 0, currentProcess := Some p,
        localtimer := 5000, tod_reads := Suc (tod_reads s), time := clock_value s\<rparr>"
  have "p < MAXPROC" using kq_distinct(2) [OF k] by simp
  then have "scheduler s = Some (Exit_LDST (p_s (procTable s p)), ?s)"
    using run t by (simp add: scheduler_def STCK_run LDST_def clock_value_def qframe_fields [OF fr])
  moreover have "kq ?s F R W (p # H)" by (rule kq_cong [OF k']) simp_all
  ultimately show ?thesis using fr unfolding Let_def by blast
qed

text \<open>The dispatcher implements the abstract one, when no process is running.\<close>

lemma scheduler_refines:
  assumes r: "krel s A" and idle: "a_run A = None"
  shows "\<exists>s'. scheduler s = Some (a_exit A, s') \<and> krel s' (a_dispatch A)
    \<and> st_mem s' = st_mem s \<and> busreg s' = busreg s"
proof (cases "a_ready A")
  case Nil
  then have "scheduler s =
    (if processCount s = 0 then Some (Exit_HALT, s)
     else if softBlockCount s = 0 then Some (Exit_PANIC, s)
     else Some (Exit_WAIT, s\<lparr>waitFlag := 1, cp0_status := SCHEDULERINTSUNMASKED\<rparr>))"
    using kqD(2) [OF krelD(1) [OF r]] by (intro scheduler_empty) simp
  moreover have "krel (s\<lparr>waitFlag := 1, cp0_status := SCHEDULERINTSUNMASKED\<rparr>) A"
  proof -
    have "kq (s\<lparr>waitFlag := 1, cp0_status := SCHEDULERINTSUNMASKED\<rparr>)
        (a_free A) (a_ready A) (a_waits A) (hand (a_run A))"
      by (rule kq_cong [OF krelD(1) [OF r]]) simp_all
    then show ?thesis using r by (auto simp: krel_def mem_ok_def)
  qed
  ultimately show ?thesis using r Nil krelD(8,9) [OF r]
    by (auto simp: a_dispatch_def a_exit_def)
next
  case (Cons p R)
  have k: "kq s (a_free A) (p # R) (a_waits A) []" using krelD(1) [OF r] idle Cons by simp
  have n: "p_semAdd (procTable s p) = NULL" using kqD(3) [OF krelD(1) [OF r]] Cons by simp
  obtain T' rq where run: "scheduler s = Some (Exit_LDST (p_s (procTable s p)),
      s\<lparr>procTable := T', readyQue := rq, waitFlag := 0, currentProcess := Some p,
        localtimer := 5000, tod_reads := Suc (tod_reads s), time := clock_value s\<rparr>)"
    and k': "kq (s\<lparr>procTable := T', readyQue := rq, waitFlag := 0, currentProcess := Some p,
        localtimer := 5000, tod_reads := Suc (tod_reads s), time := clock_value s\<rparr>)
        (a_free A) R (a_waits A) [p]"
    and fr: "qframe (set R) (procTable s) T'"
    using scheduler_next [OF k mem_okD(1) [OF krelD(10) [OF r]]] unfolding Let_def by blast
  have "krel (s\<lparr>procTable := T', readyQue := rq, waitFlag := 0, currentProcess := Some p,
        localtimer := 5000, tod_reads := Suc (tod_reads s), time := clock_value s\<rparr>) (a_dispatch A)"
    using r k' n Cons by (auto simp: krel_def mem_ok_def a_dispatch_def qframe_fields [OF fr])
  then show ?thesis using run Cons krelD(5) [OF r] by (auto simp: a_exit_def)
qed

text \<open>The same when \<open>currentProcess\<close> still names a process that is gone.\<close>

lemma scheduler_stale:
  assumes "krel (s\<lparr>currentProcess := None\<rparr>) A" and "a_run A = None"
  shows "\<exists>s'. scheduler s = Some (a_exit A, s')
    \<and> (a_ready A \<noteq> [] \<longrightarrow> krel s' (a_dispatch A) \<and> localtimer s' = 5000 \<and> waitFlag s' = 0
         \<and> time s' = clock_value s)
    \<and> (a_ready A = [] \<longrightarrow> s' = (if a_exit A = Exit_WAIT
         then s\<lparr>waitFlag := 1, cp0_status := SCHEDULERINTSUNMASKED\<rparr> else s))"
proof (cases "a_ready A")
  case Nil
  have "kq s (a_free A) (a_ready A) (a_waits A) []"
    by (rule kq_cong [OF krelD(1) [OF assms(1)], unfolded assms(2) hand_simps]) simp_all
  then have "procq (procTable s) (readyQue s) []" using kqD(2) Nil by fastforce
  from scheduler_empty [OF this] Nil krelD(8,9) [OF assms(1)] show ?thesis
    by (auto simp: a_exit_def)
next
  case (Cons p R)
  have "kq s (a_free A) (a_ready A) (a_waits A) []"
    by (rule kq_cong [OF krelD(1) [OF assms(1)], unfolded assms(2) hand_simps]) simp_all
  then have k: "kq s (a_free A) (p # R) (a_waits A) []" using Cons by simp
  have n: "p_semAdd (procTable s p) = NULL" using kqD(3) [OF k] by simp
  have ts: "timescale (busreg s) \<noteq> 0" using mem_okD(1) [OF krelD(10) [OF assms(1)]] by simp
  obtain T' rq where run: "scheduler s = Some (Exit_LDST (p_s (procTable s p)),
      s\<lparr>procTable := T', readyQue := rq, waitFlag := 0, currentProcess := Some p,
        localtimer := 5000, tod_reads := Suc (tod_reads s), time := clock_value s\<rparr>)"
    and k': "kq (s\<lparr>procTable := T', readyQue := rq, waitFlag := 0, currentProcess := Some p,
        localtimer := 5000, tod_reads := Suc (tod_reads s), time := clock_value s\<rparr>)
        (a_free A) R (a_waits A) [p]"
    and fr: "qframe (set R) (procTable s) T'"
    using scheduler_next [OF k ts] unfolding Let_def by blast
  have "krel (s\<lparr>procTable := T', readyQue := rq, waitFlag := 0, currentProcess := Some p,
        localtimer := 5000, tod_reads := Suc (tod_reads s), time := clock_value s\<rparr>) (a_dispatch A)"
    using assms k' n Cons by (auto simp: krel_def mem_ok_def a_dispatch_def qframe_fields [OF fr])
  then show ?thesis using run Cons krelD(5) [OF assms(1)] by (auto simp: a_exit_def)
qed

section \<open>Properties\<close>

text \<open>
  C20. The dispatcher is round robin and ends in one of four ways. When the process that was
  running is no longer any queue's concern: if some process is ready, the first one is taken off
  the ready queue, becomes the current process with a fresh time slice and its saved state is
  loaded; if none is ready, the nucleus halts when no process exists, panics when processes
  exist but none waits for a device, and otherwise idles with the interrupts unmasked.
\<close>

theorem scheduler_dispatches:
  assumes "krel (s\<lparr>currentProcess := None\<rparr>) A" and "a_run A = None"
  shows "\<exists>s'. scheduler s = Some (a_exit A, s')
    \<and> (a_ready A \<noteq> [] \<longrightarrow> krel s' (a_dispatch A) \<and> localtimer s' = 5000 \<and> waitFlag s' = 0
         \<and> time s' = clock_value s)
    \<and> (a_ready A = [] \<longrightarrow> s' = (if a_exit A = Exit_WAIT
         then s\<lparr>waitFlag := 1, cp0_status := SCHEDULERINTSUNMASKED\<rparr> else s))"
  using scheduler_stale [OF assms] .

lemma no_current: "currentProcess (t :: kernel) = None \<Longrightarrow> t\<lparr>currentProcess := None\<rparr> = t"
  by (cases t) simp

theorem scheduler_dispatches_witness:
  "(\<exists>s s'. scheduler s = Some (Exit_LDST ex_state, s') \<and> currentProcess s' = Some 0)
   \<and> (\<exists>s. scheduler s = Some (Exit_HALT, s))"
proof -
  obtain s where k: "scripted s [0..<MAXPROC] [] (\<lambda>_. []) []" using ex_scripted_start by blast
  have im: "\<forall>i<DEVSEMS. int_mem ex_machine (devsem 0x20002000 i) \<noteq> None" using ex_machine_int by simp
  have idle: "\<exists>t A. krel (t\<lparr>currentProcess := None\<rparr>) A \<and> a_run A = None \<and> a_ready A = R
      \<and> a_free A = F \<and> a_ctx A = (\<lambda>_. ex_state)"
    if "scripted s F R (\<lambda>_. []) []" for s F R
  proof -
    let ?t = "s\<lparr>currentProcess := None, processCount := int MAXPROC - int (length F),
      softBlockCount := int (soft 0x20002000 (\<lambda>_. [])), int_mem := int_mem ex_machine\<rparr>"
    have "scripted s F R (\<lambda>_. []) (hand None)" using that by simp
    note r = scripted_krel [OF this im]
    let ?A = "\<lparr>a_free = F, a_ready = R, a_waits = (\<lambda>_. []), a_run = None, a_ctx = (\<lambda>_. ex_state),
      a_sem = int_mem ex_machine, a_base = 0x20002000\<rparr>"
    have same: "?t\<lparr>currentProcess := None\<rparr> = ?t" by (rule no_current) simp
    have "krel (?t\<lparr>currentProcess := None\<rparr>) ?A" unfolding same by (rule r)
    moreover have "a_run ?A = None" "a_ready ?A = R" "a_free ?A = F" "a_ctx ?A = (\<lambda>_. ex_state)"
      by simp_all
    ultimately show ?thesis by blast
  qed
  obtain t A where t: "krel (t\<lparr>currentProcess := None\<rparr>) A" "a_run A = None" "a_ready A = []"
    "a_free A = [0..<MAXPROC]" using idle [OF k] by blast
  from scheduler_dispatches [OF t(1,2)] have 1: "\<exists>s. scheduler s = Some (Exit_HALT, s)"
    using t(3,4) by (auto simp: a_exit_def)
  have "scripted s (0 # [1..<MAXPROC]) [] (\<lambda>_. []) []" using k by (simp add: MAXPROC_def upt_rec)
  then obtain s1 where "scripted s1 [1..<MAXPROC] [] (\<lambda>_. []) [0]" by (rule scripted_alloc)
  then obtain s2 where "scripted s2 [1..<MAXPROC] ([] @ [0]) (\<lambda>_. []) []" by (rule scripted_ready)
  from idle [OF this] obtain s3 A where
    "krel (s3\<lparr>currentProcess := None\<rparr>) A" "a_run A = None" "a_ready A = [0]" "a_ctx A = (\<lambda>_. ex_state)"
    by auto
  from scheduler_dispatches [OF this(1,2)] this(3,4)
  have "\<exists>s s'. scheduler s = Some (Exit_LDST ex_state, s') \<and> currentProcess s' = Some 0"
    by (auto simp: a_exit_def a_dispatch_def krel_def)
  with 1 show ?thesis by blast
qed

end
