(* ===== verification/Exceptions.thy ===== *)
theory Exceptions
  imports Scheduler
begin

text \<open>
  System calls, program traps and TLB exceptions: \<open>phase2/exceptions.c\<close>. Each handler starts
  from the state the hardware stored in its old area and ends in a \<^typ>\<open>kexit\<close>.
\<close>

section \<open>SYS 1: creation\<close>

definition createProcess :: "kernel \<Rightarrow> outcome" where
  "createProcess s = do {
     syscallOld \<leftarrow> rd_state (StAt SYSCALLOLDAREA) s;
     let newProcState = s_a1 syscallOld;
     (p, s1) \<leftarrow> allocPcb s;
     if p = None then do {
       s2 \<leftarrow> upd_state (StAt SYSCALLOLDAREA) (set_v0 (-1)) s1;
       Some (Exit_return, s2)
     } else do {
       s2 \<leftarrow> stateCopyPCB p (StAt newProcState) s1;
       let s3 = s2\<lparr>processCount := processCount s2 + 1\<rparr>;
       s4 \<leftarrow> insertChild (currentProcess s3) p s3;
       s5 \<leftarrow> insertReady p s4;
       s6 \<leftarrow> upd_state (StAt SYSCALLOLDAREA) (set_v0 0) s5;
       LDST (StAt SYSCALLOLDAREA) s6
     }
   }"

section \<open>SYS 2: termination\<close>

text \<open>The loop over the 49 device semaphores.\<close>

definition onDevSem :: "memaddr \<Rightarrow> kernel \<Rightarrow> bool" where
  "onDevSem semAdd s =
     fold (\<lambda>i devSem. if devSem_addr s (int i) = semAdd then True else devSem) [0..<49] False"

text \<open>
  \<open>terminateRecursively\<close> after its loop over the children: the process itself is taken off the
  semaphore list, or out of its family, or out of the ready queue, and freed.
\<close>

definition killOne :: "pcb_PTR \<Rightarrow> kernel \<Rightarrow> kernel option" where
  "killOne processToKill s = do {
     x \<leftarrow> rd_pcb processToKill s;
     if p_semAdd x \<noteq> NULL then do {
       s1 \<leftarrow>
         (if \<not> onDevSem (p_semAdd x) s then do {
            v \<leftarrow> rd_int (p_semAdd x) s;
            wr_int (p_semAdd x) (v + 1) s
          } else Some (s\<lparr>softBlockCount := softBlockCount s - 1\<rparr>));
       (r, s2) \<leftarrow> outBlocked processToKill s1;
       s3 \<leftarrow> freePcb r s2;
       Some (s3\<lparr>processCount := processCount s3 - 1\<rparr>)
     } else if processToKill = currentProcess s then do {
       (r, s1) \<leftarrow> outChild processToKill s;
       s2 \<leftarrow> freePcb r s1;
       Some (s2\<lparr>processCount := processCount s2 - 1\<rparr>)
     } else do {
       (r, rq, s1) \<leftarrow> outProcQ (readyQue s) processToKill s;
       s2 \<leftarrow> freePcb r (s1\<lparr>readyQue := rq\<rparr>);
       Some (s2\<lparr>processCount := processCount s2 - 1\<rparr>)
     }
   }"

text \<open>
  The loop \<open>while (emptyChild(p) == FALSE)\<close>. Its body calls \<open>terminateRecursively\<close> on the removed
  child, which is this loop for the child and then \<^const>\<open>killOne\<close>.
\<close>

partial_function (option) killChildren :: "pcb_PTR \<Rightarrow> kernel \<Rightarrow> kernel option" where
  "killChildren processToKill s = do {
     e \<leftarrow> emptyChild processToKill s;
     if e then Some s
     else do {
       (nextProcessToKill, s1) \<leftarrow> removeChild processToKill s;
       s2 \<leftarrow> killChildren nextProcessToKill s1;
       s3 \<leftarrow> killOne nextProcessToKill s2;
       killChildren processToKill s3
     }
   }"

definition terminateRecursively :: "pcb_PTR \<Rightarrow> kernel \<Rightarrow> kernel option" where
  "terminateRecursively processToKill s = do {
     s1 \<leftarrow> killChildren processToKill s;
     killOne processToKill s1
   }"

definition terminateProcess :: "kernel \<Rightarrow> outcome" where
  "terminateProcess s = do {
     s1 \<leftarrow> terminateRecursively (currentProcess s) s;
     scheduler s1
   }"

section \<open>SYS 5 and passing exceptions up\<close>

definition specifyExceptionStateVector :: "kernel \<Rightarrow> outcome" where
  "specifyExceptionStateVector s = do {
     syscallOld \<leftarrow> rd_state (StAt SYSCALLOLDAREA) s;
     let exceptionType = s_a1 syscallOld;
     let oldState = s_a2 syscallOld;
     let newState = s_a3 syscallOld;
     kseq
       (if exceptionType = 0 then do {
          c \<leftarrow> rd_pcb (currentProcess s) s;
          if p_oldTLB c \<noteq> NULL then terminateProcess s
          else do {
            s1 \<leftarrow> upd_pcb (currentProcess s) (\<lambda>x. x\<lparr>p_oldTLB := oldState\<rparr>) s;
            s2 \<leftarrow> upd_pcb (currentProcess s1) (\<lambda>x. x\<lparr>p_newTLB := newState\<rparr>) s1;
            Some (Exit_return, s2)
          }
        } else if exceptionType = 1 then do {
          c \<leftarrow> rd_pcb (currentProcess s) s;
          if p_oldPgm c \<noteq> NULL then terminateProcess s
          else do {
            s1 \<leftarrow> upd_pcb (currentProcess s) (\<lambda>x. x\<lparr>p_oldPgm := oldState\<rparr>) s;
            s2 \<leftarrow> upd_pcb (currentProcess s1) (\<lambda>x. x\<lparr>p_newPgm := newState\<rparr>) s1;
            Some (Exit_return, s2)
          }
        } else if exceptionType = 2 then do {
          c \<leftarrow> rd_pcb (currentProcess s) s;
          if p_oldSys c \<noteq> NULL then terminateProcess s
          else do {
            s1 \<leftarrow> upd_pcb (currentProcess s) (\<lambda>x. x\<lparr>p_oldSys := oldState\<rparr>) s;
            s2 \<leftarrow> upd_pcb (currentProcess s1) (\<lambda>x. x\<lparr>p_newSys := newState\<rparr>) s1;
            Some (Exit_return, s2)
          }
        } else Some (Exit_return, s))
       (LDST (StAt SYSCALLOLDAREA))
   }"

definition passUpOrDie :: "int \<Rightarrow> kernel \<Rightarrow> outcome" where
  "passUpOrDie exceptionType s =
     kseq
       (if exceptionType = 0 then do {
          c \<leftarrow> rd_pcb (currentProcess s) s;
          if p_oldTLB c \<noteq> NULL then do {
            s1 \<leftarrow> stateCopy (StAt TLBMANAGEMENTOLDAREA) (StAt (p_oldTLB c)) s;
            c1 \<leftarrow> rd_pcb (currentProcess s1) s1;
            LDST (StAt (p_newTLB c1)) s1
          } else Some (Exit_return, s)
        } else if exceptionType = 1 then do {
          c \<leftarrow> rd_pcb (currentProcess s) s;
          if p_oldPgm c \<noteq> NULL then do {
            s1 \<leftarrow> stateCopy (StAt PROGRAMTRAPOLDAREA) (StAt (p_oldPgm c)) s;
            c1 \<leftarrow> rd_pcb (currentProcess s1) s1;
            LDST (StAt (p_newPgm c1)) s1
          } else Some (Exit_return, s)
        } else if exceptionType = 2 then do {
          c \<leftarrow> rd_pcb (currentProcess s) s;
          if p_oldSys c \<noteq> NULL then do {
            s1 \<leftarrow> stateCopy (StAt SYSCALLOLDAREA) (StAt (p_oldSys c)) s;
            c1 \<leftarrow> rd_pcb (currentProcess s1) s1;
            LDST (StAt (p_newSys c1)) s1
          } else Some (Exit_return, s)
        } else Some (Exit_return, s))
       terminateProcess"

section \<open>SYS 3 and SYS 4: the semaphore operations\<close>

definition verhogen :: "kernel \<Rightarrow> outcome" where
  "verhogen s = do {
     oldSys \<leftarrow> rd_state (StAt SYSCALLOLDAREA) s;
     let mutex = s_a1 oldSys;
     v \<leftarrow> rd_int mutex s;
     s1 \<leftarrow> wr_int mutex (v + 1) s;
     v1 \<leftarrow> rd_int mutex s1;
     s4 \<leftarrow>
       (if sint v1 \<le> 0 then do {
          (temp, s2) \<leftarrow> removeBlocked mutex s1;
          if temp \<noteq> None then do {
            s3 \<leftarrow> upd_pcb temp (\<lambda>x. x\<lparr>p_semAdd := NULL\<rparr>) s2;
            insertReady temp s3
          } else Some s2
        } else Some s1);
     LDST (StAt SYSCALLOLDAREA) s4
   }"

definition passeren :: "kernel \<Rightarrow> outcome" where
  "passeren s = do {
     oldSys \<leftarrow> rd_state (StAt SYSCALLOLDAREA) s;
     let mutex = s_a1 oldSys;
     v \<leftarrow> rd_int mutex s;
     s1 \<leftarrow> wr_int mutex (v - 1) s;
     v1 \<leftarrow> rd_int mutex s1;
     kseq
       (if sint v1 < 0 then do {
          (currTime, s2) \<leftarrow> STCK s1;
          s3 \<leftarrow> chargeTime (currentProcess s2) currTime s2;
          s4 \<leftarrow> stateCopy (StAt SYSCALLOLDAREA) (StOf (currentProcess s3)) s3;
          (full, s5) \<leftarrow> insertBlocked mutex (currentProcess s4) s4;
          scheduler (s5\<lparr>currentProcess := None\<rparr>)
        } else Some (Exit_return, s1))
       (LDST (StAt SYSCALLOLDAREA))
   }"

section \<open>SYS 6, SYS 7 and SYS 8\<close>

definition getCPUTime :: "kernel \<Rightarrow> outcome" where
  "getCPUTime s = do {
     oldSys \<leftarrow> rd_state (StAt SYSCALLOLDAREA) s;
     (currTime, s1) \<leftarrow> STCK s;
     s2 \<leftarrow> chargeTime (currentProcess s1) currTime s1;
     c \<leftarrow> rd_pcb (currentProcess s2) s2;
     s3 \<leftarrow> upd_state (StAt SYSCALLOLDAREA) (set_v0 (p_time c)) s2;
     LDST (StAt SYSCALLOLDAREA) s3
   }"

definition waitForClock :: "kernel \<Rightarrow> outcome" where
  "waitForClock s = do {
     oldSys \<leftarrow> rd_state (StAt SYSCALLOLDAREA) s;
     let semAdd = devSem_addr s (int CLOCKSEM);
     v \<leftarrow> rd_int semAdd s;
     s1 \<leftarrow> wr_int semAdd (v - 1) s;
     v1 \<leftarrow> rd_int semAdd s1;
     kseq
       (if sint v1 < 0 then do {
          s2 \<leftarrow> stateCopy (StAt SYSCALLOLDAREA) (StOf (currentProcess s1)) s1;
          (full, s3) \<leftarrow> insertBlocked semAdd (currentProcess s2) s2;
          let s4 = s3\<lparr>softBlockCount := softBlockCount s3 + 1\<rparr>;
          (currTime, s5) \<leftarrow> STCK s4;
          s6 \<leftarrow> chargeTime (currentProcess s5) currTime s5;
          scheduler (s6\<lparr>currentProcess := None\<rparr>)
        } else Some (Exit_return, s1))
       (LDST (StAt SYSCALLOLDAREA))
   }"

text \<open>The index of a device semaphore (of \<open>phase2/interrupts.c\<close>).\<close>

definition getSemArrayNum :: "int \<Rightarrow> int \<Rightarrow> int \<Rightarrow> int" where
  "getSemArrayNum lineNumber deviceNumber termOffset =
     (lineNumber - 3) * 8 + deviceNumber + termOffset"

definition waitForIODevice :: "kernel \<Rightarrow> outcome" where
  "waitForIODevice s = do {
     oldSys \<leftarrow> rd_state (StAt SYSCALLOLDAREA) s;
     s0 \<leftarrow> stateCopy (StAt SYSCALLOLDAREA) (StOf (currentProcess s)) s;
     let lineNumber = sint (s_a1 oldSys);
     let deviceNumber = sint (s_a2 oldSys);
     let termRead = sint (s_a3 oldSys);
     let offset = (if lineNumber = 7 \<and> termRead = 1 then 8 else 0);
     let semAdd = devSem_addr s0 (getSemArrayNum lineNumber deviceNumber offset);
     v \<leftarrow> rd_int semAdd s0;
     s1 \<leftarrow> wr_int semAdd (v - 1) s0;
     v1 \<leftarrow> rd_int semAdd s1;
     if sint v1 < 0 then do {
       (currTime, s2) \<leftarrow> STCK s1;
       s3 \<leftarrow> chargeTime (currentProcess s2) currTime s2;
       let s4 = s3\<lparr>softBlockCount := softBlockCount s3 + 1\<rparr>;
       (full, s5) \<leftarrow> insertBlocked semAdd (currentProcess s4) s4;
       scheduler (s5\<lparr>currentProcess := None\<rparr>)
     } else Some (Exit_return, s1)
   }"

section \<open>The handlers\<close>

definition pgmTrapHandler :: "kernel \<Rightarrow> outcome" where
  "pgmTrapHandler s = passUpOrDie 1 s"

definition tlbMgmtHandler :: "kernel \<Rightarrow> outcome" where
  "tlbMgmtHandler s = passUpOrDie 0 s"

text \<open>The cause register with its exception code made "reserved instruction".\<close>

definition riCause :: "word32 \<Rightarrow> word32" where
  "riCause cause =
     (let cause1 = cause OR RIMASKON;
          finalCause = NOT cause1 OR RIMASKTOTURNOFF
      in NOT finalCause)"

definition syscallDispatch :: "int \<Rightarrow> bool \<Rightarrow> kernel \<Rightarrow> outcome" where
  "syscallDispatch syscallNum kernelMode s =
     (if syscallNum > 0 \<and> syscallNum < 9 then
        if kernelMode then do {
          s1 \<leftarrow> upd_state (StAt SYSCALLOLDAREA) (\<lambda>x. x\<lparr>s_pc := s_pc x + 4\<rparr>) s;
          (if syscallNum = 1 then createProcess s1
           else if syscallNum = 2 then terminateProcess s1
           else if syscallNum = 3 then verhogen s1
           else if syscallNum = 4 then passeren s1
           else if syscallNum = 5 then specifyExceptionStateVector s1
           else if syscallNum = 6 then getCPUTime s1
           else if syscallNum = 7 then waitForClock s1
           else waitForIODevice s1)
        } else do {
          s1 \<leftarrow> stateCopy (StAt SYSCALLOLDAREA) (StAt PROGRAMTRAPOLDAREA) s;
          s2 \<leftarrow> upd_state (StAt PROGRAMTRAPOLDAREA) (\<lambda>x. x\<lparr>s_cause := riCause (s_cause x)\<rparr>) s1;
          pgmTrapHandler s2
        }
      else passUpOrDie 2 s)"

definition sysCallHandler :: "kernel \<Rightarrow> outcome" where
  "sysCallHandler s = do {
     syscallOld \<leftarrow> rd_state (StAt SYSCALLOLDAREA) s;
     let kernelStatus = s_status syscallOld AND KERNELOFF;
     let kernelMode = (kernelStatus = ALLOFF);
     syscallDispatch (sint (s_a0 syscallOld)) kernelMode s
   }"

section \<open>SYS 3 and SYS 4: what they do\<close>

lemma verhogen_run:
  assumes r: "krel s A" and st: "st_mem s SYSCALLOLDAREA = Some st"
    and v: "a_sem A (s_a1 st) = Some v" and a: "s_a1 st < MAXINT" "\<not> is_dev (a_base A) (s_a1 st)"
  shows "\<exists>s'. verhogen s = Some (Exit_LDST st, s') \<and> krel s' (a_V (s_a1 st) A)"
proof -
  let ?a = "s_a1 st"
  let ?s1 = "s\<lparr>int_mem := (int_mem s)(?a \<mapsto> v + 1)\<rparr>" and ?A1 = "a_setsem ?a (v + 1) A"
  have v': "int_mem s ?a = Some v" using v krelD(6) [OF r] by simp
  have r1: "krel ?s1 ?A1" by (rule krel_setsem [OF r v'])
  show ?thesis
  proof (cases "sint (v + 1) \<le> 0")
    case False
    then show ?thesis using r1 st v v'
      by (simp add: verhogen_def rd_int_def LDST_def a_V_def)
  next
    case True
    show ?thesis
    proof (cases "a_waits ?A1 ?a")
      case Nil
      then have "removeBlocked ?a ?s1 = Some (None, ?s1)"
        using kq_wake_none [OF krelD(1) [OF r1] a(1)] by blast
      then show ?thesis using r1 st v v' True Nil
        by (simp add: verhogen_def rd_int_def LDST_def a_V_def a_wake_def)
    next
      case (Cons p ps)
      have "\<not> is_dev (a_base ?A1) ?a" using a(2) by (simp add: a_setsem_def)
      from krel_wake_plain [OF r1 Cons this] obtain T1 S' fh T2 where
        "removeBlocked ?a ?s1 = Some (Some p, ?s1\<lparr>procTable := T1, semdTable := S', semdFree_h := fh\<rparr>)"
        "p < MAXPROC"
        "insertReady (Some p) (?s1\<lparr>semdTable := S', semdFree_h := fh, procTable := T1(p := (T1 p)\<lparr>p_semAdd := NULL\<rparr>)\<rparr>)
          = Some (?s1\<lparr>semdTable := S', semdFree_h := fh, procTable := T2, readyQue := Some p\<rparr>)"
        "krel (?s1\<lparr>semdTable := S', semdFree_h := fh, procTable := T2, readyQue := Some p\<rparr>) (a_wake ?a ?A1)"
        by blast
      then show ?thesis using st v v' True
        by (simp add: verhogen_def rd_int_def LDST_def a_V_def)
    qed
  qed
qed

text \<open>Saving the running process and queueing it, then dispatching; the clock may be read between.\<close>

lemma passeren_run:
  assumes r: "krel s A" and st: "st_mem s SYSCALLOLDAREA = Some st" and p: "a_run A = Some p"
    and v: "a_sem A (s_a1 st) = Some v" and a: "0 < s_a1 st" "s_a1 st < MAXINT" "\<not> is_dev (a_base A) (s_a1 st)"
  shows "sint (v - 1) < 0 \<Longrightarrow> \<exists>s'. passeren s = Some (a_exit (a_P (s_a1 st) st A), s')
      \<and> krel s' (a_dispatch (a_P (s_a1 st) st A))"
    and "\<not> sint (v - 1) < 0 \<Longrightarrow> \<exists>s'. passeren s = Some (Exit_LDST st, s') \<and> krel s' (a_P (s_a1 st) st A)"
proof -
  let ?a = "s_a1 st"
  let ?s1 = "s\<lparr>int_mem := (int_mem s)(?a \<mapsto> v - 1)\<rparr>" and ?A1 = "a_setsem ?a (v - 1) A"
  have v': "int_mem s ?a = Some v" using v krelD(6) [OF r] by simp
  have r1: "krel ?s1 ?A1" by (rule krel_setsem [OF r v'])
  have cp: "currentProcess s = Some p" "p < MAXPROC" using krelD(2,4) [OF r] p by auto
  have ts: "timescale (busreg s) \<noteq> 0" using mem_okD(1) [OF krelD(10) [OF r]] .
  {
    assume "\<not> sint (v - 1) < 0"
    then show "\<exists>s'. passeren s = Some (Exit_LDST st, s') \<and> krel s' (a_P ?a st A)"
      using r1 st v v' by (simp add: passeren_def rd_int_def LDST_def a_P_def)
  }
  assume neg: "sint (v - 1) < 0"
  define x where "x = (procTable s p)\<lparr>p_time := p_time (procTable s p) + (clock_value s - time s)\<rparr>"
  let ?s3 = "?s1\<lparr>tod_reads := Suc (tod_reads s), procTable := (procTable s)(p := x)\<rparr>"
  have r3: "krel ?s3 ?A1" by (rule krel_cong [OF r1]) (simp_all add: x_def)
  let ?s4 = "?s3\<lparr>procTable := (procTable s)(p := x\<lparr>p_s := st\<rparr>)\<rparr>"
  have wf: "wf_state st" using mem_okD(4) [OF krelD(10) [OF r] st] .
  have r4: "krel ?s4 (?A1\<lparr>a_ctx := (a_ctx ?A1)(p := st)\<rparr>)"
    using krel_ctx [OF r3 cp(2) wf] by simp
  have copy: "stateCopy (StAt SYSCALLOLDAREA) (StOf (Some p)) ?s3 = Some ?s4"
    using stateCopy_saved [OF r3 cp(2), of SYSCALLOLDAREA st] st by simp
  obtain T' S' fh where ins: "insertBlocked ?a (Some p) ?s4
        = Some (False, ?s4\<lparr>procTable := T', semdTable := S', semdFree_h := fh\<rparr>)"
    and r5: "krel (?s4\<lparr>procTable := T', semdTable := S', semdFree_h := fh, currentProcess := None,
        softBlockCount := softBlockCount ?s4 + 0\<rparr>)
      (?A1\<lparr>a_ctx := (a_ctx ?A1)(p := st), a_waits := (a_waits A)(?a := a_waits A ?a @ [p]), a_run := None\<rparr>)"
    using krel_block [OF r4 _ a(1,2), of p 0] p a(3) by (auto simp: a_setsem_def)
  let ?s5 = "?s4\<lparr>procTable := T', semdTable := S', semdFree_h := fh, currentProcess := None\<rparr>"
  have A5: "?A1\<lparr>a_ctx := (a_ctx ?A1)(p := st), a_waits := (a_waits A)(?a := a_waits A ?a @ [p]), a_run := None\<rparr>
      = a_P ?a st A"
    using neg p v by (simp add: a_P_def a_block_def a_setsem_def)
  have r5: "krel ?s5 (a_P ?a st A)" using r5 unfolding A5 by simp
  have "a_run (a_P ?a st A) = None" using neg p v by (simp add: a_P_def a_block_def a_setsem_def)
  from scheduler_refines [OF r5 this] obtain s' where
    fin: "scheduler ?s5 = Some (a_exit (a_P ?a st A), s')" "krel s' (a_dispatch (a_P ?a st A))" by blast
  have kind: "kseq (Some (a_exit B, t)) k = Some (a_exit B, t)" for B t k
    by (auto simp: a_exit_def split: list.splits)
  have "passeren s = kseq (scheduler ?s5) (LDST (StAt SYSCALLOLDAREA))"
    using st v' neg cp ts copy ins
    by (simp add: passeren_def rd_int_def STCK_run chargeTime_run x_def clock_value_def)
  then show "\<exists>s'. passeren s = Some (a_exit (a_P ?a st A), s') \<and> krel s' (a_dispatch (a_P ?a st A))"
    using fin kind by simp
qed

section \<open>SYS 6, SYS 7 and SYS 8: what they do\<close>

lemma dev_sem_facts:
  assumes "krel s A" "i < DEVSEMS"
  shows "devSem_addr s (int i) = devsem (a_base A) i" "0 < devsem (a_base A) i"
    "devsem (a_base A) i < MAXINT" "is_dev (a_base A) (devsem (a_base A) i)"
  using devsem_bounds [of "a_base A" i] mem_okD(2) [OF krelD(10) [OF assms(1)]] krelD(7) [OF assms(1)] assms(2)
  by (auto simp: devSem_addr_devsem is_dev_def)

lemma a_exit_kseq: "kseq (Some (a_exit A, s)) k = Some (a_exit A, s)"
  by (auto simp: a_exit_def split: list.splits)

lemma waitForClock_run:
  fixes A
  defines "a \<equiv> devsem (a_base A) CLOCKSEM"
  assumes r: "krel s A" and st: "st_mem s SYSCALLOLDAREA = Some st" and p: "a_run A = Some p"
    and v: "a_sem A a = Some v"
  shows "sint (v - 1) < 0 \<Longrightarrow> \<exists>s'. waitForClock s = Some (a_exit (a_P a st A), s')
      \<and> krel s' (a_dispatch (a_P a st A))"
    and "\<not> sint (v - 1) < 0 \<Longrightarrow> \<exists>s'. waitForClock s = Some (Exit_LDST st, s') \<and> krel s' (a_P a st A)"
proof -
  have clock: "CLOCKSEM < DEVSEMS" by (simp add: DEVSEMS_49 CLOCKSEM_48)
  note dev = dev_sem_facts [OF r clock, folded a_def]
  let ?s1 = "s\<lparr>int_mem := (int_mem s)(a \<mapsto> v - 1)\<rparr>" and ?A1 = "a_setsem a (v - 1) A"
  have v': "int_mem s a = Some v" using v krelD(6) [OF r] by simp
  have r1: "krel ?s1 ?A1" by (rule krel_setsem [OF r v'])
  have cp: "currentProcess s = Some p" "p < MAXPROC" using krelD(2,4) [OF r] p by auto
  have ts: "timescale (busreg s) \<noteq> 0" using mem_okD(1) [OF krelD(10) [OF r]] .
  {
    assume "\<not> sint (v - 1) < 0"
    then show "\<exists>s'. waitForClock s = Some (Exit_LDST st, s') \<and> krel s' (a_P a st A)"
      using r1 st v v' dev(1) by (simp add: waitForClock_def rd_int_def LDST_def a_P_def)
  }
  assume neg: "sint (v - 1) < 0"
  let ?s2 = "?s1\<lparr>procTable := (procTable s)(p := (procTable s p)\<lparr>p_s := st\<rparr>)\<rparr>"
  have wf: "wf_state st" using mem_okD(4) [OF krelD(10) [OF r] st] .
  have r2: "krel ?s2 (?A1\<lparr>a_ctx := (a_ctx ?A1)(p := st)\<rparr>)"
    using krel_ctx [OF r1 cp(2) wf] by simp
  have copy: "stateCopy (StAt SYSCALLOLDAREA) (StOf (Some p)) ?s1 = Some ?s2"
    using stateCopy_saved [OF r1 cp(2), of SYSCALLOLDAREA st] st by simp
  obtain T' S' fh where ins: "insertBlocked a (Some p) ?s2
        = Some (False, ?s2\<lparr>procTable := T', semdTable := S', semdFree_h := fh\<rparr>)"
    and r3: "krel (?s2\<lparr>procTable := T', semdTable := S', semdFree_h := fh, currentProcess := None,
        softBlockCount := softBlockCount ?s2 + 1\<rparr>)
      (?A1\<lparr>a_ctx := (a_ctx ?A1)(p := st), a_waits := (a_waits A)(a := a_waits A a @ [p]), a_run := None\<rparr>)"
    using krel_block [OF r2 _ dev(2,3), of p 1] p dev(4) by (auto simp: a_setsem_def)
  have A5: "?A1\<lparr>a_ctx := (a_ctx ?A1)(p := st), a_waits := (a_waits A)(a := a_waits A a @ [p]), a_run := None\<rparr>
      = a_P a st A"
    using neg p v by (simp add: a_P_def a_block_def a_setsem_def)
  define x where "x = (T' p)\<lparr>p_time := p_time (T' p) + (clock_value s - time s)\<rparr>"
  let ?s5 = "?s2\<lparr>semdTable := S', semdFree_h := fh, softBlockCount := softBlockCount s + 1,
      tod_reads := Suc (tod_reads s), procTable := T'(p := x), currentProcess := None\<rparr>"
  have r5: "krel ?s5 (a_P a st A)"
    by (rule krel_cong [OF r3 [unfolded A5]]) (simp_all add: x_def)
  have "a_run (a_P a st A) = None" using neg p v by (simp add: a_P_def a_block_def a_setsem_def)
  from scheduler_refines [OF r5 this] obtain s' where
    fin: "scheduler ?s5 = Some (a_exit (a_P a st A), s')" "krel s' (a_dispatch (a_P a st A))" by blast
  have "waitForClock s = kseq (scheduler ?s5) (LDST (StAt SYSCALLOLDAREA))"
    using st v' neg cp ts copy ins dev(1)
    by (simp add: waitForClock_def rd_int_def STCK_run chargeTime_run x_def clock_value_def)
  then show "\<exists>s'. waitForClock s = Some (a_exit (a_P a st A), s') \<and> krel s' (a_dispatch (a_P a st A))"
    using fin a_exit_kseq by simp
qed

text \<open>
  The numbers of the device semaphores: eight for each line from 3 on, of which those of line 7 are for the
  transmitters of the terminals, and from 40 on those for the receivers. The semaphore that SYS 8 names by its arguments.
\<close>

definition io_index :: "int \<Rightarrow> int \<Rightarrow> bool \<Rightarrow> nat" where
  "io_index line d receiver = (if receiver then 40 + nat d else 8 * nat (line - 3) + nat d)"

definition ioSem :: "state_t \<Rightarrow> nat" where
  "ioSem st = io_index (sint (s_a1 st)) (sint (s_a2 st)) (sint (s_a1 st) = 7 \<and> sint (s_a3 st) = 1)"

lemma getSemArrayNum_index:
  assumes "3 \<le> line" "line \<le> 7" "0 \<le> d" "d < 8" "receiver \<longrightarrow> line = 7"
  shows "getSemArrayNum line d (if receiver then 8 else 0) = int (io_index line d receiver)"
    "io_index line d receiver < CLOCKSEM" "io_index line d receiver < DEVSEMS"
  using assms by (auto simp: getSemArrayNum_def io_index_def CLOCKSEM_48 DEVSEMS_49)

definition io_args_ok :: "state_t \<Rightarrow> bool" where
  "io_args_ok st \<longleftrightarrow> 3 \<le> sint (s_a1 st) \<and> sint (s_a1 st) \<le> 7 \<and> 0 \<le> sint (s_a2 st) \<and> sint (s_a2 st) < 8"

lemma ioSem_bounds:
  assumes "io_args_ok st"
  shows "ioSem st < CLOCKSEM" "ioSem st < DEVSEMS"
    "getSemArrayNum (sint (s_a1 st)) (sint (s_a2 st))
     (if sint (s_a1 st) = 7 \<and> sint (s_a3 st) = 1 then 8 else 0) = int (ioSem st)"
  using getSemArrayNum_index [of "sint (s_a1 st)" "sint (s_a2 st)" "sint (s_a1 st) = 7 \<and> sint (s_a3 st) = 1"] assms
  by (auto simp: ioSem_def io_args_ok_def)

lemma waitForIODevice_run:
  fixes A st
  defines "a \<equiv> devsem (a_base A) (ioSem st)"
  assumes r: "krel s A" and st: "st_mem s SYSCALLOLDAREA = Some st" and p: "a_run A = Some p"
    and io: "io_args_ok st" and v: "a_sem A a = Some v"
  shows "sint (v - 1) < 0 \<Longrightarrow> \<exists>s'. waitForIODevice s = Some (a_exit (a_P a st A), s')
      \<and> krel s' (a_dispatch (a_P a st A))"
    and "\<not> sint (v - 1) < 0 \<Longrightarrow> \<exists>s'. waitForIODevice s = Some (Exit_return, s')
      \<and> krel s' (a_P a st (A\<lparr>a_ctx := (a_ctx A)(p := st)\<rparr>))"
proof -
  note dev = dev_sem_facts [OF r ioSem_bounds(2) [OF io], folded a_def]
  have cp: "currentProcess s = Some p" "p < MAXPROC" using krelD(2,4) [OF r] p by auto
  have ts: "timescale (busreg s) \<noteq> 0" using mem_okD(1) [OF krelD(10) [OF r]] .
  have wf: "wf_state st" using mem_okD(4) [OF krelD(10) [OF r] st] .
  have v': "int_mem s a = Some v" using v krelD(6) [OF r] by simp
  define y where "y = (procTable s p)\<lparr>p_s := st\<rparr>"
  let ?s0 = "s\<lparr>procTable := (procTable s)(p := y)\<rparr>" and ?A0 = "A\<lparr>a_ctx := (a_ctx A)(p := st)\<rparr>"
  have r0: "krel ?s0 ?A0" using krel_ctx [OF r cp(2) wf] by (simp add: y_def)
  have copy: "stateCopy (StAt SYSCALLOLDAREA) (StOf (Some p)) s = Some ?s0"
    using stateCopy_saved [OF r cp(2) st] by (simp add: y_def)
  let ?s1 = "?s0\<lparr>int_mem := (int_mem s)(a \<mapsto> v - 1)\<rparr>" and ?A1 = "a_setsem a (v - 1) ?A0"
  have r1: "krel ?s1 ?A1" using krel_setsem [OF r0, of a v "v - 1"] v' by simp
  have addr: "devSem_addr ?s0 (int (ioSem st)) = a" using dev(1) by (simp add: devSem_addr_def)
  {
    assume "\<not> sint (v - 1) < 0"
    then show "\<exists>s'. waitForIODevice s = Some (Exit_return, s')
        \<and> krel s' (a_P a st (A\<lparr>a_ctx := (a_ctx A)(p := st)\<rparr>))"
      using r1 st v v' addr copy cp ioSem_bounds(3) [OF io]
      by (simp add: waitForIODevice_def rd_int_def a_P_def a_setsem_def)
  }
  assume neg: "sint (v - 1) < 0"
  define x where "x = y\<lparr>p_time := p_time y + (clock_value s - time s)\<rparr>"
  let ?s3 = "?s1\<lparr>tod_reads := Suc (tod_reads s), procTable := (procTable s)(p := x)\<rparr>"
  have r3: "krel ?s3 ?A1" by (rule krel_cong [OF r1]) (simp_all add: x_def)
  let ?s4 = "?s3\<lparr>softBlockCount := softBlockCount s + 1\<rparr>"
  have r4: "krel (?s4\<lparr>softBlockCount := softBlockCount s\<rparr>) ?A1"
    by (rule krel_cong [OF r3]) simp_all
  obtain T' S' fh where ins: "insertBlocked a (Some p) ?s4
        = Some (False, ?s4\<lparr>procTable := T', semdTable := S', semdFree_h := fh\<rparr>)"
    and r5: "krel (?s4\<lparr>procTable := T', semdTable := S', semdFree_h := fh, currentProcess := None,
        softBlockCount := softBlockCount s + 1\<rparr>)
      (?A1\<lparr>a_waits := (a_waits A)(a := a_waits A a @ [p]), a_run := None\<rparr>)"
    using krel_block_gen [OF r4 _ dev(2,3), of p 1] p dev(4) by (auto simp: a_setsem_def)
  have A5: "?A1\<lparr>a_waits := (a_waits A)(a := a_waits A a @ [p]), a_run := None\<rparr> = a_P a st A"
    using neg p v by (simp add: a_P_def a_block_def a_setsem_def)
  let ?s5 = "?s4\<lparr>procTable := T', semdTable := S', semdFree_h := fh, currentProcess := None\<rparr>"
  have r6: "krel ?s5 (a_P a st A)" by (rule krel_cong [OF r5 [unfolded A5]]) simp_all
  have "a_run (a_P a st A) = None" using neg p v by (simp add: a_P_def a_block_def a_setsem_def)
  from scheduler_refines [OF r6 this] obtain s' where
    fin: "scheduler ?s5 = Some (a_exit (a_P a st A), s')" "krel s' (a_dispatch (a_P a st A))" by blast
  have "waitForIODevice s = scheduler ?s5"
    using st v' neg cp ts copy ins addr ioSem_bounds(3) [OF io]
    by (simp add: waitForIODevice_def rd_int_def STCK_run chargeTime_run x_def y_def clock_value_def)
  then show "\<exists>s'. waitForIODevice s = Some (a_exit (a_P a st A), s') \<and> krel s' (a_dispatch (a_P a st A))"
    using fin by simp
qed

text \<open>The running process is charged and told the processor time it has used.\<close>

lemma getCPUTime_run:
  assumes r: "krel s A" and st: "st_mem s SYSCALLOLDAREA = Some st" and p: "a_run A = Some p"
  defines "t \<equiv> p_time (procTable s p) + (clock_value s - time s)"
  shows "\<exists>s'. getCPUTime s = Some (Exit_LDST (set_v0 t st), s') \<and> krel s' A
    \<and> p_time (procTable s' p) = t \<and> st_mem s' = (st_mem s)(SYSCALLOLDAREA \<mapsto> set_v0 t st)
    \<and> time s' = time s"
proof -
  have cp: "currentProcess s = Some p" "p < MAXPROC" using krelD(2,4) [OF r] p by auto
  have ts: "timescale (busreg s) \<noteq> 0" using mem_okD(1) [OF krelD(10) [OF r]] .
  have wf: "wf_state (set_v0 t st)"
    using mem_okD(4) [OF krelD(10) [OF r] st] by (simp add: wf_state_def reg_defs)
  let ?s1 = "s\<lparr>tod_reads := Suc (tod_reads s), procTable := (procTable s)(p := (procTable s p)\<lparr>p_time := t\<rparr>)\<rparr>"
  have r1: "krel ?s1 A" by (rule krel_cong [OF r]) simp_all
  have r2: "krel (?s1\<lparr>st_mem := (st_mem s)(SYSCALLOLDAREA \<mapsto> set_v0 t st)\<rparr>) A"
    using krel_st_mem [OF r1 wf] by simp
  have "getCPUTime s = Some (Exit_LDST (set_v0 t st), ?s1\<lparr>st_mem := (st_mem s)(SYSCALLOLDAREA \<mapsto> set_v0 t st)\<rparr>)"
    using st cp ts by (simp add: getCPUTime_def STCK_run chargeTime_run t_def clock_value_def LDST_def)
  then show ?thesis using r2 by simp
qed

section \<open>SYS 1: what it does\<close>

text \<open>The new process takes the first free block and becomes the last ready process.\<close>

definition a_fork :: "state_t \<Rightarrow> akernel \<Rightarrow> akernel" where
  "a_fork cst A =
     (case a_free A of
        [] \<Rightarrow> A
      | q # F \<Rightarrow> A\<lparr>a_free := F, a_ready := a_ready A @ [q], a_ctx := (a_ctx A)(q := cst)\<rparr>)"

lemma createProcess_full:
  assumes r: "krel s A" and st: "st_mem s SYSCALLOLDAREA = Some st" and F: "a_free A = []"
  shows "createProcess s
      = Some (Exit_return, s\<lparr>st_mem := (st_mem s)(SYSCALLOLDAREA \<mapsto> set_v0 (-1) st)\<rparr>)"
    and "krel (s\<lparr>st_mem := (st_mem s)(SYSCALLOLDAREA \<mapsto> set_v0 (-1) st)\<rparr>) A"
proof -
  have "procq (procTable s) (pcbFree_h s) []" using kqD(1) [OF krelD(1) [OF r]] F by simp
  then have "allocPcb s = Some (None, s)" by (rule allocPcb_none)
  then show "createProcess s
      = Some (Exit_return, s\<lparr>st_mem := (st_mem s)(SYSCALLOLDAREA \<mapsto> set_v0 (-1) st)\<rparr>)"
    using st by (simp add: createProcess_def)
  have "wf_state (set_v0 (-1) st)"
    using mem_okD(4) [OF krelD(10) [OF r] st] by (simp add: wf_state_def reg_defs)
  then show "krel (s\<lparr>st_mem := (st_mem s)(SYSCALLOLDAREA \<mapsto> set_v0 (-1) st)\<rparr>) A"
    by (rule krel_st_mem [OF r])
qed

lemma createProcess_run:
  assumes r: "krel s A" and st: "st_mem s SYSCALLOLDAREA = Some st" and p: "a_run A = Some p"
    and F: "a_free A = q # F" and cst: "st_mem s (s_a1 st) = Some cst"
    and ch: "children (procTable s) p cs" "q \<notin> set cs"
  shows "\<exists>s'. createProcess s = Some (Exit_LDST (set_v0 0 st), s')
    \<and> krel s' (a_fork cst A) \<and> children (procTable s') p (q # cs)
    \<and> children (procTable s') q []
    \<and> (\<forall>x ds. x \<notin> {p, q} \<longrightarrow> set ds \<inter> set (q # cs) = {} \<longrightarrow>
         children (procTable s') x ds = children (procTable s) x ds)"
proof -
  have k: "kq s (q # F) (a_ready A) (a_waits A) [p]" using krelD(1) [OF r] p F by simp
  have v: "q < MAXPROC" "p < MAXPROC" "q \<noteq> p" using kq_distinct [OF k] by auto
  have cp: "currentProcess s = Some p" using krelD(2) [OF r] p by auto
  note ok = mem_okD [OF krelD(10) [OF r]]
  obtain T1 h where al: "allocPcb s = Some (Some q, s\<lparr>procTable := T1, pcbFree_h := h\<rparr>)"
    and k1: "kq (s\<lparr>procTable := T1, pcbFree_h := h\<rparr>) F (a_ready A) (a_waits A) [q, p]"
    and fr1: "qframe (set F) ((procTable s)(q := clean_pcb (procTable s q))) T1"
    using kq_alloc [OF k] by blast
  let ?s1 = "s\<lparr>procTable := T1, pcbFree_h := h\<rparr>"
  let ?T2 = "T1(q := (T1 q)\<lparr>p_s := cst\<rparr>)"
  let ?s2 = "?s1\<lparr>procTable := ?T2, processCount := processCount s + 1\<rparr>"
  have wf: "wf_state cst" "wf_state st" using ok(4) cst st by blast+
  have c: "p_s (clean_pcb x) = p_s x" "p_semAdd (clean_pcb x) = NULL" "p_sib (clean_pcb x) = None"
    "p_prevsib (clean_pcb x) = None" "p_child (clean_pcb x) = None" for x by (simp_all add: clean_pcb_def)
  have T1: "p_semAdd (T1 q) = NULL" "p_s (T1 q) = p_s (procTable s q)" "p_sib (T1 q) = None"
    "p_prevsib (T1 q) = None" "p_child (T1 q) = None"
    by (simp_all add: qframe_fields [OF fr1] c)
  have copy: "stateCopy (StAt (s_a1 st)) (StOf (Some q)) ?s1 = Some (?s1\<lparr>procTable := ?T2\<rparr>)"
    using stateCopy_run [of "StAt (s_a1 st)" ?s1 cst "StOf (Some q)"] cst wf ok(5) [OF v(1)] v T1
    by simp
  have k2: "kq ?s2 F (a_ready A) (a_waits A) [q, p]" by (rule kq_cong [OF k1]) auto
  have same: "children ?T2 x ds = children (procTable s) x ds" if "x \<noteq> q" "q \<notin> set ds" for x ds
    using that by (intro children_cong) (auto simp: qframe_fields [OF fr1])
  have fresh: "p_sib (procTable ?s2 q) = None" "p_prevsib (procTable ?s2 q) = None" using T1 by simp_all
  have "children (procTable ?s2) p cs" using ch same v by simp
  from insertChild_run [OF this v(1) v(3) ch(2) fresh] obtain T3 where
    ic: "insertChild (Some p) (Some q) ?s2 = Some (?s2\<lparr>procTable := T3\<rparr>)"
    and ch3: "children T3 p (q # cs)" and tf: "tframe (insert q (insert p (set cs))) (procTable ?s2) T3"
    and kf: "kframe p (insert q (set cs)) (procTable ?s2) T3" by blast
  have k3: "kq (?s2\<lparr>procTable := T3\<rparr>) F (a_ready A) (a_waits A) [q, p]"
    by (rule kq_cong [OF k2]) (simp_all add: tframe_fields [OF tf])
  have "p_semAdd (procTable (?s2\<lparr>procTable := T3\<rparr>) q) = NULL" using T1 by (simp add: tframe_fields [OF tf])
  from kq_insertReady [OF k3 this] obtain T4 where
    ir: "insertReady (Some q) (?s2\<lparr>procTable := T3\<rparr>) = Some (?s2\<lparr>procTable := T4, readyQue := Some q\<rparr>)"
    and k4: "kq (?s2\<lparr>procTable := T4, readyQue := Some q\<rparr>) F (a_ready A @ [q]) (a_waits A) [p]"
    and fr4: "qframe (insert q (set (a_ready A))) T3 T4" by auto
  let ?s5 = "?s2\<lparr>procTable := T4, readyQue := Some q,
      st_mem := (st_mem s)(SYSCALLOLDAREA \<mapsto> set_v0 0 st)\<rparr>"
  have run: "createProcess s = Some (Exit_LDST (set_v0 0 st), ?s5)"
    using st al copy ic ir cp by (simp add: createProcess_def stateCopyPCB_def LDST_def)
  have k5: "kq ?s5 F (a_ready A @ [q]) (a_waits A) [p]" by (rule kq_cong [OF k4]) simp_all
  have T4: "p_s (T4 x) = (if x = q then cst else p_s (procTable s x))" "p_semAdd (T4 p) = NULL" for x
    using krelD(3) [OF r p] v
    by (simp_all add: qframe_fields [OF fr4] tframe_fields [OF tf] qframe_fields [OF fr1])
  have "wf_state (set_v0 0 st)" using wf(2) by (simp add: wf_state_def reg_defs)
  then have rel: "krel ?s5 (a_fork cst A)"
    using r k5 T4 wf p F by (auto simp: krel_def a_fork_def mem_ok_def fun_eq_iff)
  have "children T4 p (q # cs)" using ch3 children_qframe [OF fr4] by simp
  moreover have "children T4 x ds = children (procTable s) x ds"
    if "x \<notin> {p, q}" "set ds \<inter> set (q # cs) = {}" for x ds
    using same [of x ds] children_kframe [OF kf, of x ds] that
    by (simp add: children_qframe [OF fr4])
  moreover have "p_child (T3 q) = None" using kf v(3) T1(5) by (simp add: kframe_def)
  then have "children T4 q []"
    using v by (simp add: children_qframe [OF fr4]) (simp add: children_def)
  ultimately show ?thesis using run rel by simp
qed

section \<open>SYS 5 and passing up: what they do\<close>

lemma scheduler_no_return: "scheduler s = Some (e, s') \<Longrightarrow> e \<noteq> Exit_return"
  by (auto simp: scheduler_def LDST_def Let_def bind_Some_ex split: if_splits)

lemma terminateProcess_kseq: "kseq (terminateProcess s) k = terminateProcess s"
proof (cases "terminateProcess s")
  case (Some es)
  obtain e s' where es: "es = (e, s')" by force
  then have "e \<noteq> Exit_return"
    using Some scheduler_no_return by (auto simp: terminateProcess_def bind_Some_ex)
  then show ?thesis using Some es by (cases e) simp_all
qed simp

text \<open>The pair of state pointers a process has given for an exception type, and the old area.\<close>

definition evec :: "int \<Rightarrow> pcb_t \<Rightarrow> memaddr \<times> memaddr" where
  "evec t x =
     (if t = 0 then (p_oldTLB x, p_newTLB x)
      else if t = 1 then (p_oldPgm x, p_newPgm x) else (p_oldSys x, p_newSys x))"

definition earea :: "int \<Rightarrow> memaddr" where
  "earea t =
     (if t = 0 then TLBMANAGEMENTOLDAREA else if t = 1 then PROGRAMTRAPOLDAREA else SYSCALLOLDAREA)"

lemma passUp_unset:
  assumes "currentProcess s = Some p" "p < MAXPROC" "fst (evec t (procTable s p)) = NULL" "t \<in> {0, 1, 2}"
  shows "passUpOrDie t s = terminateProcess s"
  using assms by (auto simp: passUpOrDie_def evec_def)

lemma passUp_set:
  assumes c: "currentProcess s = Some p" "p < MAXPROC" and t: "t \<in> {0, 1, 2}"
    and set: "fst (evec t (procTable s p)) \<noteq> NULL"
    and st: "st_mem s (earea t) = Some st" "wf_state st"
    and old: "st_mem s (fst (evec t (procTable s p))) = Some x" "wf_state x"
    and new: "st_mem s (snd (evec t (procTable s p))) = Some y"
  defines "M \<equiv> (st_mem s)(fst (evec t (procTable s p)) \<mapsto> st)"
  shows "passUpOrDie t s
    = Some (Exit_LDST (the (M (snd (evec t (procTable s p))))), s\<lparr>st_mem := M\<rparr>)"
proof -
  have "stateCopy (StAt (earea t)) (StAt (fst (evec t (procTable s p)))) s = Some (s\<lparr>st_mem := M\<rparr>)"
    using stateCopy_run [of "StAt (earea t)" s st] st old by (simp add: M_def)
  moreover have "\<exists>z. M (snd (evec t (procTable s p))) = Some z" using new by (simp add: M_def)
  ultimately show ?thesis using c set t
    by (auto simp: passUpOrDie_def evec_def earea_def LDST_def)
qed

lemma specify_run:
  assumes r: "krel s A" and st: "st_mem s SYSCALLOLDAREA = Some st" and p: "a_run A = Some p"
    and t: "s_a1 st \<in> {0, 1, 2}"
  shows "fst (evec (sint (s_a1 st)) (procTable s p)) \<noteq> NULL \<Longrightarrow>
      specifyExceptionStateVector s = terminateProcess s"
    and "fst (evec (sint (s_a1 st)) (procTable s p)) = NULL \<Longrightarrow>
      \<exists>x. specifyExceptionStateVector s
        = Some (Exit_LDST st, s\<lparr>procTable := (procTable s)(p := x)\<rparr>)
      \<and> krel (s\<lparr>procTable := (procTable s)(p := x)\<rparr>) A
      \<and> (\<forall>u\<in>{0, 1, 2}. evec u x =
          (if u = sint (s_a1 st) then (s_a2 st, s_a3 st) else evec u (procTable s p)))"
proof -
  have cp: "currentProcess s = Some p" "p < MAXPROC" using krelD(2,4) [OF r] p by auto
  show "fst (evec (sint (s_a1 st)) (procTable s p)) \<noteq> NULL \<Longrightarrow>
      specifyExceptionStateVector s = terminateProcess s"
    using st cp t by (auto simp: specifyExceptionStateVector_def evec_def terminateProcess_kseq)
  assume n: "fst (evec (sint (s_a1 st)) (procTable s p)) = NULL"
  define x where "x =
    (if s_a1 st = 0 then (procTable s p)\<lparr>p_oldTLB := s_a2 st, p_newTLB := s_a3 st\<rparr>
     else if s_a1 st = 1 then (procTable s p)\<lparr>p_oldPgm := s_a2 st, p_newPgm := s_a3 st\<rparr>
     else (procTable s p)\<lparr>p_oldSys := s_a2 st, p_newSys := s_a3 st\<rparr>)"
  have "krel (s\<lparr>procTable := (procTable s)(p := x)\<rparr>) A"
    by (rule krel_cong [OF r]) (simp_all add: x_def)
  moreover have "specifyExceptionStateVector s
      = Some (Exit_LDST st, s\<lparr>procTable := (procTable s)(p := x)\<rparr>)"
    using st cp t n by (auto simp: specifyExceptionStateVector_def evec_def x_def LDST_def)
  moreover have "\<forall>u\<in>{0, 1, 2}. evec u x =
      (if u = sint (s_a1 st) then (s_a2 st, s_a3 st) else evec u (procTable s p))"
    using t by (auto simp: evec_def x_def)
  ultimately show "\<exists>x. specifyExceptionStateVector s
        = Some (Exit_LDST st, s\<lparr>procTable := (procTable s)(p := x)\<rparr>)
      \<and> krel (s\<lparr>procTable := (procTable s)(p := x)\<rparr>) A
      \<and> (\<forall>u\<in>{0, 1, 2}. evec u x =
          (if u = sint (s_a1 st) then (s_a2 st, s_a3 st) else evec u (procTable s p)))"
    by blast
qed

section \<open>The dispatch of system calls\<close>

text \<open>The saved state with the program counter past the \<open>SYSCALL\<close> instruction.\<close>

definition adv :: "state_t \<Rightarrow> state_t" where
  "adv st = st\<lparr>s_pc := s_pc st + 4\<rparr>"

lemma adv_simps [simp]:
  "s_a0 (adv st) = s_a0 st" "s_a1 (adv st) = s_a1 st" "s_a2 (adv st) = s_a2 st"
  "s_a3 (adv st) = s_a3 st" "wf_state (adv st) = wf_state st" "s_reg (adv st) = s_reg st"
  "ioSem (adv st) = ioSem st" "io_args_ok (adv st) = io_args_ok st"
  by (simp_all add: adv_def reg_defs wf_state_def ioSem_def io_args_ok_def)

definition kernel_mode :: "state_t \<Rightarrow> bool" where
  "kernel_mode st \<longleftrightarrow> s_status st AND KERNELOFF = 0"

definition advanced :: "kernel \<Rightarrow> state_t \<Rightarrow> kernel" where
  "advanced s st = s\<lparr>st_mem := (st_mem s)(SYSCALLOLDAREA \<mapsto> adv st)\<rparr>"

lemma sysCall_kernel:
  assumes st: "st_mem s SYSCALLOLDAREA = Some st" and k: "kernel_mode st"
  shows "s_a0 st = 1 \<Longrightarrow> sysCallHandler s = createProcess (advanced s st)"
    and "s_a0 st = 2 \<Longrightarrow> sysCallHandler s = terminateProcess (advanced s st)"
    and "s_a0 st = 3 \<Longrightarrow> sysCallHandler s = verhogen (advanced s st)"
    and "s_a0 st = 4 \<Longrightarrow> sysCallHandler s = passeren (advanced s st)"
    and "s_a0 st = 5 \<Longrightarrow> sysCallHandler s = specifyExceptionStateVector (advanced s st)"
    and "s_a0 st = 6 \<Longrightarrow> sysCallHandler s = getCPUTime (advanced s st)"
    and "s_a0 st = 7 \<Longrightarrow> sysCallHandler s = waitForClock (advanced s st)"
    and "s_a0 st = 8 \<Longrightarrow> sysCallHandler s = waitForIODevice (advanced s st)"
  using st k
  by (simp_all add: sysCallHandler_def syscallDispatch_def kernel_mode_def ALLOFF_def advanced_def adv_def)

lemma advanced_simps:
  assumes "krel s A" "st_mem s SYSCALLOLDAREA = Some st"
  shows "krel (advanced s st) A" "st_mem (advanced s st) SYSCALLOLDAREA = Some (adv st)"
    "procTable (advanced s st) = procTable s" "clock_value (advanced s st) = clock_value s"
    "time (advanced s st) = time s"
  using krel_st_mem [OF assms(1), of "adv st"] mem_okD(4) [OF krelD(10) [OF assms(1)] assms(2)]
  by (simp_all add: advanced_def clock_value_def)

lemma sysCall_user:
  assumes r: "krel s A" and st: "st_mem s SYSCALLOLDAREA = Some st" and k: "\<not> kernel_mode st"
    and n: "0 < sint (s_a0 st)" "sint (s_a0 st) < 9"
  shows "sysCallHandler s = passUpOrDie 1
    (s\<lparr>st_mem := (st_mem s)(PROGRAMTRAPOLDAREA \<mapsto> st\<lparr>s_cause := riCause (s_cause st)\<rparr>)\<rparr>)"
proof -
  note ok = mem_okD [OF krelD(10) [OF r]]
  obtain x where x: "st_mem s PROGRAMTRAPOLDAREA = Some x" using ok(6) by (auto simp: kareas_def)
  have "stateCopy (StAt SYSCALLOLDAREA) (StAt PROGRAMTRAPOLDAREA) s
      = Some (s\<lparr>st_mem := (st_mem s)(PROGRAMTRAPOLDAREA \<mapsto> st)\<rparr>)"
    using stateCopy_run [of "StAt SYSCALLOLDAREA" s st "StAt PROGRAMTRAPOLDAREA" x] st x ok(4) by simp
  then show ?thesis using st k n
    by (simp add: sysCallHandler_def syscallDispatch_def kernel_mode_def ALLOFF_def pgmTrapHandler_def)
qed

lemma riCause_bits: "riCause c = (c AND NOT 0x14) OR 0x28"
  by (simp add: riCause_def RIMASKON_def RIMASKTOTURNOFF_def bit.conj_disj_distrib2)

lemma onDevSem_iff: "onDevSem a s \<longleftrightarrow> is_dev (devSemTable_addr s) a"
proof -
  have "fold (\<lambda>i d. if devSem_addr s (int i) = a then True else d) [0..<n] b
      \<longleftrightarrow> b \<or> (\<exists>i<n. a = devsem (devSemTable_addr s) i)" for n b
    by (induction n arbitrary: b) (auto simp: devSem_addr_devsem less_Suc_eq)
  then show ?thesis by (simp add: onDevSem_def is_dev_def DEVSEMS_49)
qed

section \<open>Properties\<close>

lemma ex_abs_simps [simp]:
  "a_run ex_abs = Some 0" "a_ready ex_abs = [1, 2]" "a_base ex_abs = 0x20002000"
  "a_sem ex_abs 0x20001000 = Some (-1)" "a_waits ex_abs 0x20001000 = [3]"
  "a_free ex_abs = [5..<20]"
  by (simp_all add: ex_abs_def) (simp_all add: ex_abs_def devsem_def CLOCKSEM_48)

lemma kernel_mode_ex [simp]: "kernel_mode (sys_state n x y z)"
  by (simp add: kernel_mode_def)

text \<open>
  C21. SYS 3 is a V operation: a system call 3 from kernel mode, on a mapped integer that is not
  a device semaphore, increments it, makes the first process that waits on it the last ready
  process if the new value is not positive, and resumes the caller after its SYSCALL; every
  block stays in exactly one place and the counters stay right.
\<close>

theorem SYS3_is_V:
  assumes "krel s A" and "st_mem s SYSCALLOLDAREA = Some st" and "kernel_mode st" and "s_a0 st = 3"
    and "a_sem A (s_a1 st) = Some v" and "s_a1 st < MAXINT" and "\<not> is_dev (a_base A) (s_a1 st)"
  shows "\<exists>s'. sysCallHandler s = Some (Exit_LDST (adv st), s') \<and> krel s' (a_V (s_a1 st) A)"
  using sysCall_kernel(3) [OF assms(2-4)]
    verhogen_run [OF advanced_simps(1,2) [OF assms(1,2)]] assms(5-7) by simp

theorem SYS3_is_V_witness:
  "\<exists>s' A'. sysCallHandler (ex_sys 3 0x20001000 0 0) = Some (Exit_LDST (adv (sys_state 3 0x20001000 0 0)), s')
     \<and> krel s' A' \<and> a_ready A' = [1, 2, 3] \<and> a_sem A' 0x20001000 = Some 0"
proof -
  have "(0x20001000 :: memaddr) < MAXINT" by (simp add: MAXINT_def)
  then obtain s' where "sysCallHandler (ex_sys 3 0x20001000 0 0)
        = Some (Exit_LDST (adv (sys_state 3 0x20001000 0 0)), s')" "krel s' (a_V 0x20001000 ex_abs)"
    using SYS3_is_V [of "ex_sys 3 0x20001000 0 0" ex_abs "sys_state 3 0x20001000 0 0" "-1"]
      ex_range(2) by auto
  moreover have "a_ready (a_V 0x20001000 ex_abs) = [1, 2, 3]" "a_sem (a_V 0x20001000 ex_abs) 0x20001000 = Some 0"
    by (simp_all add: a_V_def a_wake_def a_setsem_def)
  ultimately show ?thesis by blast
qed

text \<open>
  C22. SYS 4 is a P operation: it decrements the integer; if the result is negative the caller,
  with its state saved after the SYSCALL, becomes the last process that waits there and the
  first ready process is dispatched (or the nucleus halts, panics or idles when none is ready);
  otherwise the caller is resumed.
\<close>

theorem SYS4_is_P:
  assumes "krel s A" and "st_mem s SYSCALLOLDAREA = Some st" and "kernel_mode st" and "s_a0 st = 4"
    and "a_run A = Some p" and "a_sem A (s_a1 st) = Some v"
    and "0 < s_a1 st" and "s_a1 st < MAXINT" and "\<not> is_dev (a_base A) (s_a1 st)"
  shows "\<exists>s'. sysCallHandler s =
      Some (if sint (v - 1) < 0 then a_exit (a_P (s_a1 st) (adv st) A) else Exit_LDST (adv st), s')
    \<and> krel s' (if sint (v - 1) < 0 then a_dispatch (a_P (s_a1 st) (adv st) A)
                else a_P (s_a1 st) (adv st) A)"
  using sysCall_kernel(4) [OF assms(2-4)]
    passeren_run [OF advanced_simps(1,2) [OF assms(1,2)] assms(5)] assms(6-9) by simp

theorem SYS4_is_P_witness:
  "\<exists>s' A'. sysCallHandler (ex_sys 4 0x20001000 0 0) = Some (Exit_LDST ex_state, s')
     \<and> krel s' A' \<and> a_run A' = Some 1 \<and> a_waits A' 0x20001000 = [3, 0]"
proof -
  let ?st = "sys_state 4 0x20001000 0 0" and ?a = "0x20001000 :: memaddr"
  have "?a < MAXINT" by (simp add: MAXINT_def)
  then obtain s' where "sysCallHandler (ex_sys 4 ?a 0 0) = Some (a_exit (a_P ?a (adv ?st) ex_abs), s')"
    "krel s' (a_dispatch (a_P ?a (adv ?st) ex_abs))"
    using SYS4_is_P [of "ex_sys 4 ?a 0 0" ex_abs ?st 0 "-1"] ex_range(2) by auto
  moreover have "a_exit (a_P ?a (adv ?st) ex_abs) = Exit_LDST ex_state"
    "a_run (a_dispatch (a_P ?a (adv ?st) ex_abs)) = Some 1"
    "a_waits (a_dispatch (a_P ?a (adv ?st) ex_abs)) ?a = [3, 0]"
    by (simp_all add: a_P_def a_block_def a_setsem_def a_dispatch_def a_exit_def)
      (simp_all add: ex_abs_def)
  ultimately show ?thesis by metis
qed

text \<open>
  SYS 7 is a P operation on the pseudo clock's semaphore that also counts the caller as
  waiting for a device when it blocks.
\<close>

theorem SYS7_waits_for_clock:
  assumes "krel s A" and "st_mem s SYSCALLOLDAREA = Some st" and "kernel_mode st" and "s_a0 st = 7"
    and "a_run A = Some p" and "a_sem A (devsem (a_base A) CLOCKSEM) = Some v"
  shows "\<exists>s'. sysCallHandler s =
      Some (if sint (v - 1) < 0 then a_exit (a_P (devsem (a_base A) CLOCKSEM) (adv st) A)
            else Exit_LDST (adv st), s')
    \<and> krel s' (if sint (v - 1) < 0 then a_dispatch (a_P (devsem (a_base A) CLOCKSEM) (adv st) A)
                else a_P (devsem (a_base A) CLOCKSEM) (adv st) A)"
  using sysCall_kernel(7) [OF assms(2-4)]
    waitForClock_run [OF advanced_simps(1,2) [OF assms(1,2)] assms(5)] assms(6) by simp

theorem SYS7_waits_for_clock_witness:
  "\<exists>s' A'. sysCallHandler (ex_sys 7 0 0 0) = Some (Exit_LDST ex_state, s')
     \<and> krel s' A' \<and> a_run A' = Some 1 \<and> a_waits A' (devsem 0x20002000 CLOCKSEM) = [4, 0]"
proof -
  let ?st = "sys_state 7 0 0 0" and ?a = "devsem 0x20002000 CLOCKSEM"
  have v: "a_sem ex_abs ?a = Some (-1)" "a_waits ex_abs ?a = [4]" by (simp_all add: ex_abs_def)
  obtain s' where "sysCallHandler (ex_sys 7 0 0 0) = Some (a_exit (a_P ?a (adv ?st) ex_abs), s')"
    "krel s' (a_dispatch (a_P ?a (adv ?st) ex_abs))"
    using SYS7_waits_for_clock [of "ex_sys 7 0 0 0" ex_abs ?st 0 "-1"] v by auto
  moreover have "a_exit (a_P ?a (adv ?st) ex_abs) = Exit_LDST ex_state"
    "a_run (a_dispatch (a_P ?a (adv ?st) ex_abs)) = Some 1"
    "a_waits (a_dispatch (a_P ?a (adv ?st) ex_abs)) ?a = [4, 0]"
    using v by (simp_all add: a_P_def a_block_def a_setsem_def a_dispatch_def a_exit_def)
      (simp_all add: ex_abs_def)
  ultimately show ?thesis by metis
qed

text \<open>
  C23. SYS 8 with a line from 3 to 7 and a device from 0 to 7 decrements the semaphore of that device: number
  8 * (line - 3) + device of the table, or 40 + device for a terminal with the read flag. When the result is
  negative the caller waits there and the next process is dispatched; when it is not, the state of the caller has been
  saved in its block, and the handler ends without loading any state.
\<close>

theorem SYS8_waits_for_device:
  assumes "krel s A" and "st_mem s SYSCALLOLDAREA = Some st" and "kernel_mode st" and "s_a0 st = 8"
    and "a_run A = Some p" and "io_args_ok st"
    and "a_sem A (devsem (a_base A) (ioSem st)) = Some v"
  shows "\<exists>s' a. a = devSemTable_addr s + 4 * of_nat (ioSem st) \<and> ioSem st < CLOCKSEM \<and> int_mem s' a = Some (v - 1)
    \<and> (if sint (v - 1) < 0
        then sysCallHandler s = Some (a_exit (a_P a (adv st) A), s') \<and> krel s' (a_dispatch (a_P a (adv st) A))
        else sysCallHandler s = Some (Exit_return, s')
          \<and> krel s' (A\<lparr>a_sem := (a_sem A)(a \<mapsto> v - 1), a_ctx := (a_ctx A)(p := adv st)\<rparr>))"
proof -
  let ?a = "devsem (a_base A) (ioSem st)"
  have a: "?a = devSemTable_addr s + 4 * of_nat (ioSem st)" using krelD(7) [OF assms(1)] by (simp add: devsem_def)
  have run: "sysCallHandler s = waitForIODevice (advanced s st)" by (rule sysCall_kernel(8) [OF assms(2-4)])
  note io = waitForIODevice_run [OF advanced_simps(1,2) [OF assms(1,2)] assms(5), unfolded adv_simps, OF assms(6,7), folded run]
  have m: "int_mem s' ?a = Some (v - 1)" if "krel s' B" "a_sem B ?a = Some (v - 1)" for s' B
    using krelD(6) [OF that(1)] that(2) by simp
  show ?thesis
  proof (cases "sint (v - 1) < 0")
    case True
    from io(1) [OF True] obtain s' where s': "sysCallHandler s = Some (a_exit (a_P ?a (adv st) A), s')"
      "krel s' (a_dispatch (a_P ?a (adv st) A))" by blast
    have "a_sem (a_dispatch (a_P ?a (adv st) A)) ?a = Some (v - 1)"
      using assms(5,7) True by (simp add: a_P_def a_block_def a_setsem_def a_dispatch_def split: list.splits)
    with s' m [OF s'(2)] True ioSem_bounds(1) [OF assms(6)] show ?thesis unfolding a [symmetric] by auto
  next
    case False
    let ?B = "A\<lparr>a_sem := (a_sem A)(?a \<mapsto> v - 1), a_ctx := (a_ctx A)(p := adv st)\<rparr>"
    have "a_P ?a (adv st) (A\<lparr>a_ctx := (a_ctx A)(p := adv st)\<rparr>) = ?B"
      using assms(7) False by (simp add: a_P_def a_setsem_def)
    with io(2) [OF False] obtain s' where s': "sysCallHandler s = Some (Exit_return, s')" "krel s' ?B" by auto
    have "a_sem ?B ?a = Some (v - 1)" by simp
    with s' m [OF s'(2)] False ioSem_bounds(1) [OF assms(6)] show ?thesis unfolding a [symmetric] by auto
  qed
qed

lemma ex_terminal_io:
  "io_args_ok (sys_state 8 7 0 1)" "ioSem (sys_state 8 7 0 1) = 40"
  "a_sem ex_abs (devsem 0x20002000 40) = Some 0"
  by (simp_all add: io_args_ok_def ioSem_def io_index_def ex_abs_def ex_machine_def
      devsem_def CLOCKSEM_48 NULL_def)

theorem SYS8_waits_for_device_witness:
  "\<exists>s' A'. sysCallHandler (ex_sys 8 7 0 1) = Some (Exit_LDST ex_state, s')
     \<and> krel s' A' \<and> a_run A' = Some 1 \<and> a_waits A' (devsem 0x20002000 40) = [0]"
proof -
  let ?st = "sys_state 8 7 0 1" and ?a = "devsem 0x20002000 40"
  obtain s' where "sysCallHandler (ex_sys 8 7 0 1) = Some (a_exit (a_P ?a (adv ?st) ex_abs), s')"
    "krel s' (a_dispatch (a_P ?a (adv ?st) ex_abs))"
    using SYS8_waits_for_device [of "ex_sys 8 7 0 1" ex_abs ?st 0 0] ex_terminal_io krelD(7) [of "ex_sys 8 7 0 1" ex_abs]
    by (auto simp: devsem_def)
  moreover have "a_exit (a_P ?a (adv ?st) ex_abs) = Exit_LDST ex_state"
    "a_run (a_dispatch (a_P ?a (adv ?st) ex_abs)) = Some 1"
    "a_waits (a_dispatch (a_P ?a (adv ?st) ex_abs)) ?a = [0]"
    using ex_terminal_io(3) by (simp_all add: a_P_def a_block_def a_setsem_def a_dispatch_def a_exit_def)
      (simp_all add: ex_abs_def devsem_def CLOCKSEM_48)
  ultimately show ?thesis by metis
qed

text \<open>
  SYS 8 on a device whose semaphore is positive does not return to the caller: the nucleus
  decrements the semaphore and falls off the end of its handler, having loaded no state.
\<close>

theorem SYS8_without_wait_falls_off:
  assumes "krel s A" and "st_mem s SYSCALLOLDAREA = Some st" and "kernel_mode st" and "s_a0 st = 8"
    and "a_run A = Some p" and "io_args_ok st"
    and "a_sem A (devsem (a_base A) (ioSem st)) = Some v" and "\<not> sint (v - 1) < 0"
  shows "\<exists>s'. sysCallHandler s = Some (Exit_return, s')
    \<and> int_mem s' (devsem (a_base A) (ioSem st)) = Some (v - 1)"
proof -
  obtain s' where s': "sysCallHandler s = Some (Exit_return, s')"
    "krel s' (a_P (devsem (a_base A) (ioSem st)) (adv st) (A\<lparr>a_ctx := (a_ctx A)(p := adv st)\<rparr>))"
    using sysCall_kernel(8) [OF assms(2-4)]
      waitForIODevice_run(2) [OF advanced_simps(1,2) [OF assms(1,2)] assms(5)] assms(6-8) by auto
  have "a_sem (a_P (devsem (a_base A) (ioSem st)) (adv st) (A\<lparr>a_ctx := (a_ctx A)(p := adv st)\<rparr>))
      (devsem (a_base A) (ioSem st)) = Some (v - 1)"
    using assms(7,8) by (simp add: a_P_def a_setsem_def)
  then show ?thesis using s' krelD(6) [OF s'(2)] by simp
qed

theorem SYS8_without_wait_falls_off_witness:
  "\<exists>s s'. sysCallHandler s = Some (Exit_return, s') \<and> int_mem s' (devsem 0x20002000 40) = Some 0"
proof -
  let ?st = "sys_state 8 7 0 1" and ?a = "devsem 0x20002000 40"
  let ?s = "(ex_sys 8 7 0 1)\<lparr>int_mem := (int_mem (ex_sys 8 7 0 1))(?a \<mapsto> 1)\<rparr>"
  have "int_mem (ex_sys 8 7 0 1) ?a = Some 0"
    using ex_terminal_io(3) krelD(6) [of "ex_sys 8 7 0 1" ex_abs] by simp
  from krel_setsem [OF _ this, of ex_abs 1] have "krel ?s (a_setsem ?a 1 ex_abs)" by simp
  from SYS8_without_wait_falls_off [OF this, of ?st 0 1] ex_terminal_io show ?thesis
    by (auto simp: a_setsem_def)
qed

text \<open>
  C24. SYS 1 creates a process: with a free block, the first one gets the given processor state,
  becomes the first child of the caller and the last ready process, the caller gets 0 in v0 and
  goes on, and every other family is as before.
\<close>

theorem SYS1_creates:
  assumes "krel s A" and "st_mem s SYSCALLOLDAREA = Some st" and "kernel_mode st" and "s_a0 st = 1"
    and "a_run A = Some p" and "a_free A = q # F" and "st_mem s (s_a1 st) = Some cst"
    and "s_a1 st \<noteq> SYSCALLOLDAREA" and "children (procTable s) p cs" and "q \<notin> set cs"
  shows "\<exists>s'. sysCallHandler s = Some (Exit_LDST (set_v0 0 (adv st)), s')
    \<and> krel s' (a_fork cst A) \<and> children (procTable s') p (q # cs) \<and> children (procTable s') q []
    \<and> (\<forall>x ds. x \<notin> {p, q} \<longrightarrow> set ds \<inter> set (q # cs) = {} \<longrightarrow>
         children (procTable s') x ds = children (procTable s) x ds)"
proof -
  have "st_mem (advanced s st) (s_a1 (adv st)) = Some cst" using assms(7,8) by (simp add: advanced_def)
  from createProcess_run [OF advanced_simps(1,2) [OF assms(1,2)] assms(5,6) this _ assms(10)]
  show ?thesis using assms(9) sysCall_kernel(1) [OF assms(2-4)]
    by (simp add: advanced_simps(3) [OF assms(1,2)])
qed

text \<open>Process 0 of the example state has no children.\<close>

definition ex_childless :: kernel where
  "ex_childless =
     ex_kernel\<lparr>procTable := (\<lambda>p. (procTable ex_kernel p)\<lparr>p_child := None\<rparr>)\<rparr>"

lemma ex_childless_simps [simp]:
  "krel ex_childless ex_abs" "children (procTable ex_childless) 0 []"
proof -
  show "krel ex_childless ex_abs"
    by (rule krel_cong [OF ex_kernel_krel]) (simp_all add: ex_childless_def)
  show "children (procTable ex_childless) 0 []"
    by (simp add: children_def MAXPROC_def ex_childless_def)
qed

theorem SYS1_creates_witness:
  "\<exists>s s' A'. sysCallHandler s = Some (Exit_LDST (set_v0 0 (adv (sys_state 1 0x20005000 0 0))), s')
     \<and> krel s' A' \<and> a_ready A' = [1, 2, 5] \<and> children (procTable s') 0 [5]"
proof -
  let ?st = "sys_state 1 0x20005000 0 0"
  let ?s = "ex_childless\<lparr>st_mem := (st_mem ex_childless)(SYSCALLOLDAREA \<mapsto> ?st, 0x20005000 \<mapsto> ex_other)\<rparr>"
  have wf: "wf_state ex_other" by (simp add: wf_state_def ex_other_def STATEREGNUM_def)
  have r: "krel ?s ex_abs"
    using krel_st_mem [OF krel_st_mem [OF ex_childless_simps(1), of ?st SYSCALLOLDAREA] wf] by simp
  have F: "a_free ex_abs = 5 # [6..<20]" by (simp add: upt_rec)
  have ne: "SYSCALLOLDAREA \<noteq> 0x20005000" by (simp add: SYSCALLOLDAREA_def)
  have st: "st_mem ?s SYSCALLOLDAREA = Some ?st" "st_mem ?s (s_a1 ?st) = Some ex_other"
    "s_a1 ?st \<noteq> SYSCALLOLDAREA" "children (procTable ?s) 0 []"
    using ne ex_childless_simps(2) by auto
  obtain s' where "sysCallHandler ?s = Some (Exit_LDST (set_v0 0 (adv ?st)), s')"
    "krel s' (a_fork ex_other ex_abs)" "children (procTable s') 0 [5]"
    using SYS1_creates [OF r st(1) _ _ _ F st(2,3,4)] by auto
  moreover have "a_ready (a_fork ex_other ex_abs) = [1, 2, 5]" by (simp add: a_fork_def upt_rec)
  ultimately show ?thesis by blast
qed

text \<open>
  SYS 1 with no free block stores -1 in v0 of the caller's saved state but does not resume
  the caller: the handler ends without loading a state.
\<close>

theorem SYS1_full_falls_off:
  assumes "krel s A" and "st_mem s SYSCALLOLDAREA = Some st" and "kernel_mode st" and "s_a0 st = 1"
    and "a_free A = []"
  shows "\<exists>s'. sysCallHandler s = Some (Exit_return, s') \<and> krel s' A
    \<and> st_mem s' SYSCALLOLDAREA = Some (set_v0 (-1) (adv st))"
  using createProcess_full [OF advanced_simps(1,2) [OF assms(1,2)] assms(5)]
    sysCall_kernel(1) [OF assms(2-4)] by simp

theorem SYS1_full_falls_off_witness:
  "\<exists>s s'. sysCallHandler s = Some (Exit_return, s')
     \<and> st_mem s' SYSCALLOLDAREA = Some (set_v0 (-1) (adv (sys_state 1 0 0 0)))"
proof -
  obtain s A where r: "krel s A" and F: "a_free A = []" using ex_full by blast
  have "krel (s\<lparr>st_mem := (st_mem s)(SYSCALLOLDAREA \<mapsto> sys_state 1 0 0 0)\<rparr>) A"
    by (rule krel_st_mem [OF r]) simp
  from SYS1_full_falls_off [OF this _ _ _ F] show ?thesis by fastforce
qed

text \<open>
  C40. SYS 6 returns the processor time used: v0 of the caller's state is the time recorded for
  it plus what has passed since the last reading of the clock. The sum is recorded, but the
  start of the interval is not moved, so the same interval is charged again later.
\<close>

theorem SYS6_cpu_time:
  assumes "krel s A" and "st_mem s SYSCALLOLDAREA = Some st" and "kernel_mode st" and "s_a0 st = 6"
    and "a_run A = Some p"
  shows "\<exists>s'. sysCallHandler s = Some (Exit_LDST (set_v0
        (p_time (procTable s p) + (clock_value s - time s)) (adv st)), s')
    \<and> krel s' A \<and> p_time (procTable s' p) = p_time (procTable s p) + (clock_value s - time s)
    \<and> time s' = time s"
  using getCPUTime_run [OF advanced_simps(1,2) [OF assms(1,2)] assms(5)]
    sysCall_kernel(6) [OF assms(2-4)] advanced_simps [OF assms(1,2)] by auto

theorem SYS6_cpu_time_witness:
  "\<exists>s'. sysCallHandler (ex_sys 6 0 0 0) = Some (Exit_LDST (set_v0
      (p_time (procTable (ex_sys 6 0 0 0) 0) + (clock_value (ex_sys 6 0 0 0) - time (ex_sys 6 0 0 0)))
      (adv (sys_state 6 0 0 0))), s') \<and> krel s' ex_abs"
  using SYS6_cpu_time [of "ex_sys 6 0 0 0" ex_abs "sys_state 6 0 0 0" 0] by auto

text \<open>A running process that has set no pointers and asks for the program trap's.\<close>

definition ex_sys5 :: kernel where
  "ex_sys5 = ex_kernel\<lparr>st_mem := (st_mem ex_kernel)(SYSCALLOLDAREA \<mapsto> sys_state 5 1 0x20006000 0x20007000),
     procTable := (\<lambda>p. (procTable ex_kernel p)\<lparr>p_oldPgm := NULL\<rparr>)\<rparr>"

lemma ex_sys5_krel: "krel ex_sys5 ex_abs"
  by (rule krel_cong [OF krel_st_mem [OF ex_kernel_krel, of "sys_state 5 1 0x20006000 0x20007000"
          SYSCALLOLDAREA]]) (simp_all add: ex_sys5_def)

text \<open>
  C38. SYS 5 records the two state pointers for one exception type, once: for types 0, 1 and 2
  the pair is stored, the pairs for the other types are untouched and the caller goes on; if the
  pair was already set, the caller and its descendants are terminated instead.
\<close>

theorem SYS5_sets_once:
  assumes "krel s A" and "st_mem s SYSCALLOLDAREA = Some st" and "kernel_mode st" and "s_a0 st = 5"
    and "a_run A = Some p" and "s_a1 st \<in> {0, 1, 2}"
  defines "t \<equiv> sint (s_a1 st)"
  shows "if fst (evec t (procTable s p)) \<noteq> NULL
    then sysCallHandler s = terminateProcess (advanced s st)
    else \<exists>s'. sysCallHandler s = Some (Exit_LDST (adv st), s') \<and> krel s' A
      \<and> (\<forall>u\<in>{0, 1, 2}. evec u (procTable s' p) =
          (if u = t then (s_a2 st, s_a3 st) else evec u (procTable s p)))
      \<and> (\<forall>x. x \<noteq> p \<longrightarrow> procTable s' x = procTable s x)"
proof (cases "fst (evec t (procTable s p)) = NULL")
  case True
  then obtain x where "specifyExceptionStateVector (advanced s st)
        = Some (Exit_LDST (adv st), (advanced s st)\<lparr>procTable := (procTable (advanced s st))(p := x)\<rparr>)"
    "krel ((advanced s st)\<lparr>procTable := (procTable (advanced s st))(p := x)\<rparr>) A"
    "\<forall>u\<in>{0, 1, 2}. evec u x = (if u = t then (s_a2 st, s_a3 st) else evec u (procTable s p))"
    using specify_run(2) [OF advanced_simps(1,2) [OF assms(1,2)] assms(5)] assms(6)
    by (auto simp: advanced_simps(3) [OF assms(1,2)] t_def)
  then show ?thesis using True sysCall_kernel(5) [OF assms(2-4)]
    by (simp add: advanced_simps(3) [OF assms(1,2)])
next
  case False
  then show ?thesis using specify_run(1) [OF advanced_simps(1,2) [OF assms(1,2)] assms(5)] assms(6)
      sysCall_kernel(5) [OF assms(2-4)]
    by (simp add: advanced_simps(3) [OF assms(1,2)] t_def)
qed

theorem SYS5_sets_once_witness:
  "\<exists>s'. sysCallHandler ex_sys5 = Some (Exit_LDST (adv (sys_state 5 1 0x20006000 0x20007000)), s')
     \<and> evec 1 (procTable s' 0) = (0x20006000, 0x20007000)"
proof -
  let ?st = "sys_state 5 1 0x20006000 0x20007000"
  have n: "fst (evec 1 (procTable ex_sys5 0)) = NULL" by (simp add: ex_sys5_def evec_def)
  have st: "st_mem ex_sys5 SYSCALLOLDAREA = Some ?st" by (simp add: ex_sys5_def)
  have k: "kernel_mode ?st" "s_a0 ?st = 5" "s_a1 ?st \<in> {0, 1, 2}" by simp_all
  show ?thesis using SYS5_sets_once [OF ex_sys5_krel st k(1,2) ex_abs_simps(1) k(3)] n by auto
qed

text \<open>
  Passing up: when the running process has given a pair of pointers for the exception, the
  state in the old area is copied to the first and the state at the second is loaded; when it
  has not, the process and its descendants are terminated.
\<close>

theorem passUpOrDie_passes:
  assumes "krel s A" and "a_run A = Some p" and "t \<in> {0, 1, 2}" and "st_mem s (earea t) = Some st"
    and "fst (evec t (procTable s p)) \<noteq> NULL \<Longrightarrow>
      st_mem s (fst (evec t (procTable s p))) = Some x \<and> st_mem s (snd (evec t (procTable s p))) = Some y"
  shows "passUpOrDie t s =
    (if fst (evec t (procTable s p)) = NULL then terminateProcess s
     else let M = (st_mem s)(fst (evec t (procTable s p)) \<mapsto> st)
          in Some (Exit_LDST (the (M (snd (evec t (procTable s p))))), s\<lparr>st_mem := M\<rparr>))"
proof -
  have cp: "currentProcess s = Some p" "p < MAXPROC" using krelD(2,4) [OF assms(1)] assms(2) by auto
  note ok = mem_okD(4) [OF krelD(10) [OF assms(1)]]
  show ?thesis
    using passUp_unset [OF cp _ assms(3)] passUp_set [OF cp assms(3) _ assms(4) ok [OF assms(4)], of x y]
      assms(5) ok by (auto simp: Let_def)
qed

theorem passUpOrDie_passes_witness:
  "(\<exists>s. passUpOrDie 1 s = terminateProcess s)
   \<and> (\<exists>s s'. passUpOrDie 2 s = Some (Exit_LDST ex_other, s')
     \<and> st_mem s' 0x20006000 = Some (sys_state 9 0 0 0))"
proof (intro conjI)
  have n: "fst (evec 1 (procTable ex_sys5 0)) = NULL" by (simp add: ex_sys5_def evec_def)
  obtain st where "st_mem ex_sys5 (earea 1) = Some st"
    using mem_okD(6) [OF krelD(10) [OF ex_sys5_krel]] by (auto simp: kareas_def earea_def)
  from passUpOrDie_passes [OF ex_sys5_krel ex_abs_simps(1) _ this] n
  show "\<exists>s. passUpOrDie 1 s = terminateProcess s" by auto
next
  let ?M = "(st_mem ex_kernel)(SYSCALLOLDAREA \<mapsto> sys_state 9 0 0 0, 0x20006000 \<mapsto> ex_state, 0x20007000 \<mapsto> ex_other)"
  let ?s = "ex_kernel\<lparr>st_mem := ?M,
     procTable := (\<lambda>p. (procTable ex_kernel p)\<lparr>p_oldSys := 0x20006000, p_newSys := 0x20007000\<rparr>)\<rparr>"
  have wf: "wf_state ex_other" "wf_state ex_state"
    by (simp_all add: wf_state_def ex_other_def ex_state_def STATEREGNUM_def)
  have "krel (ex_kernel\<lparr>st_mem := ?M\<rparr>) ex_abs"
    using krel_st_mem [OF krel_st_mem [OF krel_st_mem [OF ex_kernel_krel, of "sys_state 9 0 0 0"
          SYSCALLOLDAREA] wf(2), of "0x20006000"] wf(1), of "0x20007000"] by simp
  then have r: "krel ?s ex_abs" by (rule krel_cong) simp_all
  have "st_mem ?s (earea 2) = Some (sys_state 9 0 0 0)"
    by (simp add: earea_def SYSCALLOLDAREA_def)
  from passUpOrDie_passes [OF r ex_abs_simps(1) _ this, of ex_state ex_other]
  have "\<exists>s'. passUpOrDie 2 ?s = Some (Exit_LDST ex_other, s')
     \<and> st_mem s' 0x20006000 = Some (sys_state 9 0 0 0)"
    by (simp add: evec_def NULL_def Let_def)
  then show "\<exists>s s'. passUpOrDie 2 s = Some (Exit_LDST ex_other, s')
     \<and> st_mem s' 0x20006000 = Some (sys_state 9 0 0 0)" by blast
qed

text \<open>
  C39. The system calls are privileged: 1 to 8 from user mode become a program trap of the caller.
  The saved state is copied to the program trap's old area with the exception code changed from
  8 to 10 (reserved instruction) and no other bit of the cause changed, and the exception is
  passed up or the process dies.
\<close>

theorem user_mode_syscall_traps:
  assumes "krel s A" and "st_mem s SYSCALLOLDAREA = Some st" and "\<not> kernel_mode st"
    and "0 < sint (s_a0 st)" and "sint (s_a0 st) < 9" and "s_cause st AND 0x7C = push_bit 2 8"
  shows "\<exists>c. c AND 0x7C = push_bit 2 10 \<and> c AND NOT 0x7C = s_cause st AND NOT 0x7C
    \<and> sysCallHandler s = passUpOrDie 1
        (s\<lparr>st_mem := (st_mem s)(PROGRAMTRAPOLDAREA \<mapsto> st\<lparr>s_cause := c\<rparr>)\<rparr>)"
proof (intro exI conjI)
  show "sysCallHandler s = passUpOrDie 1
    (s\<lparr>st_mem := (st_mem s)(PROGRAMTRAPOLDAREA \<mapsto> st\<lparr>s_cause := riCause (s_cause st)\<rparr>)\<rparr>)"
    by (rule sysCall_user [OF assms(1-5)])
  let ?c = "s_cause st"
  have "riCause ?c AND 0x7C = ((?c AND 0x7C) AND 0x68) OR 0x28"
    by (simp add: riCause_bits bit.conj_disj_distrib2 and.assoc)
  then show "riCause ?c AND 0x7C = push_bit 2 10" unfolding assms(6) by simp
  show "riCause ?c AND NOT 0x7C = ?c AND NOT 0x7C"
    by (simp add: riCause_bits bit.conj_disj_distrib2 and.assoc)
qed

theorem user_mode_syscall_traps_witness:
  "\<exists>c s. c AND 0x7C = push_bit 2 10 \<and> sysCallHandler s = passUpOrDie 1
        (s\<lparr>st_mem := (st_mem s)(PROGRAMTRAPOLDAREA \<mapsto>
           (sys_state 3 0 0 0)\<lparr>s_status := 8, s_cause := c\<rparr>)\<rparr>)"
proof -
  let ?st = "(sys_state 3 0 0 0)\<lparr>s_status := 8, s_cause := 32\<rparr>"
  have "wf_state ?st" using sys_state_simps(1) [of 3 0 0 0] by (simp only: wf_state_def) simp
  from krel_st_mem [OF ex_kernel_krel this, of SYSCALLOLDAREA]
  have r: "krel (ex_kernel\<lparr>st_mem := (st_mem ex_kernel)(SYSCALLOLDAREA \<mapsto> ?st)\<rparr>) ex_abs" .
  have a0: "s_a0 ?st = 3" using sys_state_simps(2) [of 3 0 0 0] by (simp add: reg_defs)
  then have "\<not> kernel_mode ?st" "0 < sint (s_a0 ?st)" "sint (s_a0 ?st) < 9"
    "s_cause ?st AND 0x7C = push_bit 2 8"
    by (simp_all add: kernel_mode_def KERNELOFF_def)
  from user_mode_syscall_traps [OF r _ this] obtain c where "c AND 0x7C = push_bit 2 10"
    "sysCallHandler (ex_kernel\<lparr>st_mem := (st_mem ex_kernel)(SYSCALLOLDAREA \<mapsto> ?st)\<rparr>) = passUpOrDie 1
      ((ex_kernel\<lparr>st_mem := (st_mem ex_kernel)(SYSCALLOLDAREA \<mapsto> ?st)\<rparr>)\<lparr>st_mem :=
        (st_mem (ex_kernel\<lparr>st_mem := (st_mem ex_kernel)(SYSCALLOLDAREA \<mapsto> ?st)\<rparr>))(PROGRAMTRAPOLDAREA
          \<mapsto> (sys_state 3 0 0 0)\<lparr>s_status := 8, s_cause := c\<rparr>)\<rparr>)" by auto
  then show ?thesis by blast
qed

text \<open>
  A process is killed as waiting for a device exactly when its semaphore is one of the 49
  device semaphores: the loop that compares the addresses decides that.
\<close>

theorem onDevSem_correct:
  "onDevSem a s \<longleftrightarrow> (\<exists>i<DEVSEMS. a = devSem_addr s (int i))"
  by (simp add: onDevSem_iff is_dev_def devSem_addr_devsem)

end
