(* ===== verification/Interrupts.thy ===== *)
theory Interrupts
  imports Exceptions
begin

text \<open>
  Interrupts: \<open>phase2/interrupts.c\<close>. Line and device numbers are the C \<open>int\<close>s; \<open>-1\<close> is what the
  code stores when it writes \<open>NULL\<close> into them.
\<close>

section \<open>Which device\<close>

definition getLineNumber :: "word32 \<Rightarrow> int" where
  "getLineNumber cause =
     (if CHECK_BIT cause 8 then 0
      else if CHECK_BIT cause 9 then 1
      else if CHECK_BIT cause 10 then 2
      else if CHECK_BIT cause 11 then 3
      else if CHECK_BIT cause 12 then 4
      else if CHECK_BIT cause 13 then 5
      else if CHECK_BIT cause 14 then 6
      else if CHECK_BIT cause 15 then 7
      else -1)"

text \<open>The first bit set in the bitmap of interrupting devices of a line.\<close>

definition lowestDevice :: "word32 \<Rightarrow> int" where
  "lowestDevice lineNumberBitMap =
     (if CHECK_BIT lineNumberBitMap 0 then 0
      else if CHECK_BIT lineNumberBitMap 1 then 1
      else if CHECK_BIT lineNumberBitMap 2 then 2
      else if CHECK_BIT lineNumberBitMap 3 then 3
      else if CHECK_BIT lineNumberBitMap 4 then 4
      else if CHECK_BIT lineNumberBitMap 5 then 5
      else if CHECK_BIT lineNumberBitMap 6 then 6
      else if CHECK_BIT lineNumberBitMap 7 then 7
      else -1)"

text \<open>For a line outside 3 to 7 the C function has no \<open>return\<close>: no value.\<close>

definition getDeviceNumber :: "int \<Rightarrow> kernel \<Rightarrow> int option" where
  "getDeviceNumber lineNumber s =
     (if 2 < lineNumber \<and> lineNumber < 8 then
        let bitMap = interrupt_dev (busreg s);
            lineNumberBitMap =
              (if lineNumber = 3 then bitMap 0
               else if lineNumber = 4 then bitMap 1
               else if lineNumber = 5 then bitMap 2
               else if lineNumber = 6 then bitMap 3
               else bitMap 4)
        in Some (lowestDevice lineNumberBitMap)
      else None)"

definition getDevRegIndex :: "int \<Rightarrow> int \<Rightarrow> int" where
  "getDevRegIndex lineNumber deviceNumber = (lineNumber - 3) * 8 + deviceNumber"

section \<open>Device registers\<close>

text \<open>\<open>devreg\<close> is an array of 40; an index outside it has no value.\<close>

definition rd_dev :: "int \<Rightarrow> kernel \<Rightarrow> device_t option" where
  "rd_dev i s =
     (if 0 \<le> i \<and> i < int (DEVINTNUM * DEVPERINT) then Some (devreg (busreg s) (nat i)) else None)"

definition upd_dev :: "int \<Rightarrow> (device_t \<Rightarrow> device_t) \<Rightarrow> kernel \<Rightarrow> kernel option" where
  "upd_dev i f s =
     (if 0 \<le> i \<and> i < int (DEVINTNUM * DEVPERINT)
      then Some (s\<lparr>busreg := (busreg s)\<lparr>devreg :=
             (devreg (busreg s))(nat i := f (devreg (busreg s) (nat i)))\<rparr>\<rparr>)
      else None)"

text \<open>The status, the new value of \<open>*devSemNum\<close> and the new state.\<close>

definition ackTerminal :: "int \<Rightarrow> kernel \<Rightarrow> (word32 \<times> int \<times> kernel) option" where
  "ackTerminal devSemNum s = do {
     d \<leftarrow> rd_dev devSemNum s;
     if t_transm_status d AND 0x0F \<noteq> READY then do {
       s1 \<leftarrow> upd_dev devSemNum (set_t_transm_command ACK) s;
       Some (t_transm_status d, devSemNum, s1)
     } else do {
       s1 \<leftarrow> upd_dev devSemNum (set_t_recv_command ACK) s;
       Some (t_recv_status d, devSemNum + int DEVPERINT, s1)
     }
   }"

section \<open>The handler\<close>

text \<open>The loop that wakes every process waiting for the pseudo clock.\<close>

partial_function (option) wakeClock :: "kernel \<Rightarrow> kernel option" where
  "wakeClock s = do {
     h \<leftarrow> headBlocked (devSem_addr s (int CLOCKSEM)) s;
     if h \<noteq> None then do {
       (temp, s1) \<leftarrow> removeBlocked (devSem_addr s (int CLOCKSEM)) s;
       s2 \<leftarrow> upd_pcb temp (\<lambda>x. x\<lparr>p_semAdd := NULL\<rparr>) s1;
       v \<leftarrow> rd_int (devSem_addr s2 (int CLOCKSEM)) s2;
       s3 \<leftarrow> wr_int (devSem_addr s2 (int CLOCKSEM)) (v + 1) s2;
       s4 \<leftarrow> insertReady temp s3;
       wakeClock (s4\<lparr>softBlockCount := softBlockCount s4 - 1\<rparr>)
     } else Some s
   }"

text \<open>Lines 3 to 7: acknowledge the device and perform a V on its semaphore.\<close>

definition deviceInterrupt :: "int \<Rightarrow> kernel \<Rightarrow> outcome" where
  "deviceInterrupt lineNumber s = do {
     deviceNumber \<leftarrow> getDeviceNumber lineNumber s;
     let devRegIndex = getDevRegIndex lineNumber deviceNumber;
     (status, termOffset, s1) \<leftarrow>
       (if lineNumber = 7 then do {
          (status, devRegIndex', t) \<leftarrow> ackTerminal devRegIndex s;
          Some (status, if status AND 0x0F = READY then 8 else 0, t)
        } else do {
          d \<leftarrow> rd_dev devRegIndex s;
          t \<leftarrow> upd_dev devRegIndex (\<lambda>d. d\<lparr>d_command := ACK\<rparr>) s;
          Some (d_status d, 0, t)
        });
     let semAdd = devSem_addr s1 (getSemArrayNum lineNumber deviceNumber termOffset);
     v \<leftarrow> rd_int semAdd s1;
     s2 \<leftarrow> wr_int semAdd (v + 1) s1;
     v1 \<leftarrow> rd_int semAdd s2;
     if sint v1 \<le> 0 then do {
       (p, s3) \<leftarrow> removeBlocked semAdd s2;
       s4 \<leftarrow> upd_pcb p (\<lambda>x. x\<lparr>p_semAdd := NULL\<rparr>) s3;
       s5 \<leftarrow> upd_pcb p (\<lambda>x. x\<lparr>p_s := set_v0 status (p_s x)\<rparr>) s4;
       s6 \<leftarrow> insertReady p s5;
       let s7 = s6\<lparr>softBlockCount := softBlockCount s6 - 1\<rparr>;
       if waitFlag s7 = 1 then scheduler s7
       else do {
         (t, s8) \<leftarrow> STCK s7;
         LDST (StAt INTERRUPTOLDAREA) (s8\<lparr>time := t\<rparr>)
       }
     } else Some (Exit_return, s2)
   }"

text \<open>Line 1: the end of a quantum.\<close>

definition quantumEnd :: "kernel \<Rightarrow> outcome" where
  "quantumEnd s = do {
     s1 \<leftarrow> stateCopy (StAt INTERRUPTOLDAREA) (StOf (currentProcess s)) s;
     s2 \<leftarrow> insertReady (currentProcess s1) s1;
     scheduler (s2\<lparr>currentProcess := None\<rparr>)
   }"

text \<open>Every other line: a tick of the pseudo clock.\<close>

definition clockTick :: "kernel \<Rightarrow> outcome" where
  "clockTick s0 = do {
     let s = LDIT 100000 s0;
     h \<leftarrow> headBlocked (devSem_addr s (int CLOCKSEM)) s;
     s1 \<leftarrow>
       (if h \<noteq> None then do {
          v \<leftarrow> rd_int (devSem_addr s (int CLOCKSEM)) s;
          if sint v \<le> 0 then wakeClock s else Some s
        } else Some s);
     if currentProcess s1 \<noteq> None then LDST (StAt INTERRUPTOLDAREA) s1
     else scheduler s1
   }"

definition interruptHandler :: "kernel \<Rightarrow> outcome" where
  "interruptHandler s = do {
     (currTime, s1) \<leftarrow> STCK s;
     s2 \<leftarrow>
       (if currentProcess s1 \<noteq> None then chargeTime (currentProcess s1) currTime s1
        else Some s1);
     interruptOld \<leftarrow> rd_state (StAt INTERRUPTOLDAREA) s2;
     let lineNumber = getLineNumber (s_cause interruptOld);
     if lineNumber > 2 \<and> lineNumber < 8 then deviceInterrupt lineNumber s2
     else if lineNumber = 1 then quantumEnd s2
     else clockTick s2
   }"

section \<open>Which device: what it computes\<close>

text \<open>The first of \<open>k\<close> numbers from \<open>n\<close> on that satisfies \<open>P\<close>, or \<open>-1\<close>.\<close>

fun first_from :: "(nat \<Rightarrow> bool) \<Rightarrow> nat \<Rightarrow> nat \<Rightarrow> int" where
  "first_from P n 0 = -1"
| "first_from P n (Suc k) = (if P n then int n else first_from P (Suc n) k)"

lemma first_from_iff:
  "first_from P n k = int l \<longleftrightarrow> n \<le> l \<and> l < n + k \<and> P l \<and> (\<forall>j. n \<le> j \<longrightarrow> j < l \<longrightarrow> \<not> P j)"
proof (induction k arbitrary: n)
  case (Suc k)
  show ?case
  proof (cases "P n")
    case True
    then have "l = n" if "n \<le> l" "\<forall>j. n \<le> j \<longrightarrow> j < l \<longrightarrow> \<not> P j"
      using that le_eq_less_or_eq by blast
    then show ?thesis using True by auto
  next
    case False
    then have "n \<le> l \<and> P l \<longleftrightarrow> Suc n \<le> l \<and> P l" "(n \<le> j \<longrightarrow> j < l \<longrightarrow> \<not> P j) \<longleftrightarrow> (Suc n \<le> j \<longrightarrow> j < l \<longrightarrow> \<not> P j)" for j
      by (metis Suc_leI Suc_leD le_eq_less_or_eq)+
    then show ?thesis using False Suc.IH [of "Suc n"] by (simp only: first_from.simps if_False) auto
  qed
qed simp

lemma first_from_none: "first_from P n k = -1 \<longleftrightarrow> (\<forall>j. n \<le> j \<longrightarrow> j < n + k \<longrightarrow> \<not> P j)"
proof (induction k arbitrary: n)
  case (Suc k)
  show ?case
  proof (cases "P n")
    case True
    then show ?thesis by auto
  next
    case False
    then have "(n \<le> j \<longrightarrow> j < n + Suc k \<longrightarrow> \<not> P j) \<longleftrightarrow> (Suc n \<le> j \<longrightarrow> j < Suc n + k \<longrightarrow> \<not> P j)" for j
      by (cases "j = n") auto
    then show ?thesis using False Suc.IH [of "Suc n"] by simp
  qed
qed simp

lemma getLineNumber_first: "getLineNumber c = first_from (\<lambda>l. bit c (8 + l)) 0 8"
  by (simp add: getLineNumber_def CHECK_BIT_bit eval_nat_numeral)

lemma lowestDevice_first: "lowestDevice b = first_from (bit b) 0 8"
  by (simp add: lowestDevice_def CHECK_BIT_bit eval_nat_numeral)

text \<open>The bitmap of interrupting devices of line \<open>l\<close>.\<close>

definition pending :: "int \<Rightarrow> kernel \<Rightarrow> word32" where
  "pending l s = interrupt_dev (busreg s) (nat (l - 3))"

lemma getDeviceNumber_run:
  "3 \<le> l \<Longrightarrow> l \<le> 7 \<Longrightarrow> getDeviceNumber l s = Some (lowestDevice (pending l s))"
  by (cases "l = 3"; cases "l = 4"; cases "l = 5"; cases "l = 6"; cases "l = 7")
    (simp_all add: getDeviceNumber_def pending_def)

section \<open>Device interrupts: what they do\<close>

text \<open>
  The acknowledgement: the status reported, the offset of the semaphore and the device register
  after it.
\<close>

definition ack :: "int \<Rightarrow> device_t \<Rightarrow> word32 \<times> int \<times> device_t" where
  "ack line x =
     (if line = 7 then
        if t_transm_status x AND 0x0F \<noteq> READY then (t_transm_status x, 0, set_t_transm_command ACK x)
        else (t_recv_status x, if t_recv_status x AND 0x0F = READY then 8 else 0, set_t_recv_command ACK x)
      else (d_status x, 0, x\<lparr>d_command := ACK\<rparr>))"

definition acked :: "int \<Rightarrow> nat \<Rightarrow> kernel \<Rightarrow> kernel" where
  "acked line n s = s\<lparr>busreg := (busreg s)\<lparr>devreg :=
     (devreg (busreg s))(n := snd (snd (ack line (devreg (busreg s) n))))\<rparr>\<rparr>"

text \<open>The index of the device register, and of the semaphore.\<close>

definition dev_slot :: "int \<Rightarrow> nat \<Rightarrow> nat" where
  "dev_slot line d = 8 * nat (line - 3) + d"

text \<open>
  The handler takes the interrupt of a terminal for one of the receiver when both halves report that they are ready,
  and for one of the transmitter otherwise.
\<close>

definition from_receiver :: "int \<Rightarrow> device_t \<Rightarrow> bool" where
  "from_receiver line x \<longleftrightarrow> line = 7 \<and> t_transm_status x AND 0x0F = READY \<and> t_recv_status x AND 0x0F = READY"

definition dev_sem :: "int \<Rightarrow> nat \<Rightarrow> kernel \<Rightarrow> nat" where
  "dev_sem line d s = io_index line (int d) (from_receiver line (devreg (busreg s) (dev_slot line d)))"

lemma ack_offset: "fst (snd (ack line x)) = (if from_receiver line x then 8 else 0)"
  by (auto simp: ack_def from_receiver_def)

lemma dev_indices:
  assumes "3 \<le> line" "line \<le> 7" "d < 8"
  shows "dev_slot line d < 40" "getDevRegIndex line (int d) = int (dev_slot line d)"
    "dev_sem line d s < CLOCKSEM" "dev_sem line d s < DEVSEMS"
    "getSemArrayNum line (int d) (fst (snd (ack line (devreg (busreg s) (dev_slot line d)))))
       = int (dev_sem line d s)"
  using assms getSemArrayNum_index [of line "int d" "from_receiver line (devreg (busreg s) (dev_slot line d))"]
  by (auto simp: dev_slot_def dev_sem_def getDevRegIndex_def ack_offset from_receiver_def)

text \<open>A V operation that hands the device status to the process it wakes.\<close>

definition a_devV :: "memaddr \<Rightarrow> word32 \<Rightarrow> akernel \<Rightarrow> akernel" where
  "a_devV a status A =
     (let A1 = a_setsem a (the (a_sem A a) + 1) A
      in a_wake a (A1\<lparr>a_ctx := (a_ctx A)(hd (a_waits A a) := set_v0 status (a_ctx A (hd (a_waits A a))))\<rparr>))"

lemma rd_dev_run: "n < 40 \<Longrightarrow> rd_dev (int n) s = Some (devreg (busreg s) n)"
  by (simp add: rd_dev_def DEVINTNUM_def DEVPERINT_def)

lemma upd_dev_run: "n < 40 \<Longrightarrow> upd_dev (int n) f s = Some (s\<lparr>busreg := (busreg s)\<lparr>devreg :=
    (devreg (busreg s))(n := f (devreg (busreg s) n))\<rparr>\<rparr>)"
  by (simp add: upd_dev_def DEVINTNUM_def DEVPERINT_def)

lemma ack_stage:
  assumes "n < 40"
  shows "(if line = 7 then do {
          (status, devRegIndex', t) \<leftarrow> ackTerminal (int n) s;
          Some (status, if status AND 0x0F = READY then 8 else 0, t)
        } else do {
          d \<leftarrow> rd_dev (int n) s;
          t \<leftarrow> upd_dev (int n) (\<lambda>d. d\<lparr>d_command := ACK\<rparr>) s;
          Some (d_status d, 0, t)
        }) = Some (fst (ack line (devreg (busreg s) n)), fst (snd (ack line (devreg (busreg s) n))),
                  acked line n s)"
  by (cases "line = 7"; cases "t_transm_status (devreg (busreg s) n) AND 0x0F = READY";
      cases "t_recv_status (devreg (busreg s) n) AND 0x0F = READY")
    (simp_all add: ackTerminal_def rd_dev_run [OF assms] upd_dev_run [OF assms] ack_def acked_def)

lemma deviceInterrupt_start:
  assumes l: "3 \<le> line" "line \<le> 7" and d: "lowestDevice (pending line s) = int d" "d < 8"
  defines "s1 \<equiv> acked line (dev_slot line d) s"
    and "status \<equiv> fst (ack line (devreg (busreg s) (dev_slot line d)))"
  shows "deviceInterrupt line s = do {
     let semAdd = devSem_addr s1 (int (dev_sem line d s));
     v \<leftarrow> rd_int semAdd s1;
     s2 \<leftarrow> wr_int semAdd (v + 1) s1;
     v1 \<leftarrow> rd_int semAdd s2;
     if sint v1 \<le> 0 then do {
       (p, s3) \<leftarrow> removeBlocked semAdd s2;
       s4 \<leftarrow> upd_pcb p (\<lambda>x. x\<lparr>p_semAdd := NULL\<rparr>) s3;
       s5 \<leftarrow> upd_pcb p (\<lambda>x. x\<lparr>p_s := set_v0 status (p_s x)\<rparr>) s4;
       s6 \<leftarrow> insertReady p s5;
       let s7 = s6\<lparr>softBlockCount := softBlockCount s6 - 1\<rparr>;
       if waitFlag s7 = 1 then scheduler s7
       else do {
         (t, s8) \<leftarrow> STCK s7;
         LDST (StAt INTERRUPTOLDAREA) (s8\<lparr>time := t\<rparr>)
       }
     } else Some (Exit_return, s2)
   }"
proof -
  note ix = dev_indices(1,2) [OF l d(2)] dev_indices(3-5) [OF l d(2), of s]
  show ?thesis
    unfolding deviceInterrupt_def getDeviceNumber_run [OF l] d(1) Option.bind_lunit Let_def ix(2)
      ack_stage [OF ix(1)]
      prod.case ix(5) s1_def status_def by (rule refl)
qed

lemma deviceInterrupt_run:
  assumes r: "krel s A" and l: "3 \<le> line" "line \<le> 7"
    and d: "lowestDevice (pending line s) = int d" "d < 8"
    and v: "a_sem A (devsem (a_base A) (dev_sem line d s)) = Some v"
  defines "a \<equiv> devsem (a_base A) (dev_sem line d s)"
    and "status \<equiv> fst (ack line (devreg (busreg s) (dev_slot line d)))"
  shows "0 < sint (v + 1) \<Longrightarrow> \<exists>s'. deviceInterrupt line s = Some (Exit_return, s')
      \<and> krel s' (a_setsem a (v + 1) A)"
    and "sint (v + 1) \<le> 0 \<Longrightarrow> a_waits A a = [] \<Longrightarrow> deviceInterrupt line s = None"
    and "sint (v + 1) \<le> 0 \<Longrightarrow> a_waits A a = p # ps \<Longrightarrow> waitFlag s \<noteq> 1 \<Longrightarrow>
      st_mem s INTERRUPTOLDAREA = Some iold \<Longrightarrow>
      \<exists>s'. deviceInterrupt line s = Some (Exit_LDST iold, s') \<and> krel s' (a_devV a status A)
        \<and> time s' = clock_value s \<and> busreg s' = busreg (acked line (dev_slot line d) s)
        \<and> (\<forall>q. p_time (procTable s' q) = p_time (procTable s q))"
    and "sint (v + 1) \<le> 0 \<Longrightarrow> a_waits A a = p # ps \<Longrightarrow> waitFlag s = 1 \<Longrightarrow> a_run A = None \<Longrightarrow>
      \<exists>s'. deviceInterrupt line s = Some (a_exit (a_devV a status A), s')
        \<and> krel s' (a_dispatch (a_devV a status A))"
proof -
  let ?n = "dev_slot line d"
  let ?s1 = "acked line ?n s"
  note ix = dev_indices(1,2) [OF l d(2)] dev_indices(3-5) [OF l d(2), of s]
  note start = deviceInterrupt_start [OF l d, folded status_def]
  have r1: "krel ?s1 A" by (rule krel_cong [OF r]) (simp_all add: acked_def)
  note dv = dev_sem_facts [OF r1 ix(4), folded a_def]
  have v': "int_mem ?s1 a = Some v" using v krelD(6) [OF r1] by (simp add: a_def)
  let ?s2 = "?s1\<lparr>int_mem := (int_mem ?s1)(a \<mapsto> v + 1)\<rparr>" and ?A1 = "a_setsem a (v + 1) A"
  have r2: "krel ?s2 ?A1" by (rule krel_setsem [OF r1 v'])
  have W: "a_waits ?A1 = a_waits A" "a_base ?A1 = a_base A" "a_ctx ?A1 = a_ctx A" "a_run ?A1 = a_run A"
    by (simp_all add: a_setsem_def)
  show "0 < sint (v + 1) \<Longrightarrow> \<exists>s'. deviceInterrupt line s = Some (Exit_return, s')
      \<and> krel s' (a_setsem a (v + 1) A)"
    using start v' dv(1) r2 by (simp add: rd_int_def)
  show "sint (v + 1) \<le> 0 \<Longrightarrow> a_waits A a = [] \<Longrightarrow> deviceInterrupt line s = None"
    using start v' dv(1) kq_wake_none [OF krelD(1) [OF r2] dv(3)] W by (simp add: rd_int_def)
  {
    assume neg: "sint (v + 1) \<le> 0" and Wp: "a_waits A a = p # ps"
    let ?f = "\<lambda>x :: pcb_t. x\<lparr>p_semAdd := NULL, p_s := set_v0 status (p_s x)\<rparr>"
    have "n = 1 \<Longrightarrow> n = (if is_dev (a_base ?A1) a then 1 else 0)" for n :: int using dv(4) W by simp
    moreover have "wf_state x \<Longrightarrow> wf_state (set_v0 status x)" for x
      by (simp add: wf_state_def reg_defs)
    ultimately obtain T1 S' fh T2 where rm: "removeBlocked a ?s2
          = Some (Some p, ?s2\<lparr>procTable := T1, semdTable := S', semdFree_h := fh\<rparr>)"
      and p: "p < MAXPROC"
      and ins: "insertReady (Some p) (?s2\<lparr>semdTable := S', semdFree_h := fh, procTable := T1(p := ?f (T1 p))\<rparr>)
           = Some (?s2\<lparr>semdTable := S', semdFree_h := fh, procTable := T2, readyQue := Some p\<rparr>)"
      and r3: "krel (?s2\<lparr>semdTable := S', semdFree_h := fh, procTable := T2, readyQue := Some p,
               softBlockCount := softBlockCount ?s2 - 1\<rparr>)
             (a_wake a ?A1\<lparr>a_ctx := (a_ctx ?A1)(p := set_v0 status (a_ctx ?A1 p))\<rparr>)"
      and pt: "\<forall>q. p_time (T2 q) = p_time (procTable ?s2 q)"
      using krel_wake_with [OF r2, of a p ps 1 ?f "set_v0 status"] Wp W by auto
    let ?s7 = "?s2\<lparr>semdTable := S', semdFree_h := fh, procTable := T2, readyQue := Some p,
               softBlockCount := softBlockCount ?s2 - 1\<rparr>"
    have A7: "a_wake a ?A1\<lparr>a_ctx := (a_ctx ?A1)(p := set_v0 status (a_ctx ?A1 p))\<rparr> = a_devV a status A"
      using Wp v by (simp add: a_devV_def a_wake_def a_setsem_def a_def)
    have r7: "krel ?s7 (a_devV a status A)" using r3 unfolding A7 .
    have run: "deviceInterrupt line s =
        (if waitFlag ?s7 = 1 then scheduler ?s7
         else do { (t, s8) \<leftarrow> STCK ?s7; LDST (StAt INTERRUPTOLDAREA) (s8\<lparr>time := t\<rparr>) })"
      using start v' dv(1) rm neg p ins by (simp add: rd_int_def)
    have same: "waitFlag ?s7 = waitFlag s" "st_mem ?s7 = st_mem s" "timescale (busreg ?s7) = timescale (busreg s)"
      "clock_value ?s7 = clock_value s" by (simp_all add: acked_def clock_value_def)
    show "\<exists>s'. deviceInterrupt line s = Some (Exit_LDST iold, s') \<and> krel s' (a_devV a status A)
        \<and> time s' = clock_value s \<and> busreg s' = busreg (acked line (dev_slot line d) s)
        \<and> (\<forall>q. p_time (procTable s' q) = p_time (procTable s q))" if "waitFlag s \<noteq> 1" "st_mem s INTERRUPTOLDAREA = Some iold"
    proof -
      let ?s8 = "?s7\<lparr>tod_reads := Suc (tod_reads ?s7), time := clock_value s\<rparr>"
      have "krel ?s8 (a_devV a status A)" by (rule krel_cong [OF r7]) simp_all
      moreover have "deviceInterrupt line s = Some (Exit_LDST iold, ?s8)"
        unfolding run using that same mem_okD(1) [OF krelD(10) [OF r]]
        by (simp add: STCK_run LDST_def)
      ultimately show ?thesis using pt by (simp add: acked_def)
    qed
    show "\<exists>s'. deviceInterrupt line s = Some (a_exit (a_devV a status A), s')
        \<and> krel s' (a_dispatch (a_devV a status A))" if "waitFlag s = 1" "a_run A = None"
    proof -
      have "a_run (a_devV a status A) = None"
        using that Wp by (simp add: a_devV_def a_wake_def a_setsem_def)
      from scheduler_refines [OF r7 this] show ?thesis unfolding run using that same by auto
    qed
  }
qed

section \<open>The end of a quantum and the pseudo clock: what they do\<close>

text \<open>The running process goes to the end of the ready queue.\<close>

definition a_preempt :: "state_t \<Rightarrow> akernel \<Rightarrow> akernel" where
  "a_preempt st A =
     (case a_run A of
        None \<Rightarrow> A
      | Some p \<Rightarrow> A\<lparr>a_ctx := (a_ctx A)(p := st), a_ready := a_ready A @ [p], a_run := None\<rparr>)"

lemma quantumEnd_run:
  assumes r: "krel s A" and st: "st_mem s INTERRUPTOLDAREA = Some st" and p: "a_run A = Some p"
  shows "\<exists>s'. quantumEnd s = Some (a_exit (a_preempt st A), s')
    \<and> krel s' (a_dispatch (a_preempt st A))"
proof -
  have cp: "currentProcess s = Some p" "p < MAXPROC" using krelD(2,4) [OF r] p by auto
  have wf: "wf_state st" using mem_okD(4) [OF krelD(10) [OF r] st] .
  let ?s1 = "s\<lparr>procTable := (procTable s)(p := (procTable s p)\<lparr>p_s := st\<rparr>)\<rparr>"
    and ?A1 = "A\<lparr>a_ctx := (a_ctx A)(p := st)\<rparr>"
  have r1: "krel ?s1 ?A1" by (rule krel_ctx [OF r cp(2) wf])
  note copy = stateCopy_saved [OF r cp(2) st]
  have k: "kq ?s1 (a_free A) (a_ready A) (a_waits A) (p # [])" using krelD(1) [OF r1] p by simp
  have n: "p_semAdd (procTable ?s1 p) = NULL" using krelD(3) [OF r p] by simp
  obtain T' where ins: "insertReady (Some p) ?s1 = Some (?s1\<lparr>procTable := T', readyQue := Some p\<rparr>)"
    and k2: "kq (?s1\<lparr>procTable := T', readyQue := Some p\<rparr>) (a_free A) (a_ready A @ [p]) (a_waits A) []"
    and fr: "qframe (insert p (set (a_ready A))) (procTable ?s1) T'"
    using kq_insertReady [OF k n] by blast
  let ?s2 = "?s1\<lparr>procTable := T', readyQue := Some p, currentProcess := None\<rparr>"
  have k3: "kq ?s2 (a_free A) (a_ready A @ [p]) (a_waits A) []" by (rule kq_cong [OF k2]) simp_all
  have "p_s (T' q) = (if q = p then st else p_s (procTable s q))" for q
    by (simp add: qframe_fields [OF fr])
  then have "krel ?s2 (a_preempt st A)"
    using r k3 p wf by (auto simp: krel_def a_preempt_def mem_ok_def fun_eq_iff)
  from scheduler_refines [OF this] obtain s' where
    "scheduler ?s2 = Some (a_exit (a_preempt st A), s')" "krel s' (a_dispatch (a_preempt st A))"
    using p by (auto simp: a_preempt_def)
  then show ?thesis using copy cp ins by (simp add: quantumEnd_def)
qed

lemma insertReady_int_mem:
  "insertReady p (s\<lparr>int_mem := M\<rparr>) = map_option (\<lambda>t. t\<lparr>int_mem := M\<rparr>) (insertReady p s)"
  by (cases p; cases "readyQue s")
    (auto simp: insertReady_def insertProcQ_def emptyProcQ_def upd_pcb_def rd_pcb_def
      split: option.splits if_splits)

text \<open>Every process that waits for the clock becomes ready, in order.\<close>

definition a_tick :: "akernel \<Rightarrow> akernel" where
  "a_tick A =
     (let a = devsem (a_base A) CLOCKSEM; ps = a_waits A a
      in A\<lparr>a_waits := (a_waits A)(a := []), a_ready := a_ready A @ ps,
           a_sem := (a_sem A)(a \<mapsto> the (a_sem A a) + word_of_nat (length ps))\<rparr>)"

lemma devSem_addr_upd:
  "devSem_addr (s\<lparr>procTable := T\<rparr>) n = devSem_addr s n"
  "devSem_addr (s\<lparr>semdTable := S\<rparr>) n = devSem_addr s n"
  "devSem_addr (s\<lparr>semdFree_h := h\<rparr>) n = devSem_addr s n"
  by (simp_all add: devSem_addr_def)

lemma wakeClock_run:
  assumes "krel s A" "a_sem A (devsem (a_base A) CLOCKSEM) = Some v"
  shows "\<exists>s'. wakeClock s = Some s' \<and> krel s' (a_tick A) \<and> st_mem s' = st_mem s"
  using assms
proof (induction "a_waits A (devsem (a_base A) CLOCKSEM)" arbitrary: s A v)
  case Nil
  have clock: "CLOCKSEM < DEVSEMS" by (simp add: DEVSEMS_49 CLOCKSEM_48)
  note dev = dev_sem_facts [OF Nil.prems(1) clock]
  have "headBlocked (devsem (a_base A) CLOCKSEM) s = Some None"
    using kq_head [OF krelD(1) [OF Nil.prems(1)] dev(3)] Nil(1) by simp
  then have "wakeClock s = Some s" using dev(1) by (subst wakeClock.simps) simp
  moreover have "a_tick A = A"
    using Nil(1) [symmetric] Nil.prems(2) by (simp add: a_tick_def fun_upd_idem)
  ultimately show ?case using Nil.prems(1) by simp
next
  case (Cons p ps)
  let ?a = "devsem (a_base A) CLOCKSEM"
  have clock: "CLOCKSEM < DEVSEMS" by (simp add: DEVSEMS_49 CLOCKSEM_48)
  note dev = dev_sem_facts [OF Cons.prems(1) clock]
  note W = Cons(2) [symmetric]
  have hd: "headBlocked ?a s = Some (Some p)"
    using kq_head [OF krelD(1) [OF Cons.prems(1)] dev(3)] W by simp
  have v: "int_mem s ?a = Some v" using Cons.prems(2) krelD(6) [OF Cons.prems(1)] by simp
  obtain T1 S' fh T2 where
    rm: "removeBlocked ?a s = Some (Some p, s\<lparr>procTable := T1, semdTable := S', semdFree_h := fh\<rparr>)"
    and p: "p < MAXPROC"
    and ins: "insertReady (Some p) (s\<lparr>semdTable := S', semdFree_h := fh,
          procTable := T1(p := (T1 p)\<lparr>p_semAdd := NULL\<rparr>)\<rparr>)
        = Some (s\<lparr>semdTable := S', semdFree_h := fh, procTable := T2, readyQue := Some p\<rparr>)"
    and r1: "krel (s\<lparr>semdTable := S', semdFree_h := fh, procTable := T2, readyQue := Some p,
            softBlockCount := softBlockCount s - 1\<rparr>)
        (a_wake ?a A\<lparr>a_ctx := (a_ctx A)(p := id (a_ctx A p))\<rparr>)"
    using krel_wake_with [OF Cons.prems(1) W, of 1 "\<lambda>x. x\<lparr>p_semAdd := NULL\<rparr>" id] dev(4) by auto
  let ?M = "(int_mem s)(?a \<mapsto> v + 1)"
  let ?s4 = "s\<lparr>semdTable := S', semdFree_h := fh, procTable := T2, readyQue := Some p,
            softBlockCount := softBlockCount s - 1, int_mem := ?M\<rparr>"
  let ?A1 = "a_setsem ?a (v + 1) (a_wake ?a A)"
  have "a_wake ?a A\<lparr>a_ctx := (a_ctx A)(p := id (a_ctx A p))\<rparr> = a_wake ?a A"
    using W by (simp add: a_wake_def)
  with r1 have r2: "krel ?s4 ?A1" using krel_setsem [OF r1, of ?a v "v + 1"] v by simp
  have swap: "t\<lparr>int_mem := M, softBlockCount := n\<rparr> = t\<lparr>softBlockCount := n, int_mem := M\<rparr>"
    for t :: kernel and M n by (cases t) simp
  have w: "wakeClock s = wakeClock ?s4"
    using dev(1) hd rm p v ins
    by (subst wakeClock.simps) (simp add: devSem_addr_upd rd_int_def insertReady_int_mem swap)
  have wk: "a_wake ?a A = A\<lparr>a_waits := (a_waits A)(?a := ps), a_ready := a_ready A @ [p]\<rparr>"
    using W by (simp add: a_wake_def)
  have A1: "a_base ?A1 = a_base A" "ps = a_waits ?A1 (devsem (a_base ?A1) CLOCKSEM)"
    "a_sem ?A1 (devsem (a_base ?A1) CLOCKSEM) = Some (v + 1)"
    unfolding wk by (simp_all add: a_setsem_def)
  have A2: "a_tick ?A1 = a_tick A"
    unfolding wk a_tick_def Let_def using W Cons.prems(2) by (simp add: a_setsem_def add.assoc)
  show ?case using Cons(1) [OF A1(2) r2 A1(3)] w A2 by simp
qed

text \<open>The condition under which a tick wakes the waiting processes.\<close>

definition a_tick_if :: "akernel \<Rightarrow> akernel" where
  "a_tick_if A =
     (if a_waits A (devsem (a_base A) CLOCKSEM) \<noteq> []
         \<and> sint (the (a_sem A (devsem (a_base A) CLOCKSEM))) \<le> 0
      then a_tick A else A)"

lemma clockTick_run:
  assumes r: "krel s A"
  shows "a_run A \<noteq> None \<Longrightarrow> st_mem s INTERRUPTOLDAREA = Some st \<Longrightarrow>
      \<exists>s'. clockTick s = Some (Exit_LDST st, s') \<and> krel s' (a_tick_if A)"
    and "a_run A = None \<Longrightarrow>
      \<exists>s'. clockTick s = Some (a_exit (a_tick_if A), s') \<and> krel s' (a_dispatch (a_tick_if A))"
proof -
  let ?a = "devsem (a_base A) CLOCKSEM"
  let ?s = "LDIT 100000 s"
  have clock: "CLOCKSEM < DEVSEMS" by (simp add: DEVSEMS_49 CLOCKSEM_48)
  have r0: "krel ?s A" by (rule krel_cong [OF r]) (simp_all add: LDIT_def)
  note dev = dev_sem_facts [OF r0 clock]
  obtain v where v: "a_sem A ?a = Some v" "int_mem ?s ?a = Some v"
    using mem_okD(3) [OF krelD(10) [OF r0] clock] krelD(6,7) [OF r0] by auto
  have hd: "headBlocked ?a ?s = Some (if a_waits A ?a = [] then None else Some (hd (a_waits A ?a)))"
    by (rule kq_head [OF krelD(1) [OF r0] dev(3)])
  obtain s1 where s1: "(if (if a_waits A ?a = [] then None else Some (hd (a_waits A ?a))) \<noteq> None
       then do { v \<leftarrow> rd_int ?a ?s; if sint v \<le> 0 then wakeClock ?s else Some ?s } else Some ?s)
      = Some s1" and r1: "krel s1 (a_tick_if A)" and m1: "st_mem s1 = st_mem s"
  proof (cases "a_waits A ?a \<noteq> [] \<and> sint v \<le> 0")
    case True
    then have "a_tick_if A = a_tick A" using v by (simp add: a_tick_if_def)
    moreover obtain t where "wakeClock ?s = Some t" "krel t (a_tick A)" "st_mem t = st_mem ?s"
      using wakeClock_run [OF r0 v(1)] by blast
    ultimately show thesis using True v by (intro that [of t]) (simp_all add: rd_int_def LDIT_def)
  next
    case False
    then have "a_tick_if A = A" using v by (auto simp: a_tick_if_def)
    then show thesis using False v r0 by (intro that [of ?s]) (auto simp: rd_int_def LDIT_def)
  qed
  have run: "clockTick s = (if currentProcess s1 \<noteq> None then LDST (StAt INTERRUPTOLDAREA) s1 else scheduler s1)"
    unfolding clockTick_def Let_def dev(1) hd Option.bind_lunit s1 by (rule refl)
  have cur: "currentProcess s1 = a_run A"
    using krelD(2) [OF r1] by (simp add: a_tick_if_def a_tick_def Let_def)
  show "a_run A \<noteq> None \<Longrightarrow> st_mem s INTERRUPTOLDAREA = Some st \<Longrightarrow>
      \<exists>s'. clockTick s = Some (Exit_LDST st, s') \<and> krel s' (a_tick_if A)"
    using run r1 m1 cur by (auto simp: LDST_def)
  have "a_run (a_tick_if A) = a_run A" by (simp add: a_tick_if_def a_tick_def Let_def)
  then show "a_run A = None \<Longrightarrow>
      \<exists>s'. clockTick s = Some (a_exit (a_tick_if A), s') \<and> krel s' (a_dispatch (a_tick_if A))"
    using scheduler_refines [OF r1] run cur by auto
qed

text \<open>The charge on entry.\<close>

definition entered :: "kernel \<Rightarrow> kernel" where
  "entered s =
     (case currentProcess s of
        None \<Rightarrow> s\<lparr>tod_reads := Suc (tod_reads s)\<rparr>
      | Some p \<Rightarrow> s\<lparr>tod_reads := Suc (tod_reads s), procTable := (procTable s)
          (p := (procTable s p)\<lparr>p_time := p_time (procTable s p) + (clock_value s - time s)\<rparr>)\<rparr>)"

lemma entered_simps:
  "st_mem (entered s) = st_mem s" "waitFlag (entered s) = waitFlag s" "busreg (entered s) = busreg s"
  by (simp_all add: entered_def split: option.splits)

lemma interruptHandler_run:
  assumes r: "krel s A" and st: "st_mem s INTERRUPTOLDAREA = Some st"
  defines "l \<equiv> getLineNumber (s_cause st)"
  shows "krel (entered s) A"
    and "interruptHandler s =
      (if l > 2 \<and> l < 8 then deviceInterrupt l (entered s)
       else if l = 1 then quantumEnd (entered s) else clockTick (entered s))"
proof -
  have ts: "timescale (busreg s) \<noteq> 0" using mem_okD(1) [OF krelD(10) [OF r]] .
  show "krel (entered s) A"
    by (rule krel_cong [OF r]) (simp_all add: entered_def split: option.splits)
  show "interruptHandler s =
      (if l > 2 \<and> l < 8 then deviceInterrupt l (entered s)
       else if l = 1 then quantumEnd (entered s) else clockTick (entered s))"
  proof (cases "currentProcess s")
    case None
    then show ?thesis using st ts
      by (simp add: interruptHandler_def STCK_run entered_def l_def Let_def)
  next
    case (Some p)
    then have "p < MAXPROC" using krelD(2,4) [OF r] by metis
    then show ?thesis using st ts Some
      by (simp add: interruptHandler_def STCK_run entered_def chargeTime_run l_def Let_def clock_value_def)
  qed
qed

section \<open>Properties\<close>

text \<open>
  The interrupt line chosen is the pending one of highest priority: the least l whose bit
  8 + l of the cause register is set, and -1 exactly when none of the eight is.
\<close>

theorem getLineNumber_priority:
  "(getLineNumber c = int l \<longleftrightarrow> l < 8 \<and> bit c (8 + l) \<and> (\<forall>k<l. \<not> bit c (8 + k)))
   \<and> (getLineNumber c = -1 \<longleftrightarrow> (\<forall>k<8. \<not> bit c (8 + k)))"
  by (auto simp: getLineNumber_first first_from_iff first_from_none)

theorem getLineNumber_priority_witness: "getLineNumber 0x8800 = 3"
proof -
  have "bit (0x8800 :: word32) (8 + 3)" "\<forall>k<3. \<not> bit (0x8800 :: word32) (8 + k)"
    by (auto simp: less_Suc_eq numeral_3_eq_3 numeral_eq_Suc)
  then show ?thesis using getLineNumber_priority [of "0x8800" 3] by simp
qed

text \<open>
  On a device line the device chosen is the one with the least number in the line's bitmap
  of pending interrupts, so it is pending, and no device with a smaller number is.
\<close>

theorem getDeviceNumber_lowest:
  assumes "3 \<le> line" and "line \<le> 7"
  shows "getDeviceNumber line s = Some (int d) \<longleftrightarrow>
    d < 8 \<and> bit (interrupt_dev (busreg s) (nat (line - 3))) d
    \<and> (\<forall>k<d. \<not> bit (interrupt_dev (busreg s) (nat (line - 3))) k)"
  using getDeviceNumber_run [OF assms] by (auto simp: lowestDevice_first first_from_iff pending_def)

theorem getDeviceNumber_lowest_witness:
  "getDeviceNumber 4 (ex_kernel\<lparr>busreg := ex_bus\<lparr>interrupt_dev := (\<lambda>_. 6)\<rparr>\<rparr>) = Some 1"
proof -
  have "bit (6 :: word32) 1" "\<not> bit (6 :: word32) 0" by simp_all
  then show ?thesis
    using getDeviceNumber_lowest [of 4 "ex_kernel\<lparr>busreg := ex_bus\<lparr>interrupt_dev := (\<lambda>_. 6)\<rparr>\<rparr>" 1] by simp
qed

text \<open>
  Each device has a semaphore of its own: over the device lines 3 to 7, the devices 0 to 7
  and the two halves of a terminal, the index is below that of the clock's semaphore, different
  devices and halves have different indices, and the semaphores' addresses differ too.
\<close>

theorem device_semaphores_distinct:
  assumes "3 \<le> l" and "l \<le> 7" and "0 \<le> d" and "d < 8" and "h \<in> {0, if l = 7 then 8 else 0}"
    and "3 \<le> l'" and "l' \<le> 7" and "0 \<le> d'" and "d' < 8" and "h' \<in> {0, if l' = 7 then 8 else 0}"
    and "dev_range (devSemTable_addr s)"
  shows "0 \<le> getSemArrayNum l d h \<and> getSemArrayNum l d h < int CLOCKSEM
    \<and> (devSem_addr s (getSemArrayNum l d h) = devSem_addr s (getSemArrayNum l' d' h')
         \<longleftrightarrow> l = l' \<and> d = d' \<and> h = h')"
proof -
  have b: "0 \<le> getSemArrayNum l d h" "getSemArrayNum l d h < int CLOCKSEM"
    "0 \<le> getSemArrayNum l' d' h'" "getSemArrayNum l' d' h' < int CLOCKSEM"
    using assms by (auto simp: getSemArrayNum_def CLOCKSEM_48 split: if_splits)
  obtain i j where ij: "getSemArrayNum l d h = int i" "getSemArrayNum l' d' h' = int j"
    using b nonneg_int_cases by metis
  then have "i < DEVSEMS" "j < DEVSEMS" using b by (simp_all add: CLOCKSEM_48 DEVSEMS_49)
  then have "devSem_addr s (int i) = devSem_addr s (int j) \<longleftrightarrow> i = j"
    using devsem_inj [OF assms(11)] by (simp add: devSem_addr_devsem)
  moreover have "i = j \<longleftrightarrow> l = l' \<and> d = d' \<and> h = h'"
  proof
    assume "i = j"
    then have "(l - 3) * 8 + d + h = (l' - 3) * 8 + d' + h'" using ij by (simp add: getSemArrayNum_def)
    then show "l = l' \<and> d = d' \<and> h = h'" using assms by (auto split: if_splits) presburger+
  next
    assume "l = l' \<and> d = d' \<and> h = h'"
    then show "i = j" using ij by simp
  qed
  ultimately show ?thesis using b ij by simp
qed

theorem device_semaphores_distinct_witness:
  "devSem_addr ex_machine (getSemArrayNum 7 2 8) \<noteq> devSem_addr ex_machine (getSemArrayNum 7 2 0)"
  using device_semaphores_distinct [of 7 2 8 7 2 0 ex_machine] ex_range(1)
  by (simp add: ex_machine_def)

text \<open>
  C27. A device interrupt while a process runs: the running process, and no other, is charged with the time since the
  last dispatch; the device of the interrupting line with the least number is acknowledged (an ACK in its command register, or in
  that of the half of the terminal the interrupt is attributed to) and no other device register changes; its
  semaphore is incremented, the first process that waits there becomes the last ready process with the device's status in
  v0, softBlockCount drops by one, the interrupted state is loaded again, and the clock is read again for the next charge.
  The semaphore has number 8 * (line - 3) + device, or 40 + device when both halves of a terminal report READY.
\<close>

theorem device_interrupt_wakes:
  assumes "krel s A" and "st_mem s INTERRUPTOLDAREA = Some st"
    and "getLineNumber (s_cause st) = line" and "3 \<le> line" and "line \<le> 7"
    and "lowestDevice (pending line s) = int d" and "d < 8" and "waitFlag s \<noteq> 1"
    and "a_sem A (devsem (a_base A) (dev_sem line d s)) = Some v" and "sint (v + 1) \<le> 0"
    and "a_waits A (devsem (a_base A) (dev_sem line d s)) = p # ps"
  shows "\<exists>s'. interruptHandler s = Some (Exit_LDST st, s')
    \<and> krel s' (a_devV (devsem (a_base A) (dev_sem line d s))
                 (fst (ack line (devreg (busreg s) (dev_slot line d)))) A)
    \<and> softBlockCount s' = softBlockCount s - 1
    \<and> devreg (busreg s') = (devreg (busreg s))(dev_slot line d :=
         (let x = devreg (busreg s) (dev_slot line d) in
          if line \<noteq> 7 then x\<lparr>d_command := ACK\<rparr>
          else if t_transm_status x AND 0x0F = READY then set_t_recv_command ACK x else set_t_transm_command ACK x))
    \<and> (\<forall>q. p_time (procTable s' q) =
          p_time (procTable s q) + (if a_run A = Some q then clock_value s - time s else 0))
    \<and> time s' = clock_value (s\<lparr>tod_reads := Suc (tod_reads s)\<rparr>)"
proof -
  note e = interruptHandler_run [OF assms(1,2)]
  have same: "pending line (entered s) = pending line s" "dev_sem line d (entered s) = dev_sem line d s"
    by (simp_all add: pending_def dev_sem_def entered_simps)
  let ?a = "devsem (a_base A) (dev_sem line d s)" and ?st = "fst (ack line (devreg (busreg s) (dev_slot line d)))"
  have "interruptHandler s = deviceInterrupt line (entered s)" using e(2) assms(3-5) by simp
  then obtain s' where s': "interruptHandler s = Some (Exit_LDST st, s')" "krel s' (a_devV ?a ?st A)"
    "time s' = clock_value (entered s)" "busreg s' = busreg (acked line (dev_slot line d) (entered s))"
    "\<forall>q. p_time (procTable s' q) = p_time (procTable (entered s) q)"
    using deviceInterrupt_run(3) [OF e(1) assms(4,5), of d v p ps st] assms(2,6-11) same
    by (auto simp: entered_simps)
  have cur: "currentProcess s = a_run A" by (rule krelD(2) [OF assms(1)])
  have "is_dev (a_base A) ?a" using dev_indices(4) [OF assms(4,5,7)] by (auto simp: is_dev_def)
  then have soft: "int (soft (a_base A) ((a_waits A)(?a := ps))) = int (soft (a_base A) (a_waits A)) - 1"
    using soft_upd [OF mem_okD(2) [OF krelD(10) [OF assms(1)]] dev_indices(4) [OF assms(4,5,7)], of "a_waits A" s ps]
      krelD(7) [OF assms(1)] assms(11) by simp
  have "softBlockCount s' = softBlockCount s - 1"
    using krelD(9) [OF s'(2)] krelD(9) [OF assms(1)] soft assms(11)
    by (simp add: a_devV_def a_wake_def a_setsem_def)
  then show ?thesis
    using s' cur by (auto simp: entered_def acked_def ack_def Let_def clock_value_def split: option.splits)
qed

lemma ex_line3:
  "getLineNumber 0x800 = 3" "3 \<le> (3 :: int)" "(3 :: int) \<le> 7"
  "lowestDevice (pending 3 (at_int st w (\<lambda>_. 1) d s)) = int 0"
  "dev_sem 3 0 (at_int st w (\<lambda>_. 1) d s) = 0" "dev_slot 3 0 = 0" "(0 :: nat) < 8"
  by (simp_all add: getLineNumber_def CHECK_BIT_def pending_def at_int_def lowestDevice_def
      dev_sem_def io_index_def from_receiver_def dev_slot_def)

theorem device_interrupt_wakes_witness:
  "\<exists>s s' A'. interruptHandler s = Some (Exit_LDST (int_state 0x800), s') \<and> krel s' A'
     \<and> a_ready A' = [1] \<and> a_run A' = Some 0 \<and> s_v0 (a_ctx A' 1) = 5"
proof -
  let ?a = "devsem 0x20002000 0" and ?d = "\<lparr>d_status = 5, d_command = 0, d_data0 = 0, d_data1 = 0\<rparr>"
  obtain s A where r: "krel s A" and A: "a_run A = Some 0" "a_ready A = []" "a_base A = 0x20002000"
    "a_waits A = (\<lambda>_. [])(?a := [1])" "a_sem A = (int_mem ex_machine)(?a \<mapsto> -1)" "a_ctx A = (\<lambda>_. ex_state)"
    using ex_waiting(1) [of 0] by (auto simp: DEVSEMS_49)
  let ?s = "at_int (int_state 0x800) 0 (\<lambda>_. 1) ?d s"
  note k = at_int_krel [OF r int_state_simps(1) [of "0x800"], of 0 "\<lambda>_. 1" ?d]
  obtain s' where "interruptHandler ?s = Some (Exit_LDST (int_state 0x800), s')"
    "krel s' (a_devV (devsem (a_base A) 0) (fst (ack 3 (devreg (busreg ?s) 0))) A)"
    using device_interrupt_wakes [OF k(1,2) _ ex_line3(2,3,4,7), of "-1" 1 "[]"] k(3) A
    unfolding ex_line3(5,6) by (auto simp: ex_line3(1))
  moreover have "a_ready (a_devV ?a 5 A) = [1]" "a_run (a_devV ?a 5 A) = Some 0"
    "s_v0 (a_ctx (a_devV ?a 5 A) 1) = 5"
    using A by (simp_all add: a_devV_def a_wake_def a_setsem_def reg_defs ex_state_def)
  ultimately show ?thesis using k(4) A(3) by (auto simp: ack_def)
qed

text \<open>
  A device interrupt while the nucleus idles (waitFlag is 1 and no process runs): the process
  that is woken is dispatched, with the status in v0 of the state that is loaded.
\<close>

theorem device_interrupt_dispatches:
  assumes "krel s A" and "st_mem s INTERRUPTOLDAREA = Some st"
    and "getLineNumber (s_cause st) = line" and "3 \<le> line" and "line \<le> 7"
    and "lowestDevice (pending line s) = int d" and "d < 8" and "waitFlag s = 1" and "a_run A = None"
    and "a_sem A (devsem (a_base A) (dev_sem line d s)) = Some v" and "sint (v + 1) \<le> 0"
    and "a_waits A (devsem (a_base A) (dev_sem line d s)) = p # ps" and "a_ready A = []"
  shows "\<exists>s'. interruptHandler s = Some (Exit_LDST
        (set_v0 (fst (ack line (devreg (busreg s) (dev_slot line d)))) (a_ctx A p)), s')
    \<and> currentProcess s' = Some p
    \<and> krel s' (a_dispatch (a_devV (devsem (a_base A) (dev_sem line d s))
                 (fst (ack line (devreg (busreg s) (dev_slot line d)))) A))"
proof -
  note e = interruptHandler_run [OF assms(1,2)]
  let ?B = "a_devV (devsem (a_base A) (dev_sem line d s))
                 (fst (ack line (devreg (busreg s) (dev_slot line d)))) A"
  have same: "pending line (entered s) = pending line s" "dev_sem line d (entered s) = dev_sem line d s"
    by (simp_all add: pending_def dev_sem_def entered_simps)
  have "interruptHandler s = deviceInterrupt line (entered s)" using e(2) assms(3-5) by simp
  then obtain s' where s': "interruptHandler s = Some (a_exit ?B, s')" "krel s' (a_dispatch ?B)"
    using deviceInterrupt_run(4) [OF e(1) assms(4,5), of d v p ps] assms(6-12) same
    by (auto simp: entered_simps)
  have "a_ready ?B = [p]" "a_ctx ?B p = set_v0 (fst (ack line (devreg (busreg s) (dev_slot line d)))) (a_ctx A p)"
    using assms(12,13) by (simp_all add: a_devV_def a_wake_def a_setsem_def)
  then show ?thesis using s' krelD(2) [OF s'(2)] by (simp add: a_exit_def a_dispatch_def)
qed

theorem device_interrupt_dispatches_witness:
  "\<exists>s s'. interruptHandler s = Some (Exit_LDST (set_v0 5 ex_state), s') \<and> currentProcess s' = Some 0"
proof -
  let ?a = "devsem 0x20002000 0" and ?d = "\<lparr>d_status = 5, d_command = 0, d_data0 = 0, d_data1 = 0\<rparr>"
  obtain s A where r: "krel s A" and A: "a_run A = None" "a_ready A = []" "a_base A = 0x20002000"
    "a_waits A = (\<lambda>_. [])(?a := [0])" "a_sem A = (int_mem ex_machine)(?a \<mapsto> -1)" "a_ctx A = (\<lambda>_. ex_state)"
    using ex_waiting(2) [of 0] by (auto simp: DEVSEMS_49)
  let ?s = "at_int (int_state 0x800) 1 (\<lambda>_. 1) ?d s"
  note k = at_int_krel [OF r int_state_simps(1) [of "0x800"], of 1 "\<lambda>_. 1" ?d]
  have "\<exists>s'. interruptHandler ?s = Some (Exit_LDST
        (set_v0 (fst (ack 3 (devreg (busreg ?s) 0))) (a_ctx A 0)), s') \<and> currentProcess s' = Some 0"
    using device_interrupt_dispatches [OF k(1,2) _ ex_line3(2,3,4,7), of "-1" 0 "[]"] k(3) A
    unfolding ex_line3(5,6) by (auto simp: ex_line3(1))
  then show ?thesis using k(4) A(6) by (auto simp: ack_def)
qed

text \<open>
  A device interrupt nobody waits for never ends: when the incremented semaphore is positive
  the handler has only acknowledged the device and falls off its end without loading a state;
  when it is not positive although no process waits (because the process that waited was
  killed), the handler dereferences NULL.
\<close>

theorem device_interrupt_no_waiter:
  assumes "krel s A" and "st_mem s INTERRUPTOLDAREA = Some st"
    and "getLineNumber (s_cause st) = line" and "3 \<le> line" and "line \<le> 7"
    and "lowestDevice (pending line s) = int d" and "d < 8"
    and "a_sem A (devsem (a_base A) (dev_sem line d s)) = Some v"
    and "a_waits A (devsem (a_base A) (dev_sem line d s)) = []"
  shows "if 0 < sint (v + 1)
    then \<exists>s'. interruptHandler s = Some (Exit_return, s')
           \<and> krel s' (a_setsem (devsem (a_base A) (dev_sem line d s)) (v + 1) A)
    else interruptHandler s = None"
proof -
  note e = interruptHandler_run [OF assms(1,2)]
  have same: "pending line (entered s) = pending line s" "dev_sem line d (entered s) = dev_sem line d s"
    by (simp_all add: pending_def dev_sem_def entered_simps)
  have "interruptHandler s = deviceInterrupt line (entered s)" using e(2) assms(3-5) by simp
  then show ?thesis
    using deviceInterrupt_run(1,2) [OF e(1) assms(4,5), of d v] assms(6-9) same
    by (auto simp: entered_simps not_less)
qed

theorem device_interrupt_no_waiter_witness:
  "\<exists>s s'. interruptHandler s = Some (Exit_return, s') \<and> int_mem s' (devsem 0x20002000 0) = Some 1"
proof -
  let ?d = "\<lparr>d_status = 5, d_command = 0, d_data0 = 0, d_data1 = 0\<rparr>"
  let ?s = "at_int (int_state 0x800) 0 (\<lambda>_. 1) ?d ex_kernel"
  note k = at_int_krel [OF ex_kernel_krel int_state_simps(1) [of "0x800"], of 0 "\<lambda>_. 1" ?d]
  have ne: "devsem 0x20002000 0 \<noteq> 0x20001000" "devsem 0x20002000 0 \<noteq> devsem 0x20002000 CLOCKSEM"
    by (simp_all add: devsem_def CLOCKSEM_48)
  have v: "a_sem ex_abs (devsem (a_base ex_abs) 0) = Some 0" "a_waits ex_abs (devsem (a_base ex_abs) 0) = []"
    using ex_machine_int [of 0] ne by (simp_all add: ex_abs_def DEVSEMS_49)
  obtain s' where s': "interruptHandler ?s = Some (Exit_return, s')"
    "krel s' (a_setsem (devsem (a_base ex_abs) 0) 1 ex_abs)"
    using device_interrupt_no_waiter [OF k(1,2) _ ex_line3(2,3,4,7), of 0] v
    unfolding ex_line3(5,6) by (auto simp: ex_line3(1))
  have "a_sem (a_setsem (devsem (a_base ex_abs) 0) 1 ex_abs) (devsem 0x20002000 0) = Some 1"
    by (simp add: a_setsem_def)
  then show ?thesis using s'(1) krelD(6) [OF s'(2)] by metis
qed

text \<open>
  C28. The end of a quantum: an interrupt on line 1 puts the running process, with the
  interrupted state saved, at the end of the ready queue and dispatches the first ready process,
  which is the same one when it is alone.
\<close>

theorem quantum_round_robin:
  assumes "krel s A" and "st_mem s INTERRUPTOLDAREA = Some st"
    and "getLineNumber (s_cause st) = 1" and "a_run A = Some p"
  shows "\<exists>s'. interruptHandler s = Some (Exit_LDST
        (case a_ready A of [] \<Rightarrow> st | q # _ \<Rightarrow> if q = p then st else a_ctx A q), s')
    \<and> krel s' (A\<lparr>a_ctx := (a_ctx A)(p := st), a_ready := tl (a_ready A @ [p]),
                 a_run := Some (hd (a_ready A @ [p]))\<rparr>)"
proof -
  note e = interruptHandler_run [OF assms(1,2)]
  have "interruptHandler s = quantumEnd (entered s)" using e(2) assms(3) by simp
  with quantumEnd_run [OF e(1) _ assms(4), of st] assms(2,4) show ?thesis
    by (cases "a_ready A") (auto simp: entered_simps a_preempt_def a_exit_def a_dispatch_def)
qed

theorem quantum_round_robin_witness:
  "\<exists>s s' A'. interruptHandler s = Some (Exit_LDST ex_state, s') \<and> krel s' A'
     \<and> a_run A' = Some 1 \<and> a_ready A' = [2, 0] \<and> a_ctx A' 0 = int_state 0x200"
proof -
  let ?d = "\<lparr>d_status = 5, d_command = 0, d_data0 = 0, d_data1 = 0\<rparr>"
  let ?s = "at_int (int_state 0x200) 0 (\<lambda>_. 0) ?d ex_kernel"
  note k = at_int_krel [OF ex_kernel_krel int_state_simps(1) [of "0x200"], of 0 "\<lambda>_. 0" ?d]
  have l: "getLineNumber (s_cause (int_state 0x200)) = 1" by (simp add: getLineNumber_def CHECK_BIT_def)
  have c: "a_ctx ex_abs = (\<lambda>_. ex_state)" by (simp add: ex_abs_def)
  from quantum_round_robin [OF k(1,2) l ex_abs_simps(1)] c show ?thesis by fastforce
qed

text \<open>
  C29. A tick of the pseudo clock makes every process that waits for it ready, in the order in
  which they asked, adds their number to its semaphore, and resumes the interrupted process, or
  dispatches when the nucleus idled. The loop ends, and a tick with nobody waiting or a positive
  semaphore wakes nobody.
\<close>

theorem clock_tick_wakes_all:
  assumes "krel s A" and "st_mem s INTERRUPTOLDAREA = Some st"
    and "getLineNumber (s_cause st) \<in> {-1, 0, 2}"
  shows "\<exists>s'. interruptHandler s =
      Some (if a_run A \<noteq> None then Exit_LDST st else a_exit (a_tick_if A), s')
    \<and> krel s' (if a_run A \<noteq> None then a_tick_if A else a_dispatch (a_tick_if A))"
proof -
  note e = interruptHandler_run [OF assms(1,2)]
  have "interruptHandler s = clockTick (entered s)" using e(2) assms(3) by auto
  then show ?thesis using clockTick_run(1) [OF e(1), of st] clockTick_run(2) [OF e(1)] assms(2) by (auto simp: entered_simps)
qed

theorem clock_tick_wakes_all_witness:
  "\<exists>s s' A'. interruptHandler s = Some (Exit_LDST (int_state 0x400), s') \<and> krel s' A'
     \<and> a_ready A' = [1, 2, 4] \<and> a_sem A' (devsem 0x20002000 CLOCKSEM) = Some 0"
proof -
  let ?d = "\<lparr>d_status = 5, d_command = 0, d_data0 = 0, d_data1 = 0\<rparr>"
  let ?s = "at_int (int_state 0x400) 0 (\<lambda>_. 0) ?d ex_kernel"
  note k = at_int_krel [OF ex_kernel_krel int_state_simps(1) [of "0x400"], of 0 "\<lambda>_. 0" ?d]
  have l: "getLineNumber (s_cause (int_state 0x400)) \<in> {-1, 0, 2}"
    by (simp add: getLineNumber_def CHECK_BIT_def)
  have t: "a_ready (a_tick_if ex_abs) = [1, 2, 4]"
    "a_sem (a_tick_if ex_abs) (devsem 0x20002000 CLOCKSEM) = Some 0"
    by (simp_all add: a_tick_if_def a_tick_def Let_def) (simp_all add: ex_abs_def)
  obtain s' where "interruptHandler ?s = Some (Exit_LDST (int_state 0x400), s')" "krel s' (a_tick_if ex_abs)"
    using clock_tick_wakes_all [OF k(1,2) l] by auto
  with t show ?thesis by blast
qed

text \<open>
  A character received by a terminal wakes a writer: when the transmitter is ready and the
  receiver's status is not (5, a character received), the handler acknowledges the receiver but
  increments semaphore 32 + d, on which SYS 8 makes writers wait, and not 40 + d, on which it
  makes readers wait.
\<close>

theorem terminal_receive_misdirected:
  assumes "t_transm_status (devreg (busreg s) (dev_slot 7 d)) AND 0x0F = READY"
    and "t_recv_status (devreg (busreg s) (dev_slot 7 d)) AND 0x0F = 5" and "d < 8"
    and "sint (s_a1 rd) = 7" and "sint (s_a2 rd) = int d" and "sint (s_a3 rd) = 1"
    and "sint (s_a1 wr) = 7" and "sint (s_a2 wr) = int d" and "sint (s_a3 wr) = 0"
  shows "dev_sem 7 d s = ioSem wr \<and> ioSem wr \<noteq> ioSem rd
    \<and> d_command (devreg (busreg (acked 7 (dev_slot 7 d) s)) (dev_slot 7 d)) = ACK"
  using assms
  by (auto simp: dev_sem_def ioSem_def io_index_def from_receiver_def ack_def acked_def READY_def
      set_t_recv_command_def)

theorem terminal_receive_misdirected_witness:
  "dev_sem 7 0 (at_int ex_state 0 (\<lambda>_. 1) \<lparr>d_status = 5, d_command = 0, d_data0 = 1, d_data1 = 0\<rparr> ex_kernel) = 32
   \<and> ioSem (sys_state 8 7 0 1) = 40 \<and> ioSem (sys_state 8 7 0 0) = 32"
proof -
  have io: "ioSem (sys_state 8 7 0 1) = 40" "ioSem (sys_state 8 7 0 0) = 32"
    by (simp_all add: ioSem_def io_index_def)
  have "t_transm_status (devreg (busreg (at_int ex_state 0 (\<lambda>_. 1)
      \<lparr>d_status = 5, d_command = 0, d_data0 = 1, d_data1 = 0\<rparr> ex_kernel)) (dev_slot 7 0)) AND 0x0F = READY"
    "t_recv_status (devreg (busreg (at_int ex_state 0 (\<lambda>_. 1)
      \<lparr>d_status = 5, d_command = 0, d_data0 = 1, d_data1 = 0\<rparr> ex_kernel)) (dev_slot 7 0)) AND 0x0F = 5"
    by (simp_all add: at_int_def terminal_defs READY_def)
  from terminal_receive_misdirected [OF this, of "sys_state 8 7 0 1" "sys_state 8 7 0 0"] io
  show ?thesis by simp
qed

end
