(* ===== verification/Initial.thy ===== *)
theory Initial
  imports Interrupts
begin

text \<open>
  The startup code: \<open>phase2/initial.c\<close>. The addresses the linker gives to the four handlers and
  to \<open>test\<close> are the argument \<open>L\<close>.
\<close>

record link =
  a_sysCallHandler :: memaddr
  a_pgmTrapHandler :: memaddr
  a_tlbMgmtHandler :: memaddr
  a_interruptHandler :: memaddr
  a_test :: memaddr

definition areaStatus :: word32 where
  "areaStatus = INTSMASKED OR VMOFF OR PROCLOCALTIMEON OR KERNELON"

text \<open>The four new areas: stack pointers, program counters, \<open>t9\<close> and status registers.\<close>

definition initAreas :: "link \<Rightarrow> word32 \<Rightarrow> kernel \<Rightarrow> kernel option" where
  "initAreas L ramTop s = do {
     s \<leftarrow> upd_state (StAt SYSCALLNEWAREA) (set_sp ramTop) s;
     s \<leftarrow> upd_state (StAt PROGRAMTRAPNEWAREA) (set_sp ramTop) s;
     s \<leftarrow> upd_state (StAt TLBMANAGEMENTNEWAREA) (set_sp ramTop) s;
     s \<leftarrow> upd_state (StAt INTERRUPTNEWAREA) (set_sp ramTop) s;
     s \<leftarrow> upd_state (StAt SYSCALLNEWAREA) (\<lambda>x. x\<lparr>s_pc := a_sysCallHandler L\<rparr>) s;
     s \<leftarrow> upd_state (StAt PROGRAMTRAPNEWAREA) (\<lambda>x. x\<lparr>s_pc := a_pgmTrapHandler L\<rparr>) s;
     s \<leftarrow> upd_state (StAt TLBMANAGEMENTNEWAREA) (\<lambda>x. x\<lparr>s_pc := a_tlbMgmtHandler L\<rparr>) s;
     s \<leftarrow> upd_state (StAt INTERRUPTNEWAREA) (\<lambda>x. x\<lparr>s_pc := a_interruptHandler L\<rparr>) s;
     s \<leftarrow> upd_state (StAt SYSCALLNEWAREA) (set_t9 (a_sysCallHandler L)) s;
     s \<leftarrow> upd_state (StAt PROGRAMTRAPNEWAREA) (set_t9 (a_pgmTrapHandler L)) s;
     s \<leftarrow> upd_state (StAt TLBMANAGEMENTNEWAREA) (set_t9 (a_tlbMgmtHandler L)) s;
     s \<leftarrow> upd_state (StAt INTERRUPTNEWAREA) (set_t9 (a_interruptHandler L)) s;
     s \<leftarrow> upd_state (StAt SYSCALLNEWAREA) (\<lambda>x. x\<lparr>s_status := areaStatus\<rparr>) s;
     s \<leftarrow> upd_state (StAt PROGRAMTRAPNEWAREA) (\<lambda>x. x\<lparr>s_status := areaStatus\<rparr>) s;
     s \<leftarrow> upd_state (StAt TLBMANAGEMENTNEWAREA) (\<lambda>x. x\<lparr>s_status := areaStatus\<rparr>) s;
     upd_state (StAt INTERRUPTNEWAREA) (\<lambda>x. x\<lparr>s_status := areaStatus\<rparr>) s
   }"

definition main :: "link \<Rightarrow> kernel \<Rightarrow> outcome" where
  "main L s0 = do {
     let ramTop = rambase (busreg s0) + ramsize (busreg s0);
     s1 \<leftarrow> initAreas L ramTop s0;
     let s2 = s1\<lparr>processCount := 0, softBlockCount := 0, currentProcess := None,
                 readyQue := mkEmptyProcQ\<rparr>;
     s3 \<leftarrow> initPcbs s2;
     s4 \<leftarrow> initASL s3;
     s5 \<leftarrow> foldM (\<lambda>i t. wr_int (devSem_addr t (int i)) 0 t) [0..<DEVSEMS] s4;
     (p, s6) \<leftarrow> allocPcb s5;
     s7 \<leftarrow> upd_state (StOf p) (set_sp (ramTop - PAGESIZE)) s6;
     s8 \<leftarrow> upd_state (StOf p) (\<lambda>x. x\<lparr>s_pc := a_test L\<rparr>) s7;
     s9 \<leftarrow> upd_state (StOf p) (set_t9 (a_test L)) s8;
     s10 \<leftarrow> upd_state (StOf p) (\<lambda>x. x\<lparr>s_status := FIRSTPROCESSSTATUSMASK\<rparr>) s9;
     let s11 = s10\<lparr>processCount := processCount s10 + 1\<rparr>;
     s12 \<leftarrow> insertReady p s11;
     let s13 = (LDIT 100000 s12)\<lparr>time := 0\<rparr>;
     scheduler s13
   }"

section \<open>What it does\<close>

lemma new_areas_distinct:
  "SYSCALLNEWAREA \<noteq> PROGRAMTRAPNEWAREA" "SYSCALLNEWAREA \<noteq> TLBMANAGEMENTNEWAREA"
  "SYSCALLNEWAREA \<noteq> INTERRUPTNEWAREA" "PROGRAMTRAPNEWAREA \<noteq> TLBMANAGEMENTNEWAREA"
  "PROGRAMTRAPNEWAREA \<noteq> INTERRUPTNEWAREA" "TLBMANAGEMENTNEWAREA \<noteq> INTERRUPTNEWAREA"
  by (simp_all add: area_defs)

text \<open>A new area as the startup code leaves it.\<close>

definition handler_state :: "memaddr \<Rightarrow> word32 \<Rightarrow> state_t \<Rightarrow> state_t" where
  "handler_state f rt x =
     (set_t9 f ((set_sp rt x)\<lparr>s_pc := f\<rparr>))\<lparr>s_status := areaStatus\<rparr>"

lemma handler_state_wf: "wf_state x \<Longrightarrow> wf_state (handler_state f rt x)"
  by (simp add: handler_state_def wf_state_def reg_defs)

text \<open>A memory with given states in the four new areas.\<close>

definition mem4 ::
  "(memaddr \<Rightarrow> state_t option) \<Rightarrow> state_t \<Rightarrow> state_t \<Rightarrow> state_t \<Rightarrow> state_t \<Rightarrow> memaddr \<Rightarrow> state_t option"
  where
  "mem4 N x1 x2 x3 x4 = N(SYSCALLNEWAREA \<mapsto> x1, PROGRAMTRAPNEWAREA \<mapsto> x2,
     TLBMANAGEMENTNEWAREA \<mapsto> x3, INTERRUPTNEWAREA \<mapsto> x4)"

lemma mem4_simps:
  "mem4 N x1 x2 x3 x4 SYSCALLNEWAREA = Some x1" "mem4 N x1 x2 x3 x4 PROGRAMTRAPNEWAREA = Some x2"
  "mem4 N x1 x2 x3 x4 TLBMANAGEMENTNEWAREA = Some x3" "mem4 N x1 x2 x3 x4 INTERRUPTNEWAREA = Some x4"
  "(mem4 N x1 x2 x3 x4)(SYSCALLNEWAREA \<mapsto> y) = mem4 N y x2 x3 x4"
  "(mem4 N x1 x2 x3 x4)(PROGRAMTRAPNEWAREA \<mapsto> y) = mem4 N x1 y x3 x4"
  "(mem4 N x1 x2 x3 x4)(TLBMANAGEMENTNEWAREA \<mapsto> y) = mem4 N x1 x2 y x4"
  "(mem4 N x1 x2 x3 x4)(INTERRUPTNEWAREA \<mapsto> y) = mem4 N x1 x2 x3 y"
  using new_areas_distinct by (auto simp: mem4_def)

lemma mem4_self:
  "M SYSCALLNEWAREA = Some x1 \<Longrightarrow> M PROGRAMTRAPNEWAREA = Some x2 \<Longrightarrow>
   M TLBMANAGEMENTNEWAREA = Some x3 \<Longrightarrow> M INTERRUPTNEWAREA = Some x4 \<Longrightarrow> mem4 M x1 x2 x3 x4 = M"
  by (simp add: mem4_def fun_upd_idem)

lemma initAreas_run:
  assumes m: "st_mem s = mem4 N x1 x2 x3 x4"
  shows "initAreas L rt s = Some (s\<lparr>st_mem := mem4 N
     (handler_state (a_sysCallHandler L) rt x1) (handler_state (a_pgmTrapHandler L) rt x2)
     (handler_state (a_tlbMgmtHandler L) rt x3) (handler_state (a_interruptHandler L) rt x4)\<rparr>)"
  by (simp add: initAreas_def handler_state_def m mem4_simps)

text \<open>The loop that clears the device semaphores.\<close>

definition zeroed :: "memaddr \<Rightarrow> nat \<Rightarrow> (memaddr \<Rightarrow> word32 option) \<Rightarrow> memaddr \<Rightarrow> word32 option" where
  "zeroed b n M a = (if \<exists>i<n. a = devsem b i then Some 0 else M a)"

lemma zero_sems_run:
  assumes "\<And>i. i < n \<Longrightarrow> \<exists>v. int_mem s (devsem (devSemTable_addr s) i) = Some v"
  shows "foldM (\<lambda>i t. wr_int (devSem_addr t (int i)) 0 t) [0..<n] s
    = Some (s\<lparr>int_mem := zeroed (devSemTable_addr s) n (int_mem s)\<rparr>)"
proof -
  let ?b = "devSemTable_addr s"
  have "\<exists>t. foldM (\<lambda>i t. wr_int (devSem_addr t (int i)) 0 t) [0..<n] s = Some t
      \<and> t = s\<lparr>int_mem := zeroed ?b n (int_mem s)\<rparr>"
  proof (rule foldM_upt_inv [where I = "\<lambda>k t. t = s\<lparr>int_mem := zeroed ?b k (int_mem s)\<rparr>"])
    have "zeroed ?b 0 (int_mem s) = int_mem s" by (simp add: zeroed_def fun_eq_iff)
    then show "s = s\<lparr>int_mem := zeroed ?b 0 (int_mem s)\<rparr>" by (cases s) simp
  next
    fix i t assume i: "i < n" and t: "t = s\<lparr>int_mem := zeroed ?b i (int_mem s)\<rparr>"
    obtain v where v: "int_mem s (devsem ?b i) = Some v" using assms [OF i] by blast
    have "\<exists>u. zeroed ?b i (int_mem s) (devsem ?b i) = Some u" using v by (simp add: zeroed_def)
    moreover have "(zeroed ?b i (int_mem s))(devsem ?b i \<mapsto> 0) = zeroed ?b (Suc i) (int_mem s)"
      by (auto simp: zeroed_def fun_eq_iff less_Suc_eq)
    ultimately show "\<exists>t'. wr_int (devSem_addr t (int i)) 0 t = Some t'
        \<and> t' = s\<lparr>int_mem := zeroed ?b (Suc i) (int_mem s)\<rparr>"
      using t by (auto simp: devSem_addr_devsem)
  qed
  then show ?thesis by simp
qed

text \<open>The first process: a state whose registers were whatever the block held.\<close>

definition first_state :: "link \<Rightarrow> word32 \<Rightarrow> state_t \<Rightarrow> state_t" where
  "first_state L rt x =
     (set_t9 (a_test L) ((set_sp (rt - PAGESIZE) x)\<lparr>s_pc := a_test L\<rparr>))\<lparr>s_status := FIRSTPROCESSSTATUSMASK\<rparr>"

lemma first_state_wf: "wf_state x \<Longrightarrow> wf_state (first_state L rt x)"
  by (simp add: first_state_def wf_state_def reg_defs)

definition boot_abs :: "link \<Rightarrow> kernel \<Rightarrow> akernel" where
  "boot_abs L s =
     \<lparr>a_free = [1..<MAXPROC], a_ready = [0], a_waits = (\<lambda>_. []), a_run = None,
      a_ctx = (p_s \<circ> procTable s)(0 := first_state L (rambase (busreg s) + ramsize (busreg s))
                                         (p_s (procTable s 0))),
      a_sem = zeroed (devSemTable_addr s) DEVSEMS (int_mem s), a_base = devSemTable_addr s\<rparr>"

text \<open>Everything up to the first dispatch.\<close>

lemma main_start:
  assumes ok: "mem_ok s"
  defines "rt \<equiv> rambase (busreg s) + ramsize (busreg s)"
  shows "\<exists>s7. main L s = scheduler s7 \<and> krel s7 (boot_abs L s) \<and> children (procTable s7) 0 []
    \<and> (\<exists>x1 x2 x3 x4. st_mem s7 = mem4 (st_mem s)
        (handler_state (a_sysCallHandler L) rt x1) (handler_state (a_pgmTrapHandler L) rt x2)
        (handler_state (a_tlbMgmtHandler L) rt x3) (handler_state (a_interruptHandler L) rt x4))"
proof -
  note okD = mem_okD [OF ok]
  obtain x1 x2 x3 x4 where x: "st_mem s SYSCALLNEWAREA = Some x1" "st_mem s PROGRAMTRAPNEWAREA = Some x2"
    "st_mem s TLBMANAGEMENTNEWAREA = Some x3" "st_mem s INTERRUPTNEWAREA = Some x4"
    using okD(6) [of SYSCALLNEWAREA] okD(6) [of PROGRAMTRAPNEWAREA] okD(6) [of TLBMANAGEMENTNEWAREA]
      okD(6) [of INTERRUPTNEWAREA] by (auto simp: kareas_def)
  define M where "M = mem4 (st_mem s)
        (handler_state (a_sysCallHandler L) rt x1) (handler_state (a_pgmTrapHandler L) rt x2)
        (handler_state (a_tlbMgmtHandler L) rt x3) (handler_state (a_interruptHandler L) rt x4)"
  have areas: "initAreas L rt s = Some (s\<lparr>st_mem := M\<rparr>)"
    using initAreas_run [OF mem4_self [OF x, symmetric], of L rt] by (simp only: M_def)
  let ?s2 = "s\<lparr>st_mem := M, processCount := 0, softBlockCount := 0, currentProcess := None, readyQue := None\<rparr>"
  obtain s3 T h S sh fh where i: "initPcbs ?s2 = Some s3"
    "initASL s3 = Some (?s2\<lparr>procTable := T, pcbFree_h := h, semdTable := S, semd_h := sh, semdFree_h := fh\<rparr>)"
    and k: "kq (?s2\<lparr>procTable := T, pcbFree_h := h, semdTable := S, semd_h := sh, semdFree_h := fh\<rparr>)
        [0..<MAXPROC] [] (\<lambda>_. []) []"
    and ps: "\<forall>p. p_s (T p) = p_s (procTable s p)"
    using kq_init [of ?s2] by auto
  let ?s4 = "?s2\<lparr>procTable := T, pcbFree_h := h, semdTable := S, semd_h := sh, semdFree_h := fh\<rparr>"
  let ?Z = "zeroed (devSemTable_addr s) DEVSEMS (int_mem s)"
  let ?s5 = "?s4\<lparr>int_mem := ?Z\<rparr>"
  have z: "foldM (\<lambda>i t. wr_int (devSem_addr t (int i)) 0 t) [0..<DEVSEMS] ?s4 = Some ?s5"
    using zero_sems_run [of DEVSEMS ?s4] okD(3) by simp
  have "[0..<MAXPROC] = 0 # [1..<MAXPROC]" by code_simp
  moreover have "kq ?s5 [0..<MAXPROC] [] (\<lambda>_. []) []" by (rule kq_cong [OF k]) simp_all
  ultimately have "kq ?s5 (0 # [1..<MAXPROC]) [] (\<lambda>_. []) []" by metis
  from kq_alloc [OF this] obtain T1 h1 where
    al: "allocPcb ?s5 = Some (Some 0, ?s5\<lparr>procTable := T1, pcbFree_h := h1\<rparr>)"
    and k1: "kq (?s5\<lparr>procTable := T1, pcbFree_h := h1\<rparr>) [1..<MAXPROC] [] (\<lambda>_. []) [0]"
    and fr: "qframe (set [1..<MAXPROC]) ((procTable ?s5)(0 := clean_pcb (procTable ?s5 0))) T1" by blast
  have c: "p_s (clean_pcb y) = p_s y" "p_semAdd (clean_pcb y) = NULL" for y by (simp_all add: clean_pcb_def)
  have T1: "p_s (T1 p) = p_s (procTable s p)" "p_semAdd (T1 0) = NULL" for p
    using ps by (auto simp: qframe_fields [OF fr] c)
  let ?T2 = "T1(0 := (T1 0)\<lparr>p_s := first_state L rt (p_s (procTable s 0))\<rparr>)"
  let ?s6 = "?s5\<lparr>pcbFree_h := h1, procTable := ?T2, processCount := 1\<rparr>"
  have k2: "kq ?s6 [1..<MAXPROC] [] (\<lambda>_. []) [0]" by (rule kq_cong [OF k1]) simp_all
  have "p_semAdd (procTable ?s6 0) = NULL" using T1 by simp
  from kq_insertReady [OF k2 this] obtain T3 where
    ins: "insertReady (Some 0) ?s6 = Some (?s6\<lparr>procTable := T3, readyQue := Some 0\<rparr>)"
    and k3: "kq (?s6\<lparr>procTable := T3, readyQue := Some 0\<rparr>) [1..<MAXPROC] ([] @ [0]) (\<lambda>_. []) []"
    and fr3: "qframe (insert 0 (set [])) (procTable ?s6) T3" by blast
  let ?s7 = "(LDIT 100000 (?s6\<lparr>procTable := T3, readyQue := Some 0\<rparr>))\<lparr>time := 0\<rparr>"
  have T3: "p_s (T3 p) = (if p = 0 then first_state L rt (p_s (procTable s 0)) else p_s (procTable s p))" for p
    using T1 by (auto simp: qframe_fields [OF fr3])
  have k4: "kq ?s7 [1..<MAXPROC] [0] (\<lambda>_. []) []"
    by (rule kq_cong [OF k3, unfolded append_Nil]) (simp_all add: LDIT_def)
  have "wf_state (first_state L rt (p_s (procTable s 0)))"
    using okD(5) [of 0] by (intro first_state_wf) (simp add: MAXPROC_def)
  moreover have "wf_state st" if "M a = Some st" for a st
    using that okD(4) x by (auto simp: M_def mem4_def handler_state_wf split: if_splits)
  moreover have "M a \<noteq> None" if "a \<in> kareas" for a
    using okD(6) [OF that] by (auto simp: M_def mem4_def)
  ultimately have "mem_ok ?s7"
    using ok T3 by (auto simp: mem_ok_def LDIT_def zeroed_def)
  moreover have "soft b (\<lambda>_. []) = 0" for b by (simp add: soft_def)
  ultimately have "krel ?s7 (boot_abs L s)"
    using k4 T3 by (auto simp: krel_def boot_abs_def LDIT_def fun_eq_iff rt_def MAXPROC_def)
  moreover have "children (procTable ?s7) 0 []"
    by (simp add: children_def qframe_fields [OF fr3] qframe_fields [OF fr] clean_pcb_def MAXPROC_def LDIT_def)
  moreover have M0: "(0::nat) < MAXPROC" by (simp add: MAXPROC_def)
  have "main L s = scheduler ?s7"
    unfolding main_def Let_def rt_def [symmetric] areas Option.bind_lunit
    using i z al ins by (simp add: mkEmptyProcQ_def first_state_def T1(1) M0)
  moreover have "st_mem ?s7 = M" by (simp add: LDIT_def)
  ultimately show ?thesis unfolding M_def by blast
qed

lemma main_run:
  assumes ok: "mem_ok s"
  defines "rt \<equiv> rambase (busreg s) + ramsize (busreg s)"
  shows "\<exists>s'. main L s = Some (a_exit (boot_abs L s), s') \<and> krel s' (a_dispatch (boot_abs L s))
    \<and> (\<exists>x1 x2 x3 x4. st_mem s' = mem4 (st_mem s)
        (handler_state (a_sysCallHandler L) rt x1) (handler_state (a_pgmTrapHandler L) rt x2)
        (handler_state (a_tlbMgmtHandler L) rt x3) (handler_state (a_interruptHandler L) rt x4))"
proof -
  obtain s7 where s7: "main L s = scheduler s7" "krel s7 (boot_abs L s)"
    "\<exists>x1 x2 x3 x4. st_mem s7 = mem4 (st_mem s)
        (handler_state (a_sysCallHandler L) rt x1) (handler_state (a_pgmTrapHandler L) rt x2)
        (handler_state (a_tlbMgmtHandler L) rt x3) (handler_state (a_interruptHandler L) rt x4)"
    using main_start [OF ok, of L] unfolding rt_def by blast
  have "a_run (boot_abs L s) = None" by (simp add: boot_abs_def)
  from scheduler_refines [OF s7(2) this] obtain s' where "scheduler s7 = Some (a_exit (boot_abs L s), s')"
    "krel s' (a_dispatch (boot_abs L s))" "st_mem s' = st_mem s7" by blast
  then show ?thesis using s7(1,3) by (intro exI [of _ s']) simp
qed

section \<open>Properties\<close>

lemma ex_machine_ok: "mem_ok ex_machine"
  using ex_range(1) ex_machine_int
  by (auto simp: mem_ok_def ex_machine_def ex_bus_def kareas_def area_defs NULL_def wf_state_def
      ex_state_def ex_pcb_def STATEREGNUM_def split: if_splits)

text \<open>
  C19. Startup establishes the kernel's invariant: from any contents of the tables, main ends by
  loading the state of the first process, which is block 0, with its program counter and t9 at
  test, its stack one page below the top of memory and the prescribed status; it is the only
  process, all other blocks are free, nothing waits, every device semaphore is 0, and the four
  new areas point to their handlers with the stack at the top of memory.
\<close>

theorem main_boots:
  assumes "mem_ok s"
  defines "rt \<equiv> rambase (busreg s) + ramsize (busreg s)"
  shows "\<exists>s' A st. main L s = Some (Exit_LDST st, s') \<and> krel s' A
    \<and> a_run A = Some 0 \<and> a_ready A = [] \<and> a_waits A = (\<lambda>_. []) \<and> a_free A = [1..<MAXPROC]
    \<and> (\<forall>i<DEVSEMS. int_mem s' (devSem_addr s' (int i)) = Some 0)
    \<and> s_pc st = a_test L \<and> s_t9 st = a_test L \<and> s_sp st = rt - PAGESIZE
    \<and> s_status st = FIRSTPROCESSSTATUSMASK
    \<and> (\<forall>(a, f) \<in> {(SYSCALLNEWAREA, a_sysCallHandler L), (PROGRAMTRAPNEWAREA, a_pgmTrapHandler L),
         (TLBMANAGEMENTNEWAREA, a_tlbMgmtHandler L), (INTERRUPTNEWAREA, a_interruptHandler L)}.
         \<exists>x. st_mem s' a = Some x \<and> s_pc x = f \<and> s_t9 x = f \<and> s_sp x = rt \<and> s_status x = areaStatus)"
proof -
  obtain s' x1 x2 x3 x4 where m: "main L s = Some (a_exit (boot_abs L s), s')"
    and r: "krel s' (a_dispatch (boot_abs L s))" and M: "st_mem s' = mem4 (st_mem s)
        (handler_state (a_sysCallHandler L) rt x1) (handler_state (a_pgmTrapHandler L) rt x2)
        (handler_state (a_tlbMgmtHandler L) rt x3) (handler_state (a_interruptHandler L) rt x4)"
    using main_run [OF assms(1), of L] unfolding rt_def by blast
  let ?st = "first_state L rt (p_s (procTable s 0))"
  have wf: "length (s_reg (p_s (procTable s 0))) = 31"
    using mem_okD(5) [OF assms(1), of 0] by (simp add: wf_state_def STATEREGNUM_def MAXPROC_def)
  have e: "a_exit (boot_abs L s) = Exit_LDST ?st" by (simp add: a_exit_def boot_abs_def rt_def)
  have b: "a_base (a_dispatch (boot_abs L s)) = devSemTable_addr s"
    by (simp add: a_dispatch_def boot_abs_def)
  have "int_mem s' = zeroed (devSemTable_addr s) DEVSEMS (int_mem s)"
    using krelD(6) [OF r] by (simp add: a_dispatch_def boot_abs_def)
  then have z: "\<forall>i<DEVSEMS. int_mem s' (devSem_addr s' (int i)) = Some 0"
    using krelD(7) [OF r] b by (auto simp: devSem_addr_devsem zeroed_def)
  have A: "a_run (a_dispatch (boot_abs L s)) = Some 0" "a_ready (a_dispatch (boot_abs L s)) = []"
    "a_waits (a_dispatch (boot_abs L s)) = (\<lambda>_. [])"
    "a_free (a_dispatch (boot_abs L s)) = [1..<MAXPROC]"
    by (simp_all add: a_dispatch_def boot_abs_def)
  have st: "s_pc ?st = a_test L" "s_t9 ?st = a_test L" "s_sp ?st = rt - PAGESIZE"
    "s_status ?st = FIRSTPROCESSSTATUSMASK"
    using wf by (simp_all add: first_state_def reg_defs)
  have wfM: "wf_state x" if "st_mem s' a = Some x" for a x
    using mem_okD(4) [OF krelD(10) [OF r] that] .
  have h: "\<exists>y. st_mem s' a = Some y \<and> s_pc y = f \<and> s_t9 y = f \<and> s_sp y = rt \<and> s_status y = areaStatus"
    if "st_mem s' a = Some (handler_state f rt x)" for a f x
  proof -
    have "length (s_reg x) = 31"
      using wfM [OF that] by (simp add: handler_state_def wf_state_def reg_defs STATEREGNUM_def)
    then show ?thesis using that by (simp add: handler_state_def reg_defs)
  qed
  have Ms: "st_mem s' SYSCALLNEWAREA = Some (handler_state (a_sysCallHandler L) rt x1)"
    "st_mem s' PROGRAMTRAPNEWAREA = Some (handler_state (a_pgmTrapHandler L) rt x2)"
    "st_mem s' TLBMANAGEMENTNEWAREA = Some (handler_state (a_tlbMgmtHandler L) rt x3)"
    "st_mem s' INTERRUPTNEWAREA = Some (handler_state (a_interruptHandler L) rt x4)"
    unfolding M by (simp_all add: mem4_simps)
  have "\<forall>(a, f) \<in> {(SYSCALLNEWAREA, a_sysCallHandler L), (PROGRAMTRAPNEWAREA, a_pgmTrapHandler L),
         (TLBMANAGEMENTNEWAREA, a_tlbMgmtHandler L), (INTERRUPTNEWAREA, a_interruptHandler L)}.
         \<exists>y. st_mem s' a = Some y \<and> s_pc y = f \<and> s_t9 y = f \<and> s_sp y = rt \<and> s_status y = areaStatus"
    using h [OF Ms(1)] h [OF Ms(2)] h [OF Ms(3)] h [OF Ms(4)] by simp
  note areas = this
  have m': "main L s = Some (Exit_LDST ?st, s')" using m e by simp
  show ?thesis
    by (rule exI [of _ s'], rule exI [of _ "a_dispatch (boot_abs L s)"], rule exI [of _ ?st])
      (intro conjI; fact)
qed

definition ex_link :: link where
  "ex_link = \<lparr>a_sysCallHandler = 0x20010000, a_pgmTrapHandler = 0x20010100,
     a_tlbMgmtHandler = 0x20010200, a_interruptHandler = 0x20010300, a_test = 0x20010400\<rparr>"

theorem main_boots_witness:
  "\<exists>s' st. main ex_link ex_machine = Some (Exit_LDST st, s') \<and> currentProcess s' = Some 0
     \<and> s_pc st = 0x20010400 \<and> s_sp st = 0x2007F000"
proof -
  obtain s' A st where "main ex_link ex_machine = Some (Exit_LDST st, s')" "krel s' A" "a_run A = Some 0"
    "s_pc st = a_test ex_link" "s_sp st = rambase (busreg ex_machine) + ramsize (busreg ex_machine) - PAGESIZE"
    using main_boots [OF ex_machine_ok, of ex_link] by blast
  then show ?thesis using krelD(2) [of s' A]
    by (auto simp: ex_link_def ex_machine_def ex_bus_def PAGESIZE_def)
qed

end
