(* ===== verification/Termination.thy ===== *)
theory Termination
  imports Exceptions
begin

text \<open>
  \<open>terminateRecursively\<close> and SYS 2 (\<open>phase2/exceptions.c\<close>): the whole family of the process
  disappears, from whatever queue each member is on. What is left of the family tree is in
  \<open>Family_Tree\<close>.
\<close>

section \<open>One process\<close>

text \<open>A process that is ready or waits becomes free; a semaphore it waited on is incremented.\<close>

definition a_kill1 :: "nat \<Rightarrow> akernel \<Rightarrow> akernel" where
  "a_kill1 p A =
     A\<lparr>a_free := a_free A @ [p], a_ready := remove1 p (a_ready A),
       a_waits := (\<lambda>a. remove1 p (a_waits A a)),
       a_sem := (\<lambda>a. if p \<in> set (a_waits A a) \<and> \<not> is_dev (a_base A) a
                     then map_option (\<lambda>v. v + 1) (a_sem A a) else a_sem A a)\<rparr>"

text \<open>Tables whose family links agree outside \<open>P\<close> (parent and siblings) and \<open>C\<close> (first child).\<close>

definition same_kin :: "nat set \<Rightarrow> nat set \<Rightarrow> (nat \<Rightarrow> pcb_t) \<Rightarrow> (nat \<Rightarrow> pcb_t) \<Rightarrow> bool" where
  "same_kin P C T T' \<longleftrightarrow>
     (\<forall>x. (x \<notin> P \<longrightarrow> p_prnt (T' x) = p_prnt (T x) \<and> p_sib (T' x) = p_sib (T x)
                    \<and> p_prevsib (T' x) = p_prevsib (T x))
        \<and> (x \<notin> C \<longrightarrow> p_child (T' x) = p_child (T x)))"

lemma same_kin_refl [simp]: "same_kin P C T T"
  by (simp add: same_kin_def)

lemma same_kin_trans: "same_kin P C T T' \<Longrightarrow> same_kin P C T' T'' \<Longrightarrow> same_kin P C T T''"
  by (simp add: same_kin_def)

lemma same_kin_mono: "same_kin P C T T' \<Longrightarrow> P \<subseteq> P' \<Longrightarrow> C \<subseteq> C' \<Longrightarrow> same_kin P' C' T T'"
  unfolding same_kin_def by blast

lemma same_kin_children:
  "same_kin P C T T' \<Longrightarrow> r \<notin> C \<Longrightarrow> set cs \<inter> P = {} \<Longrightarrow> children T' r cs = children T r cs"
  unfolding same_kin_def by (rule children_cong) blast+

lemma same_kin_kframe: "kframe r D T T' \<Longrightarrow> same_kin D {r} T T'"
  by (auto simp: same_kin_def kframe_def)

lemma kq_wait_only:
  assumes "kq s F R W H" "p \<in> set (W a)"
  shows "(\<lambda>b. remove1 p (W b)) = W(a := remove1 p (W a))"
proof
  fix b
  have "p \<notin> set (W b)" if "b \<noteq> a"
    using kq_wait_unique [OF assms] that by blast
  then show "remove1 p (W b) = (W(a := remove1 p (W a))) b" by (simp add: remove1_idem)
qed

lemma kq_wait_outside:
  assumes "kq s F R W H" "p \<in> set (F @ R @ H)"
  shows "(\<lambda>b. remove1 p (W b)) = W"
  using kq_distinct(3) [OF assms(1,2)] by (simp add: remove1_idem fun_eq_iff)

lemma killOne_ready:
  assumes r: "krel s A" and p: "p \<in> set (a_ready A)" and c: "currentProcess s \<noteq> Some p"
  shows "\<exists>s'. killOne (Some p) s = Some s' \<and> krel s' (a_kill1 p A)
    \<and> same_kin {p} {p} (procTable s) (procTable s') \<and> st_mem s' = st_mem s \<and> busreg s' = busreg s"
proof -
  have k: "kq s (a_free A) (a_ready A) (a_waits A) (hand (a_run A))" by (rule krelD(1) [OF r])
  have v: "p < MAXPROC" and n: "p_semAdd (procTable s p) = NULL"
    using kq_distinct(2) [OF k] kqD(3) [OF k] p by auto
  obtain T1 rq where out: "outProcQ (readyQue s) (Some p) s = Some (Some p, rq, s\<lparr>procTable := T1\<rparr>)"
    and k1: "kq (s\<lparr>procTable := T1, readyQue := rq\<rparr>) (a_free A) (remove1 p (a_ready A)) (a_waits A)
        (p # hand (a_run A))"
    and fr1: "qframe (set (a_ready A)) (procTable s) T1" using kq_outReady [OF k p] by blast
  let ?s1 = "s\<lparr>procTable := T1, readyQue := rq\<rparr>"
  obtain T2 where fp: "freePcb (Some p) ?s1 = Some (?s1\<lparr>procTable := T2, pcbFree_h := Some p\<rparr>)"
    and k2: "kq (?s1\<lparr>procTable := T2, pcbFree_h := Some p\<rparr>) (a_free A @ [p]) (remove1 p (a_ready A))
        (a_waits A) (hand (a_run A))"
    and fr2: "qframe (insert p (set (a_free A))) ((procTable ?s1)(p := clean_pcb (procTable ?s1 p))) T2"
    using kq_free [OF k1] by blast
  let ?s = "?s1\<lparr>procTable := T2, pcbFree_h := Some p, processCount := processCount s - 1\<rparr>"
  have run: "killOne (Some p) s = Some ?s" using v n c out fp by (simp add: killOne_def)
  have k3: "kq ?s (a_free A @ [p]) (remove1 p (a_ready A)) (a_waits A) (hand (a_run A))"
    by (rule kq_cong [OF k2]) simp_all
  have W: "(\<lambda>b. remove1 p (a_waits A b)) = a_waits A" "\<And>b. p \<notin> set (a_waits A b)"
    using kq_wait_outside [OF k, of p] kq_distinct(3) [OF k, of p] p by simp_all
  have cl: "p_s (clean_pcb x) = p_s x" for x by (simp add: clean_pcb_def)
  have T2: "p_s (T2 x) = p_s (procTable s x)" "x \<noteq> p \<Longrightarrow> p_semAdd (T2 x) = p_semAdd (procTable s x)"
    "x \<noteq> p \<Longrightarrow> p_prnt (T2 x) = p_prnt (procTable s x) \<and> p_sib (T2 x) = p_sib (procTable s x)
       \<and> p_prevsib (T2 x) = p_prevsib (procTable s x) \<and> p_child (T2 x) = p_child (procTable s x)" for x
    by (auto simp: qframe_fields [OF fr2] qframe_fields [OF fr1] cl)
  have "a_run A \<noteq> Some p" using c krelD(2) [OF r] by simp
  then have "krel ?s (a_kill1 p A)"
    using r k3 T2 by (auto simp: krel_def mem_ok_def a_kill1_def W fun_eq_iff)
  moreover have "same_kin {p} {p} (procTable s) (procTable ?s)" using T2(3) by (simp add: same_kin_def)
  ultimately show ?thesis using run by (intro exI [of _ ?s]) simp
qed

lemma killOne_waiting:
  assumes r: "krel s A" and p: "p \<in> set (a_waits A a)" and g: "removable p (a_waits A)"
    and m: "a_sem A a = Some v"
  shows "\<exists>s'. killOne (Some p) s = Some s' \<and> krel s' (a_kill1 p A)
    \<and> same_kin {p} {p} (procTable s) (procTable s') \<and> st_mem s' = st_mem s \<and> busreg s' = busreg s"
proof -
  have k: "kq s (a_free A) (a_ready A) (a_waits A) (hand (a_run A))" by (rule krelD(1) [OF r])
  have pv: "p < MAXPROC" and n: "p_semAdd (procTable s p) = a" "a \<noteq> NULL"
    using kq_wait [OF k p] by (auto simp: NULL_def MAXINT_def)
  have dev: "onDevSem a s = is_dev (a_base A) a" using krelD(7) [OF r] by (simp add: onDevSem_iff)
  have mem: "int_mem s a = Some v" using m krelD(6) [OF r] by simp
  define d where "d = (if is_dev (a_base A) a then 1 else 0 :: int)"
  define M where "M = (if is_dev (a_base A) a then int_mem s else (int_mem s)(a \<mapsto> v + 1))"
  let ?s0 = "s\<lparr>int_mem := M, softBlockCount := softBlockCount s - d\<rparr>"
  have s0: "(if \<not> onDevSem a s then do { u \<leftarrow> rd_int a s; wr_int a (u + 1) s }
      else Some (s\<lparr>softBlockCount := softBlockCount s - 1\<rparr>)) = Some ?s0"
    using mem dev by (cases s) (simp add: rd_int_def d_def M_def)
  have k0: "kq ?s0 (a_free A) (a_ready A) (a_waits A) (hand (a_run A))" by (rule kq_cong [OF k]) simp_all
  obtain T1 S' fh where out: "outBlocked (Some p) ?s0
        = Some (Some p, ?s0\<lparr>procTable := T1, semdTable := S', semdFree_h := fh\<rparr>)"
    and k1: "kq (?s0\<lparr>procTable := T1, semdTable := S', semdFree_h := fh\<rparr>) (a_free A) (a_ready A)
        ((a_waits A)(a := remove1 p (a_waits A a))) (p # hand (a_run A))"
    and fr1: "qframe (set (a_waits A a)) (procTable ?s0) T1"
    using kq_outBlocked [where W = "a_waits A", OF k0 p g] by blast
  let ?s1 = "?s0\<lparr>procTable := T1, semdTable := S', semdFree_h := fh\<rparr>"
  obtain T2 where fp: "freePcb (Some p) ?s1 = Some (?s1\<lparr>procTable := T2, pcbFree_h := Some p\<rparr>)"
    and k2: "kq (?s1\<lparr>procTable := T2, pcbFree_h := Some p\<rparr>) (a_free A @ [p]) (a_ready A)
        ((a_waits A)(a := remove1 p (a_waits A a))) (hand (a_run A))"
    and fr2: "qframe (insert p (set (a_free A))) ((procTable ?s1)(p := clean_pcb (procTable ?s1 p))) T2"
    using kq_free [OF k1] by blast
  let ?s = "?s1\<lparr>procTable := T2, pcbFree_h := Some p, processCount := processCount s - 1\<rparr>"
  have run: "killOne (Some p) s = Some ?s"
    unfolding killOne_def rd_pcb_simps(2) [OF pv] Option.bind_lunit n(1) s0
    using n(2) out fp by simp
  have k3: "kq ?s (a_free A @ [p]) (a_ready A) ((a_waits A)(a := remove1 p (a_waits A a))) (hand (a_run A))"
    by (rule kq_cong [OF k2]) simp_all
  have W: "(\<lambda>b. remove1 p (a_waits A b)) = (a_waits A)(a := remove1 p (a_waits A a))"
    by (rule kq_wait_only [OF k p])
  have only: "p \<in> set (a_waits A b) \<longleftrightarrow> b = a" for b
    using kq_wait_unique [OF k p] p by blast
  have notin: "p \<notin> set (a_ready A)" "a_run A \<noteq> Some p"
    using kq_distinct(3) [OF k, of p] p by fastforce+
  have soft: "int (soft (a_base A) ((a_waits A)(a := remove1 p (a_waits A a))))
      = int (soft (a_base A) (a_waits A)) - d"
  proof (cases "is_dev (a_base A) a")
    case True
    then obtain i where i: "i < DEVSEMS" "a = devsem (a_base A) i" by (auto simp: is_dev_def)
    have "dev_range (a_base A)" using krelD(7,10) [OF r] mem_okD(2) by metis
    moreover have "length (a_waits A a) = Suc (length (remove1 p (a_waits A a)))"
      using p length_pos_if_in_set [OF p] by (simp add: length_remove1)
    ultimately show ?thesis
      using soft_upd [of "a_base A" i "a_waits A" "remove1 p (a_waits A a)"] i True
      by (simp add: d_def)
  qed (simp add: soft_other d_def)
  have sem: "(a_sem (a_kill1 p A)) = M"
    using krelD(6) [OF r] mem by (auto simp: a_kill1_def only M_def fun_eq_iff)
  have cl: "p_s (clean_pcb x) = p_s x" for x by (simp add: clean_pcb_def)
  have T2: "p_s (T2 x) = p_s (procTable s x)" "x \<noteq> p \<Longrightarrow> p_semAdd (T2 x) = p_semAdd (procTable s x)"
    "x \<noteq> p \<Longrightarrow> p_prnt (T2 x) = p_prnt (procTable s x) \<and> p_sib (T2 x) = p_sib (procTable s x)
       \<and> p_prevsib (T2 x) = p_prevsib (procTable s x) \<and> p_child (T2 x) = p_child (procTable s x)" for x
    by (auto simp: qframe_fields [OF fr2] qframe_fields [OF fr1] cl)
  have fields: "a_free (a_kill1 p A) = a_free A @ [p]" "a_ready (a_kill1 p A) = a_ready A"
    "a_waits (a_kill1 p A) = (a_waits A)(a := remove1 p (a_waits A a))" "a_run (a_kill1 p A) = a_run A"
    "a_ctx (a_kill1 p A) = a_ctx A" "a_base (a_kill1 p A) = a_base A"
    using notin by (simp_all add: a_kill1_def W remove1_idem)
  have "M b \<noteq> None" if "int_mem s b \<noteq> None" for b using that by (simp add: M_def)
  then have "mem_ok ?s" using krelD(10) [OF r] T2 by (auto simp: mem_ok_def)
  then have "krel ?s (a_kill1 p A)"
    using r k3 T2 soft notin unfolding krel_def fields sem by (auto simp: fun_eq_iff)
  moreover have "same_kin {p} {p} (procTable s) (procTable ?s)" using T2(3) by (simp add: same_kin_def)
  ultimately show ?thesis using run by (intro exI [of _ ?s]) simp
qed


text \<open>Where a process can be killed: it is ready, or it waits on a mapped semaphore.\<close>

definition placed :: "nat \<Rightarrow> akernel \<Rightarrow> bool" where
  "placed p A \<longleftrightarrow>
     p \<in> set (a_ready A) \<or> (\<exists>a. p \<in> set (a_waits A a) \<and> a_sem A a \<noteq> None)"

lemma killOne_run:
  assumes r: "krel s A" and p: "placed p A" and g: "removable p (a_waits A)"
  shows "\<exists>s'. killOne (Some p) s = Some s' \<and> krel s' (a_kill1 p A)
    \<and> same_kin {p} {p} (procTable s) (procTable s') \<and> st_mem s' = st_mem s \<and> busreg s' = busreg s"
proof (cases "p \<in> set (a_ready A)")
  case True
  have "currentProcess s \<noteq> Some p"
    using kq_distinct(1) [OF krelD(1) [OF r]] krelD(2) [OF r] True by (auto simp: hand_def)
  then show ?thesis by (rule killOne_ready [OF r True])
next
  case False
  then show ?thesis using killOne_waiting [OF r _ g] p by (auto simp: placed_def)
qed

section \<open>Families\<close>

text \<open>A process with its descendants, the children from the first to the last.\<close>

datatype ptree = PNode nat "ptree list"

fun pid :: "ptree \<Rightarrow> nat" where
  "pid (PNode p ts) = p"

fun members :: "ptree \<Rightarrow> nat list" where
  "members (PNode p ts) = p # concat (map members ts)"

text \<open>The strict descendants, in the order in which \<open>terminateRecursively\<close> frees them.\<close>

fun doomed :: "ptree \<Rightarrow> nat list" where
  "doomed (PNode p ts) = concat (map (\<lambda>t. doomed t @ [pid t]) ts)"

abbreviation doomed_all :: "ptree list \<Rightarrow> nat list" where
  "doomed_all ts \<equiv> concat (map (\<lambda>t. doomed t @ [pid t]) ts)"

text \<open>The table's family links describe the tree.\<close>

fun family :: "(nat \<Rightarrow> pcb_t) \<Rightarrow> ptree \<Rightarrow> bool" where
  "family T (PNode p ts) \<longleftrightarrow> children T p (map pid ts) \<and> (\<forall>t\<in>set ts. family T t)"

lemma set_members: "set (members t) = insert (pid t) (set (doomed t))"
proof (induction t)
  case (PNode p ts)
  then have "set (members t) = set (doomed t @ [pid t])" if "t \<in> set ts" for t using that by auto
  then show ?case by auto
qed

lemma mset_members: "mset (members t) = mset (doomed t @ [pid t])"
proof (induction t)
  case (PNode p ts)
  then have "map (mset \<circ> members) ts = map (mset \<circ> (\<lambda>t. doomed t @ [pid t])) ts" by (simp add: comp_def)
  then have "mset (concat (map members ts)) = mset (concat (map (\<lambda>t. doomed t @ [pid t]) ts))"
    by (simp only: mset_concat map_map)
  then show ?case by simp
qed

lemma distinct_doomed: "distinct (members t) \<Longrightarrow> distinct (doomed t)"
  using mset_eq_imp_distinct_iff [OF mset_members [of t]] by simp

lemma set_doomed_all: "set (doomed_all ts) = (\<Union>t\<in>set ts. set (members t))"
  by (simp add: set_members)

lemma pid_members: "pid t \<in> set (members t)"
  by (cases t) simp

lemma pid_doomed: "distinct (members t) \<Longrightarrow> pid t \<notin> set (doomed t)"
  by (cases t) (auto simp: set_members)

lemma family_same:
  assumes "same_kin P C T T'" "set (doomed t) \<inter> P = {}" "set (members t) \<inter> C = {}"
  shows "family T' t = family T t"
  using assms(2,3)
proof (induction t)
  case (PNode p ts)
  have "children T' p (map pid ts) = children T p (map pid ts)"
    using PNode.prems by (intro same_kin_children [OF assms(1)]) auto
  moreover have "family T' t = family T t" if "t \<in> set ts" for t
    using PNode.prems that by (intro PNode.IH) auto
  ultimately show ?case by simp
qed

text \<open>A whole list of processes, and when each of them can be taken out in its turn.\<close>

definition a_kill :: "nat list \<Rightarrow> akernel \<Rightarrow> akernel" where
  "a_kill ps A = fold a_kill1 ps A"

fun orderly :: "nat list \<Rightarrow> akernel \<Rightarrow> bool" where
  "orderly [] A = True"
| "orderly (p # ps) A = (placed p A \<and> removable p (a_waits A) \<and> orderly ps (a_kill1 p A))"

lemma a_kill_simps [simp]:
  "a_kill [] A = A" "a_kill (p # ps) A = a_kill ps (a_kill1 p A)"
  "a_kill (ps @ qs) A = a_kill qs (a_kill ps A)"
  by (simp_all add: a_kill_def)

lemma orderly_append [simp]: "orderly (ps @ qs) A \<longleftrightarrow> orderly ps A \<and> orderly qs (a_kill ps A)"
  by (induction ps arbitrary: A) auto


section \<open>The recursion\<close>

lemma distinct_concat_mapD:
  assumes "distinct (concat (map f xs))" "x \<in> set xs"
  shows "distinct (f x)" "y \<in> set xs \<Longrightarrow> x \<noteq> y \<Longrightarrow> set (f x) \<inter> set (f y) = {}"
  using assms by (induction xs) auto

lemma pid_apart:
  assumes "distinct (concat (map members ts))" "v \<in> set ts" "w \<in> set ts"
  shows "pid w \<notin> set (doomed v)"
proof (cases "w = v")
  case True
  then show ?thesis using distinct_concat_mapD(1) [OF assms(1,2)] pid_doomed by blast
next
  case False
  then show ?thesis using distinct_concat_mapD(2) [OF assms(1,3,2)] pid_members [of w]
    by (auto simp: set_members)
qed

text \<open>What the loop over the children of \<open>p\<close> leaves behind.\<close>

definition killed :: "nat \<Rightarrow> ptree list \<Rightarrow> kernel \<Rightarrow> akernel \<Rightarrow> kernel \<Rightarrow> bool" where
  "killed p ts s A s' \<longleftrightarrow>
     krel s' (a_kill (doomed_all ts) A) \<and> children (procTable s') p []
     \<and> same_kin (set (doomed_all ts)) (insert p (set (doomed_all ts))) (procTable s) (procTable s')
     \<and> st_mem s' = st_mem s \<and> busreg s' = busreg s"

lemma killChildren_list:
  assumes IH: "\<And>t s A. t \<in> set us \<Longrightarrow> family (procTable s) t \<Longrightarrow> distinct (members t) \<Longrightarrow> krel s A \<Longrightarrow>
      orderly (doomed t) A \<Longrightarrow>
      \<exists>s'. killChildren (Some (pid t)) s = Some s' \<and> krel s' (a_kill (doomed t) A)
        \<and> same_kin (set (doomed t)) (set (members t)) (procTable s) (procTable s')
        \<and> st_mem s' = st_mem s \<and> busreg s' = busreg s"
    and "set ts \<subseteq> set us" "children (procTable s) p (map pid ts)" "\<forall>t\<in>set ts. family (procTable s) t"
    and "distinct (p # concat (map members ts))" "krel s A" "orderly (doomed_all ts) A"
  shows "\<exists>s'. killChildren (Some p) s = Some s' \<and> killed p ts s A s'"
  using assms(2-)
proof (induction ts arbitrary: s A)
  case Nil
  then show ?case using emptyChild_run [of s p "[]"]
    by (subst killChildren.simps) (auto simp: killed_def)
next
  case (Cons u us')
  let ?c = "pid u" and ?D = "set (map pid (u # us'))"
  have d: "p \<notin> set (members u)" "distinct (members u)" "distinct (p # concat (map members us'))"
    and dj: "set (members u) \<inter> (\<Union>t\<in>set us'. set (members t)) = {}"
    using Cons.prems(4) by auto
  have sib: "pid t \<notin> set (members u)" "t \<noteq> u" if "t \<in> set us'" for t
    using dj that pid_members [of t] pid_members [of u] by blast+
  obtain T1 where rem: "removeChild (Some p) s = Some (Some ?c, s\<lparr>procTable := T1\<rparr>)"
    and ch1: "children T1 p (map pid us')"
    and tf: "tframe (insert p ?D) (procTable s) T1" and kf: "kframe p ?D (procTable s) T1"
    using removeChild_run [of s p ?c "map pid us'"] Cons.prems(2) by auto
  let ?s1 = "s\<lparr>procTable := T1\<rparr>"
  have kin1: "same_kin ?D {p} (procTable s) T1" by (rule same_kin_kframe [OF kf])
  have dd: "distinct (concat (map members (u # us')))" using Cons.prems(4) by simp
  have fam1: "family T1 v" if v: "v \<in> set (u # us')" for v
  proof -
    have "set (doomed v) \<inter> ?D = {}" using pid_apart [OF dd v] by auto
    moreover have "set (members v) \<inter> {p} = {}" using v Cons.prems(4) by auto
    ultimately show ?thesis using family_same [OF kin1] Cons.prems(3) v by blast
  qed
  have r1: "krel ?s1 A" by (rule krel_cong [OF Cons.prems(5)]) (simp_all add: tframe_fields [OF tf])
  have or: "orderly (doomed u) A" "placed ?c (a_kill (doomed u) A)"
    "removable ?c (a_waits (a_kill (doomed u) A))" "orderly (doomed_all us') (a_kill1 ?c (a_kill (doomed u) A))"
    using Cons.prems(6) by simp_all
  obtain s2 where k2: "killChildren (Some ?c) ?s1 = Some s2" and r2: "krel s2 (a_kill (doomed u) A)"
    and kin2: "same_kin (set (doomed u)) (set (members u)) T1 (procTable s2)"
    and m2: "st_mem s2 = st_mem s" "busreg s2 = busreg s"
    using IH [of u ?s1 A] Cons.prems(1) fam1 [of u] d(2) r1 or(1) by auto
  obtain s3 where k3: "killOne (Some ?c) s2 = Some s3" and r3: "krel s3 (a_kill1 ?c (a_kill (doomed u) A))"
    and kin3: "same_kin {?c} {?c} (procTable s2) (procTable s3)"
    and m3: "st_mem s3 = st_mem s2" "busreg s3 = busreg s2"
    using killOne_run [OF r2 or(2,3)] by blast
  have kin13: "same_kin (set (members u)) (set (members u)) T1 (procTable s3)"
    by (rule same_kin_trans [OF same_kin_mono [OF kin2] same_kin_mono [OF kin3]])
      (auto simp: set_members)
  have ch3: "children (procTable s3) p (map pid us')"
    using same_kin_children [OF kin13 d(1), of "map pid us'"] ch1 sib(1) by auto
  have fam3: "family (procTable s3) v" if v: "v \<in> set us'" for v
  proof -
    have "set (members v) \<inter> set (members u) = {}" using dj v by blast
    then show ?thesis using family_same [OF kin13, of v] fam1 [of v] v by (auto simp: set_members)
  qed
  obtain s4 where k4: "killChildren (Some p) s3 = Some s4"
    and r4: "killed p us' s3 (a_kill1 ?c (a_kill (doomed u) A)) s4"
    using Cons.IH [OF _ ch3 _ d(3) r3 or(4)] fam3 Cons.prems(1) by auto
  have "killChildren (Some p) s = Some s4"
    using emptyChild_run [OF Cons.prems(2)] rem k2 k3 k4 by (subst killChildren.simps) simp
  moreover have "same_kin (set (doomed_all (u # us'))) (insert p (set (doomed_all (u # us'))))
      (procTable s) (procTable s4)"
  proof -
    let ?P = "set (doomed_all (u # us'))"
    have D: "?D \<subseteq> ?P" by auto
    have "same_kin ?P (insert p ?P) (procTable s) T1"
      by (rule same_kin_mono [OF kin1 D]) simp
    moreover have "same_kin ?P (insert p ?P) T1 (procTable s3)"
      by (rule same_kin_mono [OF kin13]) (auto simp: set_members)
    moreover have "same_kin ?P (insert p ?P) (procTable s3) (procTable s4)"
      using r4 unfolding killed_def by (elim conjE) (rule same_kin_mono, assumption, auto)
    ultimately show ?thesis by (blast intro: same_kin_trans)
  qed
  ultimately show ?case using r4 m2 m3 by (auto simp: killed_def)
qed

text \<open>
  The recursion ends, whatever the tree, and every strict descendant of the process has been
  freed in turn.
\<close>

lemma killChildren_run:
  assumes "family (procTable s) t" "distinct (members t)" "krel s A" "orderly (doomed t) A"
  shows "\<exists>s'. killChildren (Some (pid t)) s = Some s' \<and> krel s' (a_kill (doomed t) A)
    \<and> children (procTable s') (pid t) []
    \<and> same_kin (set (doomed t)) (set (members t)) (procTable s) (procTable s')
    \<and> st_mem s' = st_mem s \<and> busreg s' = busreg s"
  using assms
proof (induction t arbitrary: s A)
  case (PNode p ts)
  have "\<exists>s'. killChildren (Some p) s = Some s' \<and> killed p ts s A s'"
  proof (rule killChildren_list [where us = ts])
    show "\<exists>s'. killChildren (Some (pid t)) s = Some s' \<and> krel s' (a_kill (doomed t) A)
        \<and> same_kin (set (doomed t)) (set (members t)) (procTable s) (procTable s')
        \<and> st_mem s' = st_mem s \<and> busreg s' = busreg s"
      if "t \<in> set ts" "family (procTable s) t" "distinct (members t)" "krel s A" "orderly (doomed t) A"
      for t s A
      using PNode.IH [OF that] by blast
  qed (use PNode.prems in auto)
  moreover have "insert p (set (doomed_all ts)) = set (members (PNode p ts))"
    using set_members [of "PNode p ts"] by simp
  ultimately show ?case by (auto simp: killed_def)
qed


section \<open>The root of the recursion\<close>

lemma a_kill1_same [simp]:
  "a_run (a_kill1 p A) = a_run A" "a_ctx (a_kill1 p A) = a_ctx A" "a_base (a_kill1 p A) = a_base A"
  by (simp_all add: a_kill1_def)

lemma a_kill_same [simp]:
  "a_run (a_kill ps A) = a_run A" "a_ctx (a_kill ps A) = a_ctx A" "a_base (a_kill ps A) = a_base A"
  by (induction ps arbitrary: A) simp_all

lemma a_kill_free: "a_free (a_kill ps A) = a_free A @ ps"
  by (induction ps arbitrary: A) (simp_all add: a_kill1_def)

text \<open>A descendant's parent is in the tree.\<close>

lemma family_parent: "family T t \<Longrightarrow> c \<in> set (doomed t) \<Longrightarrow> \<exists>q\<in>set (members t). p_prnt (T c) = Some q"
proof (induction t)
  case (PNode p ts)
  then obtain t where t: "t \<in> set ts" "c \<in> set (doomed t) \<or> c = pid t" by auto
  show ?case
  proof (cases "c = pid t")
    case True
    then have "p_prnt (T c) = Some p" using PNode.prems(1) t(1) by (auto simp: children_def)
    then show ?thesis by simp
  next
    case False
    then show ?thesis using PNode.IH [OF t(1)] PNode.prems(1) t by auto
  qed
qed

definition a_terminate :: "nat \<Rightarrow> nat list \<Rightarrow> akernel \<Rightarrow> akernel" where
  "a_terminate p ds A =
     (a_kill ds A)\<lparr>a_free := a_free A @ ds @ [p], a_run := None\<rparr>"

lemma terminateRecursively_run:
  assumes r: "krel s A" and run: "a_run A = Some p"
    and t: "pid t = p" "family (procTable s) t" "distinct (members t)" "orderly (doomed t) A"
    and par: "children (procTable s) r (as @ p # bs)" "r \<notin> set (members t)"
  shows "\<exists>s'. terminateRecursively (Some p) s = Some s' \<and> currentProcess s' = Some p
    \<and> krel (s'\<lparr>currentProcess := None\<rparr>) (a_terminate p (doomed t) A)
    \<and> children (procTable s') r (as @ bs)
    \<and> same_kin (set (members t) \<union> set as \<union> set bs) (insert r (set (members t))) (procTable s) (procTable s')
    \<and> st_mem s' = st_mem s \<and> busreg s' = busreg s"
proof -
  obtain s1 where k1: "killChildren (Some p) s = Some s1" and r1: "krel s1 (a_kill (doomed t) A)"
    and kin1: "same_kin (set (doomed t)) (set (members t)) (procTable s) (procTable s1)"
    and m1: "st_mem s1 = st_mem s" "busreg s1 = busreg s"
    using killChildren_run [OF t(2,3) r t(4)] t(1) by blast
  have run1: "a_run (a_kill (doomed t) A) = Some p" using run by simp
  note c1 = krelD(2,3,4) [OF r1] and k = krelD(1) [OF r1]
  have pv: "p < MAXPROC" and n: "p_semAdd (procTable s1 p) = NULL" and cp: "currentProcess s1 = Some p"
    using c1 run1 by auto
  have "set (as @ p # bs) \<inter> set (doomed t) = {}"
  proof -
    have "p_prnt (procTable s c) = Some r" if "c \<in> set (as @ p # bs)" for c
      using that par(1) by (auto simp: children_def)
    then show ?thesis using family_parent [OF t(2)] par(2) by fastforce
  qed
  then have "children (procTable s1) r (as @ p # bs)"
    using same_kin_children [OF kin1 par(2)] par(1) by blast
  from outChild_run [OF this] obtain T2 where
    out: "outChild (Some p) s1 = Some (Some p, s1\<lparr>procTable := T2\<rparr>)"
    and ch2: "children T2 r (as @ bs)" and tf: "tframe (insert r (set (as @ p # bs))) (procTable s1) T2"
    and kf: "kframe r (set (as @ p # bs)) (procTable s1) T2" by blast
  have "kq (s1\<lparr>procTable := T2\<rparr>) (a_free A @ doomed t) (a_ready (a_kill (doomed t) A))
      (a_waits (a_kill (doomed t) A)) [p]"
    by (rule kq_cong [OF k [unfolded run1 a_kill_free hand_simps]]) (simp_all add: tframe_fields [OF tf])
  from kq_free [OF this] obtain T3 where
    fp: "freePcb (Some p) (s1\<lparr>procTable := T2\<rparr>) = Some (s1\<lparr>procTable := T3, pcbFree_h := Some p\<rparr>)"
    and k3: "kq (s1\<lparr>procTable := T3, pcbFree_h := Some p\<rparr>) ((a_free A @ doomed t) @ [p])
       (a_ready (a_kill (doomed t) A)) (a_waits (a_kill (doomed t) A)) []"
    and fr: "qframe (insert p (set (a_free A @ doomed t))) (T2(p := clean_pcb (T2 p))) T3" by auto
  let ?s = "s1\<lparr>procTable := T3, pcbFree_h := Some p, processCount := processCount s1 - 1\<rparr>"
  have go: "terminateRecursively (Some p) s = Some ?s"
    using k1 n pv cp out fp by (simp add: terminateRecursively_def killOne_def)
  have k4: "kq (?s\<lparr>currentProcess := None\<rparr>) (a_free A @ doomed t @ [p])
       (a_ready (a_kill (doomed t) A)) (a_waits (a_kill (doomed t) A)) []"
    using k3 by - (rule kq_cong [where s = "s1\<lparr>procTable := T3, pcbFree_h := Some p\<rparr>"], simp_all)
  have cl: "p_s (clean_pcb x) = p_s x" for x by (simp add: clean_pcb_def)
  have T3: "p_s (T3 x) = p_s (procTable s1 x)" for x
    by (auto simp: qframe_fields [OF fr] tframe_fields [OF tf] cl)
  have "krel (?s\<lparr>currentProcess := None\<rparr>) (a_terminate p (doomed t) A)"
    using r1 k4 T3 run by (auto simp: krel_def mem_ok_def a_terminate_def a_kill_free fun_eq_iff)
  moreover have kin3: "same_kin {p} {p} T2 T3" by (auto simp: same_kin_def qframe_fields [OF fr])
  have "p \<notin> set (as @ bs)" "p \<noteq> r" using par(1) by (auto simp: children_def)
  then have "children T3 r (as @ bs)" using same_kin_children [OF kin3] ch2 by auto
  moreover have "same_kin (set (members t) \<union> set as \<union> set bs) (insert r (set (members t)))
      (procTable s) T3"
  proof -
    have pm: "p \<in> set (members t)" using pid_members [of t] t(1) by simp
    let ?P = "set (members t) \<union> set as \<union> set bs" and ?C = "insert r (set (members t))"
    have "same_kin ?P ?C (procTable s) (procTable s1)"
      by (rule same_kin_mono [OF kin1]) (auto simp: set_members)
    moreover have "same_kin ?P ?C (procTable s1) T2"
      by (rule same_kin_mono [OF same_kin_kframe [OF kf]]) (use pm in auto)
    moreover have "same_kin ?P ?C T2 T3" by (rule same_kin_mono [OF kin3]) (use pm in auto)
    ultimately show ?thesis by (blast intro: same_kin_trans)
  qed
  ultimately show ?thesis using go cp m1 by (intro exI [of _ ?s]) simp
qed


text \<open>What killing a list of processes comes to.\<close>

lemma a_kill_ready: "distinct (a_ready A) \<Longrightarrow> a_ready (a_kill ps A) = filter (\<lambda>q. q \<notin> set ps) (a_ready A)"
proof (induction ps arbitrary: A)
  case (Cons p ps)
  then have "a_ready (a_kill ps (a_kill1 p A)) = filter (\<lambda>q. q \<notin> set ps) (remove1 p (a_ready A))"
    by (simp add: a_kill1_def)
  then show ?case using Cons.prems
    by (simp add: distinct_remove1_removeAll removeAll_filter_not_eq) (metis (mono_tags, lifting))
qed simp

lemma a_kill_waits:
  "(\<And>a. distinct (a_waits A a)) \<Longrightarrow> a_waits (a_kill ps A) a = filter (\<lambda>q. q \<notin> set ps) (a_waits A a)"
proof (induction ps arbitrary: A)
  case (Cons p ps)
  then have "a_waits (a_kill ps (a_kill1 p A)) a = filter (\<lambda>q. q \<notin> set ps) (remove1 p (a_waits A a))"
    by (simp add: a_kill1_def)
  then show ?case using Cons.prems
    by (simp add: distinct_remove1_removeAll removeAll_filter_not_eq) (metis (mono_tags, lifting))
qed simp

text \<open>How often a semaphore is incremented: once for each killed process that waited on it.\<close>

lemma a_kill_sem:
  assumes "\<And>b. distinct (a_waits A b)" "distinct ps"
  shows "a_sem (a_kill ps A) a = (if is_dev (a_base A) a then a_sem A a
    else map_option (\<lambda>v. v + of_nat (length (filter (\<lambda>q. q \<in> set ps) (a_waits A a)))) (a_sem A a))"
  using assms
proof (induction ps arbitrary: A)
  case (Cons p ps)
  let ?W = "a_waits A a"
  have IH: "a_sem (a_kill ps (a_kill1 p A)) a = (if is_dev (a_base A) a then a_sem (a_kill1 p A) a
    else map_option (\<lambda>v. v + of_nat (length (filter (\<lambda>q. q \<in> set ps) (remove1 p ?W)))) (a_sem (a_kill1 p A) a))"
    using Cons.IH [of "a_kill1 p A"] Cons.prems by (simp add: a_kill1_def)
  have "length (filter (\<lambda>q. q \<in> set (p # ps)) ?W)
      = length (filter (\<lambda>q. q \<in> set ps) (remove1 p ?W)) + (if p \<in> set ?W then 1 else 0)"
  proof (cases "p \<in> set ?W")
    case True
    then obtain xs ys where W: "?W = xs @ p # ys" by (meson split_list)
    then have "p \<notin> set xs" "p \<notin> set ys" using Cons.prems(1) [of a] by auto
    moreover from this have "filter (\<lambda>q. q = p \<or> q \<in> set ps) xs = filter (\<lambda>q. q \<in> set ps) xs"
      "filter (\<lambda>q. q = p \<or> q \<in> set ps) ys = filter (\<lambda>q. q \<in> set ps) ys"
      by (auto intro: filter_cong)
    ultimately show ?thesis using Cons.prems(2) by (simp add: W remove1_append)
  next
    case False
    then have "filter (\<lambda>q. q = p \<or> q \<in> set ps) ?W = filter (\<lambda>q. q \<in> set ps) ?W"
      by (auto intro: filter_cong)
    with False show ?thesis by (simp add: remove1_idem)
  qed
  then show ?case using IH by (cases "a_sem A a") (auto simp: a_kill1_def)
qed (simp add: option.map_ident)

lemma terminateProcess_run:
  assumes r: "krel s A" and run: "a_run A = Some p"
    and t: "pid t = p" "family (procTable s) t" "distinct (members t)" "orderly (doomed t) A"
    and par: "children (procTable s) r (as @ p # bs)" "r \<notin> set (members t)"
  defines "B \<equiv> a_terminate p (doomed t) A"
  shows "\<exists>s'. terminateProcess s = Some (a_exit B, s')
    \<and> (if a_ready B = [] then currentProcess s' = Some p \<and> krel (s'\<lparr>currentProcess := None\<rparr>) B
       else krel s' (a_dispatch B))"
proof -
  obtain s1 where k: "terminateRecursively (Some p) s = Some s1" "currentProcess s1 = Some p"
    "krel (s1\<lparr>currentProcess := None\<rparr>) B"
    using terminateRecursively_run [OF r run t par] unfolding B_def by blast
  have "a_run B = None" by (simp add: B_def a_terminate_def)
  from scheduler_stale [OF k(3) this] obtain s' where
    s': "scheduler s1 = Some (a_exit B, s')" "a_ready B \<noteq> [] \<Longrightarrow> krel s' (a_dispatch B)"
    "a_ready B = [] \<Longrightarrow> s' = (if a_exit B = Exit_WAIT
         then s1\<lparr>waitFlag := 1, cp0_status := SCHEDULERINTSUNMASKED\<rparr> else s1)" by blast
  have go: "terminateProcess s = Some (a_exit B, s')"
    using k(1) s'(1) krelD(2) [OF r] run by (simp add: terminateProcess_def)
  have "krel (s1\<lparr>waitFlag := 1, cp0_status := SCHEDULERINTSUNMASKED, currentProcess := None\<rparr>) B"
    by (rule krel_cong [OF k(3)]) simp_all
  then have "krel (s'\<lparr>currentProcess := None\<rparr>) B \<and> currentProcess s' = Some p" if "a_ready B = []"
    using s'(3) [OF that] k(2,3) by simp
  then show ?thesis using go s'(2) by (intro exI [of _ s']) simp
qed


section \<open>Properties\<close>

text \<open>
  A family for the example state: the running process 0 has the children 3 and 2, and 3, which
  waits, has the child 4, which waits for the clock. The parent of 0 is an argument.
\<close>

definition ex_kin :: "pcb_PTR \<Rightarrow> kernel" where
  "ex_kin pr = ex_kernel\<lparr>procTable := (\<lambda>p. (procTable ex_kernel p)\<lparr>
     p_prnt := ([3 \<mapsto> 0, 2 \<mapsto> 0, 4 \<mapsto> 3](0 := pr)) p,
     p_child := [1 \<mapsto> 0, 0 \<mapsto> 3, 3 \<mapsto> 4] p,
     p_sib := [3 \<mapsto> 2] p, p_prevsib := [2 \<mapsto> 3] p\<rparr>),
     st_mem := (st_mem ex_kernel)(SYSCALLOLDAREA \<mapsto> sys_state 2 0 0 0)\<rparr>"

definition ex_tree :: ptree where
  "ex_tree = PNode 0 [PNode 3 [PNode 4 []], PNode 2 []]"

lemma ex_tree_simps [simp]:
  "pid ex_tree = 0" "members ex_tree = [0, 3, 4, 2]" "doomed ex_tree = [4, 3, 2]"
  by (simp_all add: ex_tree_def)

lemma ex_kin_krel: "krel (ex_kin pr) ex_abs"
proof -
  have "krel (ex_kernel\<lparr>st_mem := (st_mem ex_kernel)(SYSCALLOLDAREA \<mapsto> sys_state 2 0 0 0)\<rparr>) ex_abs"
    by (rule krel_st_mem [OF ex_kernel_krel]) simp
  then show ?thesis by (rule krel_cong) (simp_all add: ex_kin_def)
qed

lemma ex_kin_family:
  "family (procTable (ex_kin pr)) ex_tree" "children (procTable (ex_kin (Some 1))) 1 [0]"
  "p_prnt (procTable (ex_kin pr) 0) = pr" "st_mem (ex_kin pr) SYSCALLOLDAREA = Some (sys_state 2 0 0 0)"
  by (simp_all add: ex_kin_def ex_tree_def children_def MAXPROC_def dlinked_Cons)

lemma ex_waits: "a_waits ex_abs a = (if a = 0x20001000 then [3] else if a = 0x200020C0 then [4] else [])"
  by (simp add: ex_abs_def devsem_def CLOCKSEM_48)

lemma ex_orderly: "orderly [4, 3, 2] ex_abs"
proof -
  have s: "a_sem ex_abs 0x200020C0 = Some (-1)" by (simp add: ex_abs_def devsem_def CLOCKSEM_48)
  have "4 \<in> set (a_waits ex_abs 0x200020C0)" by (simp add: ex_waits)
  then have 1: "placed 4 ex_abs" "removable 4 (a_waits ex_abs)"
    using s by (force simp: placed_def, auto simp: removable_def ex_waits)
  have 2: "placed 3 (a_kill1 4 ex_abs)" "removable 3 (a_waits (a_kill1 4 ex_abs))"
    by (auto simp: placed_def removable_def ex_waits a_kill1_def)
  have 3: "placed 2 (a_kill1 3 (a_kill1 4 ex_abs))" "removable 2 (a_waits (a_kill1 3 (a_kill1 4 ex_abs)))"
    by (auto simp: placed_def removable_def ex_waits a_kill1_def)
  show ?thesis using 1 2 3 by simp
qed

text \<open>
  The first process cannot be terminated: a process without a parent is not put back on the
  free list by outChild, so SYS 2 in it frees NULL and faults after its descendants are gone. The
  nucleus therefore never gets to the state without processes in which the scheduler halts.
\<close>

theorem SYS2_root_faults:
  assumes "krel s A" and "st_mem s SYSCALLOLDAREA = Some st" and "kernel_mode st" and "s_a0 st = 2"
    and "a_run A = Some (pid t)" and "family (procTable s) t" and "distinct (members t)"
    and "orderly (doomed t) A" and "p_prnt (procTable s (pid t)) = None"
  shows "sysCallHandler s = None"
proof -
  note adv = advanced_simps [OF assms(1,2)]
  obtain s1 where k1: "killChildren (Some (pid t)) (advanced s st) = Some s1"
    and r1: "krel s1 (a_kill (doomed t) A)"
    and kin: "same_kin (set (doomed t)) (set (members t)) (procTable s) (procTable s1)"
    using killChildren_run [of "advanced s st" t A] adv assms(6-8) by auto
  have "pid t < MAXPROC" "p_semAdd (procTable s1 (pid t)) = NULL" "currentProcess s1 = Some (pid t)"
    using krelD(2,3,4) [OF r1] assms(5) by auto
  moreover have "p_prnt (procTable s1 (pid t)) = None"
    using kin pid_doomed [OF assms(7)] assms(9) by (simp add: same_kin_def)
  ultimately have "killOne (Some (pid t)) s1 = None" by (simp add: killOne_def outChild_root)
  then show ?thesis
    using k1 sysCall_kernel(2) [OF assms(2-4)] krelD(2) [OF adv(1)] assms(5)
    by (simp add: terminateProcess_def terminateRecursively_def)
qed

theorem SYS2_root_faults_witness:
  "sysCallHandler (ex_kin None) = None"
  using SYS2_root_faults [OF ex_kin_krel ex_kin_family(4) kernel_mode_ex _ _ ex_kin_family(1), of None]
    ex_orderly ex_kin_family(3) by simp

end
