(* ===== verification/Nucleus_Frame.thy ===== *)
theory Nucleus_Frame
  imports Initial Termination
begin

text \<open>
  What the handlers leave alone: apart from SYS 1 and SYS 2 no operation of the nucleus writes a
  family link, and only the dispatcher writes \<open>waitFlag\<close>. The proofs are a small calculus of
  postconditions over the option monad.
\<close>

section \<open>Postconditions\<close>

definition post :: "('r \<Rightarrow> bool) \<Rightarrow> 'r option \<Rightarrow> bool" where
  "post Q m \<longleftrightarrow> (\<forall>r. m = Some r \<longrightarrow> Q r)"

named_theorems post_intros

lemma post_rules [post_intros]:
  "Q r \<Longrightarrow> post Q (Some r)"
  "post Q None"
  "post (\<lambda>x. post Q (g x)) m \<Longrightarrow> post Q (m \<bind> g)"
  "(c \<Longrightarrow> post Q m1) \<Longrightarrow> (\<not> c \<Longrightarrow> post Q m2) \<Longrightarrow> post Q (if c then m1 else m2)"
  "post Q (g2 a b) \<Longrightarrow> post Q (case (a, b) of (x, y) \<Rightarrow> g2 x y)"
  "post Q (g x) \<Longrightarrow> post Q (Let x g)"
  by (auto simp: post_def split: bind_splits)

lemma postD: "m = Some r \<Longrightarrow> post Q m \<Longrightarrow> Q r"
  by (simp add: post_def)

lemma post_mono: "post P m \<Longrightarrow> (\<And>r. P r \<Longrightarrow> Q r) \<Longrightarrow> post Q m"
  by (auto simp: post_def)

lemma post_read [post_intros]:
  "(\<And>x. Q1 x) \<Longrightarrow> post Q1 (rd_pcb p s)"
  "(\<And>x. Q2 x) \<Longrightarrow> post Q2 (rd_semd d s')"
  "(\<And>x. Q3 x) \<Longrightarrow> post Q3 (headProcQ tp s)"
  "(\<And>x. Q3 x) \<Longrightarrow> post Q3 (searchSemd a s')"
  "(\<And>x. Q3 x) \<Longrightarrow> post Q3 (headBlocked a s')"
  "(\<And>x. Q4 x) \<Longrightarrow> post Q4 (rd_int a k)"
  "(\<And>x. Q5 x) \<Longrightarrow> post Q5 (rd_state r k)"
  "(\<And>x. Q6 x) \<Longrightarrow> post Q6 (rd_dev i k)"
  "(\<And>x. Q7 x) \<Longrightarrow> post Q7 (getDeviceNumber l k)"
  by (simp_all add: post_def)

section \<open>The frame\<close>

definition kin :: "pcb_t \<Rightarrow> pcb_PTR \<times> pcb_PTR \<times> pcb_PTR \<times> pcb_PTR" where
  "kin x = (p_prnt x, p_child x, p_sib x, p_prevsib x)"

definition links :: "kernel \<Rightarrow> nat \<Rightarrow> pcb_PTR \<times> pcb_PTR \<times> pcb_PTR \<times> pcb_PTR" where
  "links s = kin \<circ> procTable s"

text \<open>The processor states in the memory of the processes, outside the nucleus' areas.\<close>

definition ustates :: "kernel \<Rightarrow> memaddr \<Rightarrow> state_t option" where
  "ustates s = st_mem s |` (- kareas)"

text \<open>Family links, the states of the processes, \<open>waitFlag\<close> and the current process.\<close>

definition kept ::
  "kernel \<Rightarrow> (nat \<Rightarrow> pcb_PTR \<times> pcb_PTR \<times> pcb_PTR \<times> pcb_PTR) \<times> (memaddr \<Rightarrow> state_t option) \<times> int \<times> pcb_PTR" where
  "kept s = (links s, ustates s, waitFlag s, currentProcess s)"

lemma ustates_upd [simp]:
  "ustates (s\<lparr>procTable := T\<rparr>) = ustates s" "ustates (s\<lparr>pcbFree_h := h\<rparr>) = ustates s"
  "ustates (s\<lparr>readyQue := h\<rparr>) = ustates s" "ustates (s\<lparr>currentProcess := h\<rparr>) = ustates s"
  "ustates (s\<lparr>softBlockCount := n\<rparr>) = ustates s" "ustates (s\<lparr>time := t\<rparr>) = ustates s"
  "ustates (s\<lparr>waitFlag := n\<rparr>) = ustates s" "ustates (s\<lparr>int_mem := M\<rparr>) = ustates s"
  "ustates (s\<lparr>busreg := b\<rparr>) = ustates s" "ustates (s\<lparr>processCount := n\<rparr>) = ustates s"
  "ustates (s\<lparr>tod_reads := k\<rparr>) = ustates s" "ustates (s\<lparr>localtimer := t\<rparr>) = ustates s"
  "ustates (s\<lparr>cp0_status := t\<rparr>) = ustates s"
  by (simp_all add: ustates_def)

lemma links_upd [simp]:
  "links (s\<lparr>readyQue := h\<rparr>) = links s" "links (s\<lparr>currentProcess := h\<rparr>) = links s"
  "links (s\<lparr>softBlockCount := n\<rparr>) = links s" "links (s\<lparr>time := t\<rparr>) = links s"
  "links (s\<lparr>waitFlag := n\<rparr>) = links s" "links (s\<lparr>int_mem := M\<rparr>) = links s"
  "links (s\<lparr>st_mem := N\<rparr>) = links s" "links (s\<lparr>busreg := b\<rparr>) = links s"
  "links (s\<lparr>tod_reads := k\<rparr>) = links s" "links (s\<lparr>localtimer := t\<rparr>) = links s"
  "links (s\<lparr>cp0_status := t\<rparr>) = links s"
  by (simp_all add: links_def)

lemma kept_upd [simp]:
  "kept (s\<lparr>pcbFree_h := h\<rparr>) = kept s" "kept (s\<lparr>semdTable := S\<rparr>) = kept s"
  "kept (s\<lparr>semd_h := h\<rparr>) = kept s" "kept (s\<lparr>semdFree_h := h\<rparr>) = kept s"
  "kept (s\<lparr>readyQue := h\<rparr>) = kept s" "kept (s\<lparr>softBlockCount := n\<rparr>) = kept s"
  "kept (s\<lparr>time := t\<rparr>) = kept s" "kept (s\<lparr>int_mem := M\<rparr>) = kept s"
  "kept (s\<lparr>busreg := b\<rparr>) = kept s"
  "kept (s\<lparr>tod_reads := k\<rparr>) = kept s" "kept (LDIT t s) = kept s"
  by (simp_all add: kept_def links_def ustates_def LDIT_def)

text \<open>Each operation, as a rule: afterwards what is kept is as before.\<close>

lemma post_upd_pcb [post_intros]:
  "(\<And>t. kept t = kept s \<Longrightarrow> Q t) \<Longrightarrow> (\<And>x. kin (f x) = kin x) \<Longrightarrow> post Q (upd_pcb p f (s :: kernel))"
  by (simp add: post_def upd_pcb_def kept_def links_def ustates_def fun_eq_iff split: option.splits)

lemma post_write [post_intros]:
  "(\<And>t. kept t = kept s \<Longrightarrow> Q t) \<Longrightarrow> post Q (upd_semd d g (s :: kernel))"
  "(\<And>t. kept t = kept s \<Longrightarrow> Q t) \<Longrightarrow> post Q (wr_int a v s)"
  "(\<And>t. kept t = kept s \<Longrightarrow> Q t) \<Longrightarrow> post Q (upd_dev i h s)"
  "(\<And>t u. kept t = kept s \<Longrightarrow> Q1 (u, t)) \<Longrightarrow> post Q1 (STCK s)"
  by (auto simp: post_def upd_semd_def wr_int_def upd_dev_def STCK_def split: option.splits if_splits)

lemma kin_simps [simp]:
  "kin (x\<lparr>p_next := a\<rparr>) = kin x" "kin (x\<lparr>p_prev := a\<rparr>) = kin x" "kin (x\<lparr>p_s := st\<rparr>) = kin x"
  "kin (x\<lparr>p_semAdd := m\<rparr>) = kin x" "kin (x\<lparr>p_time := m\<rparr>) = kin x"
  by (simp_all add: kin_def)

lemma ustates_write [simp]: "a \<in> kareas \<Longrightarrow> ustates (s\<lparr>st_mem := (st_mem s)(a \<mapsto> st)\<rparr>) = ustates s"
  by (simp add: ustates_def restrict_map_def fun_eq_iff)

lemma area_kareas [simp]: "SYSCALLOLDAREA \<in> kareas" "INTERRUPTOLDAREA \<in> kareas"
  by (simp_all add: kareas_def)

lemma post_upd_state [post_intros]:
  "(\<And>t. kept t = kept s \<Longrightarrow> Q t) \<Longrightarrow> (\<And>a. r = StAt a \<Longrightarrow> a \<in> kareas) \<Longrightarrow> post Q (upd_state r f s)"
proof (cases r)
  case (StOf p)
  then show "(\<And>t. kept t = kept s \<Longrightarrow> Q t) \<Longrightarrow> post Q (upd_state r f s)"
    using post_upd_pcb [of s Q "\<lambda>x. x\<lparr>p_s := f (p_s x)\<rparr>" p] by simp
qed (auto simp: post_def kept_def links_def split: option.splits)

lemma post_chargeTime [post_intros]:
  "(\<And>t. kept t = kept s \<Longrightarrow> Q t) \<Longrightarrow> post Q (chargeTime p u s)"
  unfolding chargeTime_def by (intro post_intros) simp_all

section \<open>The queues and the semaphores\<close>

lemma post_insertProcQ [post_intros]:
  "(\<And>r t. kept t = kept s \<Longrightarrow> Q (r, t)) \<Longrightarrow> post Q (insertProcQ tp p (s :: kernel))"
  unfolding insertProcQ_def by (intro post_intros) simp_all

lemma post_insertReady [post_intros]:
  "(\<And>t. kept t = kept s \<Longrightarrow> Q t) \<Longrightarrow> post Q (insertReady p s)"
  unfolding insertReady_def by (intro post_intros) simp_all

lemma post_unlinkProcQ [post_intros]:
  "(\<And>t. kept t = kept s \<Longrightarrow> Q t) \<Longrightarrow> post Q (unlinkProcQ c (s :: kernel))"
  unfolding unlinkProcQ_def by (intro post_intros) simp_all

lemma outProcQ_loop_kept: "outProcQ_loop tp p c (s :: kernel) = Some y \<Longrightarrow> kept (snd y) = kept s"
proof (induction rule: outProcQ_loop.raw_induct [rotated, consumes 1, case_names step])
  case (step f tp p c s y)
  have "post (\<lambda>y. kept (snd y) = kept s) (if c \<noteq> tp then if c \<noteq> p
      then rd_pcb c s \<bind> (\<lambda>x. f tp p (p_next x) s)
      else unlinkProcQ c s \<bind> (\<lambda>s1. Some (c, s1)) else Some (None, s))"
    by (intro post_intros) (auto simp: post_def step(1))
  from postD [OF step(2) this] show ?case .
qed

lemma post_outProcQ_loop [post_intros]:
  "(\<And>r t. kept t = kept s \<Longrightarrow> Q (r, t)) \<Longrightarrow> post Q (outProcQ_loop tp p c (s :: kernel))"
  using outProcQ_loop_kept by (fastforce simp: post_def)

lemma post_outProcQ [post_intros]:
  "(\<And>r u t. kept t = kept s \<Longrightarrow> Q (r, u, t)) \<Longrightarrow> post Q (outProcQ tp p (s :: kernel))"
  unfolding outProcQ_def by (intro post_intros) simp_all

lemma post_removeProcQ [post_intros]:
  "(\<And>r u t. kept t = kept s \<Longrightarrow> Q (r, u, t)) \<Longrightarrow> post Q (removeProcQ tp (s :: kernel))"
  unfolding removeProcQ_def by (intro post_intros) simp_all

lemma post_insertProcQ_semd [post_intros]:
  "(\<And>t. kept t = kept s \<Longrightarrow> Q t) \<Longrightarrow> post Q (insertProcQ_semd d p (s :: kernel))"
  unfolding insertProcQ_semd_def by (intro post_intros) simp_all

lemma post_outProcQ_semd [post_intros]:
  "(\<And>r t. kept t = kept s \<Longrightarrow> Q (r, t)) \<Longrightarrow> post Q (outProcQ_semd d p (s :: kernel))"
  unfolding outProcQ_semd_def by (intro post_intros) simp_all

lemma post_freeSemd [post_intros]:
  "(\<And>t. kept t = kept s \<Longrightarrow> Q t) \<Longrightarrow> post Q (freeSemd d (s :: kernel))"
  unfolding freeSemd_def cleanSemd_def by (intro post_intros) simp_all

lemma post_allocateSemd [post_intros]:
  "(\<And>r t. kept t = kept s \<Longrightarrow> Q (r, t)) \<Longrightarrow> post Q (allocateSemd a (s :: kernel))"
  unfolding allocateSemd_def cleanSemd_def by (intro post_intros) (simp_all split: if_splits)

lemma post_insertBlocked [post_intros]:
  "(\<And>r t. kept t = kept s \<Longrightarrow> Q (r, t)) \<Longrightarrow> post Q (insertBlocked a p (s :: kernel))"
  unfolding insertBlocked_def by (intro post_intros) simp_all

lemma post_outBlocked [post_intros]:
  "(\<And>r t. kept t = kept s \<Longrightarrow> Q (r, t)) \<Longrightarrow> post Q (outBlocked p (s :: kernel))"
  unfolding outBlocked_def by (intro post_intros) simp_all

lemma post_removeBlocked [post_intros]:
  "(\<And>r t. kept t = kept s \<Longrightarrow> Q (r, t)) \<Longrightarrow> post Q (removeBlocked a (s :: kernel))"
  unfolding removeBlocked_def by (intro post_intros) simp_all


section \<open>The handlers\<close>

lemma foldM_kept:
  assumes "\<And>i t. i \<in> set xs \<Longrightarrow> post (\<lambda>t'. kept t' = kept t) (f i t)"
  shows "post (\<lambda>t. kept t = kept s) (foldM f xs s)"
  using assms
proof (induction xs arbitrary: s)
  case (Cons i xs)
  have "post (\<lambda>t. post (\<lambda>t'. kept t' = kept s) (foldM f xs t)) (f i s)"
  proof (rule post_mono)
    show "post (\<lambda>t'. kept t' = kept s) (f i s)" by (rule Cons.prems) simp
  next
    fix t assume "kept t = kept s"
    then show "post (\<lambda>t'. kept t' = kept s) (foldM f xs t)"
      using Cons.IH [OF Cons.prems, of t] by simp
  qed
  then show ?case by (simp add: post_rules(3))
qed (simp add: post_def)

lemma post_stateCopy [post_intros]:
  assumes "\<And>t. kept t = kept s \<Longrightarrow> Q t" "\<And>a. new = StAt a \<Longrightarrow> a \<in> kareas"
  shows "post Q (stateCopy old new s)"
proof -
  have "post (\<lambda>t. kept t = kept s) (stateCopy old new s)"
    unfolding stateCopy_def
    by (intro post_intros post_mono [OF foldM_kept]) (simp_all add: assms(2))
  then show ?thesis using assms(1) by (rule post_mono)
qed

text \<open>The flag after the dispatcher: 0 when a process runs, 1 when the processor idles.\<close>

definition flag_of :: "kexit \<Rightarrow> int \<Rightarrow> int" where
  "flag_of e w = (case e of Exit_LDST _ \<Rightarrow> 0 | Exit_WAIT \<Rightarrow> 1 | _ \<Rightarrow> w)"

lemma post_LDST [post_intros]: "(\<And>st. Q (Exit_LDST st, s)) \<Longrightarrow> post Q (LDST r s)"
  unfolding LDST_def by (intro post_intros)

lemma post_kseq [post_intros]:
  "post (\<lambda>(e, t). if e = Exit_return then post Q (k t) else Q (e, t)) m \<Longrightarrow> post Q (kseq m k)"
  by (auto simp: post_def kseq_def split: bind_splits kexit.splits)

lemma post_scheduler [post_intros]:
  "(\<And>e t. links t = links s \<Longrightarrow> ustates t = ustates s \<Longrightarrow> waitFlag t = flag_of e (waitFlag s) \<Longrightarrow>
     e \<noteq> Exit_return \<Longrightarrow> Q (e, t)) \<Longrightarrow>
   post Q (scheduler s)"
  unfolding scheduler_def
  by (intro post_intros) (simp_all add: kept_def flag_of_def)

text \<open>
  How a handler that may dispatch leaves the flag: as it was, when it loads a state without
  dispatching, or as the dispatcher sets it.
\<close>

definition flagged :: "kernel \<Rightarrow> kexit \<Rightarrow> kernel \<Rightarrow> bool" where
  "flagged s e t \<longleftrightarrow> links t = links s \<and> ustates t = ustates s
     \<and> (waitFlag t = flag_of e (waitFlag s) \<or> waitFlag t = waitFlag s \<and> (e = Exit_return \<or> (\<exists>st. e = Exit_LDST st)))"

lemma verhogen_kept: "post (\<lambda>(e, t). kept t = kept s) (verhogen s)"
  unfolding verhogen_def by (intro post_intros) simp_all

lemma getCPUTime_kept: "post (\<lambda>(e, t). kept t = kept s) (getCPUTime s)"
  unfolding getCPUTime_def by (intro post_intros) simp_all


lemma wait_flagged:
  "post (\<lambda>(e, t). flagged s e t) (passeren s)"
  "post (\<lambda>(e, t). flagged s e t) (waitForClock s)"
  "post (\<lambda>(e, t). flagged s e t) (waitForIODevice s)"
  unfolding passeren_def waitForClock_def waitForIODevice_def
  by (intro post_intros; simp add: kept_def flagged_def)+

text \<open>The interrupt handlers dispatch only when the processor idles, or at the end of a quantum.\<close>

lemma quantumEnd_flag:
  "post (\<lambda>(e, t). links t = links s \<and> ustates t = ustates s \<and> ustates t = ustates s \<and> ustates t = ustates s \<and> waitFlag t = flag_of e (waitFlag s)) (quantumEnd s)"
  unfolding quantumEnd_def by (intro post_intros; simp add: kept_def)

lemma wakeClock_kept: "wakeClock s = Some t \<Longrightarrow> kept t = kept s"
proof (induction rule: wakeClock.raw_induct [rotated, consumes 1, case_names step])
  case (step f s t)
  have "post (\<lambda>t. kept t = kept s) (do {
     h \<leftarrow> headBlocked (devSem_addr s (int CLOCKSEM)) s;
     if h \<noteq> None then do {
       (temp, s1) \<leftarrow> removeBlocked (devSem_addr s (int CLOCKSEM)) s;
       s2 \<leftarrow> upd_pcb temp (\<lambda>x. x\<lparr>p_semAdd := NULL\<rparr>) s1;
       v \<leftarrow> rd_int (devSem_addr s2 (int CLOCKSEM)) s2;
       s3 \<leftarrow> wr_int (devSem_addr s2 (int CLOCKSEM)) (v + 1) s2;
       s4 \<leftarrow> insertReady temp s3;
       f (s4\<lparr>softBlockCount := softBlockCount s4 - 1\<rparr>)
     } else Some s
   })"
    by (intro post_intros) (auto simp: post_def dest: step(1))
  from postD [OF step(2) this] show ?case .
qed

lemma post_wakeClock [post_intros]:
  "(\<And>t. kept t = kept s \<Longrightarrow> Q t) \<Longrightarrow> post Q (wakeClock s)"
  using wakeClock_kept by (simp add: post_def)

lemma clockTick_flag:
  "post (\<lambda>(e, t). links t = links s \<and> ustates t = ustates s \<and> ustates t = ustates s \<and> ustates t = ustates s \<and> waitFlag t =
     (if currentProcess s = None then flag_of e (waitFlag s) else waitFlag s)) (clockTick s)"
  unfolding clockTick_def by (intro post_intros; auto simp: kept_def LDIT_def)

lemma ackTerminal_kept [post_intros]:
  "(\<And>r u t. kept t = kept s \<Longrightarrow> Q (r, u, t)) \<Longrightarrow> post Q (ackTerminal n s)"
  unfolding ackTerminal_def by (intro post_intros) simp_all

lemma deviceInterrupt_flag:
  "post (\<lambda>(e, t). links t = links s \<and> ustates t = ustates s \<and> ustates t = ustates s \<and> ustates t = ustates s \<and> (e = Exit_return \<or> waitFlag t =
     (if waitFlag s = 1 then flag_of e 1 else waitFlag s))) (deviceInterrupt l s)"
  unfolding deviceInterrupt_def by (intro post_intros; auto simp: kept_def)

lemma kept_entered: "kept (entered s) = kept s"
  by (simp add: entered_def kept_def links_def ustates_def fun_eq_iff split: option.splits)

text \<open>SYS 1 writes family links, but not the flag.\<close>

lemma flag_upd_pcb: "(\<And>t. waitFlag t = waitFlag s \<Longrightarrow> ustates t = ustates s \<Longrightarrow> Q t) \<Longrightarrow> post Q (upd_pcb p f (s :: kernel))"
  by (simp add: post_def upd_pcb_def ustates_def split: option.splits)

lemmas flag_intros = post_rules post_read post_LDST post_removeProcQ post_stateCopy post_insertReady
  post_upd_state flag_upd_pcb

lemma createProcess_flag: "post (\<lambda>(e, t). waitFlag t = waitFlag s \<and> ustates t = ustates s) (createProcess s)"
  unfolding createProcess_def allocPcb_def cleanPcb_def insertChild_def emptyChild_def stateCopyPCB_def
  by (intro flag_intros; simp add: kept_def)

end
