(* ===== verification/Family_Tree.thy ===== *)
theory Family_Tree
  imports Nucleus_Frame
begin

text \<open>
  The family tree of all processes, and how SYS 1 and SYS 2 change it: \<open>graft\<close> gives a process a
  new youngest child, \<open>prune\<close> takes a process out with its descendants.
\<close>

section \<open>Trees of processes\<close>

fun subtrees :: "ptree \<Rightarrow> ptree list" where
  "subtrees (PNode p ts) = PNode p ts # concat (map subtrees ts)"

fun graft :: "nat \<Rightarrow> nat \<Rightarrow> ptree \<Rightarrow> ptree" where
  "graft p q (PNode x ts) =
     PNode x ((if x = p then [PNode q []] else []) @ map (graft p q) ts)"

fun prune :: "nat \<Rightarrow> ptree \<Rightarrow> ptree" where
  "prune p (PNode x ts) = PNode x (map (prune p) (filter (\<lambda>t. pid t \<noteq> p) ts))"

lemma pid_graft [simp]: "pid (graft p q t) = pid t"
  by (cases t) simp

lemma pid_prune [simp]: "pid (prune p t) = pid t"
  by (cases t) simp

lemma links_fields:
  assumes "links s' = links s"
  shows "p_prnt (procTable s' q) = p_prnt (procTable s q)" "p_child (procTable s' q) = p_child (procTable s q)"
    "p_sib (procTable s' q) = p_sib (procTable s q)" "p_prevsib (procTable s' q) = p_prevsib (procTable s q)"
  using fun_cong [OF assms, of q] by (simp_all add: links_def kin_def)

lemma children_links:
  assumes "links s' = links s"
  shows "children (procTable s') r cs = children (procTable s) r cs"
  by (rule children_cong) (simp_all add: links_fields [OF assms])

lemma family_links:
  assumes "links s' = links s"
  shows "family (procTable s') t = family (procTable s) t"
  by (induction t) (auto simp: children_links [OF assms])

lemma subtrees_self [simp]: "t \<in> set (subtrees t)"
  by (cases t) simp

lemma subtrees_members:
  "u \<in> set (subtrees t) \<Longrightarrow> set (members u) \<subseteq> set (members t)"
  by (induction t) fastforce

lemma members_subtree: "p \<in> set (members t) \<Longrightarrow> \<exists>u\<in>set (subtrees t). pid u = p"
  by (induction t) force

lemma family_subtree: "family T t \<Longrightarrow> u \<in> set (subtrees t) \<Longrightarrow> family T u"
  by (induction t) auto

lemma distinct_subtree: "distinct (members t) \<Longrightarrow> u \<in> set (subtrees t) \<Longrightarrow> distinct (members u)"
  by (induction t) (auto dest: distinct_concat_mapD(1))

lemma family_links_typed:
  assumes "family T t" "p \<in> set (members t)"
  shows "block_ptr (p_child (T p)) \<and> (\<forall>c. p_child (T p) = Some c \<longrightarrow> p_prnt (T c) = Some p)"
proof -
  obtain u where u: "u \<in> set (subtrees t)" "pid u = p" using members_subtree [OF assms(2)] by blast
  obtain ts where "u = PNode p ts" using u(2) by (cases u) auto
  with family_subtree [OF assms(1) u(1)] have "children T p (map pid ts)" by simp
  then show ?thesis by (cases ts) (auto simp: children_def block_ptr_def)
qed

text \<open>Every process but the root has a parent, that has it among its children.\<close>

lemma subtree_parent:
  assumes "u \<in> set (subtrees t)" "u \<noteq> t"
  shows "\<exists>r as bs. PNode r (as @ u # bs) \<in> set (subtrees t)"
  using assms
proof (induction t)
  case (PNode x ts)
  then obtain v where v: "v \<in> set ts" "u \<in> set (subtrees v)" by auto
  show ?case
  proof (cases "u = v")
    case True
    then obtain as bs where "ts = as @ u # bs" using v(1) by (meson split_list)
    then show ?thesis by auto
  next
    case False
    from PNode.IH [OF v False] obtain r as bs where "PNode r (as @ u # bs) \<in> set (subtrees v)" by blast
    then show ?thesis using v(1) by (intro exI [of _ r] exI [of _ as] exI [of _ bs]) auto
  qed
qed

text \<open>In a tree without repetitions a process is in one branch only.\<close>

lemma one_branch:
  assumes "distinct (concat (map members ts))" "p \<in> set (concat (map members ts))"
  obtains as v bs where "ts = as @ v # bs" "p \<in> set (members v)"
    "\<forall>w\<in>set as \<union> set bs. set (members w) \<inter> set (members v) = {}"
proof -
  obtain v where v: "v \<in> set ts" "p \<in> set (members v)" using assms(2) by auto
  then obtain as bs where "ts = as @ v # bs" by (meson split_list)
  moreover then have "\<forall>w\<in>set as \<union> set bs. set (members w) \<inter> set (members v) = {}" using assms(1) by auto
  ultimately show thesis using v(2) that by blast
qed

lemma graft_absent: "p \<notin> set (members t) \<Longrightarrow> graft p q t = t"
  by (induction t) (auto intro: map_idI)

lemma prune_absent: "p \<notin> set (members t) \<Longrightarrow> prune p t = t"
proof (induction t)
  case (PNode x ts)
  have "filter (\<lambda>t. pid t \<noteq> p) ts = ts"
    using PNode.prems pid_members by (intro filter_True) force
  moreover have "map (prune p) ts = ts" using PNode by (intro map_idI) auto
  ultimately show ?case by simp
qed

lemma members_graft:
  "distinct (members t) \<Longrightarrow> p \<in> set (members t) \<Longrightarrow> mset (members (graft p q t)) = add_mset q (mset (members t))"
proof (induction t)
  case (PNode x ts)
  have d: "distinct (concat (map members ts))" "x \<notin> set (concat (map members ts))" using PNode.prems by auto
  show ?case
  proof (cases "x = p")
    case True
    then have "map (graft p q) ts = ts" using d(2) by (intro map_idI graft_absent) auto
    then show ?thesis using True by simp
  next
    case False
    then have "p \<in> set (concat (map members ts))" using PNode.prems(2) by simp
    from one_branch [OF d(1) this] obtain as v bs where ts: "ts = as @ v # bs" and p: "p \<in> set (members v)"
      and o: "\<forall>w\<in>set as \<union> set bs. set (members w) \<inter> set (members v) = {}" .
    have "map (graft p q) as = as" "map (graft p q) bs = bs"
      using o p by (intro map_idI graft_absent; blast)+
    moreover have "mset (members (graft p q v)) = add_mset q (mset (members v))"
      using PNode.IH [of v] p d(1) by (simp add: ts)
    ultimately show ?thesis using False by (simp add: ts)
  qed
qed

lemma members_prune:
  "distinct (members t) \<Longrightarrow> u \<in> set (subtrees t) \<Longrightarrow> pid u \<noteq> pid t \<Longrightarrow>
   mset (members t) = mset (members (prune (pid u) t)) + mset (members u)"
proof (induction t)
  case (PNode x ts)
  have d: "distinct (concat (map members ts))" "x \<notin> set (concat (map members ts))" using PNode.prems by auto
  let ?p = "pid u"
  obtain v0 where v0: "v0 \<in> set ts" "u \<in> set (subtrees v0)" using PNode.prems(2,3) by auto
  have "?p \<in> set (members v0)" using subtrees_members [OF v0(2)] pid_members by blast
  then have "?p \<in> set (concat (map members ts))" using v0(1) by auto
  from one_branch [OF d(1) this] obtain as v bs where ts: "ts = as @ v # bs" and p: "?p \<in> set (members v)"
    and o: "\<forall>w\<in>set as \<union> set bs. set (members w) \<inter> set (members v) = {}" .
  have v: "u \<in> set (subtrees v)" using v0 \<open>?p \<in> set (members v0)\<close> o p unfolding ts by auto
  have out: "\<forall>w\<in>set as \<union> set bs. ?p \<notin> set (members w)" using o p by blast
  then have np: "\<forall>w\<in>set as \<union> set bs. pid w \<noteq> ?p" using pid_members by metis
  have same: "map (prune ?p) as = as" "map (prune ?p) bs = bs" using out by (intro map_idI prune_absent; blast)+
  have f: "filter (\<lambda>t. pid t \<noteq> ?p) as = as" "filter (\<lambda>t. pid t \<noteq> ?p) bs = bs"
    using np by (intro filter_True; blast)+
  show ?case
  proof (cases "?p = pid v")
    case True
    have "u = v"
    proof (rule ccontr)
      assume "u \<noteq> v"
      from subtree_parent [OF v this] obtain r as' bs' where w: "PNode r (as' @ u # bs') \<in> set (subtrees v)" by blast
      have "?p \<in> set (doomed v)"
      proof -
        obtain y us where vy: "v = PNode y us" by (cases v)
        have "\<exists>z\<in>set us. u \<in> set (subtrees z)" using v \<open>u \<noteq> v\<close> by (auto simp: vy)
        then show ?thesis using subtrees_members pid_members set_doomed_all [of us] unfolding vy by fastforce
      qed
      then show False using pid_doomed [of v] True d(1) by (simp add: ts)
    qed
    then show ?thesis using same f by (simp add: ts)
  next
    case False
    have "mset (members v) = mset (members (prune ?p v)) + mset (members u)"
      using PNode.IH [of v] v False d(1) by (simp add: ts)
    then show ?thesis using same f False by (simp add: ts)
  qed
qed

section \<open>The links after SYS 1 and SYS 2\<close>

lemma family_graft:
  assumes new: "q \<notin> set (members t)" and d: "distinct (members t)" and f: "family T t"
    and ch: "\<And>cs. children T p cs \<Longrightarrow> children T' p (q # cs)" and q: "children T' q []"
    and others: "\<And>x ds. x \<noteq> p \<Longrightarrow> x \<noteq> q \<Longrightarrow> q \<notin> set ds \<Longrightarrow> (\<forall>c\<in>set ds. p_prnt (T c) \<noteq> Some p) \<Longrightarrow>
      children T x ds \<Longrightarrow> children T' x ds"
  shows "family T' (graft p q t)"
  using new d f
proof (induction t)
  case (PNode x ts)
  have ih: "\<forall>u\<in>set ts. family T' (graft p q u)"
    using PNode by (auto dest: distinct_concat_mapD(1))
  have c: "children T x (map pid ts)" using PNode.prems(3) by simp
  show ?case
  proof (cases "x = p")
    case True
    then show ?thesis using ih ch [of "map pid ts"] c q by (simp add: o_def)
  next
    case False
    have "\<forall>y\<in>set (map pid ts). p_prnt (T y) \<noteq> Some p" using c False by (simp add: children_def)
    moreover have "q \<notin> set (map pid ts)" using PNode.prems(1) pid_members by fastforce
    ultimately have "children T' x (map pid ts)" using others [of x "map pid ts"] False PNode.prems(1) c by simp
    then show ?thesis using ih False by (simp add: o_def)
  qed
qed


text \<open>The descendants of a process are not its siblings.\<close>

lemma child_doomed: "t \<in> set (subtrees v) \<Longrightarrow> t \<noteq> v \<Longrightarrow> set (members t) \<subseteq> set (doomed v)"
proof (cases v)
  case (PNode y us)
  assume t: "t \<in> set (subtrees v)" "t \<noteq> v"
  then obtain z where z: "z \<in> set us" "t \<in> set (subtrees z)" by (auto simp: PNode)
  then have "set (members t) \<subseteq> set (members z)" using subtrees_members by blast
  moreover have "set (members z) \<subseteq> set (doomed v)" using z(1) set_doomed_all [of us] by (auto simp: PNode)
  ultimately show ?thesis by blast
qed

lemma children_doomed:
  assumes "PNode r (as @ u # bs) \<in> set (subtrees v)"
  shows "set (members u) \<union> set (map pid as) \<union> set (map pid bs) \<subseteq> set (doomed v)"
proof -
  have "set (members w) \<subseteq> set (doomed v)" if "w \<in> set (as @ u # bs)" for w
  proof (cases "PNode r (as @ u # bs) = v")
    case True
    show ?thesis using that set_doomed_all [of "as @ u # bs"] unfolding True [symmetric] by auto
  next
    case False
    have "set (members w) \<subseteq> set (members (PNode r (as @ u # bs)))" using that by auto
    also have "\<dots> \<subseteq> set (doomed v)" by (rule child_doomed [OF assms False])
    finally show ?thesis .
  qed
  then have "set (members w) \<subseteq> set (doomed v)" "pid w \<in> set (doomed v)" if "w \<in> set (as @ u # bs)" for w
    using that pid_members by blast+
  then show ?thesis by auto
qed

lemma family_prune:
  assumes "distinct (members t)" "family T t" "PNode r (as @ u # bs) \<in> set (subtrees t)"
    and ch: "children T' r (map pid (as @ bs))"
    and k: "same_kin (set (members u) \<union> set (map pid as) \<union> set (map pid bs)) (insert r (set (members u))) T T'"
      (is "same_kin ?P ?C T T'")
  shows "family T' (prune (pid u) t)"
  using assms(1-3)
proof (induction t)
  case (PNode x ts)
  let ?p = "pid u" and ?w = "PNode r (as @ u # bs)"
  have d: "distinct (concat (map members ts))" "x \<notin> set (concat (map members ts))" using PNode.prems by auto
  have fam: "\<forall>v\<in>set ts. family T v" and cx: "children T x (map pid ts)" using PNode.prems(2) by auto
  show ?case
  proof (cases "x = r")
    case True
    have "?w = PNode x ts"
    proof (rule ccontr)
      assume "?w \<noteq> PNode x ts"
      then have "set (members ?w) \<subseteq> set (doomed (PNode x ts))" by (intro child_doomed PNode.prems(3))
      then show False using pid_doomed [OF PNode.prems(1)] True by simp
    qed
    then have ts: "ts = as @ u # bs" by simp
    have o: "?p \<notin> set (members v)" "set (doomed v) \<inter> ?P = {}" "set (members v) \<inter> ?C = {}" if "v \<in> set as \<union> set bs" for v
    proof -
      have m: "set (members v) \<inter> set (members u) = {}" using that d(1) by (auto simp: ts)
      then show "?p \<notin> set (members v)" using pid_members by blast
      have v: "v \<in> set ts" using that by (auto simp: ts)
      then show "set (members v) \<inter> ?C = {}" using m d(2) True by auto
      have "pid w \<notin> set (doomed v)" if "w \<in> set ts" for w using pid_apart [OF d(1) v that] .
      then have "set (doomed v) \<inter> (set (map pid as) \<union> set (map pid bs)) = {}" by (auto simp: ts)
      moreover have "set (doomed v) \<subseteq> set (members v)" using set_members by blast
      ultimately show "set (doomed v) \<inter> ?P = {}" using m by blast
    qed
    have same: "map (prune ?p) as = as" "map (prune ?p) bs = bs"
      using o(1) by (intro map_idI prune_absent; blast)+
    have np: "pid v \<noteq> ?p" if "v \<in> set as \<union> set bs" for v using o(1) [OF that] pid_members [of v] by fastforce
    have f: "filter (\<lambda>t. pid t \<noteq> ?p) as = as" "filter (\<lambda>t. pid t \<noteq> ?p) bs = bs"
      using np by (intro filter_True; blast)+
    have "family T' v" if "v \<in> set as \<union> set bs" for v
      using family_same [OF k o(2,3) [OF that]] fam that by (auto simp: ts)
    then have "\<forall>v\<in>set (as @ bs). family T' v" by simp
    moreover have "prune ?p (PNode x ts) = PNode r (as @ bs)" using True same f by (simp add: ts)
    ultimately show ?thesis using ch by simp
  next
    case False
    then obtain v0 where v0: "v0 \<in> set ts" "?w \<in> set (subtrees v0)" using PNode.prems(3) by auto
    have inv: "?C \<subseteq> set (members v0)" using subtrees_members [OF v0(2)] by auto
    have P: "?P \<subseteq> set (doomed v0)" by (rule children_doomed [OF v0(2)])
    have pd: "?p \<in> set (doomed v0)" using P pid_members by blast
    have np: "pid v \<notin> set (doomed v0)" if "v \<in> set ts" for v using pid_apart [OF d(1) v0(1) that] .
    have "set (map pid ts) \<inter> set (doomed v0) = {}" using np by auto
    then have "set (map pid ts) \<inter> ?P = {}" using P by blast
    moreover have "x \<notin> ?C" using False d(2) v0(1) inv by auto
    ultimately have "children T' x (map pid ts)" using same_kin_children [OF k] cx by blast
    moreover have f: "filter (\<lambda>t. pid t \<noteq> ?p) ts = ts" using np pd by (intro filter_True) metis
    moreover have "family T' (prune ?p v)" if v: "v \<in> set ts" for v
    proof (cases "v = v0")
      case True
      show ?thesis using PNode.IH [OF v] v0 fam v distinct_concat_mapD(1) [OF d(1) v] unfolding True by blast
    next
      case False
      have m: "set (members v) \<inter> set (members v0) = {}" using distinct_concat_mapD(2) [OF d(1) v v0(1) False] .
      moreover have "set (doomed v) \<subseteq> set (members v)" "set (doomed v0) \<subseteq> set (members v0)" using set_members by blast+
      ultimately have "set (doomed v) \<inter> ?P = {}" "set (members v) \<inter> ?C = {}" "?p \<notin> set (members v)"
        using P inv pd by blast+
      then show ?thesis using family_same [OF k, of v] fam v by (simp add: prune_absent)
    qed
    ultimately show ?thesis by (simp add: o_def)
  qed
qed

section \<open>SYS 2\<close>

text \<open>
  C25. SYS 2 ends a process with its whole family: when the running process is no root and each
  descendant, in its turn, can be taken off its queue, the recursion ends; the descendants
  bottom-up and then the process are appended to the free list, they leave the ready queue and
  every semaphore's queue, each semaphore that is no device's goes up by the number of its waiting processes
  that died, the counters follow, the process leaves its parent's children, whose other members stay in their order,
  no other process gets another parent or another first child, and the next process
  is dispatched. If none is ready, currentProcess still points to the freed block.
\<close>

theorem SYS2_terminates_family:
  assumes "krel s A" and "st_mem s SYSCALLOLDAREA = Some st" and "kernel_mode st" and "s_a0 st = 2"
    and "a_run A = Some (pid t)" and "family (procTable s) t" and "distinct (members t)"
    and "orderly (doomed t) A" and "children (procTable s) r (as @ pid t # bs)" and "r \<notin> set (members t)"
  defines "D \<equiv> doomed t"
  shows "\<exists>s' B. sysCallHandler s = Some (a_exit B, s')
    \<and> (if a_ready B = [] then currentProcess s' = Some (pid t) \<and> krel (s'\<lparr>currentProcess := None\<rparr>) B
       else krel s' (a_dispatch B))
    \<and> a_run B = None \<and> a_ctx B = a_ctx A \<and> a_free B = a_free A @ D @ [pid t]
    \<and> a_ready B = filter (\<lambda>q. q \<notin> set D) (a_ready A)
    \<and> (\<forall>a. a_waits B a = filter (\<lambda>q. q \<notin> set D) (a_waits A a))
    \<and> (\<forall>a. a_sem B a = (if is_dev (a_base A) a then a_sem A a
         else map_option (\<lambda>v. v + of_nat (length (filter (\<lambda>q. q \<in> set D) (a_waits A a)))) (a_sem A a)))
    \<and> children (procTable s') r (as @ bs)
    \<and> (\<forall>q. q \<notin> set (members t) \<longrightarrow> p_prnt (procTable s' q) = p_prnt (procTable s q)
         \<and> (q \<noteq> r \<longrightarrow> p_child (procTable s' q) = p_child (procTable s q)))"
proof -
  let ?B = "a_terminate (pid t) D A"
  note adv = advanced_simps [OF assms(1,2)]
  obtain s1 where s1: "terminateRecursively (Some (pid t)) (advanced s st) = Some s1" "currentProcess s1 = Some (pid t)"
    "krel (s1\<lparr>currentProcess := None\<rparr>) ?B" "children (procTable s1) r (as @ bs)"
    and kin: "same_kin (set (members t) \<union> set as \<union> set bs) (insert r (set (members t))) (procTable s) (procTable s1)"
    using terminateRecursively_run [OF adv(1) assms(5) refl _ assms(7,8) _ assms(10)] assms(6,9)
    unfolding adv(3) D_def by blast
  obtain s' where go: "terminateProcess (advanced s st) = Some (a_exit ?B, s')"
    "if a_ready ?B = [] then currentProcess s' = Some (pid t) \<and> krel (s'\<lparr>currentProcess := None\<rparr>) ?B
       else krel s' (a_dispatch ?B)"
    using terminateProcess_run [OF adv(1) assms(5) refl _ assms(7,8) _ assms(10)] assms(6,9)
    unfolding adv(3) D_def by blast
  have "scheduler s1 = Some (a_exit ?B, s')"
    using go(1) s1(1) krelD(2) [OF adv(1)] assms(5) by (simp add: terminateProcess_def)
  then have links: "links s' = links s1" using postD [OF _ post_scheduler, of s1 _ "\<lambda>(e, t). links t = links s1"] by fastforce
  have ch: "children (procTable s') r (as @ bs)" using children_links [OF links] s1(4) by simp
  have prnt: "p_prnt (procTable s1 q) = p_prnt (procTable s q)" if q: "q \<notin> set (members t)" for q
  proof (cases "q \<in> set as \<union> set bs")
    case True
    then show ?thesis using s1(4) assms(9) by (auto simp: children_def)
  next
    case False
    then show ?thesis using kin q by (simp add: same_kin_def)
  qed
  have same: "\<forall>q. q \<notin> set (members t) \<longrightarrow> p_prnt (procTable s' q) = p_prnt (procTable s q)
      \<and> (q \<noteq> r \<longrightarrow> p_child (procTable s' q) = p_child (procTable s q))"
    using links_fields [OF links] prnt kin by (simp add: same_kin_def)
  have k: "kq s (a_free A) (a_ready A) (a_waits A) (hand (a_run A))" by (rule krelD(1) [OF assms(1)])
  have dr: "distinct (a_ready A)" using kq_distinct(1) [OF k] by simp
  have dw: "\<And>a. distinct (a_waits A a)" by (rule kq_wait_distinct [OF k])
  have dd: "distinct D" unfolding D_def by (rule distinct_doomed [OF assms(7)])
  show ?thesis
  proof (intro exI conjI)
    show "sysCallHandler s = Some (a_exit ?B, s')" using go(1) sysCall_kernel(2) [OF assms(2-4)] by simp
  qed (use go(2) a_kill_ready [of A D] a_kill_waits [of A D] a_kill_sem [of A D] dr dw dd ch same in
      \<open>simp_all add: a_terminate_def\<close>)
qed

theorem SYS2_terminates_family_witness:
  "\<exists>s' B. sysCallHandler (ex_kin (Some 1)) = Some (Exit_LDST ex_state, s') \<and> krel s' (a_dispatch B)
     \<and> p_child (procTable s' 1) = None
     \<and> a_ready B = [1] \<and> a_free B = [5..<20] @ [4, 3, 2, 0]
     \<and> a_sem B 0x20001000 = Some 0 \<and> a_waits B 0x20001000 = []"
proof -
  have ord: "orderly (doomed ex_tree) ex_abs" using ex_orderly by simp
  have pre: "s_a0 (sys_state 2 0 0 0) = 2" "a_run ex_abs = Some (pid ex_tree)"
    "distinct (members ex_tree)" "1 \<notin> set (members ex_tree)" by simp_all
  have c: "children (procTable (ex_kin (Some 1))) 1 ([] @ pid ex_tree # [])" using ex_kin_family by simp
  obtain s' B where B: "sysCallHandler (ex_kin (Some 1)) = Some (a_exit B, s')"
    "if a_ready B = [] then currentProcess s' = Some (pid ex_tree) \<and> krel (s'\<lparr>currentProcess := None\<rparr>) B
       else krel s' (a_dispatch B)"
    "a_ctx B = a_ctx ex_abs" "a_free B = a_free ex_abs @ doomed ex_tree @ [pid ex_tree]"
    "a_ready B = filter (\<lambda>q. q \<notin> set (doomed ex_tree)) (a_ready ex_abs)"
    "\<forall>a. a_waits B a = filter (\<lambda>q. q \<notin> set (doomed ex_tree)) (a_waits ex_abs a)"
    "\<forall>a. a_sem B a = (if is_dev (a_base ex_abs) a then a_sem ex_abs a
         else map_option (\<lambda>v. v + of_nat (length (filter (\<lambda>q. q \<in> set (doomed ex_tree)) (a_waits ex_abs a)))) (a_sem ex_abs a))"
    "children (procTable s') 1 ([] @ [])"
    using SYS2_terminates_family [OF ex_kin_krel ex_kin_family(4) kernel_mode_ex _ _ ex_kin_family(1) _ ord c]
      pre by blast
  have "a_ctx B 1 = ex_state" using B(3) by (simp add: ex_abs_def)
  moreover have "a_ready B = [1]" using B(5) by simp
  moreover have "a_sem B 0x20001000 = Some 0" "a_waits B 0x20001000 = []"
    using B(6,7) ex_range(2) by simp_all
  moreover have "p_child (procTable s' 1) = None" using B(8) by (simp add: children_def)
  ultimately show ?thesis using B(1,2,4) by (auto simp: a_exit_def)
qed

end
