(* ===== verification/Nucleus_System.thy ===== *)
theory Nucleus_System
  imports Family_Tree
begin

text \<open>
  The nucleus as a whole: a transition system whose states are the abstract kernel and the family
  tree, the events that enter the nucleus, and the proof that the code does every abstract step.
\<close>

section \<open>Events\<close>

text \<open>
  What happens between two dispatches: the running process writes an integer of its own, makes a
  system call (for SYS 1 it has put a state into memory), or an interrupt arrives, with the
  interrupt bitmaps and the device registers at that moment. The machine saves the processor
  state in an old area and starts the handler.
\<close>

datatype event =
    Store memaddr word32
  | Create state_t state_t
  | Syscall state_t
  | Interrupt state_t "nat \<Rightarrow> word32" "nat \<Rightarrow> device_t"

fun handle :: "event \<Rightarrow> kernel \<Rightarrow> (kexit option \<times> kernel) option" where
  "handle (Store a v) s = Some (None, s\<lparr>int_mem := (int_mem s)(a \<mapsto> v)\<rparr>)"
| "handle (Create st cst) s =
     map_option (map_prod Some id) (sysCallHandler
       (s\<lparr>st_mem := (st_mem s)(s_a1 st \<mapsto> cst, SYSCALLOLDAREA \<mapsto> st)\<rparr>))"
| "handle (Syscall st) s =
     map_option (map_prod Some id) (sysCallHandler (s\<lparr>st_mem := (st_mem s)(SYSCALLOLDAREA \<mapsto> st)\<rparr>))"
| "handle (Interrupt st f regs) s =
     map_option (map_prod Some id) (interruptHandler
       (s\<lparr>st_mem := (st_mem s)(INTERRUPTOLDAREA \<mapsto> st),
          busreg := (busreg s)\<lparr>interrupt_dev := f, devreg := regs\<rparr>\<rparr>))"

section \<open>The abstract system\<close>

type_synonym spec = "akernel \<times> ptree"

text \<open>The running process makes system call \<open>n\<close>, in kernel mode.\<close>

definition calls :: "word32 \<Rightarrow> state_t \<Rightarrow> akernel \<Rightarrow> bool" where
  "calls n st A \<longleftrightarrow> a_run A \<noteq> None \<and> wf_state st \<and> kernel_mode st \<and> s_a0 st = n"

text \<open>Device \<open>d\<close> of line \<open>l\<close> interrupts; its semaphore and the status that is returned.\<close>

definition signals :: "int \<Rightarrow> nat \<Rightarrow> state_t \<Rightarrow> (nat \<Rightarrow> word32) \<Rightarrow> bool" where
  "signals l d st f \<longleftrightarrow> wf_state st \<and> getLineNumber (s_cause st) = l \<and> 3 \<le> l \<and> l \<le> 7
     \<and> lowestDevice (f (nat (l - 3))) = int d \<and> d < 8"

definition sig_sem :: "int \<Rightarrow> nat \<Rightarrow> (nat \<Rightarrow> device_t) \<Rightarrow> nat" where
  "sig_sem l d regs = io_index l (int d) (from_receiver l (regs (dev_slot l d)))"

definition sig_status :: "int \<Rightarrow> nat \<Rightarrow> (nat \<Rightarrow> device_t) \<Rightarrow> word32" where
  "sig_status l d regs = fst (ack l (regs (dev_slot l d)))"

abbreviation idle :: "akernel \<Rightarrow> bool" where
  "idle A \<equiv> a_run A = None \<and> soft (a_base A) (a_waits A) \<noteq> 0"

inductive astep :: "spec \<Rightarrow> event \<Rightarrow> kexit option \<Rightarrow> spec \<Rightarrow> bool" where
  store: "a_run A \<noteq> None \<Longrightarrow> a_sem A a \<noteq> None \<Longrightarrow> \<not> is_dev (a_base A) a \<Longrightarrow>
    astep (A, t) (Store a v) None (a_setsem a v A, t)"
| create: "calls 1 st A \<Longrightarrow> a_run A = Some p \<Longrightarrow> a_free A = q # F \<Longrightarrow> wf_state cst \<Longrightarrow>
    s_a1 st \<noteq> SYSCALLOLDAREA \<Longrightarrow>
    astep (A, t) (Create st cst) (Some (Exit_LDST (set_v0 0 (adv st)))) (a_fork cst A, graft p q t)"
| terminate: "calls 2 st A \<Longrightarrow> a_run A = Some (pid u) \<Longrightarrow> u \<in> set (subtrees t) \<Longrightarrow> pid u \<noteq> pid t \<Longrightarrow>
    orderly (doomed u) A \<Longrightarrow> B = a_terminate (pid u) (doomed u) A \<Longrightarrow> a_ready B \<noteq> [] \<Longrightarrow>
    astep (A, t) (Syscall st) (Some (a_exit B)) (a_dispatch B, prune (pid u) t)"
| verhogen: "calls 3 st A \<Longrightarrow> a_sem A (s_a1 st) \<noteq> None \<Longrightarrow> s_a1 st < MAXINT \<Longrightarrow>
    \<not> is_dev (a_base A) (s_a1 st) \<Longrightarrow>
    astep (A, t) (Syscall st) (Some (Exit_LDST (adv st))) (a_V (s_a1 st) A, t)"
| passeren_go: "calls 4 st A \<Longrightarrow> a_sem A (s_a1 st) = Some v \<Longrightarrow> 0 < s_a1 st \<Longrightarrow> s_a1 st < MAXINT \<Longrightarrow>
    \<not> is_dev (a_base A) (s_a1 st) \<Longrightarrow> \<not> sint (v - 1) < 0 \<Longrightarrow>
    astep (A, t) (Syscall st) (Some (Exit_LDST (adv st))) (a_P (s_a1 st) (adv st) A, t)"
| passeren_wait: "calls 4 st A \<Longrightarrow> a_sem A (s_a1 st) = Some v \<Longrightarrow> 0 < s_a1 st \<Longrightarrow> s_a1 st < MAXINT \<Longrightarrow>
    \<not> is_dev (a_base A) (s_a1 st) \<Longrightarrow> sint (v - 1) < 0 \<Longrightarrow> B = a_P (s_a1 st) (adv st) A \<Longrightarrow>
    astep (A, t) (Syscall st) (Some (a_exit B)) (a_dispatch B, t)"
| cpu_time: "calls 6 st A \<Longrightarrow>
    astep (A, t) (Syscall st) (Some (Exit_LDST (set_v0 u (adv st)))) (A, t)"
| wait_clock: "calls 7 st A \<Longrightarrow> a = devsem (a_base A) CLOCKSEM \<Longrightarrow> a_sem A a = Some v \<Longrightarrow>
    sint (v - 1) < 0 \<Longrightarrow> B = a_P a (adv st) A \<Longrightarrow>
    astep (A, t) (Syscall st) (Some (a_exit B)) (a_dispatch B, t)"
| wait_io: "calls 8 st A \<Longrightarrow> io_args_ok st \<Longrightarrow> a = devsem (a_base A) (ioSem st) \<Longrightarrow> a_sem A a = Some v \<Longrightarrow>
    sint (v - 1) < 0 \<Longrightarrow> B = a_P a (adv st) A \<Longrightarrow>
    astep (A, t) (Syscall st) (Some (a_exit B)) (a_dispatch B, t)"
| quantum: "wf_state st \<Longrightarrow> getLineNumber (s_cause st) = 1 \<Longrightarrow> a_run A \<noteq> None \<Longrightarrow> B = a_preempt st A \<Longrightarrow>
    astep (A, t) (Interrupt st f regs) (Some (a_exit B)) (a_dispatch B, t)"
| tick_running: "wf_state st \<Longrightarrow> getLineNumber (s_cause st) = 2 \<Longrightarrow> a_run A \<noteq> None \<Longrightarrow>
    astep (A, t) (Interrupt st f regs) (Some (Exit_LDST st)) (a_tick_if A, t)"
| tick_idle: "wf_state st \<Longrightarrow> getLineNumber (s_cause st) = 2 \<Longrightarrow> idle A \<Longrightarrow> B = a_tick_if A \<Longrightarrow>
    astep (A, t) (Interrupt st f regs) (Some (a_exit B)) (a_dispatch B, t)"
| device_running: "signals l d st f \<Longrightarrow> a = devsem (a_base A) (sig_sem l d regs) \<Longrightarrow>
    a_waits A a \<noteq> [] \<Longrightarrow> a_run A \<noteq> None \<Longrightarrow>
    astep (A, t) (Interrupt st f regs) (Some (Exit_LDST st)) (a_devV a (sig_status l d regs) A, t)"
| device_idle: "signals l d st f \<Longrightarrow> a = devsem (a_base A) (sig_sem l d regs) \<Longrightarrow>
    a_waits A a \<noteq> [] \<Longrightarrow> idle A \<Longrightarrow> B = a_devV a (sig_status l d regs) A \<Longrightarrow>
    astep (A, t) (Interrupt st f regs) (Some (a_exit B)) (a_dispatch B, t)"

text \<open>A run: the events in order.\<close>

inductive aruns :: "spec \<Rightarrow> event list \<Rightarrow> spec \<Rightarrow> bool" where
  stop: "aruns \<sigma> [] \<sigma>"
| event: "astep \<sigma> e x \<sigma>' \<Longrightarrow> aruns \<sigma>' es \<sigma>'' \<Longrightarrow> aruns \<sigma> (e # es) \<sigma>''"

fun kruns :: "event list \<Rightarrow> kernel \<Rightarrow> kernel option" where
  "kruns [] s = Some s"
| "kruns (e # es) s = do { (x, s') \<leftarrow> handle e s; kruns es s' }"

section \<open>The invariant\<close>

text \<open>No device semaphore exceeds minus the number of processes that wait for the device.\<close>

definition dev_sync :: "akernel \<Rightarrow> bool" where
  "dev_sync A \<longleftrightarrow> (\<forall>i<DEVSEMS. \<exists>v. a_sem A (devsem (a_base A) i) = Some v
     \<and> sint v \<le> - int (length (a_waits A (devsem (a_base A) i))))"

text \<open>\<open>waitFlag\<close> tells whether the processor idles.\<close>

definition flag_ok :: "int \<Rightarrow> akernel \<Rightarrow> bool" where
  "flag_ok w A \<longleftrightarrow> (a_run A \<noteq> None \<longrightarrow> w \<noteq> 1) \<and> (idle A \<longrightarrow> w = 1)"

text \<open>The tree holds exactly the processes that are not free.\<close>

definition tree_ok :: "(nat \<Rightarrow> pcb_t) \<Rightarrow> akernel \<Rightarrow> ptree \<Rightarrow> bool" where
  "tree_ok T A t \<longleftrightarrow> family T t \<and> mset (members t) + mset (a_free A) = mset [0..<MAXPROC]"

definition implements :: "kernel \<Rightarrow> spec \<Rightarrow> bool" where
  "implements s \<sigma> \<longleftrightarrow> (case \<sigma> of (A, t) \<Rightarrow>
     krel s A \<and> tree_ok (procTable s) A t \<and> dev_sync A \<and> flag_ok (waitFlag s) A)"

lemma implementsI:
  "krel s A \<Longrightarrow> tree_ok (procTable s) A t \<Longrightarrow> dev_sync A \<Longrightarrow> flag_ok (waitFlag s) A \<Longrightarrow> implements s (A, t)"
  by (simp add: implements_def)

lemma implementsD:
  assumes "implements s (A, t)"
  shows "krel s A" "tree_ok (procTable s) A t" "dev_sync A" "flag_ok (waitFlag s) A"
  using assms by (simp_all add: implements_def)

text \<open>An operation that keeps the links and the free blocks keeps the tree.\<close>

lemma tree_ok_links:
  "tree_ok (procTable s) A t \<Longrightarrow> links s' = links s \<Longrightarrow> a_free B = a_free A \<Longrightarrow> tree_ok (procTable s') B t"
  using family_links [of s' s t] by (simp add: tree_ok_def)

lemma a_free_same [simp]:
  "a_free (a_dispatch A) = a_free A" "a_free (a_setsem a v A) = a_free A" "a_free (a_wake a A) = a_free A"
  "a_free (a_block a st A) = a_free A" "a_free (a_V a A) = a_free A" "a_free (a_P a st A) = a_free A"
  "a_free (a_preempt st A) = a_free A" "a_free (a_tick_if A) = a_free A" "a_free (a_devV a u A) = a_free A"
  by (simp_all add: a_ops a_V_def a_P_def a_preempt_def a_tick_if_def a_tick_def a_devV_def Let_def
      split: list.splits option.splits)

lemma a_base_same [simp]:
  "a_base (a_dispatch A) = a_base A" "a_base (a_setsem a v A) = a_base A" "a_base (a_wake a A) = a_base A"
  "a_base (a_block a st A) = a_base A" "a_base (a_V a A) = a_base A" "a_base (a_P a st A) = a_base A"
  "a_base (a_preempt st A) = a_base A" "a_base (a_tick_if A) = a_base A" "a_base (a_devV a u A) = a_base A"
  by (simp_all add: a_ops a_V_def a_P_def a_preempt_def a_tick_if_def a_tick_def a_devV_def Let_def
      split: list.splits option.splits)

lemma a_base_new [simp]: "a_base (a_fork cst A) = a_base A" "a_base (a_terminate p ds A) = a_base A"
  by (simp_all add: a_fork_def a_terminate_def split: list.splits)


section \<open>Device semaphores\<close>

lemma sint_less: "sint (v :: word32) < 2 ^ 31" "- (2 ^ 31) \<le> sint (v :: word32)"
  using sint_lt [of v] sint_ge [of v] by simp_all

lemma sint_plus:
  fixes v w :: word32
  assumes "- (2 ^ 31) \<le> sint v + sint w" "sint v + sint w < 2 ^ 31"
  shows "sint (v + w) = sint v + sint w"
proof -
  have "sint (v + w) = signed_take_bit 31 (sint v + sint w)" by (simp add: sint_word_ariths)
  also have "\<dots> = sint v + sint w" using assms by (intro signed_take_bit_int_eq_self) simp_all
  finally show ?thesis .
qed

lemma sint_succ: "sint (v :: word32) < 0 \<Longrightarrow> sint (v + 1) = sint v + 1"
  using sint_less [of v] sint_plus [of v 1] by simp

lemma sint_pred:
  assumes "sint (v :: word32) \<le> 0" "sint (v - 1) < 0"
  shows "sint (v - 1) = sint v - 1"
proof -
  have "sint ((v - 1) + 1) = sint (v - 1) + 1" by (rule sint_succ [OF assms(2)])
  then show ?thesis by simp
qed

lemma sint_add_nat:
  assumes "sint (v :: word32) \<le> - int n" "n \<le> MAXPROC"
  shows "sint (v + word_of_nat n) = sint v + int n"
proof -
  have n: "int n < 2 ^ 31" using assms(2) by (simp add: MAXPROC_def)
  then have "sint (word_of_nat n :: word32) = int n"
    by (simp add: signed_of_nat signed_take_bit_int_eq_self)
  then show ?thesis using assms(1) sint_less [of v] n by (subst sint_plus) simp_all
qed

text \<open>Changes away from the device semaphores.\<close>

lemma dev_sync_cong:
  assumes "dev_sync A" "a_base B = a_base A"
    and "\<And>i. i < DEVSEMS \<Longrightarrow> a_sem B (devsem (a_base A) i) = a_sem A (devsem (a_base A) i)
      \<and> length (a_waits B (devsem (a_base A) i)) \<le> length (a_waits A (devsem (a_base A) i))"
  shows "dev_sync B"
  unfolding dev_sync_def assms(2)
proof (intro allI impI)
  fix i assume i: "i < DEVSEMS"
  then obtain v where "a_sem A (devsem (a_base A) i) = Some v"
    "sint v \<le> - int (length (a_waits A (devsem (a_base A) i)))"
    using assms(1) unfolding dev_sync_def by blast
  with assms(3) [OF i] show "\<exists>v. a_sem B (devsem (a_base A) i) = Some v
     \<and> sint v \<le> - int (length (a_waits B (devsem (a_base A) i)))" by auto
qed

lemma not_dev: "\<not> is_dev b a \<Longrightarrow> i < DEVSEMS \<Longrightarrow> devsem b i \<noteq> a"
  by (auto simp: is_dev_def)

lemma dev_sync_dispatch [simp]: "dev_sync (a_dispatch A) = dev_sync A"
  by (simp add: dev_sync_def a_dispatch_def split: list.splits)

lemma dev_sync_store: "dev_sync A \<Longrightarrow> \<not> is_dev (a_base A) a \<Longrightarrow> dev_sync (a_setsem a v A)"
  by (erule dev_sync_cong) (auto simp: a_setsem_def dest: not_dev)

lemma dev_sync_V: "dev_sync A \<Longrightarrow> \<not> is_dev (a_base A) a \<Longrightarrow> dev_sync (a_V a A)"
  by (erule dev_sync_cong) (auto simp: a_V_def Let_def a_ops dest: not_dev split: list.splits)

lemma dev_sync_P: "dev_sync A \<Longrightarrow> \<not> is_dev (a_base A) a \<Longrightarrow> dev_sync (a_P a st A)"
  by (erule dev_sync_cong) (auto simp: a_P_def Let_def a_ops dest: not_dev split: option.splits)

lemma dev_sync_fork: "dev_sync A \<Longrightarrow> dev_sync (a_fork cst A)"
  by (erule dev_sync_cong) (auto simp: a_fork_def split: list.splits)

lemma dev_sync_preempt: "dev_sync A \<Longrightarrow> dev_sync (a_preempt st A)"
  by (erule dev_sync_cong) (auto simp: a_preempt_def split: option.splits)

text \<open>A process that starts to wait, one that a device wakes, and all that the clock wakes.\<close>

lemma dev_sync_wait:
  assumes s: "dev_sync A" and b: "dev_range (a_base A)" and i: "i < DEVSEMS"
    and v: "a_sem A (devsem (a_base A) i) = Some v" "sint (v - 1) < 0" and r: "a_run A \<noteq> None"
  shows "dev_sync (a_P (devsem (a_base A) i) st A)"
  unfolding dev_sync_def a_base_same
proof (intro allI impI)
  fix j assume j: "j < DEVSEMS"
  let ?a = "devsem (a_base A)"
  obtain u where u: "a_sem A (?a j) = Some u" "sint u \<le> - int (length (a_waits A (?a j)))"
    using s j unfolding dev_sync_def by blast
  show "\<exists>u. a_sem (a_P (?a i) st A) (?a j) = Some u
     \<and> sint u \<le> - int (length (a_waits (a_P (?a i) st A) (?a j)))"
  proof (cases "j = i")
    case True
    then have "sint (v - 1) \<le> - int (length (a_waits A (?a i))) - 1"
      using u v sint_pred [of v] by simp
    then show ?thesis using True v r by (auto simp: a_P_def a_ops)
  next
    case False
    then have "?a j \<noteq> ?a i" using devsem_inj [OF b] i j by blast
    then show ?thesis using u v r by (auto simp: a_P_def a_ops)
  qed
qed

lemma dev_sync_devV:
  assumes s: "dev_sync A" and b: "dev_range (a_base A)" and i: "i < DEVSEMS"
    and w: "a_waits A (devsem (a_base A) i) \<noteq> []"
  shows "dev_sync (a_devV (devsem (a_base A) i) u A)"
    and "\<exists>v. a_sem A (devsem (a_base A) i) = Some v \<and> sint (v + 1) \<le> 0"
proof -
  let ?a = "devsem (a_base A)"
  obtain p ps where ps: "a_waits A (?a i) = p # ps" using w by (cases "a_waits A (?a i)") auto
  have v: "\<exists>v. a_sem A (?a j) = Some v \<and> sint v \<le> - int (length (a_waits A (?a j)))" if "j < DEVSEMS" for j
    using s that unfolding dev_sync_def by blast
  obtain v where vi: "a_sem A (?a i) = Some v" "sint v \<le> - int (length (a_waits A (?a i)))" using v [OF i] by blast
  then have plus: "sint (v + 1) \<le> - int (length ps)" using ps sint_succ [of v] by simp
  then show "\<exists>v. a_sem A (?a i) = Some v \<and> sint (v + 1) \<le> 0" using vi by auto
  show "dev_sync (a_devV (?a i) u A)"
    unfolding dev_sync_def a_base_same
  proof (intro allI impI)
    fix j assume j: "j < DEVSEMS"
    have "?a j \<noteq> ?a i" if "j \<noteq> i" using devsem_inj [OF b] i j that by blast
    then show "\<exists>v. a_sem (a_devV (?a i) u A) (?a j) = Some v
       \<and> sint v \<le> - int (length (a_waits (a_devV (?a i) u A) (?a j)))"
      using v [OF j] vi plus ps by (cases "j = i") (auto simp: a_devV_def a_ops)
  qed
qed

lemma dev_sync_tick:
  assumes s: "dev_sync A" and b: "dev_range (a_base A)" and n: "length (a_waits A (devsem (a_base A) CLOCKSEM)) \<le> MAXPROC"
  shows "dev_sync (a_tick_if A)"
proof -
  let ?a = "devsem (a_base A)"
  have c: "CLOCKSEM < DEVSEMS" by (simp add: DEVSEMS_49 CLOCKSEM_48)
  have v: "\<exists>v. a_sem A (?a j) = Some v \<and> sint v \<le> - int (length (a_waits A (?a j)))" if "j < DEVSEMS" for j
    using s that unfolding dev_sync_def by blast
  obtain v where vc: "a_sem A (?a CLOCKSEM) = Some v" "sint v \<le> - int (length (a_waits A (?a CLOCKSEM)))"
    using v [OF c] by blast
  have "dev_sync (a_tick A)"
    unfolding dev_sync_def
  proof (intro allI impI)
    fix j assume j: "j < DEVSEMS"
    have "?a j \<noteq> ?a CLOCKSEM" if "j \<noteq> CLOCKSEM" using devsem_inj [OF b] c j that by blast
    then show "\<exists>v. a_sem (a_tick A) (devsem (a_base (a_tick A)) j) = Some v
       \<and> sint v \<le> - int (length (a_waits (a_tick A) (devsem (a_base (a_tick A)) j)))"
      using v [OF j] vc sint_add_nat [OF vc(2) n] by (cases "j = CLOCKSEM") (auto simp: a_tick_def Let_def)
  qed
  then show ?thesis using s by (simp add: a_tick_if_def)
qed

lemma dev_sync_terminate:
  assumes "dev_sync A" "\<And>a. distinct (a_waits A a)" "distinct ds"
  shows "dev_sync (a_terminate p ds A)"
  by (rule dev_sync_cong [OF assms(1)])
    (use a_kill_sem [OF assms(2,3)] a_kill_waits [of A ds] assms(2) in
      \<open>auto simp: a_terminate_def is_dev_def\<close>)


section \<open>The flag\<close>

lemma flag_dispatch:
  assumes "tree_ok T B t" "a_run B = None"
  shows "flag_ok (flag_of (a_exit B) w) (a_dispatch B)"
proof (cases "a_ready B")
  case Nil
  have "length (members t) + length (a_free B) = MAXPROC"
    using arg_cong [of _ _ size, OF conjunct2 [OF assms(1) [unfolded tree_ok_def]]] by simp
  moreover have "members t \<noteq> []" by (cases t) simp
  ultimately have "length (a_free B) \<noteq> MAXPROC" by (cases "members t") auto
  then show ?thesis using Nil assms(2) by (auto simp: flag_ok_def flag_of_def a_exit_def a_dispatch_def)
qed (use assms(2) in \<open>simp add: flag_ok_def flag_of_def a_exit_def a_dispatch_def\<close>)

lemma flag_flagged:
  assumes "flagged s (a_exit B) s'" "tree_ok T B t" "a_run B = None" "waitFlag s \<noteq> 1"
  shows "flag_ok (waitFlag s') (a_dispatch B)"
proof (cases "waitFlag s' = flag_of (a_exit B) (waitFlag s)")
  case True
  then show ?thesis using flag_dispatch [OF assms(2,3)] by simp
next
  case False
  then have "waitFlag s' \<noteq> 1" "a_ready B \<noteq> []"
    using assms(1,4) by (auto simp: flagged_def a_exit_def split: list.splits if_splits)
  then show ?thesis using assms(3) by (auto simp: flag_ok_def a_dispatch_def split: list.splits)
qed

section \<open>Entering the nucleus\<close>

lemma implements_mem:
  assumes "implements s (A, t)" "wf_state st"
  shows "implements (s\<lparr>st_mem := (st_mem s)(a \<mapsto> st)\<rparr>) (A, t)"
  using assms krel_st_mem [of s A st a] by (simp add: implements_def)

lemma sys_enter:
  assumes "implements s (A, t)" "calls n st A"
  defines "s1 \<equiv> s\<lparr>st_mem := (st_mem s)(SYSCALLOLDAREA \<mapsto> st)\<rparr>"
  obtains p s2 where "a_run A = Some p" "implements s2 (A, t)" "st_mem s2 SYSCALLOLDAREA = Some (adv st)"
    "waitFlag s2 \<noteq> 1" "s2 = advanced s1 st"
    "n = 1 \<Longrightarrow> sysCallHandler s1 = createProcess s2" "n = 2 \<Longrightarrow> sysCallHandler s1 = terminateProcess s2"
    "n = 3 \<Longrightarrow> sysCallHandler s1 = verhogen s2" "n = 4 \<Longrightarrow> sysCallHandler s1 = passeren s2"
    "n = 6 \<Longrightarrow> sysCallHandler s1 = getCPUTime s2" "n = 7 \<Longrightarrow> sysCallHandler s1 = waitForClock s2"
    "n = 8 \<Longrightarrow> sysCallHandler s1 = waitForIODevice s2"
proof -
  have c: "wf_state st" "kernel_mode st" "s_a0 st = n" and r: "a_run A \<noteq> None"
    using assms(2) by (simp_all add: calls_def)
  have i: "implements s1 (A, t)" unfolding s1_def by (rule implements_mem [OF assms(1) c(1)])
  have st: "st_mem s1 SYSCALLOLDAREA = Some st" by (simp add: s1_def)
  have "krel (advanced s1 st) A" "procTable (advanced s1 st) = procTable s1"
    "waitFlag (advanced s1 st) = waitFlag s1"
    using advanced_simps(1) [OF implementsD(1) [OF i] st] by (simp_all add: advanced_def)
  then have i2: "implements (advanced s1 st) (A, t)" using i by (simp add: implements_def)
  have w: "waitFlag (advanced s1 st) \<noteq> 1" using implementsD(4) [OF i2] r by (simp add: flag_ok_def)
  have m: "st_mem (advanced s1 st) SYSCALLOLDAREA = Some (adv st)" by (simp add: advanced_def)
  obtain p where "a_run A = Some p" using r by auto
  from that [OF this i2 m w refl] sysCall_kernel [OF st c(2)] c(3) show thesis by blast
qed

text \<open>How a step is concluded.\<close>

lemma conclude_go:
  assumes "implements s (A, t)" "krel s' B" "kept s' = kept s" "dev_sync B" "a_free B = a_free A"
    "a_run A \<noteq> None" "a_run B = a_run A"
  shows "implements s' (B, t)"
proof (rule implementsI [OF assms(2)])
  note D = implementsD [OF assms(1)]
  show "tree_ok (procTable s') B t"
    by (rule tree_ok_links [OF D(2) _ assms(5)]) (use assms(3) in \<open>simp add: kept_def\<close>)
  show "flag_ok (waitFlag s') B" using D(4) assms(3,6,7) by (simp add: flag_ok_def kept_def)
qed (rule assms(4))

lemma conclude_wait:
  assumes "implements s (A, t)" "krel s' (a_dispatch B)" "flagged s (a_exit B) s'" "dev_sync B"
    "a_free B = a_free A" "waitFlag s \<noteq> 1" "a_run B = None"
  shows "implements s' (a_dispatch B, t)"
proof (rule implementsI [OF assms(2)])
  note D = implementsD [OF assms(1)]
  have l: "links s' = links s" using assms(3) by (simp add: flagged_def)
  show "tree_ok (procTable s') (a_dispatch B) t" by (rule tree_ok_links [OF D(2) l]) (simp add: assms(5))
  have "tree_ok (procTable s') B t" by (rule tree_ok_links [OF D(2) l assms(5)])
  then show "flag_ok (waitFlag s') (a_dispatch B)" by (rule flag_flagged [OF assms(3) _ assms(7,6)])
qed (simp add: assms(4))

lemma a_run_wait: "a_run A \<noteq> None \<Longrightarrow> a_sem A a = Some v \<Longrightarrow> sint (v - 1) < 0 \<Longrightarrow> a_run (a_P a st A) = None"
  by (auto simp: a_P_def a_ops)

section \<open>System calls\<close>

lemma step_verhogen:
  assumes i: "implements s (A, t)" and c: "calls 3 st A" and v: "a_sem A (s_a1 st) \<noteq> None" and
    a: "s_a1 st < MAXINT" "\<not> is_dev (a_base A) (s_a1 st)"
  shows "\<exists>s'. handle (Syscall st) s = Some (Some (Exit_LDST (adv st)), s') \<and> implements s' (a_V (s_a1 st) A, t)"
proof -
  obtain p s2 where p: "a_run A = Some p" and i2: "implements s2 (A, t)" and m: "st_mem s2 SYSCALLOLDAREA = Some (adv st)"
    and h: "sysCallHandler (s\<lparr>st_mem := (st_mem s)(SYSCALLOLDAREA \<mapsto> st)\<rparr>) = verhogen s2"
    using sys_enter [OF i c] by metis
  obtain s' where s': "verhogen s2 = Some (Exit_LDST (adv st), s')" "krel s' (a_V (s_a1 st) A)"
    using verhogen_run [OF implementsD(1) [OF i2] m] v a by auto
  have "kept s' = kept s2" using postD [OF s'(1) verhogen_kept] by simp
  moreover have "dev_sync (a_V (s_a1 st) A)" by (rule dev_sync_V [OF implementsD(3) [OF i] a(2)])
  moreover have "a_run (a_V (s_a1 st) A) = a_run A" by (simp add: a_V_def a_ops Let_def split: list.splits)
  ultimately have "implements s' (a_V (s_a1 st) A, t)" using p by (intro conclude_go [OF i2 s'(2)]) simp_all
  then show ?thesis using h s'(1) by simp
qed

lemma step_passeren:
  assumes i: "implements s (A, t)" and c: "calls 4 st A" and v: "a_sem A (s_a1 st) = Some v" and
    a: "0 < s_a1 st" "s_a1 st < MAXINT" "\<not> is_dev (a_base A) (s_a1 st)"
  defines "B \<equiv> a_P (s_a1 st) (adv st) A"
  shows "\<not> sint (v - 1) < 0 \<Longrightarrow> \<exists>s'. handle (Syscall st) s = Some (Some (Exit_LDST (adv st)), s') \<and> implements s' (B, t)"
    and "sint (v - 1) < 0 \<Longrightarrow> \<exists>s'. handle (Syscall st) s = Some (Some (a_exit B), s') \<and> implements s' (a_dispatch B, t)"
proof -
  obtain p s2 where p: "a_run A = Some p" and i2: "implements s2 (A, t)" and m: "st_mem s2 SYSCALLOLDAREA = Some (adv st)"
    and w: "waitFlag s2 \<noteq> 1"
    and h: "sysCallHandler (s\<lparr>st_mem := (st_mem s)(SYSCALLOLDAREA \<mapsto> st)\<rparr>) = passeren s2"
    using sys_enter [OF i c] by metis
  have d: "dev_sync B" unfolding B_def by (rule dev_sync_P [OF implementsD(3) [OF i] a(3)])
  note run = passeren_run [OF implementsD(1) [OF i2] m p, unfolded adv_simps, OF v a]
  show "\<exists>s'. handle (Syscall st) s = Some (Some (Exit_LDST (adv st)), s') \<and> implements s' (B, t)" if n: "\<not> sint (v - 1) < 0"
  proof -
    obtain s' where s': "passeren s2 = Some (Exit_LDST (adv st), s')" "krel s' B" using run(2) [OF n] unfolding B_def by blast
    have f: "flagged s2 (Exit_LDST (adv st)) s'" using postD [OF s'(1) wait_flagged(1)] by simp
    have r: "a_run B = a_run A" using n v by (simp add: B_def a_P_def a_setsem_def)
    have "implements s' (B, t)"
    proof (rule implementsI [OF s'(2) _ d])
      show "tree_ok (procTable s') B t"
        by (rule tree_ok_links [OF implementsD(2) [OF i2]]) (use f in \<open>simp_all add: flagged_def B_def\<close>)
      show "flag_ok (waitFlag s') B" using f w p r by (auto simp: flag_ok_def flagged_def flag_of_def)
    qed
    then show ?thesis using h s'(1) by simp
  qed
  show "\<exists>s'. handle (Syscall st) s = Some (Some (a_exit B), s') \<and> implements s' (a_dispatch B, t)" if n: "sint (v - 1) < 0"
  proof -
    obtain s' where s': "passeren s2 = Some (a_exit B, s')" "krel s' (a_dispatch B)" using run(1) [OF n] unfolding B_def by blast
    have "flagged s2 (a_exit B) s'" using postD [OF s'(1) wait_flagged(1)] by simp
    moreover have "a_run B = None" unfolding B_def using p v n by (intro a_run_wait) simp_all
    ultimately have "implements s' (a_dispatch B, t)"
      using d w by (intro conclude_wait [OF i2 s'(2)]) (simp_all add: B_def)
    then show ?thesis using h s'(1) by simp
  qed
qed

end
