(* ===== verification/Nucleus_Steps.thy ===== *)
theory Nucleus_Steps
  imports Nucleus_System
begin

text \<open>
  The code does every step of the abstract system: one lemma for each kind of event, and the
  simulation that they add up to.
\<close>

section \<open>System calls that wait, and SYS 6\<close>

text \<open>
  A call that may dispatch is finished: it runs to \<open>a_exit B\<close>, writes no family link and sets the
  flag as the dispatcher does.
\<close>

lemma step_wait:
  assumes i: "implements s2 (A, t)" and w: "waitFlag s2 \<noteq> 1"
    and h: "handle e s = map_option (map_prod Some id) m"
    and m: "m = Some (a_exit (a_P a st A), s')" "krel s' (a_dispatch (a_P a st A))"
    and f: "post (\<lambda>(e, t). flagged s2 e t) m"
    and d: "dev_sync (a_P a st A)" and r: "a_run A \<noteq> None" "a_sem A a = Some v" "sint (v - 1) < 0"
  shows "\<exists>s'. handle e s = Some (Some (a_exit (a_P a st A)), s') \<and> implements s' (a_dispatch (a_P a st A), t)"
proof -
  have "flagged s2 (a_exit (a_P a st A)) s'" using postD [OF m(1) f] by simp
  then have "implements s' (a_dispatch (a_P a st A), t)"
    using conclude_wait [OF i m(2) _ d _ w a_run_wait [OF r]] by simp
  then show ?thesis using h m(1) by simp
qed

lemma step_wait_clock:
  assumes i: "implements s (A, t)" and c: "calls 7 st A" and a: "a = devsem (a_base A) CLOCKSEM"
    and v: "a_sem A a = Some v" "sint (v - 1) < 0"
  defines "B \<equiv> a_P a (adv st) A"
  shows "\<exists>s'. handle (Syscall st) s = Some (Some (a_exit B), s') \<and> implements s' (a_dispatch B, t)"
proof -
  obtain p s2 where p: "a_run A = Some p" and i2: "implements s2 (A, t)" and m: "st_mem s2 SYSCALLOLDAREA = Some (adv st)"
    and w: "waitFlag s2 \<noteq> 1"
    and h: "sysCallHandler (s\<lparr>st_mem := (st_mem s)(SYSCALLOLDAREA \<mapsto> st)\<rparr>) = waitForClock s2"
    using sys_enter [OF i c] by metis
  note k = implementsD(1) [OF i2]
  obtain s' where s': "waitForClock s2 = Some (a_exit B, s')" "krel s' (a_dispatch B)"
    using waitForClock_run(1) [OF k m p] v unfolding B_def a by blast
  have "dev_range (a_base A)" using mem_okD(2) [OF krelD(10) [OF k]] krelD(7) [OF k] by simp
  then have "dev_sync B" unfolding B_def a
    using dev_sync_wait [OF implementsD(3) [OF i], of CLOCKSEM v "adv st"] v p a
    by (simp add: CLOCKSEM_48 DEVSEMS_49)
  with step_wait [OF i2 w _ s' [unfolded B_def] wait_flagged(2), of "Syscall st" s] p v h show ?thesis
    unfolding B_def by simp
qed

lemma step_wait_io:
  assumes i: "implements s (A, t)" and c: "calls 8 st A" and io: "io_args_ok st"
    and a: "a = devsem (a_base A) (ioSem st)" and v: "a_sem A a = Some v" "sint (v - 1) < 0"
  defines "B \<equiv> a_P a (adv st) A"
  shows "\<exists>s'. handle (Syscall st) s = Some (Some (a_exit B), s') \<and> implements s' (a_dispatch B, t)"
proof -
  obtain p s2 where p: "a_run A = Some p" and i2: "implements s2 (A, t)" and m: "st_mem s2 SYSCALLOLDAREA = Some (adv st)"
    and w: "waitFlag s2 \<noteq> 1"
    and h: "sysCallHandler (s\<lparr>st_mem := (st_mem s)(SYSCALLOLDAREA \<mapsto> st)\<rparr>) = waitForIODevice s2"
    using sys_enter [OF i c] by metis
  note k = implementsD(1) [OF i2]
  obtain s' where s': "waitForIODevice s2 = Some (a_exit B, s')" "krel s' (a_dispatch B)"
    using waitForIODevice_run(1) [OF k m p, unfolded adv_simps, OF io] v unfolding B_def a by blast
  have "dev_range (a_base A)" using mem_okD(2) [OF krelD(10) [OF k]] krelD(7) [OF k] by simp
  then have "dev_sync B" unfolding B_def a
    using dev_sync_wait [OF implementsD(3) [OF i], of "ioSem st" v "adv st"] v p a ioSem_bounds(2) [OF io]
    by simp
  with step_wait [OF i2 w _ s' [unfolded B_def] wait_flagged(3), of "Syscall st" s] p v h show ?thesis
    unfolding B_def by simp
qed

lemma step_cpu_time:
  assumes i: "implements s (A, t)" and c: "calls 6 st A"
  shows "\<exists>u s'. handle (Syscall st) s = Some (Some (Exit_LDST (set_v0 u (adv st))), s') \<and> implements s' (A, t)"
proof -
  obtain p s2 where p: "a_run A = Some p" and i2: "implements s2 (A, t)" and m: "st_mem s2 SYSCALLOLDAREA = Some (adv st)"
    and h: "sysCallHandler (s\<lparr>st_mem := (st_mem s)(SYSCALLOLDAREA \<mapsto> st)\<rparr>) = getCPUTime s2"
    using sys_enter [OF i c] by metis
  let ?u = "p_time (procTable s2 p) + (clock_value s2 - time s2)"
  obtain s' where s': "getCPUTime s2 = Some (Exit_LDST (set_v0 ?u (adv st)), s')" "krel s' A"
    using getCPUTime_run [OF implementsD(1) [OF i2] m p] by auto
  have f: "kept s' = kept s2" using postD [OF s'(1) getCPUTime_kept] by simp
  have "implements s' (A, t)"
    by (rule conclude_go [OF i2 s'(2) f implementsD(3) [OF i]]) (simp_all add: p)
  moreover have "handle (Syscall st) s = Some (Some (Exit_LDST (set_v0 ?u (adv st))), s')"
    unfolding handle.simps h s'(1) option.map map_prod_simp id_apply ..
  ultimately show ?thesis by (intro exI conjI)
qed

section \<open>SYS 1\<close>

text \<open>The links determine the list of children.\<close>

lemma children_spath: "children T r cs \<Longrightarrow> spath (p_sib \<circ> T) (p_child (T r)) cs None"
proof (cases cs rule: rev_cases)
  case (snoc xs y)
  assume "children T r cs"
  then have "dlinked (p_sib \<circ> T) (p_prevsib \<circ> T) (xs @ [y])" "p_child (T r) = Some (hd (xs @ [y]))"
    "p_sib (T y) = None" by (simp_all add: children_def snoc)
  then show ?thesis using dlinked_spath [of "p_sib \<circ> T" "p_prevsib \<circ> T" xs y] by (simp add: snoc)
qed (simp add: children_def)

lemma children_unique: "children T r cs \<Longrightarrow> children T r ds \<Longrightarrow> cs = ds"
  using spath_unique children_spath by blast

lemma tree_ok_distinct:
  assumes "tree_ok T A t"
  shows "distinct (members t)" "family T t" "set (members t) \<inter> set (a_free A) = {}"
    "\<And>p. p < MAXPROC \<Longrightarrow> p \<notin> set (a_free A) \<Longrightarrow> p \<in> set (members t)"
    "\<And>p. p \<in> set (members t) \<Longrightarrow> p < MAXPROC"
proof -
  have m: "mset (members t @ a_free A) = mset [0..<MAXPROC]" using assms by (simp add: tree_ok_def)
  have d: "distinct (members t @ a_free A)" unfolding mset_eq_imp_distinct_iff [OF m] by (rule distinct_upt)
  then show "distinct (members t)" "set (members t) \<inter> set (a_free A) = {}"
    unfolding distinct_append by blast+
  show "family T t" using assms unfolding tree_ok_def by blast
  have e: "set (members t) \<union> set (a_free A) = {0..<MAXPROC}"
    using mset_eq_setD [OF m] unfolding set_append set_upt .
  show "p \<in> set (members t)" if "p < MAXPROC" "p \<notin> set (a_free A)" for p
    using that eqset_imp_iff [OF e, of p] unfolding Un_iff atLeastLessThan_iff by blast
  show "p < MAXPROC" if "p \<in> set (members t)" for p
    using that eqset_imp_iff [OF e, of p] unfolding Un_iff atLeastLessThan_iff by blast
qed

lemma running_member:
  assumes "krel s A" "tree_ok T A t" "a_run A = Some p"
  shows "p \<in> set (members t)"
  using krelD(4) [OF assms(1,3)] kq_distinct(1) [OF krelD(1) [OF assms(1)]] assms(3)
    tree_ok_distinct(4) [OF assms(2)] by auto

lemma member_children:
  "family T t \<Longrightarrow> p \<in> set (members t) \<Longrightarrow> \<exists>cs. children T p cs \<and> set cs \<subseteq> set (members t)"
proof -
  assume f: "family T t" and p: "p \<in> set (members t)"
  obtain u where u: "u \<in> set (subtrees t)" "pid u = p" using members_subtree [OF p] by blast
  obtain us where us: "u = PNode p us" using u(2) by (cases u) simp
  have "children T p (map pid us)" using family_subtree [OF f u(1)] by (simp add: us)
  moreover have "set (map pid us) \<subseteq> set (members u)" using pid_members by (auto simp: us)
  ultimately show ?thesis using subtrees_members [OF u(1)] by blast
qed

lemma step_create:
  assumes i: "implements s (A, t)" and c: "calls 1 st A" and p: "a_run A = Some p" and F: "a_free A = q # F"
    and cst: "wf_state cst" "s_a1 st \<noteq> SYSCALLOLDAREA"
  shows "\<exists>s'. handle (Create st cst) s = Some (Some (Exit_LDST (set_v0 0 (adv st))), s')
    \<and> implements s' (a_fork cst A, graft p q t)"
proof -
  let ?s0 = "s\<lparr>st_mem := (st_mem s)(s_a1 st \<mapsto> cst)\<rparr>"
  have i0: "implements ?s0 (A, t)" by (rule implements_mem [OF i cst(1)])
  obtain s2 where i2: "implements s2 (A, t)" and m: "st_mem s2 SYSCALLOLDAREA = Some (adv st)"
    and w: "waitFlag s2 \<noteq> 1" and s2: "s2 = advanced (?s0\<lparr>st_mem := (st_mem ?s0)(SYSCALLOLDAREA \<mapsto> st)\<rparr>) st"
    and h: "sysCallHandler (?s0\<lparr>st_mem := (st_mem ?s0)(SYSCALLOLDAREA \<mapsto> st)\<rparr>) = createProcess s2"
    using sys_enter [OF i0 c] by metis
  have cm: "st_mem s2 (s_a1 (adv st)) = Some cst" using cst(2) by (simp add: s2 advanced_def)
  note k = implementsD(1) [OF i2] and tr = tree_ok_distinct [OF implementsD(2) [OF i2]]
  have pm: "p \<in> set (members t)" by (rule running_member [OF k implementsD(2) [OF i2] p])
  have qn: "q \<notin> set (members t)" using tr(3) F by auto
  obtain cs where cs: "children (procTable s2) p cs" "set cs \<subseteq> set (members t)"
    using member_children [OF tr(2) pm] by blast
  obtain s' where s': "createProcess s2 = Some (Exit_LDST (set_v0 0 (adv st)), s')" "krel s' (a_fork cst A)"
    "children (procTable s') p (q # cs)" "children (procTable s') q []"
    and o: "\<And>x ds. x \<notin> {p, q} \<Longrightarrow> set ds \<inter> set (q # cs) = {} \<Longrightarrow>
         children (procTable s') x ds = children (procTable s2) x ds"
    using createProcess_run [OF k m p F cm cs(1)] cs(2) qn by (metis subsetD)
  have "family (procTable s') (graft p q t)"
  proof (rule family_graft [OF qn tr(1,2) _ s'(4)])
    show "children (procTable s') p (q # ds)" if "children (procTable s2) p ds" for ds
      using children_unique [OF that cs(1)] s'(3) by simp
    fix x ds
    assume x: "x \<noteq> p" "x \<noteq> q" "q \<notin> set ds" "\<forall>c\<in>set ds. p_prnt (procTable s2 c) \<noteq> Some p"
      and ch: "children (procTable s2) x ds"
    have "\<forall>c\<in>set cs. p_prnt (procTable s2 c) = Some p" using cs(1) by (simp add: children_def)
    then have "set ds \<inter> set (q # cs) = {}" using x(3,4) by auto
    then show "children (procTable s') x ds" using o x(1,2) ch by simp
  qed
  moreover have "mset (members (graft p q t)) + mset (a_free (a_fork cst A)) = mset [0..<MAXPROC]"
    using members_graft [OF tr(1) pm] implementsD(2) [OF i2] F by (simp add: tree_ok_def a_fork_def)
  ultimately have t: "tree_ok (procTable s') (a_fork cst A) (graft p q t)" by (simp add: tree_ok_def)
  have "waitFlag s' = waitFlag s2" using postD [OF s'(1) createProcess_flag] by simp
  then have "flag_ok (waitFlag s') (a_fork cst A)"
    using w p F by (simp add: flag_ok_def a_fork_def)
  then have "implements s' (a_fork cst A, graft p q t)"
    using s'(2) t dev_sync_fork [OF implementsD(3) [OF i]] by (intro implementsI)
  then show ?thesis using h s'(1) by simp
qed

section \<open>SYS 2\<close>

lemma tree_ok_prune:
  assumes ok: "tree_ok T A t" and u: "u \<in> set (subtrees t)" "pid u \<noteq> pid t"
    and w: "PNode r (as @ u # bs) \<in> set (subtrees t)" and ch: "children T' r (map pid as @ map pid bs)"
    and k: "same_kin (set (members u) \<union> set (map pid as) \<union> set (map pid bs)) (insert r (set (members u))) T T'"
  shows "tree_ok T' (a_terminate (pid u) (doomed u) A) (prune (pid u) t)"
proof -
  note tr = tree_ok_distinct [OF ok]
  have "family T' (prune (pid u) t)"
    by (rule family_prune [OF tr(1,2) w _ k]) (simp add: ch)
  moreover have "mset (members t) = mset (members (prune (pid u) t)) + mset (members u)"
    by (rule members_prune [OF tr(1) u])
  moreover have "mset (members u) = mset (doomed u @ [pid u])" by (rule mset_members)
  ultimately show ?thesis using ok by (simp add: tree_ok_def a_terminate_def ac_simps)
qed

lemma step_terminate:
  assumes i: "implements s (A, t)" and c: "calls 2 st A" and p: "a_run A = Some (pid u)"
    and u: "u \<in> set (subtrees t)" "pid u \<noteq> pid t" and o: "orderly (doomed u) A"
    and B: "B = a_terminate (pid u) (doomed u) A" and ne: "a_ready B \<noteq> []"
  shows "\<exists>s'. handle (Syscall st) s = Some (Some (a_exit B), s') \<and> implements s' (a_dispatch B, prune (pid u) t)"
proof -
  obtain s2 where i2: "implements s2 (A, t)"
    and h: "sysCallHandler (s\<lparr>st_mem := (st_mem s)(SYSCALLOLDAREA \<mapsto> st)\<rparr>) = terminateProcess s2"
    using sys_enter [OF i c] by metis
  note k = implementsD(1) [OF i2] and tr = tree_ok_distinct [OF implementsD(2) [OF i2]]
  have du: "distinct (members u)" by (rule distinct_subtree [OF tr(1) u(1)])
  obtain r as bs where w: "PNode r (as @ u # bs) \<in> set (subtrees t)" using subtree_parent [OF u(1)] u(2) by blast
  have ch: "children (procTable s2) r (map pid as @ pid u # map pid bs)"
    using family_subtree [OF tr(2) w] by simp
  have r: "r \<notin> set (members u)" using distinct_subtree [OF tr(1) w] by simp
  obtain s1 where t1: "terminateRecursively (Some (pid u)) s2 = Some s1"
    and k1: "krel (s1\<lparr>currentProcess := None\<rparr>) B" and c1: "children (procTable s1) r (map pid as @ map pid bs)"
    and sk: "same_kin (set (members u) \<union> set (map pid as) \<union> set (map pid bs)) (insert r (set (members u)))
      (procTable s2) (procTable s1)"
    using terminateRecursively_run [OF k p refl family_subtree [OF tr(2) u(1)] du o ch r] unfolding B by blast
  have rB: "a_run B = None" by (simp add: B a_terminate_def)
  obtain s' where s': "scheduler s1 = Some (a_exit B, s')" "krel s' (a_dispatch B)" "waitFlag s' = 0"
    using scheduler_stale [OF k1 rB] ne by blast
  have "terminateProcess s2 = Some (a_exit B, s')"
    using t1 s'(1) krelD(2) [OF k] p by (simp add: terminateProcess_def)
  moreover have "links s' = links s1" using postD [OF s'(1) post_scheduler, of "\<lambda>(e, t). links t = links s1"] by simp
  then have "tree_ok (procTable s') (a_dispatch B) (prune (pid u) t)"
    unfolding B by (rule tree_ok_links [OF tree_ok_prune [OF implementsD(2) [OF i2] u w c1 sk]]) simp
  moreover have "dev_sync (a_dispatch B)"
    using dev_sync_terminate [OF implementsD(3) [OF i] _ distinct_doomed [OF du]] kq_wait_distinct [OF krelD(1) [OF k]]
    by (simp add: B)
  moreover have "flag_ok (waitFlag s') (a_dispatch B)"
    using ne by (simp add: s'(3) flag_ok_def a_dispatch_def split: list.splits)
  ultimately show ?thesis using h s'(2) by (auto intro: implementsI)
qed

section \<open>Interrupts\<close>

lemma int_enter:
  fixes f :: "nat \<Rightarrow> word32" and regs :: "nat \<Rightarrow> device_t"
  assumes "implements s (A, t)" "wf_state st"
  defines "s1 \<equiv> s\<lparr>st_mem := (st_mem s)(INTERRUPTOLDAREA \<mapsto> st),
          busreg := (busreg s)\<lparr>interrupt_dev := f, devreg := regs\<rparr>\<rparr>"
  shows "implements (entered s1) (A, t)" "st_mem (entered s1) INTERRUPTOLDAREA = Some st"
    "pending l (entered s1) = f (nat (l - 3))" "devreg (busreg (entered s1)) = regs"
    "dev_sem l d (entered s1) = sig_sem l d regs"
    "handle (Interrupt st f regs) s = map_option (map_prod Some id)
      (if getLineNumber (s_cause st) > 2 \<and> getLineNumber (s_cause st) < 8
       then deviceInterrupt (getLineNumber (s_cause st)) (entered s1)
       else if getLineNumber (s_cause st) = 1 then quantumEnd (entered s1) else clockTick (entered s1))"
proof -
  have k: "krel s1 A" unfolding s1_def
    by (rule krel_cong [OF krel_st_mem [OF implementsD(1) [OF assms(1)] assms(2), of INTERRUPTOLDAREA]]) simp_all
  have m: "st_mem s1 INTERRUPTOLDAREA = Some st" by (simp add: s1_def)
  note run = interruptHandler_run [OF k m]
  have "procTable s1 = procTable s" "waitFlag s1 = waitFlag s" by (simp_all add: s1_def)
  then have "links (entered s1) = links s" "waitFlag (entered s1) = waitFlag s"
    using kept_entered [of s1] by (simp_all add: kept_def links_def)
  then show "implements (entered s1) (A, t)"
    using assms(1) run(1) tree_ok_links [of s A t "entered s1" A] by (auto simp: implements_def)
  show "st_mem (entered s1) INTERRUPTOLDAREA = Some st" using m by (simp add: entered_simps)
  show "pending l (entered s1) = f (nat (l - 3))" "devreg (busreg (entered s1)) = regs"
    "dev_sem l d (entered s1) = sig_sem l d regs"
    by (simp_all add: pending_def dev_sem_def sig_sem_def entered_simps s1_def)
  show "handle (Interrupt st f regs) s = map_option (map_prod Some id)
      (if getLineNumber (s_cause st) > 2 \<and> getLineNumber (s_cause st) < 8
       then deviceInterrupt (getLineNumber (s_cause st)) (entered s1)
       else if getLineNumber (s_cause st) = 1 then quantumEnd (entered s1) else clockTick (entered s1))"
    using run(2) by (simp add: s1_def)
qed

text \<open>A handler that ended in the dispatcher, with the flag as the dispatcher leaves it.\<close>

lemma conclude_dispatch:
  assumes i: "implements s (A, t)" and k: "krel s' (a_dispatch B)" and l: "links s' = links s"
    and w: "waitFlag s' = flag_of (a_exit B) w" and B: "dev_sync B" "a_free B = a_free A" "a_run B = None"
  shows "implements s' (a_dispatch B, t)"
proof (rule implementsI [OF k])
  show "tree_ok (procTable s') (a_dispatch B) t"
    by (rule tree_ok_links [OF implementsD(2) [OF i] l]) (simp add: B(2))
  have "tree_ok (procTable s') B t" by (rule tree_ok_links [OF implementsD(2) [OF i] l B(2)])
  then show "flag_ok (waitFlag s') (a_dispatch B)" unfolding w by (rule flag_dispatch [OF _ B(3)])
qed (simp add: B(1))

lemma conclude_resume:
  assumes i: "implements s (A, t)" and k: "krel s' B" and l: "links s' = links s" "waitFlag s' = waitFlag s"
    and B: "dev_sync B" "a_free B = a_free A" "a_run A \<noteq> None" "a_run B = a_run A"
  shows "implements s' (B, t)"
proof (rule implementsI [OF k _ B(1)])
  show "tree_ok (procTable s') B t" by (rule tree_ok_links [OF implementsD(2) [OF i] l(1) B(2)])
  show "flag_ok (waitFlag s') B" using implementsD(4) [OF i] l(2) B(3,4) by (simp add: flag_ok_def)
qed

lemma step_quantum:
  assumes i: "implements s (A, t)" and st: "wf_state st" "getLineNumber (s_cause st) = 1" and p: "a_run A \<noteq> None"
  defines "B \<equiv> a_preempt st A"
  shows "\<exists>s'. handle (Interrupt st f regs) s = Some (Some (a_exit B), s') \<and> implements s' (a_dispatch B, t)"
proof -
  note e = int_enter [OF i st(1), where f = f and regs = regs]
  obtain q where q: "a_run A = Some q" using p by auto
  obtain s' where s': "quantumEnd (entered (s\<lparr>st_mem := (st_mem s)(INTERRUPTOLDAREA \<mapsto> st),
      busreg := (busreg s)\<lparr>interrupt_dev := f, devreg := regs\<rparr>\<rparr>)) = Some (a_exit B, s')" (is "quantumEnd ?s2 = _")
    and k: "krel s' (a_dispatch B)"
    using quantumEnd_run [OF implementsD(1) [OF e(1)] e(2) q] unfolding B_def by blast
  have "links s' = links ?s2 \<and> waitFlag s' = flag_of (a_exit B) (waitFlag ?s2)"
    using postD [OF s' quantumEnd_flag] by simp
  moreover have "dev_sync B" unfolding B_def by (rule dev_sync_preempt [OF implementsD(3) [OF i]])
  moreover have "a_run B = None" using q by (simp add: B_def a_preempt_def)
  ultimately have "implements s' (a_dispatch B, t)"
    using conclude_dispatch [OF e(1) k] by (simp add: B_def)
  then show ?thesis using e(6) s' st(2) by simp
qed

lemma clock_waits:
  assumes "krel s A"
  shows "dev_range (a_base A)" "length (a_waits A a) \<le> MAXPROC"
proof -
  show "dev_range (a_base A)" using mem_okD(2) [OF krelD(10) [OF assms]] krelD(7) [OF assms] by simp
  have "set (a_waits A a) \<subseteq> {..<MAXPROC}" using kq_wait(1) [OF krelD(1) [OF assms]] by blast
  then have "card (set (a_waits A a)) \<le> MAXPROC" using card_mono [of "{..<MAXPROC}" "set (a_waits A a)"] by simp
  then show "length (a_waits A a) \<le> MAXPROC"
    using distinct_card [OF kq_wait_distinct [OF krelD(1) [OF assms]], of a] by simp
qed

lemma a_run_same [simp]:
  "a_run (a_tick_if A) = a_run A" "a_run (a_devV a u A) = a_run A"
  by (simp_all add: a_tick_if_def a_tick_def a_devV_def a_ops Let_def split: list.splits)

lemma step_tick:
  assumes i: "implements s (A, t)" and st: "wf_state st" "getLineNumber (s_cause st) = 2"
  defines "B \<equiv> a_tick_if A"
  shows "a_run A \<noteq> None \<Longrightarrow> \<exists>s'. handle (Interrupt st f regs) s = Some (Some (Exit_LDST st), s') \<and> implements s' (B, t)"
    and "a_run A = None \<Longrightarrow>
      \<exists>s'. handle (Interrupt st f regs) s = Some (Some (a_exit B), s') \<and> implements s' (a_dispatch B, t)"
proof -
  let ?s2 = "entered (s\<lparr>st_mem := (st_mem s)(INTERRUPTOLDAREA \<mapsto> st),
      busreg := (busreg s)\<lparr>interrupt_dev := f, devreg := regs\<rparr>\<rparr>)"
  note e = int_enter [OF i st(1), where f = f and regs = regs]
  note k = implementsD(1) [OF e(1)]
  have d: "dev_sync B" unfolding B_def by (rule dev_sync_tick [OF implementsD(3) [OF i] clock_waits [OF k]])
  have same: "a_free B = a_free A" "a_run B = a_run A" by (simp_all add: B_def)
  have c: "currentProcess ?s2 = a_run A" by (rule krelD(2) [OF k])
  show "\<exists>s'. handle (Interrupt st f regs) s = Some (Some (Exit_LDST st), s') \<and> implements s' (B, t)" if r: "a_run A \<noteq> None"
  proof -
    obtain s' where s': "clockTick ?s2 = Some (Exit_LDST st, s')" "krel s' B"
      using clockTick_run(1) [OF k r e(2)] unfolding B_def by blast
    have l: "links s' = links ?s2" "waitFlag s' = waitFlag ?s2"
      using postD [OF s'(1) clockTick_flag] c r by simp_all
    have "implements s' (B, t)" by (rule conclude_resume [OF e(1) s'(2) l d same(1) r same(2)])
    then show ?thesis using e(6) s'(1) st(2) by simp
  qed
  show "\<exists>s'. handle (Interrupt st f regs) s = Some (Some (a_exit B), s') \<and> implements s' (a_dispatch B, t)"
    if r: "a_run A = None"
  proof -
    obtain s' where s': "clockTick ?s2 = Some (a_exit B, s')" "krel s' (a_dispatch B)"
      using clockTick_run(2) [OF k r] unfolding B_def by blast
    have l: "links s' = links ?s2" "waitFlag s' = flag_of (a_exit B) (waitFlag ?s2)"
      using postD [OF s'(1) clockTick_flag] c r by simp_all
    have "implements s' (a_dispatch B, t)"
      using conclude_dispatch [OF e(1) s'(2) l d same(1)] same(2) r by simp
    then show ?thesis using e(6) s'(1) st(2) by simp
  qed
qed

lemma step_device:
  assumes i: "implements s (A, t)" and sg: "signals l d st f" and a: "a = devsem (a_base A) (sig_sem l d regs)"
    and W: "a_waits A a \<noteq> []"
  defines "B \<equiv> a_devV a (sig_status l d regs) A"
  shows "a_run A \<noteq> None \<Longrightarrow> \<exists>s'. handle (Interrupt st f regs) s = Some (Some (Exit_LDST st), s') \<and> implements s' (B, t)"
    and "idle A \<Longrightarrow>
      \<exists>s'. handle (Interrupt st f regs) s = Some (Some (a_exit B), s') \<and> implements s' (a_dispatch B, t)"
proof -
  let ?s2 = "entered (s\<lparr>st_mem := (st_mem s)(INTERRUPTOLDAREA \<mapsto> st),
      busreg := (busreg s)\<lparr>interrupt_dev := f, devreg := regs\<rparr>\<rparr>)"
  have st: "wf_state st" "getLineNumber (s_cause st) = l" and l: "3 \<le> l" "l \<le> 7"
    and dl: "lowestDevice (f (nat (l - 3))) = int d" "d < 8"
    using sg by (simp_all add: signals_def)
  note e = int_enter [OF i st(1), where f = f and regs = regs]
  note k = implementsD(1) [OF e(1)] and flag = implementsD(4) [OF e(1)]
  have n: "sig_sem l d regs < DEVSEMS" using dev_indices(4) [OF l dl(2), of ?s2] e(5) by simp
  have d: "dev_sync B" unfolding B_def a
    by (rule dev_sync_devV(1) [OF implementsD(3) [OF i] clock_waits(1) [OF k] n W [unfolded a]])
  obtain v where v: "a_sem A (devsem (a_base A) (sig_sem l d regs)) = Some v" "sint (v + 1) \<le> 0"
    using dev_sync_devV(2) [OF implementsD(3) [OF i] clock_waits(1) [OF k] n W [unfolded a]] by blast
  obtain p ps where W': "a_waits A (devsem (a_base A) (sig_sem l d regs)) = p # ps"
    using W a by (cases "a_waits A a") auto
  have pend: "lowestDevice (pending l ?s2) = int d" using dl(1) e(3) by simp
  have status: "fst (ack l (devreg (busreg ?s2) (dev_slot l d))) = sig_status l d regs"
    by (simp add: e(4) sig_status_def)
  note run = deviceInterrupt_run [OF k l pend dl(2), unfolded e(5) status, OF v(1), folded a, folded B_def]
  have same: "a_free B = a_free A" "a_run B = a_run A" by (simp_all add: B_def)
  have h: "handle (Interrupt st f regs) s = map_option (map_prod Some id) (deviceInterrupt l ?s2)"
    using e(6) st(2) l by simp
  show "\<exists>s'. handle (Interrupt st f regs) s = Some (Some (Exit_LDST st), s') \<and> implements s' (B, t)" if r: "a_run A \<noteq> None"
  proof -
    have w: "waitFlag ?s2 \<noteq> 1" using flag r by (simp add: flag_ok_def)
    obtain s' where s': "deviceInterrupt l ?s2 = Some (Exit_LDST st, s')" "krel s' B"
      using run(3) [OF v(2) _ w e(2), of p ps] W' a by auto
    have l: "links s' = links ?s2" "waitFlag s' = waitFlag ?s2"
      using postD [OF s'(1) deviceInterrupt_flag] w by simp_all
    have "implements s' (B, t)" by (rule conclude_resume [OF e(1) s'(2) l d same(1) r same(2)])
    then show ?thesis using h s'(1) by simp
  qed
  show "\<exists>s'. handle (Interrupt st f regs) s = Some (Some (a_exit B), s') \<and> implements s' (a_dispatch B, t)"
    if r: "idle A"
  proof -
    have w: "waitFlag ?s2 = 1" using flag r by (simp add: flag_ok_def)
    obtain s' where s': "deviceInterrupt l ?s2 = Some (a_exit B, s')" "krel s' (a_dispatch B)"
      using run(4) [OF v(2) _ w, of p ps] W' a r by auto
    have "a_exit B \<noteq> Exit_return" by (simp add: a_exit_def split: list.splits)
    then have l: "links s' = links ?s2" "waitFlag s' = flag_of (a_exit B) 1"
      using postD [OF s'(1) deviceInterrupt_flag] w by simp_all
    have "implements s' (a_dispatch B, t)"
      using conclude_dispatch [OF e(1) s'(2) l d same(1)] same(2) r by simp
    then show ?thesis using h s'(1) by simp
  qed
qed

end
