(* ===== verification/Nucleus_Runs.thy ===== *)
theory Nucleus_Runs
  imports Nucleus_Steps
begin

text \<open>
  The simulation theorem, runs from startup, and what follows for every reachable state.
\<close>

section \<open>The simulation\<close>

lemma step_store:
  assumes i: "implements s (A, t)" and v: "a_sem A a \<noteq> None" "\<not> is_dev (a_base A) a"
  shows "\<exists>s'. handle (Store a v) s = Some (None, s') \<and> implements s' (a_setsem a v A, t)"
proof -
  let ?s = "s\<lparr>int_mem := (int_mem s)(a \<mapsto> v)\<rparr>"
  note D = implementsD [OF i]
  obtain u where "int_mem s a = Some u" using v(1) krelD(6) [OF D(1)] by auto
  from krel_setsem [OF D(1) this, of v] have "krel ?s (a_setsem a v A)" .
  moreover have "tree_ok (procTable ?s) (a_setsem a v A) t"
    by (rule tree_ok_links [OF D(2)]) (simp_all add: links_def)
  moreover have "flag_ok (waitFlag ?s) (a_setsem a v A)" using D(4) by (simp add: flag_ok_def a_setsem_def)
  ultimately have "implements ?s (a_setsem a v A, t)"
    using dev_sync_store [OF D(3) v(2)] by (intro implementsI)
  then show ?thesis by simp
qed

lemma simulation:
  assumes "astep \<sigma> e x \<sigma>'" "implements s \<sigma>"
  shows "\<exists>y s'. handle e s = Some (y, s') \<and> astep \<sigma> e y \<sigma>' \<and> implements s' \<sigma>'"
  using assms
proof cases
  case (store A a t v)
  then show ?thesis using step_store [of s A t a v] assms by auto
next
  case (create st A p q F cst t)
  then show ?thesis using step_create [of s A t st p q F cst] assms by (metis (no_types))
next
  case (terminate st A u t B)
  then show ?thesis using step_terminate [of s A t st u B] assms by (metis (no_types))
next
  case (verhogen st A t)
  then show ?thesis using step_verhogen [of s A t st] assms by (metis (no_types))
next
  case (passeren_go st A v t)
  then show ?thesis using step_passeren(1) [of s A t st v] assms by (metis (no_types))
next
  case (passeren_wait st A v B t)
  then show ?thesis using step_passeren(2) [of s A t st v] assms by (metis (no_types))
next
  case (cpu_time st A t u)
  then show ?thesis using step_cpu_time [of s A t st] astep.cpu_time [of st A t] assms by (metis (no_types))
next
  case (wait_clock st A a v B t)
  then show ?thesis using step_wait_clock [of s A t st a v] assms by (metis (no_types))
next
  case (wait_io st A a v B t)
  then show ?thesis using step_wait_io [of s A t st a v] assms by (metis (no_types))
next
  case (quantum st A B t f regs)
  then show ?thesis using step_quantum [of s A t st f regs] assms by (metis (no_types))
next
  case (tick_running st A t f regs)
  then show ?thesis using step_tick(1) [of s A t st f regs] assms by (metis (no_types))
next
  case (tick_idle st A B t f regs)
  then show ?thesis using step_tick(2) [of s A t st f regs] assms by (metis (no_types))
next
  case (device_running l d st f a A regs t)
  then show ?thesis using step_device(1) [of s A t l d st f a regs] assms by (metis (no_types))
next
  case (device_idle l d st f a A regs B t)
  then show ?thesis using step_device(2) [of s A t l d st f a regs] assms by (metis (no_types))
qed

lemma runs_simulate:
  "aruns \<sigma> es \<sigma>' \<Longrightarrow> implements s \<sigma> \<Longrightarrow> \<exists>s'. kruns es s = Some s' \<and> implements s' \<sigma>'"
proof (induction arbitrary: s rule: aruns.induct)
  case (event \<sigma> e x \<sigma>' es \<sigma>'')
  obtain y s1 where "handle e s = Some (y, s1)" "implements s1 \<sigma>'"
    using simulation [OF event.hyps(1) event.prems] by blast
  then show ?case using event.IH [of s1] by auto
qed simp

section \<open>Startup\<close>

definition boot_spec :: "link \<Rightarrow> kernel \<Rightarrow> spec" where
  "boot_spec L s = (a_dispatch (boot_abs L s), PNode 0 [])"

lemma main_implements:
  assumes "mem_ok s"
  shows "\<exists>s'. main L s = Some (a_exit (boot_abs L s), s') \<and> implements s' (boot_spec L s)"
proof -
  obtain s7 where s7: "main L s = scheduler s7" "krel s7 (boot_abs L s)" "children (procTable s7) 0 []"
    using main_start [OF assms] by blast
  have b: "a_run (boot_abs L s) = None" "a_ready (boot_abs L s) = [0]" "a_free (boot_abs L s) = [1..<MAXPROC]"
    by (simp_all add: boot_abs_def)
  obtain s' where s': "scheduler s7 = Some (a_exit (boot_abs L s), s')" "krel s' (a_dispatch (boot_abs L s))"
    using scheduler_refines [OF s7(2) b(1)] by blast
  have l: "links s' = links s7" "waitFlag s' = flag_of (a_exit (boot_abs L s)) (waitFlag s7)"
    using postD [OF s'(1) post_scheduler, of "\<lambda>(e, t). links t = links s7 \<and> waitFlag t = flag_of e (waitFlag s7)"] by simp_all
  have "mset [0..<MAXPROC] = mset (0 # [1..<MAXPROC])" by (simp add: MAXPROC_def upt_rec)
  then have "tree_ok (procTable s7) (boot_abs L s) (PNode 0 [])"
    using s7(3) by (simp only: tree_ok_def b) simp
  then have t: "tree_ok (procTable s') (boot_abs L s) (PNode 0 [])" by (rule tree_ok_links [OF _ l(1) refl])
  have "dev_sync (boot_abs L s)" by (auto simp: dev_sync_def boot_abs_def zeroed_def)
  then have "implements s' (a_dispatch (boot_abs L s), PNode 0 [])"
    using s'(2) t flag_dispatch [OF t b(1)] l(2) by (intro implementsI) (simp_all add: tree_ok_def)
  then show ?thesis using s7(1) s'(1) by (simp add: boot_spec_def)
qed

text \<open>How a handler ends that ends in the dispatcher.\<close>

lemma exit_of_dispatch:
  assumes "tree_ok T (a_dispatch B) t" "a_run B = None"
  shows "a_exit B \<noteq> Exit_HALT" "a_exit B \<noteq> Exit_return"
    "a_run (a_dispatch B) = None \<longleftrightarrow> a_ready B = []" "a_ready B = [] \<Longrightarrow> a_dispatch B = B"
    "a_exit B = Exit_WAIT \<longleftrightarrow> a_ready B = [] \<and> soft (a_base B) (a_waits B) \<noteq> 0"
    "a_exit B = Exit_PANIC \<longleftrightarrow> a_ready B = [] \<and> soft (a_base B) (a_waits B) = 0"
proof -
  have "length (members t) + length (a_free B) = MAXPROC"
    using arg_cong [of _ _ size, OF conjunct2 [OF assms(1) [unfolded tree_ok_def]]] by simp
  moreover have "members t \<noteq> []" by (cases t) simp
  ultimately have "length (a_free B) \<noteq> MAXPROC" by (cases "members t") auto
  then show "a_exit B \<noteq> Exit_HALT" "a_exit B \<noteq> Exit_return"
    "a_run (a_dispatch B) = None \<longleftrightarrow> a_ready B = []" "a_ready B = [] \<Longrightarrow> a_dispatch B = B"
    "a_exit B = Exit_WAIT \<longleftrightarrow> a_ready B = [] \<and> soft (a_base B) (a_waits B) \<noteq> 0"
    "a_exit B = Exit_PANIC \<longleftrightarrow> a_ready B = [] \<and> soft (a_base B) (a_waits B) = 0"
    using assms(2) by (auto simp: a_exit_def a_dispatch_def split: list.splits)
qed

end
