(* ===== verification/Nucleus_Memory.thy ===== *)
theory Nucleus_Memory
  imports Nucleus_Runs
begin

text \<open>
  Which processor states in the memory of the processes the nucleus writes: none, except that an
  exception passed up is copied to the address the process has given for it with SYS 5.
\<close>

lemmas ustates_intros = post_rules post_read post_LDST post_kseq flag_upd_pcb post_removeProcQ post_insertProcQ
  post_outProcQ post_insertReady post_outBlocked post_write(1,2,4) post_upd_state post_stateCopy post_scheduler

lemma post_freePcb: "(\<And>t. ustates t = ustates s \<Longrightarrow> Q t) \<Longrightarrow> post Q (freePcb p (s :: kernel))"
  unfolding freePcb_def cleanPcb_def by (intro ustates_intros) (simp_all add: kept_def)

lemma post_outChild: "(\<And>r t. ustates t = ustates s \<Longrightarrow> Q (r, t)) \<Longrightarrow> post Q (outChild p (s :: kernel))"
  unfolding outChild_def by (intro ustates_intros) (simp_all add: kept_def)

lemma post_emptyChild: "(\<And>e. Q e) \<Longrightarrow> post Q (emptyChild p (s :: kernel))"
  unfolding emptyChild_def by (intro ustates_intros)

lemma post_removeChild: "(\<And>r t. ustates t = ustates s \<Longrightarrow> Q (r, t)) \<Longrightarrow> post Q (removeChild p (s :: kernel))"
  unfolding removeChild_def by (intro ustates_intros post_emptyChild post_outChild) simp_all

lemma post_killOne: "(\<And>t. ustates t = ustates s \<Longrightarrow> Q t) \<Longrightarrow> post Q (killOne p s)"
  unfolding killOne_def by (intro ustates_intros post_freePcb post_outChild) (simp_all add: kept_def)

lemma killChildren_ustates: "killChildren p s = Some t \<Longrightarrow> ustates t = ustates s"
proof (induction rule: killChildren.raw_induct [rotated, consumes 1, case_names step])
  case (step f p s t)
  have f: "post Q (f p s)" if "\<And>t. ustates t = ustates s \<Longrightarrow> Q t" for Q p s
    using step(1) that by (auto simp: post_def)
  have "post (\<lambda>t. ustates t = ustates s) (do {
     e \<leftarrow> emptyChild p s;
     if e then Some s
     else do {
       (next, s1) \<leftarrow> removeChild p s;
       s2 \<leftarrow> f next s1;
       s3 \<leftarrow> killOne next s2;
       f p s3
     }
   })"
    by (intro ustates_intros post_emptyChild post_removeChild post_killOne f) simp_all
  from postD [OF step(2) this] show ?case .
qed

lemma post_killChildren: "(\<And>t. ustates t = ustates s \<Longrightarrow> Q t) \<Longrightarrow> post Q (killChildren p s)"
  using killChildren_ustates by (simp add: post_def)

lemma terminateProcess_ustates: "post (\<lambda>(e, t). ustates t = ustates s) (terminateProcess s)"
  unfolding terminateProcess_def terminateRecursively_def
  by (intro ustates_intros post_killOne post_killChildren) simp_all

lemma specify_ustates: "post (\<lambda>(e, t). ustates t = ustates s) (specifyExceptionStateVector s)"
proof -
  have dies: "post (\<lambda>x. Q x) (terminateProcess s)" if "\<And>e t. ustates t = ustates s \<Longrightarrow> Q (e, t)" for Q
    using post_mono [OF terminateProcess_ustates [of s]] that by fastforce
  have ld: "post (\<lambda>(e, t). ustates t = ustates s) (LDST r t)" if "ustates t = ustates s" for r t
    using that by (intro post_LDST) simp
  show ?thesis
    unfolding specifyExceptionStateVector_def by (intro ustates_intros dies) (simp_all add: ld split: if_splits)
qed

section \<open>System calls in kernel mode and interrupts\<close>

lemma sysCall_ustates:
  assumes "st_mem s SYSCALLOLDAREA = Some st" "kernel_mode st" "0 < sint (s_a0 st)" "sint (s_a0 st) < 9"
    and "sysCallHandler s = Some (e, t)"
  shows "ustates t = ustates s"
proof -
  let ?Q = "\<lambda>(e, t). ustates t = ustates (advanced s st)"
  have "s_a0 st = word_of_int k" if "sint (s_a0 st) = k" for k using that by auto
  moreover have "sint (s_a0 st) \<in> {1, 2, 3, 4, 5, 6, 7, 8}" using assms(3,4) by auto
  ultimately have n: "s_a0 st \<in> {1, 2, 3, 4, 5, 6, 7, 8}" by fastforce
  note sys = sysCall_kernel [OF assms(1,2)]
  have fl: "post (\<lambda>(e, t). flagged (advanced s st) e t) m \<Longrightarrow> post ?Q m"
    and ke: "post (\<lambda>(e, t). kept t = kept (advanced s st)) m \<Longrightarrow> post ?Q m" for m
    by (erule post_mono, auto simp: flagged_def kept_def)+
  have "post ?Q (sysCallHandler s)"
    using n sys fl [OF wait_flagged(1)] fl [OF wait_flagged(2)] fl [OF wait_flagged(3)]
      ke [OF verhogen_kept] ke [OF getCPUTime_kept] terminateProcess_ustates [of "advanced s st"]
      specify_ustates [of "advanced s st"]
      post_mono [OF createProcess_flag [of "advanced s st"], of ?Q]
    by auto
  from postD [OF assms(5) this] have "ustates t = ustates (advanced s st)" by simp
  then show ?thesis by (simp add: advanced_def)
qed

lemma interrupt_ustates:
  assumes "interruptHandler s = Some (e, t)"
  shows "ustates t = ustates s"
proof -
  have q: "post (\<lambda>x. Q x) (quantumEnd s)" and c: "post (\<lambda>x. Q x) (clockTick s)" and d: "post (\<lambda>x. Q x) (deviceInterrupt l s)"
    if "\<And>e t. ustates t = ustates s \<Longrightarrow> Q (e, t)" for Q l s
    by (rule post_mono [OF quantumEnd_flag] post_mono [OF clockTick_flag] post_mono [OF deviceInterrupt_flag],
        use that in auto)+
  have "post (\<lambda>(e, t). ustates t = ustates s) (interruptHandler s)"
    unfolding interruptHandler_def by (intro post_intros q c d) (simp_all add: kept_def)
  from postD [OF assms this] show ?thesis by simp
qed

section \<open>Exceptions passed up\<close>

text \<open>Nothing of the kernel changes but the memory of states, and of that only the target.\<close>

definition writes_at :: "memaddr \<Rightarrow> kernel \<Rightarrow> kernel \<Rightarrow> bool" where
  "writes_at a s t \<longleftrightarrow> (\<exists>M. t = s\<lparr>st_mem := M\<rparr> \<and> (\<forall>b. b \<noteq> a \<longrightarrow> M b = st_mem s b))"

lemma writes_at_refl [simp]: "writes_at a s s"
  unfolding writes_at_def by (intro exI [of _ "st_mem s"]) simp

lemma writes_at_trans: "writes_at a s t \<Longrightarrow> writes_at a t u \<Longrightarrow> writes_at a s u"
  unfolding writes_at_def by force

lemma post_state_at: "(\<And>t. writes_at a s t \<Longrightarrow> Q t) \<Longrightarrow> post Q (upd_state (StAt a) f s)"
proof -
  have "writes_at a s (s\<lparr>st_mem := (st_mem s)(a \<mapsto> x)\<rparr>)" for x
    unfolding writes_at_def by (intro exI [of _ "(st_mem s)(a \<mapsto> x)"]) simp
  then show "(\<And>t. writes_at a s t \<Longrightarrow> Q t) \<Longrightarrow> post Q (upd_state (StAt a) f s)"
    by (auto simp: post_def split: option.splits)
qed

lemma foldM_writes_at:
  "(\<And>i t. post (writes_at a t) (f i t)) \<Longrightarrow> post (writes_at a s) (foldM f xs s)"
proof (induction xs arbitrary: s)
  case (Cons i xs)
  have "post (\<lambda>t. post (writes_at a s) (foldM f xs t)) (f i s)"
    by (rule post_mono [OF Cons.prems]) (rule post_mono [OF Cons.IH [OF Cons.prems]], erule (1) writes_at_trans)
  then show ?case by (simp add: post_rules(3))
qed (simp add: post_def)

lemma post_copy_at: "(\<And>t. writes_at a s t \<Longrightarrow> Q t) \<Longrightarrow> post Q (stateCopy old (StAt a) s)"
proof -
  have "post (writes_at a s) (stateCopy old (StAt a) s)"
    unfolding stateCopy_def
    by (intro post_rules post_read post_state_at post_mono [OF foldM_writes_at]) (blast intro: writes_at_trans)+
  then show "(\<And>t. writes_at a s t \<Longrightarrow> Q t) \<Longrightarrow> post Q (stateCopy old (StAt a) s)" by (rule post_mono)
qed

text \<open>All states but those at the addresses \<open>B\<close> are as before.\<close>

definition states_but :: "memaddr set \<Rightarrow> kernel \<Rightarrow> kernel \<Rightarrow> bool" where
  "states_but B s t \<longleftrightarrow> (\<forall>a. a \<notin> B \<longrightarrow> ustates t a = ustates s a)"

lemma states_but_same [intro]: "ustates t = ustates s \<Longrightarrow> states_but B s t"
  by (simp add: states_but_def)

lemma states_but_writes: "writes_at a s t \<Longrightarrow> a \<in> B \<Longrightarrow> states_but B s t"
  by (auto simp: states_but_def writes_at_def ustates_def restrict_map_def)

text \<open>Where the current process has its exceptions of type \<open>k\<close> stored.\<close>

definition old_area :: "int \<Rightarrow> kernel \<Rightarrow> memaddr set" where
  "old_area k s = (case currentProcess s of None \<Rightarrow> {} | Some p \<Rightarrow> {fst (evec k (procTable s p))} - {NULL})"

lemma passUp_states: "k \<in> {0, 1, 2} \<Longrightarrow> post (\<lambda>(e, t). states_but (old_area k s) s t) (passUpOrDie k s)"
proof (cases "currentProcess s")
  case (Some p)
  have dies: "post (\<lambda>x. Q x) (terminateProcess s)" if "\<And>e t. ustates t = ustates s \<Longrightarrow> Q (e, t)" for Q
    using post_mono [OF terminateProcess_ustates [of s]] that by fastforce
  have up: "post (\<lambda>x. Q x) (do {
      s1 \<leftarrow> stateCopy r (StAt a) s; c1 \<leftarrow> rd_pcb (currentProcess s1) s1; LDST (StAt (f c1)) s1 })"
    if "a = fst (evec k (procTable s p))" "a \<noteq> NULL" "\<And>st t. states_but (old_area k s) s t \<Longrightarrow> Q (Exit_LDST st, t)" for Q r a f
    by (intro post_rules post_copy_at post_read post_LDST that(3), erule states_but_writes)
      (use that(1,2) Some in \<open>simp add: old_area_def\<close>)
  have rd: "rd_pcb (currentProcess s) s = (if p < MAXPROC then Some (procTable s p) else None)"
    using Some by (simp add: rd_pcb_def)
  assume "k \<in> {0, 1, 2}"
  then show ?thesis
    unfolding passUpOrDie_def
    by (intro post_kseq) (auto intro!: post_rules(1-2) up dies simp: evec_def rd split: if_splits)
qed (auto simp: passUpOrDie_def post_def)

text \<open>A system call in user mode is a program trap; a number from 9 on, or not positive, is passed up.\<close>

lemma writes_at_area:
  assumes "writes_at a s t" "a \<in> kareas"
  shows "ustates t = ustates s" "old_area k t = old_area k s"
  using assms by (auto simp: writes_at_def ustates_def old_area_def restrict_map_def fun_eq_iff split: option.splits)

lemma sysCall_user_states:
  assumes "st_mem s SYSCALLOLDAREA = Some st" "\<not> kernel_mode st" "0 < sint (s_a0 st)" "sint (s_a0 st) < 9"
  shows "post (\<lambda>(e, t). states_but (old_area 1 s) s t) (sysCallHandler s)"
proof -
  have pgm: "post (\<lambda>(e, t). states_but (old_area 1 s) s t) (pgmTrapHandler u)"
    if "writes_at PROGRAMTRAPOLDAREA s t" "writes_at PROGRAMTRAPOLDAREA t u" for t u
  proof -
    have "PROGRAMTRAPOLDAREA \<in> kareas" by (simp add: kareas_def)
    note a = writes_at_area [OF writes_at_trans [OF that] this]
    show ?thesis using passUp_states [of 1 u] a by (simp add: pgmTrapHandler_def states_but_def)
  qed
  have "sysCallHandler s = do {
      s1 \<leftarrow> stateCopy (StAt SYSCALLOLDAREA) (StAt PROGRAMTRAPOLDAREA) s;
      s2 \<leftarrow> upd_state (StAt PROGRAMTRAPOLDAREA) (\<lambda>x. x\<lparr>s_cause := riCause (s_cause x)\<rparr>) s1;
      pgmTrapHandler s2 }"
    using assms by (simp add: sysCallHandler_def syscallDispatch_def kernel_mode_def ALLOFF_def)
  then show ?thesis by (simp only:) (intro post_rules post_copy_at post_state_at pgm)
qed

lemma sysCall_high_states:
  assumes "st_mem s SYSCALLOLDAREA = Some st" "\<not> (0 < sint (s_a0 st) \<and> sint (s_a0 st) < 9)"
  shows "post (\<lambda>(e, t). states_but (old_area 2 s) s t) (sysCallHandler s)"
proof -
  have "sysCallHandler s = passUpOrDie 2 s"
    using assms(1) by (simp add: sysCallHandler_def syscallDispatch_def if_not_P [OF assms(2)])
  then show ?thesis using passUp_states [of 2 s] by simp
qed

text \<open>
  C8. What the handlers of the nucleus write into the processor states in the memory of the
  processes (the states outside the old and new areas of the machine; semaphores are a separate
  part of the memory in the model), in whatever state they are called: no interrupt and none of
  the system calls 1 to 8 in kernel mode changes any of them. A TLB exception, a program trap, a
  system call with another number and a system call in user mode change at most the one at the
  address that the block of the running process holds for exceptions of that kind (SYS 5 puts it
  there; a system call in user mode is a program trap), and none if that is NULL.
\<close>

theorem nucleus_keeps_states:
  "(interruptHandler s = Some (e, t) \<longrightarrow> ustates t = ustates s)
   \<and> (tlbMgmtHandler s = Some (e, t) \<longrightarrow> states_but (old_area 0 s) s t)
   \<and> (pgmTrapHandler s = Some (e, t) \<longrightarrow> states_but (old_area 1 s) s t)
   \<and> (\<forall>st. st_mem s SYSCALLOLDAREA = Some st \<and> sysCallHandler s = Some (e, t) \<longrightarrow>
        (if 0 < sint (s_a0 st) \<and> sint (s_a0 st) < 9
         then if kernel_mode st then ustates t = ustates s else states_but (old_area 1 s) s t
         else states_but (old_area 2 s) s t))"
proof (intro conjI allI impI)
  show "interruptHandler s = Some (e, t) \<Longrightarrow> ustates t = ustates s" by (rule interrupt_ustates)
  show "tlbMgmtHandler s = Some (e, t) \<Longrightarrow> states_but (old_area 0 s) s t"
    using postD [OF _ passUp_states [of 0 s]] by (auto simp: tlbMgmtHandler_def)
  show "pgmTrapHandler s = Some (e, t) \<Longrightarrow> states_but (old_area 1 s) s t"
    using postD [OF _ passUp_states [of 1 s]] by (auto simp: pgmTrapHandler_def)
next
  fix st assume "st_mem s SYSCALLOLDAREA = Some st \<and> sysCallHandler s = Some (e, t)"
  then have st: "st_mem s SYSCALLOLDAREA = Some st" and h: "sysCallHandler s = Some (e, t)" by simp_all
  show "if 0 < sint (s_a0 st) \<and> sint (s_a0 st) < 9
         then if kernel_mode st then ustates t = ustates s else states_but (old_area 1 s) s t
         else states_but (old_area 2 s) s t"
    using sysCall_ustates [OF st _ _ _ h] postD [OF h sysCall_user_states [OF st]]
      postD [OF h sysCall_high_states [OF st]] by auto
qed

text \<open>
  A process that has given \<open>0x20006000\<close> for system calls asks for number 9: the state there is
  written, and no other. With number 6 none is.
\<close>

definition ex_vector :: kernel where
  "ex_vector = ex_kernel\<lparr>
     st_mem := (st_mem ex_kernel)(SYSCALLOLDAREA \<mapsto> sys_state 9 0 0 0, 0x20006000 \<mapsto> ex_state, 0x20007000 \<mapsto> ex_other),
     procTable := (\<lambda>p. (procTable ex_kernel p)\<lparr>p_oldSys := 0x20006000, p_newSys := 0x20007000\<rparr>)\<rparr>"

theorem nucleus_keeps_states_witness:
  "(\<exists>t. sysCallHandler ex_vector = Some (Exit_LDST ex_other, t) \<and> ustates t 0x20006000 = Some (sys_state 9 0 0 0)
      \<and> (\<forall>a. a \<noteq> 0x20006000 \<longrightarrow> ustates t a = ustates ex_vector a))
   \<and> (\<exists>e t. sysCallHandler (ex_sys 6 0 0 0) = Some (e, t) \<and> ustates t = ustates (ex_sys 6 0 0 0))"
proof (intro conjI)
  let ?s = ex_vector
  have wf: "wf_state (sys_state 9 0 0 0)" "wf_state ex_state" by simp (simp add: wf_state_def ex_state_def STATEREGNUM_def)
  have c: "currentProcess ?s = Some 0" "(0::nat) < MAXPROC" "st_mem ?s SYSCALLOLDAREA = Some (sys_state 9 0 0 0)"
    using krelD(2) [OF ex_kernel_krel] by (simp_all add: ex_vector_def area_defs MAXPROC_def)
  have ev: "evec 2 (procTable ?s 0) = (0x20006000, 0x20007000)" by (simp add: ex_vector_def evec_def)
  have "sysCallHandler ?s = passUpOrDie 2 ?s" using c(3) by (simp add: sysCallHandler_def syscallDispatch_def)
  also have "\<dots> = Some (Exit_LDST ex_other, ?s\<lparr>st_mem := (st_mem ?s)(0x20006000 \<mapsto> sys_state 9 0 0 0)\<rparr>)"
    using passUp_set [OF c(1,2), of 2 "sys_state 9 0 0 0" ex_state ex_other] c(3) wf ev
    by (simp add: earea_def NULL_def ex_vector_def)
  finally obtain t where t: "sysCallHandler ?s = Some (Exit_LDST ex_other, t)" "ustates t 0x20006000 = Some (sys_state 9 0 0 0)"
    by (simp add: ustates_def restrict_map_def kareas_def area_defs)
  from nucleus_keeps_states [of ?s "Exit_LDST ex_other" t] have "states_but (old_area 2 ?s) ?s t" using c(3) t(1) by simp
  moreover have "old_area 2 ?s = {0x20006000}" using c(1) ev by (simp add: old_area_def NULL_def)
  ultimately show "\<exists>t. sysCallHandler ?s = Some (Exit_LDST ex_other, t) \<and> ustates t 0x20006000 = Some (sys_state 9 0 0 0)
      \<and> (\<forall>a. a \<noteq> 0x20006000 \<longrightarrow> ustates t a = ustates ?s a)"
    using t by (auto simp: states_but_def)
next
  let ?s = "ex_sys 6 0 0 0" and ?st = "sys_state 6 0 0 0"
  have st: "st_mem ?s SYSCALLOLDAREA = Some ?st" "krel ?s ex_abs" by simp_all
  obtain e t where h: "sysCallHandler ?s = Some (e, t)"
    using getCPUTime_run [OF advanced_simps(1,2) [OF st(2,1)], of 0] sysCall_kernel(6) [OF st(1)] by auto
  from nucleus_keeps_states [of ?s e t] h st(1) have "ustates t = ustates ?s" by simp
  with h show "\<exists>e t. sysCallHandler ?s = Some (e, t) \<and> ustates t = ustates ?s" by blast
qed

end
