(* ===== verification/P2_Machine.thy ===== *)
theory P2_Machine
  imports Nucleus_Memory
begin

text \<open>
  User processes on the nucleus: what a C function of a process does between two exceptions, and
  the machine that runs the processes and, at each exception, the nucleus.

  A process executes commands. \<open>Exec f\<close> computes, reads and writes memory and devices; \<open>Call\<close> is
  \<open>SYSCALL\<close> with its number and three arguments, whose result the next command finds in \<open>v0\<close>;
  \<open>Cond\<close> and \<open>Loop\<close> are \<open>if\<close> and \<open>while\<close>; \<open>Load\<close> is \<open>LDST\<close> of a state in memory; \<open>Panic\<close> is
  \<open>PANIC()\<close>. An access to an address that is not mapped (\<open>None\<close>) is a program trap.
\<close>

section \<open>Commands\<close>

text \<open>The local variables of the functions of \<open>phase2/p2test.c\<close>; \<open>u_s\<close> is the rest of a message.\<close>

record ulocals =
  u_s :: string
  u_status :: word32
  u_i :: word32
  u_now1 :: word32
  u_now2 :: word32
  u_cpu_t1 :: word32
  u_cpu_t2 :: word32
  u_time1 :: word32
  u_time2 :: word32
  u_grandchild :: word32

text \<open>
  What a process sees: its local variables, memory (in the kernel's state), the processor state
  and the commands written so far to the transmitter of terminal 0.
\<close>

record ustate =
  loc :: ulocals
  mem :: kernel
  cpu :: state_t
  out :: "word32 list"

datatype ucmd =
    Exec "ustate \<Rightarrow> ustate option"
  | Call "ustate \<Rightarrow> (word32 \<times> word32 \<times> word32 \<times> word32) option"
  | Cond "ustate \<Rightarrow> bool option" "ucmd list" "ucmd list"
  | Loop "ustate \<Rightarrow> bool option" "ucmd list"
  | Load memaddr
  | Panic

section \<open>The machine\<close>

text \<open>
  \<open>conf p\<close> is what process \<open>p\<close> still has to do: the local variables and the commands of the function
  it executes, on top of those a trap handler of its own interrupted. It is empty for a process
  that has not run: then the program counter of the state that is loaded says where it starts.
  \<open>prog pc\<close> is the body of the function at address \<open>pc\<close>.
\<close>

type_synonym uconf = "(ulocals \<times> ucmd list) list"

record machine =
  kern :: kernel
  creg :: state_t
  conf :: "nat \<Rightarrow> uconf"
  tout :: "word32 list"

type_synonym prog = "memaddr \<Rightarrow> ucmd list option"

definition no_locals :: ulocals where
  "no_locals = \<lparr>u_s = [], u_status = 0, u_i = 0, u_now1 = 0, u_now2 = 0, u_cpu_t1 = 0, u_cpu_t2 = 0,
     u_time1 = 0, u_time2 = 0, u_grandchild = 0\<rparr>"

text \<open>
  The nucleus is done: it has loaded a state, which the current process resumes with, or it
  idles. A state passed up starts the handler at its program counter. \<open>PANIC\<close>, \<open>HALT\<close> and a
  return without loading a state stop the machine.
\<close>

definition starts :: "prog \<Rightarrow> state_t \<Rightarrow> uconf \<Rightarrow> uconf option" where
  "starts P st fs = map_option (\<lambda>b. (no_locals, b) # fs) (P (s_pc st))"

definition nucleus_done :: "prog \<Rightarrow> nat option \<Rightarrow> (kexit option \<times> kernel) option \<Rightarrow> machine \<Rightarrow> machine option" where
  "nucleus_done P up r m = do {
     (x, s) \<leftarrow> r;
     (case x of
        Some (Exit_LDST st) \<Rightarrow> do {
          q \<leftarrow> currentProcess s;
          c \<leftarrow> (if conf m q = [] \<or> up = Some q then starts P st (conf m q) else Some (conf m q));
          Some (m\<lparr>kern := s, creg := st, conf := (conf m)(q := c)\<rparr>)
        }
      | Some Exit_WAIT \<Rightarrow> Some (m\<lparr>kern := s\<rparr>)
      | _ \<Rightarrow> None)
   }"

text \<open>
  An exception of the running process. A program trap or a TLB exception may be passed up. (The
  exception code of the access is \<open>c\<close>.)
\<close>

definition run_handler :: "(kernel \<Rightarrow> outcome) \<Rightarrow> memaddr \<Rightarrow> state_t \<Rightarrow> kernel \<Rightarrow> (kexit option \<times> kernel) option" where
  "run_handler h area st s = map_option (map_prod Some id) (h (s\<lparr>st_mem := (st_mem s)(area \<mapsto> st)\<rparr>))"

definition trap :: "prog \<Rightarrow> (kernel \<Rightarrow> outcome) \<Rightarrow> memaddr \<Rightarrow> word32 \<Rightarrow> machine \<Rightarrow> machine option" where
  "trap P h area c m =
     nucleus_done P (currentProcess (kern m)) (run_handler h area ((creg m)\<lparr>s_cause := push_bit 2 c\<rparr>) (kern m)) m"

definition call_state :: "word32 \<times> word32 \<times> word32 \<times> word32 \<Rightarrow> state_t \<Rightarrow> state_t" where
  "call_state a st = (case a of (n, x, y, z) \<Rightarrow>
     set_reg 6 z (set_reg 5 y (set_reg 4 x (set_reg 3 n st))))"

text \<open>\<open>SYSCALL\<close>: SYS 1 may have made a new process, which has not run; SYS 9 and up may be passed up.\<close>

definition new_child :: "word32 \<Rightarrow> nat \<Rightarrow> (kexit option \<times> kernel) option \<Rightarrow> machine \<Rightarrow> machine" where
  "new_child n p r m =
     (case r of
        Some (Some (Exit_LDST st), s) \<Rightarrow>
          (case p_child (procTable s p) of
             Some q \<Rightarrow> if n = 1 \<and> s_v0 st = 0 then m\<lparr>conf := (conf m)(q := [])\<rparr> else m
           | None \<Rightarrow> m)
      | _ \<Rightarrow> m)"

definition syscall :: "prog \<Rightarrow> nat \<Rightarrow> word32 \<times> word32 \<times> word32 \<times> word32 \<Rightarrow> machine \<Rightarrow> machine option" where
  "syscall P p a m =
     (let st = call_state a (creg m); r = handle (Syscall st) (kern m);
          up = (if fst a \<in> {1..8} \<and> kernel_mode st then None else Some p)
      in nucleus_done P up r (new_child (fst a) p r m))"

section \<open>Steps\<close>

definition view :: "ulocals \<Rightarrow> machine \<Rightarrow> ustate" where
  "view l m = \<lparr>loc = l, mem = kern m, cpu = creg m, out = tout m\<rparr>"

text \<open>
  A step of the running process. Virtual memory without segment tables is a TLB exception
  (exception code 2), a bad access a bus error (6).
\<close>

definition VMBITS :: word32 where "VMBITS = 0x03000000"

definition exec_cmd :: "prog \<Rightarrow> nat \<Rightarrow> ulocals \<Rightarrow> ucmd \<Rightarrow> ucmd list \<Rightarrow> uconf \<Rightarrow> machine \<Rightarrow> machine option" where
  "exec_cmd P p l c k fs m =
     (let go = (\<lambda>l' ks. Some (m\<lparr>conf := (conf m)(p := (l', ks) # fs)\<rparr>));
          fault = trap P pgmTrapHandler PROGRAMTRAPOLDAREA 6 m
      in (case c of
            Exec f \<Rightarrow>
              (case f (view l m) of
                 Some u \<Rightarrow> Some (m\<lparr>kern := mem u, creg := cpu u, conf := (conf m)(p := (loc u, k) # fs), tout := out u\<rparr>)
               | None \<Rightarrow> fault)
          | Call g \<Rightarrow>
              (case g (view l m) of
                 Some a \<Rightarrow> syscall P p a (m\<lparr>conf := (conf m)(p := (l, k) # fs)\<rparr>)
               | None \<Rightarrow> fault)
          | Cond b xs ys \<Rightarrow> (case b (view l m) of Some t \<Rightarrow> go l ((if t then xs else ys) @ k) | None \<Rightarrow> fault)
          | Loop b xs \<Rightarrow> (case b (view l m) of Some t \<Rightarrow> go l (if t then xs @ Loop b xs # k else k) | None \<Rightarrow> fault)
          | Load a \<Rightarrow>
              (case st_mem (kern m) a of
                 Some st \<Rightarrow> Some (m\<lparr>creg := st, conf := (conf m)(p :=
                    (case P (s_pc st) of Some b \<Rightarrow> [(no_locals, b)] | None \<Rightarrow> fs))\<rparr>)
               | None \<Rightarrow> fault)
          | Panic \<Rightarrow> None))"

definition ustep :: "prog \<Rightarrow> machine \<Rightarrow> machine option" where
  "ustep P m =
     (case currentProcess (kern m) of
        None \<Rightarrow> None
      | Some p \<Rightarrow>
          if s_status (creg m) AND VMBITS \<noteq> 0 then trap P tlbMgmtHandler TLBMANAGEMENTOLDAREA 2 m
          else (case conf m p of
                  (l, c # k) # fs \<Rightarrow> exec_cmd P p l c k fs m
                | _ \<Rightarrow> None))"

text \<open>An interrupt, with the given cause register, bitmaps and device registers.\<close>

definition interrupt :: "prog \<Rightarrow> word32 \<Rightarrow> (nat \<Rightarrow> word32) \<Rightarrow> (nat \<Rightarrow> device_t) \<Rightarrow> machine \<Rightarrow> machine option" where
  "interrupt P c f regs m =
     nucleus_done P None (handle (Interrupt ((creg m)\<lparr>s_cause := c\<rparr>) f regs) (kern m)) m"

text \<open>
  The schedule in which devices are slow: processes run until all wait, then terminal 0 reports
  that it has transmitted.
\<close>

definition sent :: "kernel \<Rightarrow> nat \<Rightarrow> device_t" where
  "sent s = (devreg (busreg s))(32 := (devreg (busreg s) 32)\<lparr>d_data0 := 5\<rparr>)"

definition tick :: "prog \<Rightarrow> machine \<Rightarrow> machine option" where
  "tick P m =
     (if currentProcess (kern m) \<noteq> None then ustep P m
      else interrupt P 0x8000 (\<lambda>_. 1) (sent (kern m)) m)"

fun ticks :: "prog \<Rightarrow> nat \<Rightarrow> machine \<Rightarrow> machine option" where
  "ticks P 0 m = Some m"
| "ticks P (Suc n) m = do { m1 \<leftarrow> tick P m; ticks P n m1 }"

end
