(* ===== verification/P2_Test.thy ===== *)
theory P2_Test
  imports P2_Machine
begin

text \<open>
  The test program of phase 2, \<open>phase2/p2test.c\<close>: its globals, \<open>print\<close> and the functions of its
  processes, as commands of \<open>P2_Machine\<close>, in the order of the file.
\<close>

section \<open>Constants and globals\<close>

definition p2_PRINTCHR :: word32 where "p2_PRINTCHR = 2"
definition BYTELEN :: nat where "BYTELEN = 8"
definition RECVD :: word32 where "RECVD = 5"
definition CLOCKINTERVAL :: word32 where "CLOCKINTERVAL = 100000"
definition TERMSTATMASK :: word32 where "TERMSTATMASK = 0xFF"
definition CAUSEMASK :: word32 where "CAUSEMASK = 0xFF"
definition p2_VMOFF :: word32 where "p2_VMOFF = 0xF8FFFFFF"
definition BUSERROR :: word32 where "BUSERROR = 6"
definition RESVINSTR :: word32 where "RESVINSTR = 10"
definition ADDRERROR :: word32 where "ADDRERROR = 4"
definition QPAGE :: word32 where "QPAGE = 1024"
definition IEPBITON :: word32 where "IEPBITON = 0x4"
definition KUPBITON :: word32 where "KUPBITON = 0x8"
definition KUPBITOFF :: word32 where "KUPBITOFF = 0xFFFFFFF7"
definition CAUSEINTMASK :: word32 where "CAUSEINTMASK = 0xFC00"
definition MINLOOPTIME :: int where "MINLOOPTIME = 30000"
definition LOOPNUM :: int where "LOOPNUM = 10000"
definition CLOCKLOOP :: int where "CLOCKLOOP = 10"
definition MINCLOCKLOOP :: int where "MINCLOCKLOOP = 3000"
definition BADADDR :: memaddr where "BADADDR = 0xFFFFFFFF"
definition TERM0 :: int where "TERM0 = 32"
definition TLBTRAP :: word32 where "TLBTRAP = 0"
definition PROGTRAP :: word32 where "PROGTRAP = 1"
definition SYSTRAP :: word32 where "SYSTRAP = 2"
definition TERMINT :: word32 where "TERMINT = 7"

definition CREATETHREAD :: word32 where "CREATETHREAD = 1"
definition TERMINATETHREAD :: word32 where "TERMINATETHREAD = 2"
definition VERHOGEN :: word32 where "VERHOGEN = 3"
definition PASSERN :: word32 where "PASSERN = 4"
definition SPECTRAPVEC :: word32 where "SPECTRAPVEC = 5"
definition GETCPUTIME :: word32 where "GETCPUTIME = 6"
definition WAITCLOCK :: word32 where "WAITCLOCK = 7"
definition WAITIO :: word32 where "WAITIO = 8"
definition CREATENOGOOD :: word32 where "CREATENOGOOD = -1"
definition NOLEAVES :: int where "NOLEAVES = 4"
definition p2_MAXSEM :: int where "p2_MAXSEM = 20"

lemmas p2_numbers =
  CREATETHREAD_def TERMINATETHREAD_def VERHOGEN_def PASSERN_def SPECTRAPVEC_def GETCPUTIME_def
  WAITCLOCK_def WAITIO_def TERMINT_def

text \<open>The integer variables, the states and the functions that have addresses.\<close>

datatype gvar = Term_mut | Sem word32 | Testsem | Startp2 | Endp2 | Endp3 | Blkp4 | Synp4 | Endp4 | Endp5
  | Endp8 | Endcreate | Blkp8 | P1p2synch | P8inc | P4inc | P5Stack | Creation | P5MemLocation

datatype svar = P2state | P3state | P4state | P5state | P6state | P7state | P8rootstate | Child1state
  | Child2state | Gchild1state | Gchild2state | Gchild3state | Gchild4state
  | Pstat_n | Mstat_n | Sstat_n | Pstat_o | Mstat_o | Sstat_o

datatype ufun = U_test | U_p2 | U_p3 | U_p4 | U_p5 | U_p5a | U_p5b | U_p5prog | U_p5mm | U_p5sys | U_p6 | U_p7
  | U_p8root | U_child1 | U_child2 | U_p8leaf

text \<open>Where the linker puts them; \<open>sarr\<close> is the address of the array \<open>s\<close>.\<close>

record p2_link =
  vaddr :: "gvar \<Rightarrow> memaddr"
  sarr :: memaddr
  staddr :: "svar \<Rightarrow> memaddr"
  code :: "ufun \<Rightarrow> memaddr"

fun g_addr :: "p2_link \<Rightarrow> gvar \<Rightarrow> memaddr" where
  "g_addr L (Sem i) = sarr L + 4 * i"
| "g_addr L x = vaddr L x"

text \<open>The initial values.\<close>

fun p2_init :: "gvar \<Rightarrow> word32" where
  "p2_init Term_mut = 1"
| "p2_init Blkp4 = 1"
| "p2_init P4inc = 1"
| "p2_init _ = 0"

section \<open>Statements\<close>

definition sys :: "word32 \<Rightarrow> word32 \<Rightarrow> word32 \<Rightarrow> word32 \<Rightarrow> ucmd" where
  "sys n x y z = Call (\<lambda>_. Some (n, x, y, z))"

definition letl :: "(ustate \<Rightarrow> ulocals) \<Rightarrow> ucmd" where
  "letl f = Exec (\<lambda>u. Some (u\<lparr>loc := f u\<rparr>))"

definition getg :: "p2_link \<Rightarrow> gvar \<Rightarrow> ustate \<Rightarrow> word32 option" where
  "getg L x u = rd_int (g_addr L x) (mem u)"

definition poke :: "memaddr \<Rightarrow> word32 \<Rightarrow> ustate \<Rightarrow> ustate option" where
  "poke a v u = do { s \<leftarrow> wr_int a v (mem u); Some (u\<lparr>mem := s\<rparr>) }"

definition setg :: "p2_link \<Rightarrow> gvar \<Rightarrow> (ustate \<Rightarrow> word32 option) \<Rightarrow> ucmd" where
  "setg L x f = Exec (\<lambda>u. do { v \<leftarrow> f u; poke (g_addr L x) v u })"

definition getst :: "p2_link \<Rightarrow> svar \<Rightarrow> (state_t \<Rightarrow> word32) \<Rightarrow> ustate \<Rightarrow> word32 option" where
  "getst L x f u = map_option f (rd_state (StAt (staddr L x)) (mem u))"

definition setst :: "p2_link \<Rightarrow> svar \<Rightarrow> (ustate \<Rightarrow> word32 option) \<Rightarrow> (word32 \<Rightarrow> state_t \<Rightarrow> state_t) \<Rightarrow> ucmd" where
  "setst L x e f = Exec (\<lambda>u. do { v \<leftarrow> e u; s \<leftarrow> upd_state (StAt (staddr L x)) (f v) (mem u); Some (u\<lparr>mem := s\<rparr>) })"

definition STST :: "p2_link \<Rightarrow> svar \<Rightarrow> ucmd" where
  "STST L x = Exec (\<lambda>u. do { s \<leftarrow> upd_state (StAt (staddr L x)) (\<lambda>_. cpu u) (mem u); Some (u\<lparr>mem := s\<rparr>) })"

definition set_pc :: "word32 \<Rightarrow> state_t \<Rightarrow> state_t" where "set_pc v st = st\<lparr>s_pc := v\<rparr>"
definition set_status :: "word32 \<Rightarrow> state_t \<Rightarrow> state_t" where "set_status v st = st\<lparr>s_status := v\<rparr>"

text \<open>\<open>x.s_pc = x.s_t9 = (memaddr) f\<close>.\<close>

definition set_entry :: "p2_link \<Rightarrow> svar \<Rightarrow> ufun \<Rightarrow> ucmd list" where
  "set_entry L x f =
     [setst L x (\<lambda>_. Some (code L f)) set_t9, setst L x (\<lambda>_. Some (code L f)) set_pc]"

definition stck :: "(word32 \<Rightarrow> ulocals \<Rightarrow> ulocals) \<Rightarrow> ucmd" where
  "stck f = Exec (\<lambda>u. do { (t, s) \<leftarrow> STCK (mem u); Some (u\<lparr>mem := s, loc := f t (loc u)\<rparr>) })"

text \<open>\<open>n / (* ((cpu_t * ) TIMESCALEADDR))\<close>.\<close>

definition per_scale :: "int \<Rightarrow> ustate \<Rightarrow> int option" where
  "per_scale n u =
     (let t = sint (timescale (busreg (mem u))) in if t = 0 then None else Some (n sdiv t))"

definition for_i :: "int \<Rightarrow> (int \<Rightarrow> bool) \<Rightarrow> ucmd list \<Rightarrow> ucmd list" where
  "for_i k c body =
     [letl (\<lambda>u. (loc u)\<lparr>u_i := word_of_int k\<rparr>),
      Loop (\<lambda>u. Some (c (sint (u_i (loc u))))) (body @ [letl (\<lambda>u. (loc u)\<lparr>u_i := u_i (loc u) + 1\<rparr>)])]"

section \<open>Printing\<close>

definition print_cmd :: "char \<Rightarrow> word32" where
  "print_cmd c = p2_PRINTCHR OR push_bit BYTELEN (of_char c)"

text \<open>\<open>*(base + 3) = PRINTCHR | (((devregtr) *s) << BYTELEN)\<close>: the transmitter command of terminal 0.\<close>

definition put_char :: ucmd where
  "put_char = Exec (\<lambda>u. do {
     let c = print_cmd (hd (u_s (loc u)));
     s \<leftarrow> (if TERM0 < int (DEVINTNUM * DEVPERINT)
          then Some ((mem u)\<lparr>busreg := (busreg (mem u))\<lparr>devreg := (devreg (busreg (mem u)))(nat TERM0 :=
                 set_t_transm_command c (devreg (busreg (mem u)) (nat TERM0)))\<rparr>\<rparr>)
          else None);
     Some (u\<lparr>mem := s, out := out u @ [c]\<rparr>)
   })"

definition print_loop :: "ucmd" where
  "print_loop = Loop (\<lambda>u. Some (u_s (loc u) \<noteq> []))
     [put_char,
      sys WAITIO TERMINT 0 0,
      letl (\<lambda>u. (loc u)\<lparr>u_status := s_v0 (cpu u)\<rparr>),
      Cond (\<lambda>u. Some (u_status (loc u) AND TERMSTATMASK \<noteq> RECVD)) [Panic] [],
      letl (\<lambda>u. (loc u)\<lparr>u_s := tl (u_s (loc u))\<rparr>)]"

definition print :: "p2_link \<Rightarrow> string \<Rightarrow> ucmd list" where
  "print L msg =
     [letl (\<lambda>u. (loc u)\<lparr>u_s := msg\<rparr>),
      sys PASSERN (g_addr L Term_mut) 0 0,
      print_loop,
      sys VERHOGEN (g_addr L Term_mut) 0 0]"

section \<open>The root process\<close>

text \<open>\<open>STST(&x)\<close>, its stack pointer \<open>n\<close> bytes below that of \<open>y\<close>, its entry point and its status.\<close>

definition set_child :: "p2_link \<Rightarrow> svar \<Rightarrow> svar \<Rightarrow> word32 \<Rightarrow> ufun \<Rightarrow> ucmd list" where
  "set_child L x y n f =
     [STST L x, setst L x (\<lambda>u. map_option (\<lambda>v. v - n) (getst L y s_sp u)) set_sp]
     @ set_entry L x f
     @ [setst L x (\<lambda>u. map_option (\<lambda>v. v OR IEPBITON OR CAUSEINTMASK) (getst L x s_status u)) set_status]"

definition test_states :: "p2_link \<Rightarrow> ucmd list" where
  "test_states L =
     set_child L P2state P2state QPAGE U_p2
     @ set_child L P3state P2state QPAGE U_p3
     @ set_child L P4state P3state QPAGE U_p4
     @ [STST L P5state,
        setst L P5state (\<lambda>u. map_option (\<lambda>v. v - 2 * QPAGE) (getst L P4state s_sp u)) set_sp,
        setg L P5Stack (getst L P5state s_sp)]
     @ set_entry L P5state U_p5
     @ [setst L P5state (\<lambda>u. map_option (\<lambda>v. v OR IEPBITON OR CAUSEINTMASK) (getst L P5state s_status u)) set_status]
     @ set_child L P6state P5state (2 * QPAGE) U_p6
     @ set_child L P7state P6state QPAGE U_p7
     @ set_child L P8rootstate P7state QPAGE U_p8root
     @ set_child L Child1state P8rootstate QPAGE U_child1
     @ set_child L Child2state Child1state QPAGE U_child2
     @ set_child L Gchild1state Child2state QPAGE U_p8leaf
     @ set_child L Gchild2state Gchild1state QPAGE U_p8leaf
     @ set_child L Gchild3state Gchild2state QPAGE U_p8leaf
     @ set_child L Gchild4state Gchild3state QPAGE U_p8leaf"

definition test :: "p2_link \<Rightarrow> ucmd list" where
  "test L =
     [sys VERHOGEN (g_addr L Testsem) 0 0]
     @ print L ''p1 v(testsem)\<newline>''
     @ test_states L
     @ [sys CREATETHREAD (staddr L P2state) 0 0]
     @ print L ''p2 was started\<newline>''
     @ [sys VERHOGEN (g_addr L Startp2) 0 0,
        sys PASSERN (g_addr L Endp2) 0 0,
        Cond (\<lambda>u. map_option (\<lambda>v. v = 0) (getg L P1p2synch u))
          (print L ''error: p1/p2 synchronization bad\<newline>'') [],
        sys CREATETHREAD (staddr L P3state) 0 0]
     @ print L ''p3 is started\<newline>''
     @ [sys PASSERN (g_addr L Endp3) 0 0,
        sys CREATETHREAD (staddr L P4state) 0 0,
        sys CREATETHREAD (staddr L P5state) 0 0,
        sys CREATETHREAD (staddr L P6state) 0 0,
        sys CREATETHREAD (staddr L P7state) 0 0,
        sys PASSERN (g_addr L Endp5) 0 0]
     @ print L ''p1 knows p5 ended\<newline>''
     @ [sys PASSERN (g_addr L Blkp4) 0 0,
        setg L P8inc (\<lambda>_. Some 0),
        Loop (\<lambda>u. map_option (\<lambda>v. sint v < 4) (getg L P8inc u))
          ([sys CREATETHREAD (staddr L P8rootstate) 0 0,
            setg L Creation (\<lambda>u. Some (s_v0 (cpu u))),
            Cond (\<lambda>u. map_option (\<lambda>v. v = CREATENOGOOD) (getg L Creation u))
              (print L ''error in process termination\<newline>'' @ [Panic]) [],
            sys PASSERN (g_addr L Endp8) 0 0,
            setg L P8inc (\<lambda>u. map_option (\<lambda>v. v + 1) (getg L P8inc u))])]
     @ print L ''p1 finishes OK -- TTFN\<newline>''
     @ [Exec (poke BADADDR 0)]
     @ print L ''error: p1 still alive after progtrap & no trap vector\<newline>''
     @ [Panic]"

section \<open>Processes p2 and p3: semaphores, CPU time and the clock\<close>

definition p2 :: "p2_link \<Rightarrow> ucmd list" where
  "p2 L =
     [sys PASSERN (g_addr L Startp2) 0 0]
     @ print L ''p2 starts\<newline>''
     @ for_i 0 (\<lambda>i. i \<le> p2_MAXSEM) [Exec (\<lambda>u. poke (g_addr L (Sem (u_i (loc u)))) 0 u)]
     @ for_i 0 (\<lambda>i. i \<le> p2_MAXSEM)
         [Call (\<lambda>u. Some (VERHOGEN, g_addr L (Sem (u_i (loc u))), 0, 0)),
          Call (\<lambda>u. Some (PASSERN, g_addr L (Sem (u_i (loc u))), 0, 0)),
          Cond (\<lambda>u. map_option (\<lambda>v. v \<noteq> 0) (getg L (Sem (u_i (loc u))) u))
            (print L ''error: p2 bad v/p pairs\<newline>'') []]
     @ print L ''p2 v's successfully\<newline>''
     @ [stck (\<lambda>t l. l\<lparr>u_now1 := t\<rparr>),
        sys GETCPUTIME 0 0 0,
        letl (\<lambda>u. (loc u)\<lparr>u_cpu_t1 := s_v0 (cpu u)\<rparr>)]
     @ for_i 1 (\<lambda>i. i < LOOPNUM) []
     @ [sys GETCPUTIME 0 0 0,
        letl (\<lambda>u. (loc u)\<lparr>u_cpu_t2 := s_v0 (cpu u)\<rparr>),
        stck (\<lambda>t l. l\<lparr>u_now2 := t\<rparr>),
        Cond (\<lambda>u. do { n \<leftarrow> per_scale MINLOOPTIME u; let l = loc u;
            Some (sint (u_now2 l - u_now1 l) \<ge> sint (u_cpu_t2 l - u_cpu_t1 l) \<and> sint (u_cpu_t2 l - u_cpu_t1 l) \<ge> n) })
          (print L ''p2 is OK\<newline>'')
          ([Cond (\<lambda>u. Some (sint (u_now2 (loc u) - u_now1 (loc u)) < sint (u_cpu_t2 (loc u) - u_cpu_t1 (loc u))))
              (print L ''error: more cpu time than real time\<newline>'') [],
            Cond (\<lambda>u. do { n \<leftarrow> per_scale MINLOOPTIME u; Some (sint (u_cpu_t2 (loc u) - u_cpu_t1 (loc u)) < n) })
              (print L ''error: not enough cpu time went by\<newline>'') []]
           @ print L ''p2 blew it!\<newline>''),
        setg L P1p2synch (\<lambda>_. Some 1),
        sys VERHOGEN (g_addr L Endp2) 0 0,
        sys TERMINATETHREAD 0 0 0]
     @ print L ''error: p2 didn't terminate\<newline>''
     @ [Panic]"

text \<open>\<open>while (time2-time1 < (CLOCKINTERVAL >> 1))\<close>: the difference is converted to unsigned long.\<close>

definition clock_delay :: "ucmd list" where
  "clock_delay =
     [letl (\<lambda>u. (loc u)\<lparr>u_time1 := 0\<rparr>), letl (\<lambda>u. (loc u)\<lparr>u_time2 := 0\<rparr>),
      Loop (\<lambda>u. Some (u_time2 (loc u) - u_time1 (loc u) < drop_bit 1 CLOCKINTERVAL))
        [stck (\<lambda>t l. l\<lparr>u_time1 := t\<rparr>), sys WAITCLOCK 0 0 0, stck (\<lambda>t l. l\<lparr>u_time2 := t\<rparr>)]]"

definition p3 :: "p2_link \<Rightarrow> ucmd list" where
  "p3 L =
     clock_delay
     @ print L ''p3 - WAITCLOCK OK\<newline>''
     @ [sys GETCPUTIME 0 0 0, letl (\<lambda>u. (loc u)\<lparr>u_cpu_t1 := s_v0 (cpu u)\<rparr>)]
     @ for_i 0 (\<lambda>i. i < CLOCKLOOP) [sys WAITCLOCK 0 0 0]
     @ [sys GETCPUTIME 0 0 0, letl (\<lambda>u. (loc u)\<lparr>u_cpu_t2 := s_v0 (cpu u)\<rparr>),
        Cond (\<lambda>u. do { n \<leftarrow> per_scale MINCLOCKLOOP u; Some (sint (u_cpu_t2 (loc u) - u_cpu_t1 (loc u)) < n) })
          (print L ''error: p3 - CPU time incorrectly maintained\<newline>'')
          (print L ''p3 - CPU time correctly maintained\<newline>''),
        sys VERHOGEN (g_addr L Endp3) 0 0,
        sys TERMINATETHREAD 0 0 0]
     @ print L ''error: p3 didn't terminate\<newline>''
     @ [Panic]"

section \<open>Process p4: termination\<close>

text \<open>The stack of the second incarnation.\<close>

definition p4_respawn :: "p2_link \<Rightarrow> ucmd list" where
  "p4_respawn L = [setst L P4state (\<lambda>u. map_option (\<lambda>v. v - QPAGE) (getst L P4state s_sp u)) set_sp]"

definition p4 :: "p2_link \<Rightarrow> ucmd list" where
  "p4 L =
     [Cond (\<lambda>u. map_option (\<lambda>v. v = 1) (getg L P4inc u))
        (print L ''first incarnation of p4 starts\<newline>'' @ [setg L P4inc (\<lambda>u. map_option (\<lambda>v. v + 1) (getg L P4inc u))])
        [Cond (\<lambda>u. map_option (\<lambda>v. v = 2) (getg L P4inc u)) (print L ''second incarnation of p4 starts\<newline>'') []],
      sys VERHOGEN (g_addr L Synp4) 0 0,
      sys PASSERN (g_addr L Blkp4) 0 0,
      sys PASSERN (g_addr L Synp4) 0 0]
     @ p4_respawn L
     @ [sys CREATETHREAD (staddr L P4state) 0 0,
        sys PASSERN (g_addr L Synp4) 0 0]
     @ print L ''p4 is OK\<newline>''
     @ [sys VERHOGEN (g_addr L Endp4) 0 0,
        sys TERMINATETHREAD 0 0 0]
     @ print L ''error: p4 didn't terminate\<newline>''
     @ [Panic]"

section \<open>Process p5: passing exceptions up\<close>

definition exe_code :: "p2_link \<Rightarrow> ustate \<Rightarrow> word32 option" where
  "exe_code L u = map_option (\<lambda>v. drop_bit 2 (v AND CAUSEMASK)) (getst L Pstat_o s_cause u)"

definition kernel_status :: "p2_link \<Rightarrow> ucmd" where
  "kernel_status L = setst L Pstat_o (\<lambda>u. map_option (\<lambda>v. v AND KUPBITOFF) (getst L Pstat_o s_status u)) set_status"

definition p5prog :: "p2_link \<Rightarrow> ucmd list" where
  "p5prog L =
     [Cond (\<lambda>u. map_option (\<lambda>v. v = BUSERROR) (exe_code L u))
        (print L ''Access non-existent memory\<newline>'' @ set_entry L Pstat_o U_p5a)
        [Cond (\<lambda>u. map_option (\<lambda>v. v = RESVINSTR) (exe_code L u))
           (print L ''privileged instruction\<newline>'' @ [kernel_status L] @ set_entry L Pstat_o U_p5b)
           [Cond (\<lambda>u. map_option (\<lambda>v. v = ADDRERROR) (exe_code L u))
              (print L ''Address Error: KSegOS w/KU=1\<newline>'' @ [kernel_status L] @ set_entry L Pstat_o U_p5b)
              (print L ''other program trap\<newline>'')]],
      Load (staddr L Pstat_o)]"

text \<open>Address translation off and user mode on, a new entry point, and a fresh stack.\<close>

definition p5mm_return :: "p2_link \<Rightarrow> ucmd list" where
  "p5mm_return L =
     [setst L Mstat_o (\<lambda>u. map_option (\<lambda>v. (v AND p2_VMOFF) OR KUPBITON) (getst L Mstat_o s_status u)) set_status]
     @ set_entry L Mstat_o U_p5b
     @ [setst L Mstat_o (\<lambda>u. map_option (\<lambda>v. v - QPAGE) (getg L P5Stack u)) set_sp]"

definition p5mm :: "p2_link \<Rightarrow> ucmd list" where
  "p5mm L = print L ''memory management trap\<newline>'' @ p5mm_return L @ [Load (staddr L Mstat_o)]"

definition p5sys :: "p2_link \<Rightarrow> ucmd list" where
  "p5sys L =
     [Cond (\<lambda>u. map_option (\<lambda>v. drop_bit 31 (push_bit 28 v) = 1) (getst L Sstat_o s_status u))
        (print L ''High level SYS call from user mode process\<newline>'')
        [Cond (\<lambda>u. map_option (\<lambda>v. drop_bit 31 (push_bit 28 v) = 0) (getst L Sstat_o s_status u))
           (print L ''High level SYS call from kernel mode process\<newline>'') []],
      setst L Sstat_o (\<lambda>u. map_option (\<lambda>v. v + 4) (getst L Sstat_o s_pc u)) set_pc,
      Load (staddr L Sstat_o)]"

definition p5 :: "p2_link \<Rightarrow> ucmd list" where
  "p5 L =
     print L ''p5 starts\<newline>''
     @ [STST L Pstat_n] @ set_entry L Pstat_n U_p5prog
     @ [STST L Mstat_n] @ set_entry L Mstat_n U_p5mm
     @ [STST L Sstat_n] @ set_entry L Sstat_n U_p5sys
     @ [sys SPECTRAPVEC PROGTRAP (staddr L Pstat_o) (staddr L Pstat_n),
        sys SPECTRAPVEC TLBTRAP (staddr L Mstat_o) (staddr L Mstat_n),
        sys SPECTRAPVEC SYSTRAP (staddr L Sstat_o) (staddr L Sstat_n),
        Exec (\<lambda>u. do { a \<leftarrow> getg L P5MemLocation u; v \<leftarrow> rd_int a (mem u); poke a (v + 1) u })]"

text \<open>\<open>getSTATUS\<close> and \<open>setSTATUS\<close> are the status register of the processor.\<close>

definition p5a :: "p2_link \<Rightarrow> ucmd list" where
  "p5a L =
     [letl (\<lambda>u. (loc u)\<lparr>u_status := s_status (cpu u)\<rparr>),
      letl (\<lambda>u. (loc u)\<lparr>u_status := u_status (loc u) OR 0x03000000\<rparr>),
      Exec (\<lambda>u. Some (u\<lparr>cpu := set_status (u_status (loc u)) (cpu u)\<rparr>))]"

definition p5b :: "p2_link \<Rightarrow> ucmd list" where
  "p5b L =
     [sys 9 0 0 0,
      sys PASSERN (g_addr L Endp4) 0 0]
     @ clock_delay
     @ [sys VERHOGEN (g_addr L Blkp4) 0 0,
        sys VERHOGEN (g_addr L Endp5) 0 0,
        sys SPECTRAPVEC PROGTRAP (staddr L Pstat_o) (staddr L Pstat_n)]
     @ print L ''error: p5 didn't terminate\<newline>''
     @ [Panic]"

section \<open>Processes p6 and p7: exceptions without a vector\<close>

definition p6 :: "p2_link \<Rightarrow> ucmd list" where
  "p6 L =
     print L ''p6 starts\<newline>''
     @ [sys 9 0 0 0]
     @ print L ''error: p6 alive after SYS9() with no trap vector\<newline>''
     @ [Panic]"

definition p7 :: "p2_link \<Rightarrow> ucmd list" where
  "p7 L =
     print L ''p7 starts\<newline>''
     @ [Exec (poke BADADDR 0)]
     @ print L ''error: p7 alive after program trap with no trap vector\<newline>''
     @ [Panic]"

section \<open>Process p8: a tree of processes\<close>

definition p8root :: "p2_link \<Rightarrow> ucmd list" where
  "p8root L =
     print L ''p8root starts\<newline>''
     @ [sys CREATETHREAD (staddr L Child1state) 0 0,
        sys CREATETHREAD (staddr L Child2state) 0 0,
        letl (\<lambda>u. (loc u)\<lparr>u_grandchild := 0\<rparr>),
        Loop (\<lambda>u. Some (sint (u_grandchild (loc u)) < NOLEAVES))
          [sys PASSERN (g_addr L Endcreate) 0 0,
           letl (\<lambda>u. (loc u)\<lparr>u_grandchild := u_grandchild (loc u) + 1\<rparr>)],
        sys VERHOGEN (g_addr L Endp8) 0 0,
        sys TERMINATETHREAD 0 0 0]"

definition child1 :: "p2_link \<Rightarrow> ucmd list" where
  "child1 L =
     print L ''child1 starts\<newline>''
     @ [sys CREATETHREAD (staddr L Gchild1state) 0 0,
        sys CREATETHREAD (staddr L Gchild2state) 0 0,
        sys PASSERN (g_addr L Blkp8) 0 0]"

definition child2 :: "p2_link \<Rightarrow> ucmd list" where
  "child2 L =
     print L ''child2 starts\<newline>''
     @ [sys CREATETHREAD (staddr L Gchild3state) 0 0,
        sys CREATETHREAD (staddr L Gchild4state) 0 0,
        sys PASSERN (g_addr L Blkp8) 0 0]"

definition p8leaf :: "p2_link \<Rightarrow> ucmd list" where
  "p8leaf L =
     print L ''leaf process starts\<newline>''
     @ [sys VERHOGEN (g_addr L Endcreate) 0 0,
        sys PASSERN (g_addr L Blkp8) 0 0]"

section \<open>The program in memory\<close>

fun body :: "p2_link \<Rightarrow> ufun \<Rightarrow> ucmd list" where
  "body L U_test = test L"
| "body L U_p2 = p2 L"
| "body L U_p3 = p3 L"
| "body L U_p4 = p4 L"
| "body L U_p5 = p5 L"
| "body L U_p5a = p5a L"
| "body L U_p5b = p5b L"
| "body L U_p5prog = p5prog L"
| "body L U_p5mm = p5mm L"
| "body L U_p5sys = p5sys L"
| "body L U_p6 = p6 L"
| "body L U_p7 = p7 L"
| "body L U_p8root = p8root L"
| "body L U_child1 = child1 L"
| "body L U_child2 = child2 L"
| "body L U_p8leaf = p8leaf L"

definition ufuns :: "ufun list" where
  "ufuns = [U_test, U_p2, U_p3, U_p4, U_p5, U_p5a, U_p5b, U_p5prog, U_p5mm, U_p5sys, U_p6, U_p7,
     U_p8root, U_child1, U_child2, U_p8leaf]"

definition p2_prog :: "p2_link \<Rightarrow> prog" where
  "p2_prog L pc = map_option (body L) (find (\<lambda>f. code L f = pc) ufuns)"

end
