(* ===== verification/P2_Steps.thy ===== *)
theory P2_Steps
  imports P2_Test
begin

text \<open>
  Running processes on the nucleus, abstractly: a \<open>world\<close> is what is known of a machine, and
  \<open>leads P w Q\<close> says that every machine of which \<open>w\<close> is true runs, on the schedule of slow
  devices, into one of which a world in \<open>Q\<close> is true.
\<close>

section \<open>Worlds\<close>

text \<open>Of the saved states (\<open>w_ctx\<close>) and of the registers (\<open>w_reg\<close>) a world has a property only.\<close>

record world =
  w_free :: "nat list"
  w_ready :: "nat list"
  w_waits :: "memaddr \<Rightarrow> nat list"
  w_run :: "nat option"
  w_ctx :: "nat \<Rightarrow> state_t \<Rightarrow> bool"
  w_sem :: "memaddr \<Rightarrow> word32 option"
  w_base :: memaddr
  w_tree :: ptree
  w_states :: "memaddr \<Rightarrow> state_t option"
  w_conf :: "nat \<Rightarrow> uconf"
  w_out :: "word32 list"
  w_reg :: "state_t \<Rightarrow> bool"

definition ak :: "world \<Rightarrow> (nat \<Rightarrow> state_t) \<Rightarrow> akernel" where
  "ak w X = \<lparr>a_free = w_free w, a_ready = w_ready w, a_waits = w_waits w, a_run = w_run w, a_ctx = X,
     a_sem = w_sem w, a_base = w_base w\<rparr>"

text \<open>A state of kernel mode without virtual memory.\<close>

definition plain :: "state_t \<Rightarrow> bool" where
  "plain st \<longleftrightarrow> wf_state st \<and> kernel_mode st \<and> s_status st AND VMBITS = 0"

definition sees :: "world \<Rightarrow> machine \<Rightarrow> bool" where
  "sees w m \<longleftrightarrow>
     (\<exists>X. implements (kern m) (ak w X, w_tree w) \<and> (\<forall>p\<in>set (members (w_tree w)). plain (X p))
        \<and> (\<forall>p. w_ctx w p (X p)))
     \<and> plain (creg m) \<and> ustates (kern m) = w_states w \<and> conf m = w_conf w \<and> tout m = w_out w
     \<and> w_reg w (creg m)"

definition leads :: "prog \<Rightarrow> world \<Rightarrow> (world \<Rightarrow> bool) \<Rightarrow> bool" where
  "leads P w Q \<longleftrightarrow> (\<forall>m. sees w m \<longrightarrow> (\<exists>n m' w'. ticks P n m = Some m' \<and> sees w' m' \<and> Q w'))"

lemma leads_here: "Q w \<Longrightarrow> leads P w Q"
  unfolding leads_def by (metis ticks.simps(1))

lemma ticks_add: "ticks P (n + k) m = ticks P n m \<bind> ticks P k"
  by (induction n arbitrary: m) (auto split: bind_splits)

lemma leads_trans:
  assumes "leads P w R" "\<And>w'. R w' \<Longrightarrow> leads P w' Q"
  shows "leads P w Q"
  unfolding leads_def
proof (intro allI impI)
  fix m assume "sees w m"
  then obtain n m1 w1 where 1: "ticks P n m = Some m1" "sees w1 m1" "R w1" using assms(1) unfolding leads_def by blast
  then obtain k m2 w2 where "ticks P k m1 = Some m2" "sees w2 m2" "Q w2" using assms(2) unfolding leads_def by blast
  then show "\<exists>n m' w'. ticks P n m = Some m' \<and> sees w' m' \<and> Q w'"
    using 1(1) ticks_add [of P n k m] by (intro exI [of _ "n + k"] exI [of _ m2] exI [of _ w2]) simp
qed

lemma leads_tick:
  assumes "\<And>m. sees w m \<Longrightarrow> \<exists>m' w'. tick P m = Some m' \<and> sees w' m' \<and> leads P w' Q"
  shows "leads P w Q"
  unfolding leads_def
proof (intro allI impI)
  fix m assume "sees w m"
  from assms [OF this] obtain m1 w1 where 1: "tick P m = Some m1" "sees w1 m1" "leads P w1 Q" by blast
  then obtain k m2 w2 where "ticks P k m1 = Some m2" "sees w2 m2" "Q w2" unfolding leads_def by blast
  then show "\<exists>n m' w'. ticks P n m = Some m' \<and> sees w' m' \<and> Q w'"
    using 1(1) by (intro exI [of _ "Suc k"] exI [of _ m2] exI [of _ w2]) simp
qed

text \<open>The current process, what it executes, and what it sees.\<close>

abbreviation at :: "world \<Rightarrow> nat \<Rightarrow> ulocals \<Rightarrow> ucmd list \<Rightarrow> uconf \<Rightarrow> bool" where
  "at w p l k fs \<equiv> w_run w = Some p \<and> w_conf w p = (l, k) # fs"

abbreviation goto :: "nat \<Rightarrow> ulocals \<Rightarrow> ucmd list \<Rightarrow> uconf \<Rightarrow> world \<Rightarrow> world" where
  "goto p l k fs w \<equiv> w\<lparr>w_conf := (w_conf w)(p := (l, k) # fs)\<rparr>"

definition seen :: "world \<Rightarrow> ulocals \<Rightarrow> ustate \<Rightarrow> bool" where
  "seen w l u \<longleftrightarrow> loc u = l \<and> int_mem (mem u) = w_sem w \<and> ustates (mem u) = w_states w
     \<and> timescale (busreg (mem u)) \<noteq> 0 \<and> plain (cpu u) \<and> out u = w_out w
     \<and> w_reg w (cpu u)"

lemma sees_view:
  assumes "sees w m" "at w p l k fs"
  shows "seen w l (view l m)" "currentProcess (kern m) = Some p" "conf m p = (l, k) # fs"
    "s_status (creg m) AND VMBITS = 0"
proof -
  obtain X where "implements (kern m) (ak w X, w_tree w)" using assms(1) by (auto simp: sees_def)
  note D = implementsD(1) [OF this]
  have "int_mem (kern m) = w_sem w" "currentProcess (kern m) = w_run w"
    using krelD(2,6) [OF D] by (simp_all add: ak_def)
  moreover have "timescale (busreg (kern m)) \<noteq> 0" by (rule mem_okD(1) [OF krelD(10) [OF D]])
  ultimately show "seen w l (view l m)" "currentProcess (kern m) = Some p" "conf m p = (l, k) # fs"
    "s_status (creg m) AND VMBITS = 0"
    using assms by (simp_all add: seen_def sees_def view_def plain_def)
qed

lemma tick_at:
  assumes "sees w m" "at w p l (c # k) fs"
  shows "tick P m = exec_cmd P p l c k fs m"
  using sees_view [OF assms] by (simp add: tick_def ustep_def)

section \<open>Computation\<close>

lemma sees_goto: "sees w m \<Longrightarrow> sees (goto p l k fs w) (m\<lparr>conf := (conf m)(p := (l, k) # fs)\<rparr>)"
  by (simp add: sees_def ak_def)

lemma leads_exec:
  assumes a: "at w p l (Exec f # k) fs"
    and f: "\<And>u. seen w l u \<Longrightarrow> \<exists>l'. f u = Some (u\<lparr>loc := l'\<rparr>) \<and> leads P (goto p l' k fs w) Q"
  shows "leads P w Q"
proof (rule leads_tick)
  fix m assume m: "sees w m"
  from f [OF sees_view(1) [OF m a]] obtain l' where l': "f (view l m) = Some ((view l m)\<lparr>loc := l'\<rparr>)"
    "leads P (goto p l' k fs w) Q" by blast
  have "tick P m = Some (m\<lparr>conf := (conf m)(p := (l', k) # fs)\<rparr>)"
    unfolding tick_at [OF m a] exec_cmd_def using l'(1) by (simp add: view_def)
  then show "\<exists>m' w'. tick P m = Some m' \<and> sees w' m' \<and> leads P w' Q" using sees_goto [OF m] l'(2) by blast
qed

lemma leads_cond:
  assumes a: "at w p l (Cond b xs ys # k) fs" and b: "\<And>u. seen w l u \<Longrightarrow> b u = Some t"
    and "leads P (goto p l ((if t then xs else ys) @ k) fs w) Q"
  shows "leads P w Q"
proof (rule leads_tick)
  fix m assume m: "sees w m"
  have "tick P m = Some (m\<lparr>conf := (conf m)(p := (l, (if t then xs else ys) @ k) # fs)\<rparr>)"
    unfolding tick_at [OF m a] exec_cmd_def using b [OF sees_view(1) [OF m a]] by simp
  then show "\<exists>m' w'. tick P m = Some m' \<and> sees w' m' \<and> leads P w' Q" using sees_goto [OF m] assms(3) by blast
qed

lemma leads_loop:
  assumes a: "at w p l (Loop b xs # k) fs" and b: "\<And>u. seen w l u \<Longrightarrow> b u = Some t"
    and "leads P (goto p l (if t then xs @ Loop b xs # k else k) fs w) Q"
  shows "leads P w Q"
proof (rule leads_tick)
  fix m assume m: "sees w m"
  have "tick P m = Some (m\<lparr>conf := (conf m)(p := (l, if t then xs @ Loop b xs # k else k) # fs)\<rparr>)"
    unfolding tick_at [OF m a] exec_cmd_def using b [OF sees_view(1) [OF m a]] by simp
  then show "\<exists>m' w'. tick P m = Some m' \<and> sees w' m' \<and> leads P w' Q" using sees_goto [OF m] assms(3) by blast
qed

section \<open>Memory and devices\<close>

lemma implements_machine:
  assumes "implements s (A, t)" "timescale (busreg s') = timescale (busreg s)"
    and "s' = s\<lparr>busreg := busreg s', tod_reads := tod_reads s'\<rparr>"
  shows "implements s' (A, t)"
proof -
  have eq: "procTable s' = procTable s" "waitFlag s' = waitFlag s" "pcbFree_h s' = pcbFree_h s" "readyQue s' = readyQue s"
    "semdTable s' = semdTable s" "semd_h s' = semd_h s" "semdFree_h s' = semdFree_h s"
    "currentProcess s' = currentProcess s" "processCount s' = processCount s" "softBlockCount s' = softBlockCount s"
    "int_mem s' = int_mem s" "st_mem s' = st_mem s" "devSemTable_addr s' = devSemTable_addr s"
    using arg_cong [OF assms(3), of procTable] arg_cong [OF assms(3), of waitFlag]
      arg_cong [OF assms(3), of pcbFree_h] arg_cong [OF assms(3), of readyQue] arg_cong [OF assms(3), of semdTable]
      arg_cong [OF assms(3), of semd_h] arg_cong [OF assms(3), of semdFree_h] arg_cong [OF assms(3), of currentProcess]
      arg_cong [OF assms(3), of processCount] arg_cong [OF assms(3), of softBlockCount]
      arg_cong [OF assms(3), of int_mem] arg_cong [OF assms(3), of st_mem] arg_cong [OF assms(3), of devSemTable_addr]
    by simp_all
  have "krel s' A" by (rule krel_cong [OF implementsD(1) [OF assms(1)]]) (simp_all add: eq assms(2))
  then show ?thesis using assms(1) by (simp add: implements_def eq)
qed

text \<open>What one command may do to the rest of the machine, given as what it does to the world.\<close>

definition turned :: "prog \<Rightarrow> (world \<Rightarrow> bool) \<Rightarrow> world \<Rightarrow> nat \<Rightarrow> ucmd list \<Rightarrow> uconf \<Rightarrow> (nat \<Rightarrow> state_t) \<Rightarrow>
    ustate \<Rightarrow> ustate \<Rightarrow> bool" where
  "turned P Q w p k fs X u u' \<longleftrightarrow>
     (\<exists>w'. implements (mem u') (ak w' X, w_tree w') \<and> cpu u' = cpu u
        \<and> ustates (mem u') = w_states w' \<and> out u' = w_out w'
        \<and> w_tree w' = w_tree w \<and> w_ctx w' = w_ctx w \<and> w_reg w' = w_reg w
        \<and> w_conf w' = (w_conf w)(p := (loc u', k) # fs) \<and> leads P w' Q)"

lemma leads_effect:
  assumes a: "at w p l (Exec f # k) fs"
    and f: "\<And>u X. seen w l u \<Longrightarrow> implements (mem u) (ak w X, w_tree w) \<Longrightarrow>
      \<exists>u'. f u = Some u' \<and> turned P Q w p k fs X u u'"
  shows "leads P w Q"
proof (rule leads_tick)
  fix m assume m: "sees w m"
  then obtain X where X: "implements (kern m) (ak w X, w_tree w)" "\<forall>p\<in>set (members (w_tree w)). plain (X p)"
    "\<forall>p. w_ctx w p (X p)" unfolding sees_def by blast
  have "implements (mem (view l m)) (ak w X, w_tree w)" using X(1) by (simp add: view_def)
  from f [OF sees_view(1) [OF m a] this, unfolded turned_def] obtain u' w' where u': "f (view l m) = Some u'"
    "implements (mem u') (ak w' X, w_tree w')" "cpu u' = cpu (view l m)" "ustates (mem u') = w_states w'" "out u' = w_out w'"
    "w_tree w' = w_tree w" "w_ctx w' = w_ctx w" "w_reg w' = w_reg w"
    "w_conf w' = (w_conf w)(p := (loc u', k) # fs)" "leads P w' Q" by blast
  let ?m = "m\<lparr>kern := mem u', creg := cpu u', conf := (conf m)(p := (loc u', k) # fs), tout := out u'\<rparr>"
  have "tick P m = Some ?m"
    unfolding tick_at [OF m a] exec_cmd_def using u'(1) by simp
  moreover have "sees w' ?m" using X(2,3) u' m by (auto simp: sees_def view_def)
  ultimately show "\<exists>m' w'. tick P m = Some m' \<and> sees w' m' \<and> leads P w' Q" using u'(10) by blast
qed

lemma leads_poke:
  assumes a: "at w p l (Exec f # k) fs" and f: "\<And>u. seen w l u \<Longrightarrow> f u = poke b v u"
    and b: "w_sem w b \<noteq> None" "\<not> is_dev (w_base w) b"
    and Q: "leads P (goto p l k fs w\<lparr>w_sem := (w_sem w)(b \<mapsto> v)\<rparr>) Q"
  shows "leads P w Q"
proof (rule leads_effect [OF a])
  fix u X assume u: "seen w l u" and i: "implements (mem u) (ak w X, w_tree w)"
  let ?w = "goto p l k fs w\<lparr>w_sem := (w_sem w)(b \<mapsto> v)\<rparr>" and ?s = "(mem u)\<lparr>int_mem := (int_mem (mem u))(b \<mapsto> v)\<rparr>"
  have "int_mem (mem u) b \<noteq> None" using u b(1) by (simp add: seen_def)
  then have "poke b v u = Some (u\<lparr>mem := ?s\<rparr>)" by (auto simp: poke_def)
  moreover have "a_setsem b v (ak w X) = ak ?w X" by (simp add: ak_def a_setsem_def)
  then have "implements ?s (ak ?w X, w_tree w)"
    using step_store [OF i, of b v] b by (simp add: ak_def)
  ultimately show "\<exists>u'. f u = Some u' \<and> turned P Q w p k fs X u u'"
    using Q u f [OF u] unfolding turned_def by (intro exI [of _ "u\<lparr>mem := ?s\<rparr>"] conjI exI [of _ ?w]) (simp_all add: seen_def)
qed

lemma leads_stck:
  assumes a: "at w p l (stck g # k) fs" and Q: "\<And>t. leads P (goto p (g t l) k fs w) Q"
  shows "leads P w Q"
proof (rule leads_effect [OF a [unfolded stck_def]])
  fix u X assume u: "seen w l u" and i: "implements (mem u) (ak w X, w_tree w)"
  let ?s = "(mem u)\<lparr>tod_reads := Suc (tod_reads (mem u))\<rparr>" and ?t = "clock_value (mem u)"
  have "implements ?s (ak w X, w_tree w)" by (rule implements_machine [OF i]) simp_all
  moreover have "ak (goto p (g ?t l) k fs w) X = ak w X" by (simp add: ak_def)
  moreover have "STCK (mem u) = Some (?t, ?s)" using u STCK_run by (simp add: seen_def)
  ultimately show "\<exists>u'. (do { (t, s) \<leftarrow> STCK (mem u); Some (u\<lparr>mem := s, loc := g t (loc u)\<rparr>) }) = Some u' \<and> turned P Q w p k fs X u u'"
    using Q [of ?t] u
    unfolding turned_def by (intro exI [of _ "u\<lparr>mem := ?s, loc := g ?t l\<rparr>"] conjI exI [of _ "goto p (g ?t l) k fs w"]) (simp_all add: seen_def)
qed

text \<open>A state in the memory of the processes is written.\<close>

lemma leads_state:
  assumes a: "at w p l (Exec f # k) fs"
    and f: "\<And>u. seen w l u \<Longrightarrow> f u = (do { s \<leftarrow> upd_state (StAt b) (g (cpu u)) (mem u); Some (u\<lparr>mem := s\<rparr>) })"
    and b: "w_states w b = Some x" "\<And>c. plain c \<Longrightarrow> plain (g c x)"
    and Q: "\<And>y. plain y \<Longrightarrow> (\<exists>c. plain c \<and> y = g c x) \<Longrightarrow> leads P (goto p l k fs w\<lparr>w_states := (w_states w)(b \<mapsto> y)\<rparr>) Q"
  shows "leads P w Q"
proof (rule leads_effect [OF a])
  fix u X assume u: "seen w l u" and i: "implements (mem u) (ak w X, w_tree w)"
  let ?y = "g (cpu u) x"
  let ?w = "goto p l k fs w\<lparr>w_states := (w_states w)(b \<mapsto> ?y)\<rparr>" and ?s = "(mem u)\<lparr>st_mem := (st_mem (mem u))(b \<mapsto> ?y)\<rparr>"
  have y: "plain (cpu u)" "plain ?y" using u b(2) by (auto simp: seen_def)
  have "ustates (mem u) b = Some x" using u b(1) by (simp add: seen_def)
  then have m: "st_mem (mem u) b = Some x" "b \<notin> kareas" by (auto simp: ustates_def restrict_map_def split: if_splits)
  then have "f u = Some (u\<lparr>mem := ?s\<rparr>)" using f [OF u] by simp
  moreover have "implements ?s (ak ?w X, w_tree w)"
    using implements_mem [OF i, of ?y b] y(2) by (simp add: plain_def ak_def)
  moreover have "ustates ?s = (ustates (mem u))(b \<mapsto> ?y)" using m(2) by (auto simp: ustates_def restrict_map_def)
  moreover have "leads P ?w Q" using Q [OF y(2)] y(1) by blast
  ultimately show "\<exists>u'. f u = Some u' \<and> turned P Q w p k fs X u u'"
    using u unfolding turned_def by (intro exI [of _ "u\<lparr>mem := ?s\<rparr>"] conjI exI [of _ ?w]) (simp_all add: seen_def)
qed

lemma leads_put_char:
  assumes a: "at w p l (put_char # k) fs"
    and Q: "leads P (goto p l k fs w\<lparr>w_out := w_out w @ [print_cmd (hd (u_s l))]\<rparr>) Q"
  shows "leads P w Q"
proof (rule leads_effect [OF a [unfolded put_char_def]])
  fix u X assume u: "seen w l u" and i: "implements (mem u) (ak w X, w_tree w)"
  let ?c = "print_cmd (hd (u_s l))"
  let ?s = "(mem u)\<lparr>busreg := (busreg (mem u))\<lparr>devreg := (devreg (busreg (mem u)))(nat TERM0 :=
                 set_t_transm_command ?c (devreg (busreg (mem u)) (nat TERM0)))\<rparr>\<rparr>"
  let ?w = "goto p l k fs w\<lparr>w_out := w_out w @ [?c]\<rparr>"
  have "implements ?s (ak ?w X, w_tree w)"
    using implements_machine [OF i, of ?s] by (simp add: ak_def)
  moreover have "TERM0 < int (DEVINTNUM * DEVPERINT)" by (simp add: TERM0_def DEVINTNUM_def DEVPERINT_def)
  ultimately show "\<exists>u'. (do {
     let c = print_cmd (hd (u_s (loc u)));
     s \<leftarrow> (if TERM0 < int (DEVINTNUM * DEVPERINT)
          then Some ((mem u)\<lparr>busreg := (busreg (mem u))\<lparr>devreg := (devreg (busreg (mem u)))(nat TERM0 :=
                 set_t_transm_command c (devreg (busreg (mem u)) (nat TERM0)))\<rparr>\<rparr>)
          else None);
     Some (u\<lparr>mem := s, out := out u @ [c]\<rparr>) }) = Some u' \<and> turned P Q w p k fs X u u'"
    using Q u unfolding turned_def by (intro exI [of _ "u\<lparr>mem := ?s, out := out u @ [?c]\<rparr>"] conjI exI [of _ ?w]) (simp_all add: seen_def Let_def)
qed

end
