(* ===== verification/P2_Calls.thy ===== *)
theory P2_Calls
  imports P2_Steps
begin

text \<open>
  What a process' system call and an interrupt do to a world: the rules for running the processes
  of \<open>phase2/p2test.c\<close> on the nucleus.
\<close>

section \<open>The state a call is made with\<close>

lemma call_state_simps:
  assumes "plain st"
  shows "plain (call_state (n, x, y, z) st)" "s_a0 (call_state (n, x, y, z) st) = n"
    "s_a1 (call_state (n, x, y, z) st) = x" "s_a2 (call_state (n, x, y, z) st) = y"
    "s_a3 (call_state (n, x, y, z) st) = z" "kernel_mode (call_state (n, x, y, z) st)"
  using assms by (simp_all add: call_state_def plain_def wf_state_def STATEREGNUM_def reg_defs kernel_mode_def)

lemma plain_adv [simp]: "plain (adv st) = plain st"
  by (simp add: plain_def adv_def wf_state_def kernel_mode_def)

lemma plain_set_v0 [simp]: "plain (set_v0 v st) = plain st"
  by (simp add: plain_def reg_defs wf_state_def kernel_mode_def)

lemma plain_cause [simp]: "plain (st\<lparr>s_cause := c\<rparr>) = plain st"
  by (simp add: plain_def wf_state_def kernel_mode_def)

lemma plain_calls: "plain st \<Longrightarrow> a_run A \<noteq> None \<Longrightarrow> calls n (call_state (n, x, y, z) st) A"
  using call_state_simps [of st n x y z] by (simp add: calls_def plain_def)

text \<open>The handlers leave the states of the processes alone.\<close>

lemma handle_sys_ustates:
  assumes "calls n st A" "n \<in> {1, 2, 3, 4, 6, 7, 8}" "handle (Syscall st) s = Some (y, s')"
  shows "ustates s' = ustates s"
proof -
  let ?s = "s\<lparr>st_mem := (st_mem s)(SYSCALLOLDAREA \<mapsto> st)\<rparr>"
  obtain e where "sysCallHandler ?s = Some (e, s')" using assms(3) by auto
  moreover have "kernel_mode st" "0 < sint (s_a0 st)" "sint (s_a0 st) < 9" using assms(1,2) by (auto simp: calls_def)
  ultimately have "ustates s' = ustates ?s" using sysCall_ustates [of ?s st] by simp
  then show ?thesis by simp
qed

lemma handle_int_ustates:
  assumes "handle (Interrupt st f regs) s = Some (y, s')"
  shows "ustates s' = ustates s"
proof -
  let ?s = "s\<lparr>st_mem := (st_mem s)(INTERRUPTOLDAREA \<mapsto> st),
          busreg := (busreg s)\<lparr>interrupt_dev := f, devreg := regs\<rparr>\<rparr>"
  obtain e where "interruptHandler ?s = Some (e, s')" using assms by auto
  then have "ustates s' = ustates ?s" by (rule interrupt_ustates)
  then show ?thesis by simp
qed

section \<open>Continuing and dispatching\<close>

text \<open>The nucleus has loaded the state of the process that made the call.\<close>

lemma sees_resumed:
  assumes m: "sees w m" and at: "at w p l k fs"
    and i: "implements s' (ak w' X', w_tree w')" "w_run w' = Some p" and pl: "\<forall>p\<in>set (members (w_tree w')). plain (X' p)"
    and c: "\<forall>p. w_ctx w' p (X' p)" and st: "plain st" "w_reg w' st" and u: "ustates s' = w_states w'"
    and o: "w_out w' = w_out w" "w_conf w' = w_conf w"
  shows "\<exists>m'. nucleus_done P None (Some (Some (Exit_LDST st), s')) m = Some m' \<and> sees w' m'"
proof -
  have "currentProcess s' = Some p" using krelD(2) [OF implementsD(1) [OF i(1)]] i(2) by (simp add: ak_def)
  then have "nucleus_done P None (Some (Some (Exit_LDST st), s')) m = Some (m\<lparr>kern := s', creg := st, conf := (conf m)(p := conf m p)\<rparr>)"
    using m at by (simp add: nucleus_done_def sees_def)
  moreover have "sees w' (m\<lparr>kern := s', creg := st, conf := (conf m)(p := conf m p)\<rparr>)"
    using m i pl c st u o by (auto simp: sees_def)
  ultimately show ?thesis by blast
qed

text \<open>
  After the nucleus has ended in the dispatcher: the first ready process goes on or starts with
  the body \<open>b\<close>, or, when no process is ready, the processor idles.
\<close>

definition next_world :: "ucmd list \<Rightarrow> world \<Rightarrow> world" where
  "next_world b w =
     (case w_ready w of
        [] \<Rightarrow> w
      | q # R \<Rightarrow> w\<lparr>w_ready := R, w_run := Some q, w_reg := w_ctx w q,
          w_conf := (if w_conf w q = [] then (w_conf w)(q := [(no_locals, b)]) else w_conf w)\<rparr>)"

definition dispatchable :: "prog \<Rightarrow> ucmd list \<Rightarrow> world \<Rightarrow> bool" where
  "dispatchable P b w \<longleftrightarrow>
     (case w_ready w of
        [] \<Rightarrow> soft (w_base w) (w_waits w) \<noteq> 0
      | q # R \<Rightarrow> w_conf w q = [] \<longrightarrow> (\<forall>st. w_ctx w q st \<longrightarrow> P (s_pc st) = Some b))"

lemma live_member:
  assumes "krel s A" "tree_ok T B t" "a_free A = a_free B" "p \<in> set (a_ready A) \<union> set (hand (a_run A))"
  shows "p \<in> set (members t)"
proof -
  have "p < MAXPROC" "p \<notin> set (a_free A)"
    using kq_distinct(1,2) [OF krelD(1) [OF assms(1)]] assms(4) by auto
  then show ?thesis using tree_ok_distinct(4) [OF assms(2)] assms(3) by simp
qed

lemma sees_next:
  assumes m: "conf m = w_conf w" "tout m = w_out w" "plain (creg m)"
    and i: "implements s' (a_dispatch (ak w X), w_tree w)" "w_run w = None"
    and pl: "\<forall>p\<in>set (members (w_tree w)). plain (X p)" and c: "\<forall>p. w_ctx w p (X p)" and u: "ustates s' = w_states w"
    and d: "dispatchable P b w" and reg: "w_reg w = (\<lambda>_. True)"
  shows "\<exists>m'. nucleus_done P None (Some (Some (a_exit (ak w X)), s')) m = Some m' \<and> sees (next_world b w) m'"
proof (cases "w_ready w")
  case Nil
  have "a_dispatch (ak w X) = ak w X" "a_run (ak w X) = None" using Nil i(2) by (simp_all add: a_dispatch_def ak_def)
  moreover have "tree_ok (procTable s') (a_dispatch (ak w X)) (w_tree w)" by (rule implementsD(2) [OF i(1)])
  ultimately have "a_exit (ak w X) = Exit_WAIT"
    using exit_of_dispatch(5) [of "procTable s'" "ak w X"] Nil d by (simp add: ak_def dispatchable_def)
  then have "nucleus_done P None (Some (Some (a_exit (ak w X)), s')) m = Some (m\<lparr>kern := s'\<rparr>)"
    by (simp add: nucleus_done_def)
  moreover have "sees (next_world b w) (m\<lparr>kern := s'\<rparr>)"
    using m i pl c u reg Nil \<open>a_dispatch (ak w X) = ak w X\<close> by (auto simp: sees_def next_world_def)
  ultimately show ?thesis by blast
next
  case (Cons q R)
  let ?w = "next_world b w"
  have B: "a_dispatch (ak w X) = ak ?w X" "a_exit (ak w X) = Exit_LDST (X q)" "w_run ?w = Some q"
    using Cons by (simp_all add: a_dispatch_def a_exit_def ak_def next_world_def)
  note k = implementsD(1) [OF i(1), unfolded B(1)]
  have cur: "currentProcess s' = Some q" using krelD(2) [OF k] B(3) by (simp add: ak_def)
  have "q \<in> set (members (w_tree w))"
    by (rule live_member [OF k implementsD(2) [OF i(1)]]) (use Cons in \<open>simp_all add: ak_def next_world_def\<close>)
  then have q: "plain (X q)" using pl by blast
  let ?m = "m\<lparr>kern := s', creg := X q, conf := w_conf ?w\<rparr>"
  have "nucleus_done P None (Some (Some (a_exit (ak w X)), s')) m = Some ?m"
    using cur B(2) m(1) d c Cons by (simp add: nucleus_done_def next_world_def dispatchable_def starts_def)
  moreover have "sees ?w ?m"
    using m i(1) pl c u Cons q unfolding B(1) by (auto simp: sees_def next_world_def)
  ultimately show ?thesis by blast
qed

section \<open>System calls\<close>

lemma seesD:
  assumes "sees w m"
  obtains X where "implements (kern m) (ak w X, w_tree w)" "\<forall>p\<in>set (members (w_tree w)). plain (X p)"
    "\<forall>p. w_ctx w p (X p)"
  using assms unfolding sees_def by blast

lemma tick_call:
  assumes m: "sees w m" and at: "at w p l (Call g # k) fs" and g: "\<And>u. seen w l u \<Longrightarrow> g u = Some (n, x, y, z)"
    and n: "n \<in> {2, 3, 4, 6, 7, 8}"
  shows "tick P m = nucleus_done P None (handle (Syscall (call_state (n, x, y, z) (creg m))) (kern m))
     (m\<lparr>conf := (conf m)(p := (l, k) # fs)\<rparr>)"
proof -
  have "n \<in> {1..8}" "n \<noteq> 1" using n by auto
  moreover have "kernel_mode (call_state (n, x, y, z) (creg m))"
    using m by (intro call_state_simps(6)) (simp add: sees_def)
  moreover have "new_child n p r m' = m'" for r m'
    using \<open>n \<noteq> 1\<close> by (simp add: new_child_def split: option.splits kexit.splits)
  ultimately show ?thesis
    unfolding tick_at [OF m at] exec_cmd_def using g [OF sees_view(1) [OF m at]] by (simp add: syscall_def)
qed

text \<open>A call after which the process goes on, in the world \<open>w'\<close>.\<close>

lemma leads_go_on:
  assumes at: "at w p l (Call g # k) fs" and g: "\<And>u. seen w l u \<Longrightarrow> g u = Some (n, x, y, z)"
    and n: "n \<in> {2, 3, 4, 6, 7, 8}"
    and w': "w_run w' = Some p" "w_tree w' = w_tree w" "w_ctx w' = w_ctx w" "w_states w' = w_states w" "w_out w' = w_out w"
      "w_conf w' = w_conf (goto p l k fs w)" "w_reg w' = (\<lambda>_. True)"
    and h: "\<And>s X c. implements s (ak w X, w_tree w) \<Longrightarrow> calls n (call_state (n, x, y, z) c) (ak w X) \<Longrightarrow> plain c \<Longrightarrow>
      \<exists>v s'. handle (Syscall (call_state (n, x, y, z) c)) s = Some (Some (Exit_LDST v), s')
        \<and> plain v \<and> implements s' (ak w' X, w_tree w)"
    and Q: "leads P w' Q"
  shows "leads P w Q"
proof (rule leads_tick)
  fix m assume m: "sees w m"
  from seesD [OF m] obtain X where X: "implements (kern m) (ak w X, w_tree w)"
    "\<forall>p\<in>set (members (w_tree w)). plain (X p)" "\<forall>p. w_ctx w p (X p)" .
  let ?st = "call_state (n, x, y, z) (creg m)"
  have tick: "tick P m = nucleus_done P None (handle (Syscall ?st) (kern m)) (m\<lparr>conf := (conf m)(p := (l, k) # fs)\<rparr>)"
    by (rule tick_call [OF m at _ n]) (rule g)
  have pc: "plain (creg m)" using m by (simp add: sees_def)
  have c: "calls n ?st (ak w X)" using at by (intro plain_calls [OF pc]) (simp add: ak_def)
  from h [OF X(1) c pc] obtain v s' where s': "handle (Syscall ?st) (kern m) = Some (Some (Exit_LDST v), s')"
    "plain v" "implements s' (ak w' X, w_tree w)" by blast
  have "ustates s' = ustates (kern m)" using handle_sys_ustates [OF c _ s'(1)] n by blast
  then have u: "ustates s' = w_states w'" using m w'(4) by (simp add: sees_def)
  have "\<exists>m'. nucleus_done P None (Some (Some (Exit_LDST v), s')) (m\<lparr>conf := (conf m)(p := (l, k) # fs)\<rparr>) = Some m'
      \<and> sees w' m'"
    by (rule sees_resumed [OF sees_goto [OF m], where X' = X]) (use at s' X w' u in simp_all)
  then show "\<exists>m' w'. tick P m = Some m' \<and> sees w' m' \<and> leads P w' Q"
    using tick Q unfolding s'(1) by (metis (no_types))
qed

text \<open>A call that ends in the dispatcher, with the caller's block waiting or free in the world \<open>w'\<close>.\<close>

lemma leads_switch:
  assumes at: "at w p l (Call g # k) fs" and g: "\<And>u. seen w l u \<Longrightarrow> g u = Some (n, x, y, z)"
    and n: "n \<in> {2, 3, 4, 6, 7, 8}"
    and w': "w_run w' = None" "set (members (w_tree w')) \<subseteq> set (members (w_tree w))" "w_ctx w' = (w_ctx w)(p := (\<lambda>_. True))"
      "w_states w' = w_states w" "w_out w' = w_out w" "w_conf w' = w_conf (goto p l k fs w)" "w_reg w' = (\<lambda>_. True)"
    and d: "dispatchable P b w'"
    and h: "\<And>s X c. implements s (ak w X, w_tree w) \<Longrightarrow> calls n (call_state (n, x, y, z) c) (ak w X) \<Longrightarrow> plain c \<Longrightarrow>
      \<exists>X' s'. handle (Syscall (call_state (n, x, y, z) c)) s = Some (Some (a_exit (ak w' X')), s')
        \<and> (\<forall>q. q \<noteq> p \<longrightarrow> X' q = X q) \<and> (X' p = X p \<or> plain (X' p)) \<and> implements s' (a_dispatch (ak w' X'), w_tree w')"
    and Q: "leads P (next_world b w') Q"
  shows "leads P w Q"
proof (rule leads_tick)
  fix m assume m: "sees w m"
  from seesD [OF m] obtain X where X: "implements (kern m) (ak w X, w_tree w)"
    "\<forall>p\<in>set (members (w_tree w)). plain (X p)" "\<forall>p. w_ctx w p (X p)" .
  let ?st = "call_state (n, x, y, z) (creg m)" and ?m = "m\<lparr>conf := (conf m)(p := (l, k) # fs)\<rparr>"
  have tick: "tick P m = nucleus_done P None (handle (Syscall ?st) (kern m)) (m\<lparr>conf := (conf m)(p := (l, k) # fs)\<rparr>)"
    by (rule tick_call [OF m at _ n]) (rule g)
  have pc: "plain (creg m)" using m by (simp add: sees_def)
  have c: "calls n ?st (ak w X)" using at by (intro plain_calls [OF pc]) (simp add: ak_def)
  from h [OF X(1) c pc] obtain X' s' where s': "handle (Syscall ?st) (kern m) = Some (Some (a_exit (ak w' X')), s')"
    "\<forall>q. q \<noteq> p \<longrightarrow> X' q = X q" "X' p = X p \<or> plain (X' p)" "implements s' (a_dispatch (ak w' X'), w_tree w')" by blast
  have "ustates s' = ustates (kern m)" using handle_sys_ustates [OF c _ s'(1)] n by blast
  then have u: "ustates s' = w_states w'" using m w'(4) by (simp add: sees_def)
  have pl: "\<forall>q\<in>set (members (w_tree w')). plain (X' q)"
  proof
    fix q assume "q \<in> set (members (w_tree w'))"
    then have "plain (X q)" using X(2) w'(2) by blast
    then show "plain (X' q)" using s'(2,3) by (cases "q = p") auto
  qed
  have ctx: "\<forall>q. w_ctx w' q (X' q)" using X(3) s'(2) w'(3) by simp
  have "\<exists>m'. nucleus_done P None (Some (Some (a_exit (ak w' X')), s')) ?m = Some m' \<and> sees (next_world b w') m'"
    by (rule sees_next [OF _ _ _ s'(4) w'(1) pl ctx u d w'(7)]) (use m w' in \<open>simp_all add: sees_def\<close>)
  then show "\<exists>m' w'. tick P m = Some m' \<and> sees w' m' \<and> leads P w' Q"
    using tick Q unfolding s'(1) by (metis (no_types))
qed

lemma ak_sel [simp]:
  "a_free (ak w X) = w_free w" "a_ready (ak w X) = w_ready w" "a_waits (ak w X) = w_waits w"
  "a_run (ak w X) = w_run w" "a_ctx (ak w X) = X" "a_sem (ak w X) = w_sem w" "a_base (ak w X) = w_base w"
  by (simp_all add: ak_def)

lemma ak_goto [simp]: "ak (w\<lparr>w_conf := c\<rparr>) = ak w" "ak (w\<lparr>w_conf := c, w_reg := r\<rparr>) = ak w"
  by (simp_all add: ak_def fun_eq_iff)

text \<open>V: the first process that waits, if there is one and the value is not positive, becomes ready.\<close>

definition w_V :: "memaddr \<Rightarrow> word32 \<Rightarrow> world \<Rightarrow> world" where
  "w_V a v w =
     (let w1 = w\<lparr>w_sem := (w_sem w)(a \<mapsto> v + 1), w_reg := (\<lambda>_. True)\<rparr>
      in if sint (v + 1) \<le> 0 then
           (case w_waits w a of
              [] \<Rightarrow> w1
            | q # qs \<Rightarrow> w1\<lparr>w_waits := (w_waits w)(a := qs), w_ready := w_ready w @ [q]\<rparr>)
         else w1)"

lemma w_V_same [simp]:
  "w_run (w_V a v w) = w_run w" "w_tree (w_V a v w) = w_tree w" "w_ctx (w_V a v w) = w_ctx w"
  "w_states (w_V a v w) = w_states w" "w_out (w_V a v w) = w_out w" "w_conf (w_V a v w) = w_conf w"
  "w_reg (w_V a v w) = (\<lambda>_. True)" "w_base (w_V a v w) = w_base w" "w_free (w_V a v w) = w_free w"
  by (simp_all add: w_V_def Let_def split: list.splits)

lemma a_V_ak: "w_sem w a = Some v \<Longrightarrow> a_V a (ak w X) = ak (w_V a v w) X"
  by (simp add: ak_def a_V_def w_V_def a_setsem_def a_wake_def Let_def split: list.splits)

lemma leads_V:
  assumes at: "at w p l (Call g # k) fs" and g: "\<And>u. seen w l u \<Longrightarrow> g u = Some (3, a, y, z)"
    and a: "w_sem w a = Some v" "a < MAXINT" "\<not> is_dev (w_base w) a"
    and Q: "leads P (w_V a v (goto p l k fs w)) Q"
  shows "leads P w Q"
proof (rule leads_go_on [OF at g _ _ _ _ _ _ _ _ _ Q])
  fix s X c assume i: "implements s (ak w X, w_tree w)" and c: "calls 3 (call_state (3, a, y, z) c) (ak w X)" and pl: "plain c"
  note st = call_state_simps [OF pl, of 3 a y z]
  obtain s' where "handle (Syscall (call_state (3, a, y, z) c)) s = Some (Some (Exit_LDST (adv (call_state (3, a, y, z) c))), s')"
    "implements s' (a_V a (ak w X), w_tree w)"
    using step_verhogen [OF i c, unfolded st(3)] a by auto
  moreover have "a_V a (ak w X) = ak (w_V a v (goto p l k fs w)) X"
    using a_V_ak [of "goto p l k fs w" a v X] a(1) by simp
  ultimately show "\<exists>v' s'. handle (Syscall (call_state (3, a, y, z) c)) s = Some (Some (Exit_LDST v'), s')
      \<and> plain v' \<and> implements s' (ak (w_V a v (goto p l k fs w)) X, w_tree w)"
    using st(1) by (intro exI [of _ "adv (call_state (3, a, y, z) c)"] exI [of _ s']) simp
qed (use at in simp_all)

definition w_set :: "memaddr \<Rightarrow> word32 \<Rightarrow> world \<Rightarrow> world" where
  "w_set a v w = w\<lparr>w_sem := (w_sem w)(a \<mapsto> v), w_reg := (\<lambda>_. True)\<rparr>"

definition w_block :: "nat \<Rightarrow> memaddr \<Rightarrow> word32 \<Rightarrow> world \<Rightarrow> world" where
  "w_block p a v w =
     w\<lparr>w_sem := (w_sem w)(a \<mapsto> v - 1), w_waits := (w_waits w)(a := w_waits w a @ [p]), w_run := None,
       w_ctx := (w_ctx w)(p := (\<lambda>_. True)), w_reg := (\<lambda>_. True)\<rparr>"

lemma a_P_ak:
  "w_sem w a = Some v \<Longrightarrow> \<not> sint (v - 1) < 0 \<Longrightarrow> a_P a st (ak w X) = ak (w_set a (v - 1) w) X"
  "w_sem w a = Some v \<Longrightarrow> sint (v - 1) < 0 \<Longrightarrow> w_run w = Some p \<Longrightarrow>
     a_P a st (ak w X) = ak (w_block p a v w) (X(p := st))"
  by (simp_all add: ak_def a_P_def w_set_def w_block_def a_setsem_def a_block_def)

lemma w_set_same [simp]:
  "w_run (w_set a v w) = w_run w" "w_tree (w_set a v w) = w_tree w" "w_ctx (w_set a v w) = w_ctx w"
  "w_states (w_set a v w) = w_states w" "w_out (w_set a v w) = w_out w" "w_conf (w_set a v w) = w_conf w"
  "w_reg (w_set a v w) = (\<lambda>_. True)" "w_base (w_set a v w) = w_base w" "w_free (w_set a v w) = w_free w"
  "w_ready (w_set a v w) = w_ready w" "w_waits (w_set a v w) = w_waits w" "w_sem (w_set a v w) = (w_sem w)(a \<mapsto> v)"
  by (simp_all add: w_set_def)

lemma w_block_same [simp]:
  "w_run (w_block p a v w) = None" "w_tree (w_block p a v w) = w_tree w"
  "w_ctx (w_block p a v w) = (w_ctx w)(p := (\<lambda>_. True))" "w_states (w_block p a v w) = w_states w"
  "w_out (w_block p a v w) = w_out w" "w_conf (w_block p a v w) = w_conf w" "w_reg (w_block p a v w) = (\<lambda>_. True)"
  "w_base (w_block p a v w) = w_base w" "w_free (w_block p a v w) = w_free w" "w_ready (w_block p a v w) = w_ready w"
  "w_waits (w_block p a v w) = (w_waits w)(a := w_waits w a @ [p])" "w_sem (w_block p a v w) = (w_sem w)(a \<mapsto> v - 1)"
  by (simp_all add: w_block_def)

lemma ak_set [simp]: "ak (w_set a v (goto p l k fs w)) = ak (w_set a v w)"
  "ak (w_block p a v (goto p l k fs w)) = ak (w_block p a v w)"
  by (simp_all add: ak_def w_set_def w_block_def fun_eq_iff)

lemma leads_P:
  assumes at: "at w p l (Call g # k) fs" and g: "\<And>u. seen w l u \<Longrightarrow> g u = Some (4, a, y, z)"
    and a: "w_sem w a = Some v" "0 < a" "a < MAXINT" "\<not> is_dev (w_base w) a" "\<not> sint (v - 1) < 0"
    and Q: "leads P (w_set a (v - 1) (goto p l k fs w)) Q"
  shows "leads P w Q"
proof (rule leads_go_on [OF at g _ _ _ _ _ _ _ _ _ Q])
  fix s X c assume i: "implements s (ak w X, w_tree w)" and c: "calls 4 (call_state (4, a, y, z) c) (ak w X)" and pl: "plain c"
  note st = call_state_simps [OF pl, of 4 a y z]
  obtain s' where "handle (Syscall (call_state (4, a, y, z) c)) s = Some (Some (Exit_LDST (adv (call_state (4, a, y, z) c))), s')"
    "implements s' (ak (w_set a (v - 1) w) X, w_tree w)"
    using step_passeren(1) [OF i c, of v, unfolded st(3) a_P_ak(1) [OF a(1,5)]] a by auto
  then show "\<exists>v' s'. handle (Syscall (call_state (4, a, y, z) c)) s = Some (Some (Exit_LDST v'), s')
      \<and> plain v' \<and> implements s' (ak (w_set a (v - 1) (goto p l k fs w)) X, w_tree w)"
    using st(1) by (intro exI [of _ "adv (call_state (4, a, y, z) c)"] exI [of _ s']) simp
qed (use at in simp_all)

text \<open>A process starts to wait: by SYS 4, or for the clock or a device.\<close>

lemma leads_P_wait:
  assumes at: "at w p l (Call g # k) fs" and g: "\<And>u. seen w l u \<Longrightarrow> g u = Some (4, a, y, z)"
    and a: "w_sem w a = Some v" "0 < a" "a < MAXINT" "\<not> is_dev (w_base w) a" "sint (v - 1) < 0"
    and d: "dispatchable P b (w_block p a v (goto p l k fs w))"
    and Q: "leads P (next_world b (w_block p a v (goto p l k fs w))) Q"
  shows "leads P w Q"
proof (rule leads_switch [OF at g _ _ _ _ _ _ _ _ d _ Q])
  fix s X c assume i: "implements s (ak w X, w_tree w)" and c: "calls 4 (call_state (4, a, y, z) c) (ak w X)" and pl: "plain c"
  let ?st = "call_state (4, a, y, z) c"
  have B: "a_P a (adv ?st) (ak w X) = ak (w_block p a v w) (X(p := adv ?st))"
    using at by (intro a_P_ak(2) [OF a(1,5)]) simp
  obtain s' where "handle (Syscall ?st) s = Some (Some (a_exit (ak (w_block p a v w) (X(p := adv ?st)))), s')"
    "implements s' (a_dispatch (ak (w_block p a v w) (X(p := adv ?st))), w_tree w)"
    using step_passeren(2) [OF i c, of v, unfolded call_state_simps(3) [OF pl] B] a by auto
  then show "\<exists>X' s'. handle (Syscall ?st) s = Some (Some (a_exit (ak (w_block p a v (goto p l k fs w)) X')), s')
        \<and> (\<forall>q. q \<noteq> p \<longrightarrow> X' q = X q) \<and> (X' p = X p \<or> plain (X' p))
        \<and> implements s' (a_dispatch (ak (w_block p a v (goto p l k fs w)) X'), w_tree (w_block p a v (goto p l k fs w)))"
    using call_state_simps(1) [OF pl] by (intro exI [of _ "X(p := adv ?st)"] exI [of _ s']) simp
qed (use at in simp_all)

lemma leads_io:
  assumes at: "at w p l (Call g # k) fs" and g: "\<And>u. seen w l u \<Longrightarrow> g u = Some (8, x, y, z)"
    and io: "3 \<le> sint x" "sint x \<le> 7" "0 \<le> sint y" "sint y < 8"
    and a: "a = devsem (w_base w) (io_index (sint x) (sint y) (sint x = 7 \<and> sint z = 1))"
      "w_sem w a = Some v" "sint (v - 1) < 0"
    and d: "dispatchable P b (w_block p a v (goto p l k fs w))"
    and Q: "leads P (next_world b (w_block p a v (goto p l k fs w))) Q"
  shows "leads P w Q"
proof (rule leads_switch [OF at g _ _ _ _ _ _ _ _ d _ Q])
  fix s X c assume i: "implements s (ak w X, w_tree w)" and c: "calls 8 (call_state (8, x, y, z) c) (ak w X)" and pl: "plain c"
  let ?st = "call_state (8, x, y, z) c"
  note st = call_state_simps [OF pl, of 8 x y z]
  have B: "a_P a (adv ?st) (ak w X) = ak (w_block p a v w) (X(p := adv ?st))"
    using at by (intro a_P_ak(2) [OF a(2,3)]) simp
  have "io_args_ok ?st" using io by (simp add: io_args_ok_def st)
  moreover have "a = devsem (a_base (ak w X)) (ioSem ?st)" by (simp add: a(1) ioSem_def st)
  ultimately obtain s' where "handle (Syscall ?st) s = Some (Some (a_exit (ak (w_block p a v w) (X(p := adv ?st)))), s')"
    "implements s' (a_dispatch (ak (w_block p a v w) (X(p := adv ?st))), w_tree w)"
    using step_wait_io [OF i c, of a v, unfolded B] a(2,3) by auto
  then show "\<exists>X' s'. handle (Syscall ?st) s = Some (Some (a_exit (ak (w_block p a v (goto p l k fs w)) X')), s')
        \<and> (\<forall>q. q \<noteq> p \<longrightarrow> X' q = X q) \<and> (X' p = X p \<or> plain (X' p))
        \<and> implements s' (a_dispatch (ak (w_block p a v (goto p l k fs w)) X'), w_tree (w_block p a v (goto p l k fs w)))"
    using st(1) by (intro exI [of _ "X(p := adv ?st)"] exI [of _ s']) simp
qed (use at in simp_all)

lemma leads_cpu_time:
  assumes at: "at w p l (Call g # k) fs" and g: "\<And>u. seen w l u \<Longrightarrow> g u = Some (6, x, y, z)"
    and Q: "leads P (goto p l k fs w\<lparr>w_reg := (\<lambda>_. True)\<rparr>) Q"
  shows "leads P w Q"
proof (rule leads_go_on [OF at g _ _ _ _ _ _ _ _ _ Q])
  fix s X c assume i: "implements s (ak w X, w_tree w)" and c: "calls 6 (call_state (6, x, y, z) c) (ak w X)" and pl: "plain c"
  obtain v s' where "handle (Syscall (call_state (6, x, y, z) c)) s = Some (Some (Exit_LDST (set_v0 v (adv (call_state (6, x, y, z) c)))), s')"
    "implements s' (ak w X, w_tree w)" using step_cpu_time [OF i c] by blast
  then show "\<exists>v' s'. handle (Syscall (call_state (6, x, y, z) c)) s = Some (Some (Exit_LDST v'), s')
      \<and> plain v' \<and> implements s' (ak (goto p l k fs w\<lparr>w_reg := (\<lambda>_. True)\<rparr>) X, w_tree w)"
    using call_state_simps(1) [OF pl, of 6 x y z]
    by (intro exI [of _ "set_v0 v (adv (call_state (6, x, y, z) c))"] exI [of _ s']) simp
qed (use at in simp_all)

text \<open>A process without children ends.\<close>

definition w_exit :: "nat \<Rightarrow> world \<Rightarrow> world" where
  "w_exit p w = w\<lparr>w_free := w_free w @ [p], w_run := None, w_tree := prune p (w_tree w),
     w_ctx := (w_ctx w)(p := (\<lambda>_. True)), w_reg := (\<lambda>_. True)\<rparr>"

lemma leads_exit:
  assumes at: "at w p l (Call g # k) fs" and g: "\<And>u. seen w l u \<Longrightarrow> g u = Some (2, x, y, z)"
    and t: "PNode p [] \<in> set (subtrees (w_tree w))" "p \<noteq> pid (w_tree w)" "distinct (members (w_tree w))"
    and ne: "w_ready w \<noteq> []" and d: "dispatchable P b (w_exit p (goto p l k fs w))"
    and Q: "leads P (next_world b (w_exit p (goto p l k fs w))) Q"
  shows "leads P w Q"
proof (rule leads_switch [OF at g _ _ _ _ _ _ _ _ d _ Q])
  fix s X c assume i: "implements s (ak w X, w_tree w)" and c: "calls 2 (call_state (2, x, y, z) c) (ak w X)" and pl: "plain c"
  let ?w = "w_exit p (goto p l k fs w)"
  have B: "ak ?w X = a_terminate (pid (PNode p [])) (doomed (PNode p [])) (ak w X)"
    by (simp add: a_terminate_def ak_def w_exit_def)
  obtain s' where "handle (Syscall (call_state (2, x, y, z) c)) s = Some (Some (a_exit (ak ?w X)), s')"
    "implements s' (a_dispatch (ak ?w X), prune p (w_tree w))"
    using step_terminate [OF i c _ t(1) _ _ B] at t(2) ne by (auto simp: w_exit_def)
  then show "\<exists>X' s'. handle (Syscall (call_state (2, x, y, z) c)) s = Some (Some (a_exit (ak ?w X')), s')
        \<and> (\<forall>q. q \<noteq> p \<longrightarrow> X' q = X q) \<and> (X' p = X p \<or> plain (X' p)) \<and> implements s' (a_dispatch (ak ?w X'), w_tree ?w)"
    by (intro exI [of _ X] exI [of _ s']) (simp add: w_exit_def)
next
  have "mset (members (prune p (w_tree w))) \<subseteq># mset (members (w_tree w))"
    using members_prune [OF t(3,1)] t(2) by simp
  then show "set (members (w_tree (w_exit p (goto p l k fs w)))) \<subseteq> set (members (w_tree w))"
    using set_mset_mono by (fastforce simp: w_exit_def)
qed (use at in \<open>simp_all add: w_exit_def\<close>)

section \<open>SYS 1\<close>

lemma graft_child: "family T (graft p q t) \<Longrightarrow> p \<in> set (members t) \<Longrightarrow> p_child (T p) = Some q"
proof (induction t)
  case (PNode x ts)
  show ?case
  proof (cases "x = p")
    case True
    then have "children T p (map pid ([PNode q []] @ map (graft p q) ts))" using PNode.prems(1) by simp
    then show ?thesis by (simp add: children_def)
  next
    case False
    then show ?thesis using PNode by auto
  qed
qed

definition w_fork :: "nat \<Rightarrow> state_t \<Rightarrow> nat \<Rightarrow> nat list \<Rightarrow> world \<Rightarrow> world" where
  "w_fork p st q F w = w\<lparr>w_free := F, w_ready := w_ready w @ [q], w_tree := graft p q (w_tree w),
     w_ctx := (w_ctx w)(q := (\<lambda>x. x = st)), w_conf := (w_conf w)(q := []), w_reg := (\<lambda>_. True)\<rparr>"

lemma leads_create:
  assumes at: "at w p l (Call g # k) fs" and g: "\<And>u. seen w l u \<Longrightarrow> g u = Some (1, a, y, z)"
    and F: "w_free w = q # F" and st: "w_states w a = Some st" "plain st"
    and Q: "leads P (w_fork p st q F (goto p l k fs w)) Q"
  shows "leads P w Q"
proof (rule leads_tick)
  fix m assume m: "sees w m"
  from seesD [OF m] obtain X where X: "implements (kern m) (ak w X, w_tree w)"
    "\<forall>p\<in>set (members (w_tree w)). plain (X p)" "\<forall>p. w_ctx w p (X p)" .
  let ?st = "call_state (1, a, y, z) (creg m)" and ?m = "m\<lparr>conf := (conf m)(p := (l, k) # fs)\<rparr>"
    and ?w = "w_fork p st q F (goto p l k fs w)" and ?v = "set_v0 0 (adv (call_state (1, a, y, z) (creg m)))"
  have pc: "plain (creg m)" using m by (simp add: sees_def)
  note cs = call_state_simps [OF pc, of 1 a y z]
  have c: "calls 1 ?st (ak w X)" using at by (intro plain_calls [OF pc]) simp
  have "ustates (kern m) a = Some st" using m st(1) by (simp add: sees_def)
  then have ma: "st_mem (kern m) a = Some st" "a \<notin> kareas" by (auto simp: ustates_def restrict_map_def split: if_splits)
  have na: "a \<noteq> SYSCALLOLDAREA" using ma(2) by (auto simp: kareas_def)
  have tr: "p \<in> set (members (w_tree w))" "q \<notin> set (members (w_tree w))"
    using running_member [OF implementsD(1,2) [OF X(1)]] at tree_ok_distinct(3) [OF implementsD(2) [OF X(1)]] F by auto
  have cr: "\<exists>s'. handle (Create ?st st) (kern m) = Some (Some (Exit_LDST ?v), s')
      \<and> implements s' (a_fork st (ak w X), graft p q (w_tree w))"
    by (rule step_create [OF X(1) c]) (use at F st na cs in \<open>simp_all add: plain_def\<close>)
  have "(st_mem (kern m))(s_a1 ?st \<mapsto> st) = st_mem (kern m)" using ma(1) cs(3) by (simp add: fun_upd_idem)
  then have he: "handle (Create ?st st) (kern m) = handle (Syscall ?st) (kern m)" by simp
  have ae: "a_fork st (ak w X) = ak ?w (X(q := st))" by (simp add: a_fork_def ak_def F w_fork_def)
  obtain s' where s': "handle (Syscall ?st) (kern m) = Some (Some (Exit_LDST ?v), s')"
    "implements s' (ak ?w (X(q := st)), graft p q (w_tree w))" using cr unfolding he ae by blast
  have "p_child (procTable s' p) = Some q"
    using graft_child [OF tree_ok_distinct(2) [OF implementsD(2) [OF s'(2)]] tr(1)] .
  moreover have "s_v0 ?v = 0" using cs(1) by (simp add: plain_def wf_state_def STATEREGNUM_def reg_defs adv_def)
  ultimately have child: "new_child 1 p (Some (Some (Exit_LDST ?v), s')) ?m = ?m\<lparr>conf := (conf ?m)(q := [])\<rparr>"
    by (simp add: new_child_def)
  have "q \<noteq> p" using tr by auto
  then have "conf (?m\<lparr>conf := (conf ?m)(q := [])\<rparr>) p = (l, k) # fs" by simp
  moreover have "currentProcess s' = Some p" using krelD(2) [OF implementsD(1) [OF s'(2)]] at by (simp add: w_fork_def)
  ultimately have "tick P m = Some (m\<lparr>kern := s', creg := ?v, conf := (conf m)(p := (l, k) # fs, q := [])\<rparr>)"
    unfolding tick_at [OF m at] exec_cmd_def using g [OF sees_view(1) [OF m at]] s'(1) child cs(6) \<open>q \<noteq> p\<close>
    by (simp add: syscall_def nucleus_done_def fun_upd_twist fun_upd_idem)
  moreover have "sees ?w (m\<lparr>kern := s', creg := ?v, conf := (conf m)(p := (l, k) # fs, q := [])\<rparr>)"
  proof -
    have "ustates s' = ustates (kern m)" using handle_sys_ustates [OF c _ s'(1)] by blast
    moreover have "mset (members (graft p q (w_tree w))) = add_mset q (mset (members (w_tree w)))"
      by (rule members_graft [OF tree_ok_distinct(1) [OF implementsD(2) [OF X(1)]] tr(1)])
    then have "set (members (graft p q (w_tree w))) = insert q (set (members (w_tree w)))"
      by (metis set_mset_add_mset_insert set_mset_mset)
    ultimately show ?thesis using m X s'(2) cs(1) st(2) unfolding sees_def
      by (intro conjI exI [of _ "X(q := st)"]) (simp_all add: w_fork_def)
  qed
  ultimately show "\<exists>m' w'. tick P m = Some m' \<and> sees w' m' \<and> leads P w' Q" using Q by blast
qed

section \<open>Terminal 0 has transmitted\<close>

definition w_sent :: "memaddr \<Rightarrow> word32 \<Rightarrow> nat \<Rightarrow> nat list \<Rightarrow> world \<Rightarrow> world" where
  "w_sent a v p ps w = w\<lparr>w_sem := (w_sem w)(a \<mapsto> v + 1), w_waits := (w_waits w)(a := ps), w_ready := w_ready w @ [p],
     w_ctx := (w_ctx w)(p := (\<lambda>st. s_v0 st = 5)), w_reg := (\<lambda>_. True)\<rparr>"

lemma w_sent_same [simp]:
  "w_run (w_sent a v p ps w) = w_run w" "w_tree (w_sent a v p ps w) = w_tree w"
  "w_ctx (w_sent a v p ps w) = (w_ctx w)(p := (\<lambda>st. s_v0 st = 5))" "w_states (w_sent a v p ps w) = w_states w"
  "w_out (w_sent a v p ps w) = w_out w" "w_conf (w_sent a v p ps w) = w_conf w" "w_reg (w_sent a v p ps w) = (\<lambda>_. True)"
  "w_base (w_sent a v p ps w) = w_base w" "w_free (w_sent a v p ps w) = w_free w"
  "w_ready (w_sent a v p ps w) = w_ready w @ [p]" "w_waits (w_sent a v p ps w) = (w_waits w)(a := ps)"
  "w_sem (w_sent a v p ps w) = (w_sem w)(a \<mapsto> v + 1)"
  by (simp_all add: w_sent_def)

lemma soft_waits: "W (devsem b 32) = p # ps \<Longrightarrow> soft b W \<noteq> 0"
  by (auto simp: soft_def DEVSEMS_49 intro!: bexI [of _ 32])

lemma sent_signal:
  "wf_state st \<Longrightarrow> signals 7 0 (st\<lparr>s_cause := 0x8000\<rparr>) (\<lambda>_. 1)"
  "sig_sem 7 0 (sent s) = 32" "sig_status 7 0 (sent s) = 5"
proof -
  have "getLineNumber 0x8000 = 7" by code_simp
  moreover have "lowestDevice 1 = 0" by code_simp
  ultimately show "signals 7 0 (st\<lparr>s_cause := 0x8000\<rparr>) (\<lambda>_. 1)" if "wf_state st"
    using that by (simp add: signals_def wf_state_def)
  have "dev_slot 7 0 = 32" by code_simp
  moreover have "fst (ack 7 (d\<lparr>d_data0 := 5\<rparr>)) = 5" "\<not> from_receiver 7 (d\<lparr>d_data0 := 5\<rparr>)" for d
    by (simp_all add: ack_def from_receiver_def t_transm_status_def READY_def)
  ultimately show "sig_sem 7 0 (sent s) = 32" "sig_status 7 0 (sent s) = 5"
    by (simp_all add: sig_sem_def sig_status_def sent_def io_index_def)
qed

lemma leads_sent:
  assumes idle: "w_run w = None" and W: "w_waits w (devsem (w_base w) 32) = p # ps"
    and v: "w_sem w (devsem (w_base w) 32) = Some v"
    and d: "dispatchable P b (w_sent (devsem (w_base w) 32) v p ps w)"
    and Q: "leads P (next_world b (w_sent (devsem (w_base w) 32) v p ps w)) Q"
  shows "leads P w Q"
proof (rule leads_tick)
  fix m assume m: "sees w m"
  from seesD [OF m] obtain X where X: "implements (kern m) (ak w X, w_tree w)"
    "\<forall>p\<in>set (members (w_tree w)). plain (X p)" "\<forall>p. w_ctx w p (X p)" .
  let ?a = "devsem (w_base w) 32" and ?st = "(creg m)\<lparr>s_cause := 0x8000\<rparr>" and ?X = "X(p := set_v0 5 (X p))"
  let ?w = "w_sent ?a v p ps w"
  have pc: "plain (creg m)" using m by (simp add: sees_def)
  then have wf: "wf_state (creg m)" by (simp add: plain_def)
  note k = krelD(1) [OF implementsD(1) [OF X(1)]]
  have "p < MAXPROC" "p \<notin> set (w_free w)"
    using kq_wait(1) [OF k, of p ?a] kq_distinct(3) [OF k, of p ?a] W by auto
  then have pm: "p \<in> set (members (w_tree w))" using tree_ok_distinct(4) [OF implementsD(2) [OF X(1)]] by simp
  then have xp: "plain (X p)" using X(2) by blast
  have B: "a_devV ?a 5 (ak w X) = ak ?w ?X"
    using W v by (simp add: a_devV_def a_setsem_def a_wake_def ak_def w_sent_def)
  have i: "w_run w = None" "soft (w_base w) (w_waits w) \<noteq> 0" by (rule idle) (rule soft_waits [where W = "w_waits w", OF W])
  note sd = step_device(2) [OF X(1) sent_signal(1) [OF wf], of ?a "sent (kern m)", unfolded sent_signal(2,3) ak_sel B, OF refl]
  obtain s' where s': "handle (Interrupt ?st (\<lambda>_. 1) (sent (kern m))) (kern m) = Some (Some (a_exit (ak ?w ?X)), s')"
    "implements s' (a_dispatch (ak ?w ?X), w_tree w)" using sd W i by auto
  have cur: "currentProcess (kern m) = None" using krelD(2) [OF implementsD(1) [OF X(1)]] idle by simp
  have tick: "tick P m = nucleus_done P None (Some (Some (a_exit (ak ?w ?X)), s')) m"
    using cur s'(1) by (simp add: tick_def interrupt_def)
  have "ustates s' = ustates (kern m)" by (rule handle_int_ustates [OF s'(1)])
  then have u: "ustates s' = w_states ?w" using m by (simp add: sees_def)
  have "\<exists>m'. nucleus_done P None (Some (Some (a_exit (ak ?w ?X)), s')) m = Some m' \<and> sees (next_world b ?w) m'"
  proof (rule sees_next [OF _ _ pc _ _ _ _ u d])
    show "\<forall>q. w_ctx ?w q (?X q)"
      using X(3) xp by (auto simp: plain_def wf_state_def STATEREGNUM_def reg_defs)
  qed (use m s'(2) idle X(2) xp in \<open>simp_all add: sees_def\<close>)
  then show "\<exists>m' w'. tick P m = Some m' \<and> sees w' m' \<and> leads P w' Q" using tick Q by (metis (no_types))
qed

end
