(* ===== verification/P2_Print.thy ===== *)
theory P2_Print
  imports P2_Calls
begin

text \<open>
  \<open>print\<close> of \<open>phase2/p2test.c\<close> on the nucleus: every character is a transmitter command and a
  SYS 8, and the interrupt of the terminal resumes the process with the status.
\<close>

lemma sees_weaken:
  assumes "sees w m" "\<And>p st. w_ctx w p st \<Longrightarrow> C p st" "\<And>st. w_reg w st \<Longrightarrow> R st"
  shows "sees (w\<lparr>w_ctx := C, w_reg := R\<rparr>) m"
proof -
  have "ak (w\<lparr>w_ctx := C, w_reg := R\<rparr>) = ak w" by (simp add: ak_def fun_eq_iff)
  then show ?thesis using assms unfolding sees_def by auto
qed

lemma leads_weaken:
  assumes "leads P (w\<lparr>w_ctx := C, w_reg := R\<rparr>) Q" "\<And>p st. w_ctx w p st \<Longrightarrow> C p st" "\<And>st. w_reg w st \<Longrightarrow> R st"
  shows "leads P w Q"
  unfolding leads_def
proof (intro allI impI)
  fix m assume "sees w m"
  then have "sees (w\<lparr>w_ctx := C, w_reg := R\<rparr>) m" by (rule sees_weaken [OF _ assms(2,3)])
  with assms(1) show "\<exists>n m' w'. ticks P n m = Some m' \<and> sees w' m' \<and> Q w'" unfolding leads_def by blast
qed

lemma leads_letl:
  assumes "at w p l (letl f # k) fs" "\<And>u. seen w l u \<Longrightarrow> f u = l'" "leads P (goto p l' k fs w) Q"
  shows "leads P w Q"
  by (rule leads_exec [where f = "\<lambda>u. Some (u\<lparr>loc := f u\<rparr>)"]) (use assms in \<open>auto simp: letl_def\<close>)

section \<open>The terminal\<close>

text \<open>No process waits for terminal 0, and its semaphore is one that blocks.\<close>

abbreviation tdev :: "world \<Rightarrow> memaddr" where
  "tdev w \<equiv> devsem (w_base w) 32"

definition term_free :: "world \<Rightarrow> bool" where
  "term_free w \<longleftrightarrow> w_waits w (tdev w) = [] \<and> (\<exists>v. w_sem w (tdev w) = Some v \<and> sint (v - 1) < 0)"

text \<open>The rest of an iteration after SYS 8.\<close>

definition print_rest :: "ucmd list" where
  "print_rest =
     [letl (\<lambda>u. (loc u)\<lparr>u_status := s_v0 (cpu u)\<rparr>),
      Cond (\<lambda>u. Some (u_status (loc u) AND TERMSTATMASK \<noteq> RECVD)) [Panic] [],
      letl (\<lambda>u. (loc u)\<lparr>u_s := tl (u_s (loc u))\<rparr>), print_loop]"

lemma print_loop_rest:
  "print_loop = Loop (\<lambda>u. Some (u_s (loc u) \<noteq> [])) (put_char # sys WAITIO TERMINT 0 0 # butlast print_rest)"
  by (simp add: print_loop_def print_rest_def)

text \<open>The process has transmitted \<open>c\<close> and waits.\<close>

definition w_char :: "nat \<Rightarrow> ulocals \<Rightarrow> ucmd list \<Rightarrow> uconf \<Rightarrow> world \<Rightarrow> world" where
  "w_char p l k fs w = w_block p (tdev w) (the (w_sem w (tdev w)))
     (goto p l (print_rest @ k) fs w\<lparr>w_out := w_out w @ [print_cmd (hd (u_s l))]\<rparr>)"

lemma leads_first_char:
  assumes at: "at w p l (print_loop # k) fs" and l: "u_s l \<noteq> []"
    and t: "w_sem w (tdev w) = Some v" "sint (v - 1) < 0"
    and d: "dispatchable P b (w_char p l k fs w)"
    and Q: "leads P (next_world b (w_char p l k fs w)) Q"
  shows "leads P w Q"
proof -
  let ?w1 = "goto p l (put_char # sys WAITIO TERMINT 0 0 # print_rest @ k) fs w"
  let ?w2 = "goto p l (sys WAITIO TERMINT 0 0 # print_rest @ k) fs w\<lparr>w_out := w_out w @ [print_cmd (hd (u_s l))]\<rparr>"
  have eq: "w_block p (tdev w) v (goto p l (print_rest @ k) fs ?w2) = w_char p l k fs w"
    using t(1) by (simp add: w_char_def w_block_def)
  have 2: "leads P ?w2 Q"
  proof (rule leads_io [where x = 7 and y = 0 and z = 0 and a = "tdev w" and v = v and b = b])
    show "at ?w2 p l (Call (\<lambda>_. Some (8, 7, 0, 0)) # print_rest @ k) fs" using at by (simp add: sys_def p2_numbers)
    show "dispatchable P b (w_block p (tdev w) v (goto p l (print_rest @ k) fs ?w2))" using d unfolding eq .
    show "leads P (next_world b (w_block p (tdev w) v (goto p l (print_rest @ k) fs ?w2))) Q" using Q unfolding eq .
  qed (use t in \<open>simp_all add: io_index_def\<close>)
  have 1: "leads P ?w1 Q" by (rule leads_put_char [where p = p and l = l]) (use at 2 in simp_all)
  show ?thesis
    by (rule leads_loop [OF at [unfolded print_loop_rest], where t = True])
      (use l 1 in \<open>simp_all add: seen_def print_rest_def print_loop_def\<close>)
qed

text \<open>The interrupt of the terminal resumes it when no other process is ready.\<close>

lemma leads_print_rest:
  assumes idle: "w_run w = None" "w_ready w = []" and W: "w_waits w (tdev w) = [p]"
    and v: "w_sem w (tdev w) = Some v" and c: "w_conf w p = (l, print_rest @ k) # fs"
    and Q: "leads P (w\<lparr>w_sem := (w_sem w)(tdev w \<mapsto> v + 1), w_waits := (w_waits w)(tdev w := []), w_run := Some p,
        w_conf := (w_conf w)(p := (l\<lparr>u_s := tl (u_s l), u_status := 5\<rparr>, print_loop # k) # fs),
        w_ctx := (w_ctx w)(p := (\<lambda>_. True)), w_reg := (\<lambda>_. True)\<rparr>) Q"
  shows "leads P w Q"
proof -
  let ?w0 = "next_world [] (w_sent (tdev w) v p [] w)"
  have w0: "w_run ?w0 = Some p" "w_conf ?w0 = w_conf w" "w_reg ?w0 = (\<lambda>st. s_v0 st = 5)"
    using idle c by (simp_all add: next_world_def w_sent_def)
  let ?l1 = "l\<lparr>u_status := 5\<rparr>" and ?l2 = "l\<lparr>u_s := tl (u_s l), u_status := 5\<rparr>"
  have eq: "goto p ?l2 (print_loop # k) fs ?w0\<lparr>w_ctx := (w_ctx w)(p := (\<lambda>_. True)), w_reg := (\<lambda>_. True)\<rparr> =
      w\<lparr>w_sem := (w_sem w)(tdev w \<mapsto> v + 1), w_waits := (w_waits w)(tdev w := []), w_run := Some p,
        w_conf := (w_conf w)(p := (?l2, print_loop # k) # fs), w_ctx := (w_ctx w)(p := (\<lambda>_. True)), w_reg := (\<lambda>_. True)\<rparr>"
    by (rule world.equality) (use idle c in \<open>simp_all add: next_world_def w_sent_def\<close>)
  have 3: "leads P (goto p ?l2 (print_loop # k) fs ?w0) Q"
    by (rule leads_weaken [where C = "(w_ctx w)(p := (\<lambda>_. True))" and R = "\<lambda>_. True"
          and w = "goto p ?l2 (print_loop # k) fs ?w0", unfolded eq, OF Q])
      (use idle c in \<open>auto simp: next_world_def w_sent_def split: if_splits\<close>)
  have 2: "leads P (goto p ?l1 (tl (tl print_rest) @ k) fs ?w0) Q"
    by (rule leads_letl [where l' = ?l2 and f = "\<lambda>u. (loc u)\<lparr>u_s := tl (u_s (loc u))\<rparr>"]) (use w0 3 in \<open>auto simp: print_rest_def seen_def\<close>)
  have 1: "leads P (goto p ?l1 (tl print_rest @ k) fs ?w0) Q"
    by (rule leads_cond [where t = False and b = "\<lambda>u. Some (u_status (loc u) AND TERMSTATMASK \<noteq> RECVD)"]) (use w0 2 in \<open>auto simp: print_rest_def seen_def TERMSTATMASK_def RECVD_def\<close>)
  have 0: "leads P ?w0 Q"
    by (rule leads_letl [where l' = ?l1 and f = "\<lambda>u. (loc u)\<lparr>u_status := s_v0 (cpu u)\<rparr>"]) (use w0 1 c in \<open>auto simp: print_rest_def seen_def\<close>)
  show ?thesis
    by (rule leads_sent [where p = p and ps = "[]" and b = "[]"]) (use idle W v 0 c in \<open>simp_all add: dispatchable_def\<close>)
qed

section \<open>A whole message\<close>

definition w_printed :: "nat \<Rightarrow> ulocals \<Rightarrow> ucmd list \<Rightarrow> uconf \<Rightarrow> string \<Rightarrow> world \<Rightarrow> world" where
  "w_printed p l k fs cs w = w\<lparr>w_conf := (w_conf w)(p := (l, k) # fs), w_out := w_out w @ map print_cmd cs,
     w_ctx := (w_ctx w)(p := (\<lambda>_. True)), w_reg := (\<lambda>_. True)\<rparr>"

lemma w_char_same [simp]:
  "w_run (w_char p l k fs w) = None" "w_tree (w_char p l k fs w) = w_tree w" "w_base (w_char p l k fs w) = w_base w"
  "w_states (w_char p l k fs w) = w_states w" "w_free (w_char p l k fs w) = w_free w"
  "w_ready (w_char p l k fs w) = w_ready w" "w_ctx (w_char p l k fs w) = (w_ctx w)(p := (\<lambda>_. True))"
  "w_waits (w_char p l k fs w) = (w_waits w)(tdev w := w_waits w (tdev w) @ [p])"
  "w_sem (w_char p l k fs w) = (w_sem w)(tdev w \<mapsto> the (w_sem w (tdev w)) - 1)"
  "w_out (w_char p l k fs w) = w_out w @ [print_cmd (hd (u_s l))]"
  "w_conf (w_char p l k fs w) = (w_conf w)(p := (l, print_rest @ k) # fs)" "w_reg (w_char p l k fs w) = (\<lambda>_. True)"
  by (simp_all add: w_char_def)

text \<open>
  Process \<open>p\<close> transmits \<open>cs\<close> within \<open>n\<close> ticks, one character at a time: after each command no process
  is current and \<open>p\<close> is the first to wait on the semaphore at \<open>a\<close>, until the next interrupt.
\<close>

definition waits_there :: "memaddr \<Rightarrow> nat \<Rightarrow> machine \<Rightarrow> bool" where
  "waits_there a p m \<longleftrightarrow> currentProcess (kern m) = None \<and> headBlocked a (kern m) = Some (Some p)"

definition paced :: "prog \<Rightarrow> memaddr \<Rightarrow> nat \<Rightarrow> machine \<Rightarrow> string \<Rightarrow> nat \<Rightarrow> bool" where
  "paced P a p m cs n \<longleftrightarrow>
     (\<exists>ts. length ts = length cs \<and> sorted_wrt (<) (ts @ [n])
        \<and> (\<forall>i<length cs. \<exists>m'. ticks P (ts ! i) m = Some m' \<and> waits_there a p m'
             \<and> tout m' = tout m @ map print_cmd (take (Suc i) cs)))"

lemma paced_Nil [simp]: "paced P a p m [] n"
  by (simp add: paced_def)

lemma sorted_shift: "sorted_wrt (<) (ts @ [n]) \<Longrightarrow> n + j \<le> k \<Longrightarrow> sorted_wrt (<) (map (\<lambda>t. t + j) ts @ [k :: nat])"
  by (fastforce simp: sorted_wrt_append sorted_wrt_map)

lemma paced_shift:
  assumes "paced P a p m1 cs n" "ticks P j m = Some m1" "tout m1 = tout m" "n + j \<le> k"
  shows "paced P a p m cs k"
proof -
  obtain ts where ts: "length ts = length cs" "sorted_wrt (<) (ts @ [n])"
    and r: "\<And>i. i < length cs \<Longrightarrow> \<exists>m'. ticks P (ts ! i) m1 = Some m' \<and> waits_there a p m'
             \<and> tout m' = tout m1 @ map print_cmd (take (Suc i) cs)"
    using assms(1) unfolding paced_def by blast
  have "\<exists>m'. ticks P (map (\<lambda>t. t + j) ts ! i) m = Some m' \<and> waits_there a p m'
      \<and> tout m' = tout m @ map print_cmd (take (Suc i) cs)" if "i < length cs" for i
    using r [OF that] ticks_add [of P j "ts ! i" m] assms(2,3) ts(1) that by (simp add: add.commute)
  with ts(1) sorted_shift [OF ts(2) assms(4)] show ?thesis
    unfolding paced_def by (intro exI [of _ "map (\<lambda>t. t + j) ts"]) simp
qed

lemma paced_Cons:
  assumes "ticks P j m = Some m1" "waits_there a p m1" "tout m1 = tout m @ [print_cmd c]"
    and "ticks P k m1 = Some m2" "currentProcess (kern m2) \<noteq> None" "tout m2 = tout m1" "paced P a p m2 cs n"
  shows "paced P a p m (c # cs) (j + k + n)"
proof -
  have k: "0 < k" using assms(2,4,5) by (cases k) (auto simp: waits_there_def)
  obtain ts where ts: "length ts = length cs" "sorted_wrt (<) (ts @ [n])"
    and r: "\<And>i. i < length cs \<Longrightarrow> \<exists>m'. ticks P (ts ! i) m2 = Some m' \<and> waits_there a p m'
             \<and> tout m' = tout m2 @ map print_cmd (take (Suc i) cs)"
    using assms(7) unfolding paced_def by blast
  have jk: "ticks P (j + k) m = Some m2" using assms(1,4) by (simp add: ticks_add)
  let ?ts = "j # map (\<lambda>t. t + (j + k)) ts"
  have s: "sorted_wrt (<) (?ts @ [j + k + n])"
    using sorted_shift [OF ts(2), of "j + k" "j + k + n"] k by auto
  have "\<exists>m'. ticks P (?ts ! i) m = Some m' \<and> waits_there a p m'
      \<and> tout m' = tout m @ map print_cmd (take (Suc i) (c # cs))" if "i < length (c # cs)" for i
  proof (cases i)
    case 0
    then show ?thesis using assms(1-3) by simp
  next
    case (Suc i')
    then show ?thesis
      using r [of i'] ticks_add [of P "j + k" "ts ! i'" m] jk assms(3,6) ts(1) that by (simp add: add.commute)
  qed
  with ts(1) s show ?thesis unfolding paced_def by (intro exI [of _ ?ts]) auto
qed

lemma sees_waits_there:
  assumes "sees w m" "w_run w = None" "w_waits w a = p # ps"
  shows "waits_there a p m"
proof -
  obtain X where "implements (kern m) (ak w X, w_tree w)" using assms(1) by (auto simp: sees_def)
  note D = implementsD(1) [OF this]
  have "a < MAXINT" using kq_wait(3) [OF krelD(1) [OF D], of p a] assms(3) by (simp add: ak_def)
  then show ?thesis
    using kq_head [OF krelD(1) [OF D], of a] krelD(2) [OF D] assms(2,3) by (simp add: waits_there_def ak_def)
qed

lemma sees_out: "sees w m \<Longrightarrow> tout m = w_out w"
  by (simp add: sees_def)

lemma print_loop_run:
  assumes "sees w m" "at w p l (print_loop # k) fs" "w_ready w = []" "term_free w"
  shows "\<exists>n m' st. ticks P n m = Some m' \<and> sees (w_printed p (l\<lparr>u_s := [], u_status := st\<rparr>) k fs (u_s l) w) m'
    \<and> paced P (tdev w) p m (u_s l) n"
  using assms
proof (induction "u_s l" arbitrary: l w m)
  case Nil
  have l: "l\<lparr>u_s := [], u_status := u_status l\<rparr> = l" using Nil.hyps by simp
  have g: "leads P (goto p l k fs w) (\<lambda>w'. w' = w_printed p l k fs [] w)"
    by (rule leads_weaken [where C = "(w_ctx w)(p := (\<lambda>_. True))" and R = "\<lambda>_. True"], rule leads_here)
      (simp_all add: w_printed_def split: if_splits)
  note loop = leads_loop [OF Nil.prems(2) [unfolded print_loop_def], where t = False and P = P
      and Q = "\<lambda>w'. w' = w_printed p l k fs [] w"]
  have "leads P w (\<lambda>w'. w' = w_printed p l k fs [] w)"
    by (rule loop) (use Nil.hyps g in \<open>simp_all add: seen_def\<close>)
  then obtain n m' where "ticks P n m = Some m'" "sees (w_printed p l k fs [] w) m'"
    using Nil.prems(1) unfolding leads_def by blast
  then have "sees (w_printed p (l\<lparr>u_s := [], u_status := u_status l\<rparr>) k fs (u_s l) w) m'" "ticks P n m = Some m'"
    using Nil.hyps unfolding l by simp_all
  moreover have "paced P (tdev w) p m (u_s l) n" using Nil.hyps [symmetric] by simp
  ultimately show ?case by blast
next
  case (Cons c cs)
  obtain v where v: "w_waits w (tdev w) = []" "w_sem w (tdev w) = Some v" "sint (v - 1) < 0"
    using Cons.prems(4) unfolding term_free_def by blast
  let ?w = "w_char p l k fs w" and ?l = "l\<lparr>u_s := cs, u_status := 5\<rparr>"
  let ?w1 = "w\<lparr>w_conf := (w_conf w)(p := (?l, print_loop # k) # fs), w_out := w_out w @ [print_cmd c],
      w_ctx := (w_ctx w)(p := (\<lambda>_. True)), w_reg := (\<lambda>_. True)\<rparr>"
  have l: "u_s l = c # cs" "tl (u_s l) = cs" "hd (u_s l) = c" using Cons.hyps(2) by (metis list.sel(1,3))+
  have nw: "next_world [] ?w = ?w" using Cons.prems(3) by (simp add: next_world_def)
  have d: "dispatchable P [] ?w"
    using Cons.prems(3) v(1) soft_waits [of "w_waits ?w" "w_base w" p "[]"] by (simp add: dispatchable_def)
  have "leads P w (\<lambda>w'. w' = ?w)"
    by (rule leads_first_char [OF Cons.prems(2) _ v(2,3) d]) (use l nw in \<open>simp_all add: leads_here\<close>)
  then obtain n1 m1 where m1: "ticks P n1 m = Some m1" "sees ?w m1" using Cons.prems(1) unfolding leads_def by blast
  have eq: "?w\<lparr>w_sem := (w_sem ?w)(tdev ?w \<mapsto> v - 1 + 1), w_waits := (w_waits ?w)(tdev ?w := []), w_run := Some p,
        w_conf := (w_conf ?w)(p := (l\<lparr>u_s := tl (u_s l), u_status := 5\<rparr>, print_loop # k) # fs),
        w_ctx := (w_ctx ?w)(p := (\<lambda>_. True)), w_reg := (\<lambda>_. True)\<rparr> = ?w1"
    by (rule world.equality) (use v l Cons.prems(2) in \<open>simp_all add: fun_upd_idem\<close>)
  have "leads P ?w (\<lambda>w'. w' = ?w1)"
    by (rule leads_print_rest [where p = p and v = "v - 1" and l = l and k = k and fs = fs])
      (unfold eq, use v l Cons.prems in \<open>simp_all add: leads_here\<close>)
  then obtain n2 m2 where m2: "ticks P n2 m1 = Some m2" "sees ?w1 m2" using m1(2) unfolding leads_def by blast
  have at1: "at ?w1 p ?l (print_loop # k) fs" "w_ready ?w1 = []" "term_free ?w1"
    using Cons.prems by (simp_all add: term_free_def)
  from Cons.hyps(1) [OF _ m2(2) at1] obtain n3 m3 st where m3: "ticks P n3 m2 = Some m3"
    "sees (w_printed p (?l\<lparr>u_s := [], u_status := st\<rparr>) k fs cs ?w1) m3" "paced P (tdev w) p m2 cs n3" by auto
  have "w_printed p (?l\<lparr>u_s := [], u_status := st\<rparr>) k fs cs ?w1 = w_printed p (l\<lparr>u_s := [], u_status := st\<rparr>) k fs (u_s l) w"
    using l(1) by (simp add: w_printed_def)
  moreover have "paced P (tdev w) p m (u_s l) (n1 + n2 + n3)"
    unfolding l(1)
  proof (rule paced_Cons [OF m1(1) _ _ m2(1) _ _ m3(3)])
    show "waits_there (tdev w) p m1" by (rule sees_waits_there [OF m1(2)]) (simp_all add: v)
    show "currentProcess (kern m2) \<noteq> None" using sees_view(2) [OF m2(2) at1(1)] by simp
  qed (use sees_out [OF Cons.prems(1)] sees_out [OF m1(2)] sees_out [OF m2(2)] l in simp_all)
  ultimately show ?case
    using m1(1) m2(1) m3(1,2)
    by (intro exI [of _ "n1 + n2 + n3"] exI [of _ m3] exI [of _ st]) (simp add: ticks_add)
qed

lemma leads_print_loop:
  assumes "at w p l (print_loop # k) fs" "w_ready w = []" "term_free w"
    and "\<And>st. leads P (w_printed p (l\<lparr>u_s := [], u_status := st\<rparr>) k fs (u_s l) w) Q"
  shows "leads P w Q"
proof (rule leads_trans)
  show "leads P w (\<lambda>w'. \<exists>st. w' = w_printed p (l\<lparr>u_s := [], u_status := st\<rparr>) k fs (u_s l) w)"
    unfolding leads_def using print_loop_run [OF _ assms(1-3)] by blast
qed (use assms(4) in blast)

text \<open>A semaphore of the processes.\<close>

definition sem_ok :: "world \<Rightarrow> memaddr \<Rightarrow> word32 \<Rightarrow> bool" where
  "sem_ok w a v \<longleftrightarrow> w_sem w a = Some v \<and> 0 < a \<and> a < MAXINT \<and> \<not> is_dev (w_base w) a"

lemma not_tdev: "\<not> is_dev (w_base w) a \<Longrightarrow> a \<noteq> tdev w"
  unfolding is_dev_def by (auto simp: DEVSEMS_49)

text \<open>When no other process is ready, and when one is, which runs at the first character.\<close>

lemma leads_enter_print:
  assumes at: "at w p l (print L msg @ k) fs" and m: "sem_ok w (g_addr L Term_mut) 1"
    and Q: "leads P (w_set (g_addr L Term_mut) 0 (goto p (l\<lparr>u_s := msg\<rparr>)
       (print_loop # sys VERHOGEN (g_addr L Term_mut) 0 0 # k) fs w)) Q"
  shows "leads P w Q"
proof -
  let ?a = "g_addr L Term_mut" and ?l = "l\<lparr>u_s := msg\<rparr>"
  let ?k = "print_loop # sys VERHOGEN ?a 0 0 # k"
  have 1: "leads P (goto p ?l (sys PASSERN ?a 0 0 # ?k) fs w) Q"
    by (rule leads_P [where p = p and l = ?l and k = ?k and fs = fs and a = ?a and y = 0 and z = 0 and v = 1 and
          g = "\<lambda>_. Some (4, ?a, 0, 0)"])
      (use at m Q in \<open>simp_all add: sem_ok_def sys_def p2_numbers\<close>)
  show ?thesis
    by (rule leads_letl [where l' = ?l and f = "\<lambda>u. (loc u)\<lparr>u_s := msg\<rparr>" and p = p and l = l and fs = fs and k = "sys PASSERN ?a 0 0 # ?k"])
      (use at 1 in \<open>simp_all add: print_def seen_def\<close>)
qed

lemma leads_leave_print:
  assumes at: "at w p l (sys VERHOGEN (g_addr L Term_mut) 0 0 # k) fs" and m: "sem_ok w (g_addr L Term_mut) 0"
    and Q: "leads P (w_set (g_addr L Term_mut) 1 (goto p l k fs w)) Q"
  shows "leads P w Q"
proof -
  have "w_V (g_addr L Term_mut) 0 (goto p l k fs w) = w_set (g_addr L Term_mut) 1 (goto p l k fs w)"
    by (simp add: w_V_def w_set_def)
  then show ?thesis
    by (intro leads_V [where p = p and l = l and k = k and fs = fs and a = "g_addr L Term_mut" and y = 0 and z = 0 and v = 0 and
          g = "\<lambda>_. Some (3, g_addr L Term_mut, 0, 0)" and P = P and Q = Q and w = w])
      (use at m Q in \<open>simp_all add: sem_ok_def sys_def p2_numbers\<close>)
qed

lemma print_run:
  assumes s: "sees w m" and at: "at w p l (print L msg @ k) fs" and m: "sem_ok w (g_addr L Term_mut) 1"
    and r: "w_ready w = []" "term_free w"
  shows "\<exists>n m' st. ticks P n m = Some m' \<and> sees (w_printed p (l\<lparr>u_s := [], u_status := st\<rparr>) k fs msg w) m'
    \<and> paced P (tdev w) p m msg n"
proof -
  let ?a = "g_addr L Term_mut" and ?l = "l\<lparr>u_s := msg\<rparr>" and ?k = "sys VERHOGEN (g_addr L Term_mut) 0 0 # k"
  let ?w = "w_set ?a 0 (goto p ?l (print_loop # ?k) fs w)"
  have "leads P w (\<lambda>w'. w' = ?w)" by (rule leads_enter_print [OF at m]) (simp add: leads_here)
  then obtain n1 m1 where m1: "ticks P n1 m = Some m1" "sees ?w m1" using s unfolding leads_def by blast
  have at1: "at ?w p ?l (print_loop # ?k) fs" "w_ready ?w = []" "term_free ?w"
    using at r not_tdev [of w ?a] m by (simp_all add: term_free_def sem_ok_def)
  from print_loop_run [OF m1(2) at1, where P = P] obtain n2 m2 st where m2: "ticks P n2 m1 = Some m2"
    "sees (w_printed p (?l\<lparr>u_s := [], u_status := st\<rparr>) ?k fs (u_s ?l) ?w) m2" "paced P (tdev w) p m1 msg n2" by auto
  let ?l2 = "l\<lparr>u_s := [], u_status := st\<rparr>" and ?w2 = "w_printed p (?l\<lparr>u_s := [], u_status := st\<rparr>) ?k fs (u_s ?l) ?w"
  have eq: "w_set ?a 1 (goto p ?l2 k fs ?w2) = w_printed p ?l2 k fs msg w"
    by (rule world.equality) (use m in \<open>simp_all add: w_printed_def w_set_def sem_ok_def fun_upd_idem\<close>)
  have "leads P ?w2 (\<lambda>w'. w' = w_set ?a 1 (goto p ?l2 k fs ?w2))"
    by (rule leads_leave_print [where p = p and l = ?l2 and k = k and fs = fs and L = L])
      (use at m in \<open>simp_all add: w_printed_def w_set_def sem_ok_def leads_here\<close>)
  then obtain n3 m3 where m3: "ticks P n3 m2 = Some m3" "sees (w_printed p ?l2 k fs msg w) m3"
    unfolding eq using m2(2) unfolding leads_def by blast
  have "tout m1 = tout m" using sees_out [OF s] sees_out [OF m1(2)] by simp
  then have "paced P (tdev w) p m msg (n1 + n2 + n3)" by (intro paced_shift [OF m2(3) m1(1)]) simp_all
  with m1(1) m2(1) m3 show ?thesis
    by (intro exI [of _ "n1 + n2 + n3"] exI [of _ m3] exI [of _ st]) (simp add: ticks_add)
qed

lemma leads_print:
  assumes at: "at w p l (print L msg @ k) fs" and m: "sem_ok w (g_addr L Term_mut) 1"
    and r: "w_ready w = []" "term_free w"
    and Q: "\<And>st. leads P (w_printed p (l\<lparr>u_s := [], u_status := st\<rparr>) k fs msg w) Q"
  shows "leads P w Q"
proof (rule leads_trans)
  show "leads P w (\<lambda>w'. \<exists>st. w' = w_printed p (l\<lparr>u_s := [], u_status := st\<rparr>) k fs msg w)"
    unfolding leads_def using print_run [OF _ at m r] by blast
qed (use Q in blast)

end
