(* ===== verification/P2_States.thy ===== *)
theory P2_States
  imports P2_Print
begin

text \<open>
  The processor states the root process of \<open>phase2/p2test.c\<close> sets up for the others: the stacks
  are pages of their own.
\<close>

section \<open>Straight-line code\<close>

text \<open>Commands that change neither the processor nor the current process.\<close>

fun straight :: "ucmd list \<Rightarrow> ustate \<Rightarrow> ustate option" where
  "straight [] u = Some u"
| "straight (Exec f # cs) u =
     (case f u of
        None \<Rightarrow> None
      | Some u' \<Rightarrow>
          if cpu u' = cpu u \<and> currentProcess (mem u') = currentProcess (mem u) then straight cs u' else None)"
| "straight (_ # cs) u = None"

lemma straight_ticks:
  assumes "straight cs (view l m) = Some u'" "currentProcess (kern m) = Some p" "s_status (creg m) AND VMBITS = 0"
    and "conf m p = (l, cs @ k) # fs"
  shows "ticks P (length cs) m =
    Some (m\<lparr>kern := mem u', creg := cpu u', conf := (conf m)(p := (loc u', k) # fs), tout := out u'\<rparr>)"
  using assms
proof (induction cs arbitrary: l m)
  case Nil
  then have "(conf m)(p := (l, k) # fs) = conf m" by (simp add: fun_upd_idem)
  then show ?case using Nil by (auto simp: view_def simp del: fun_upd_apply)
next
  case (Cons c cs)
  obtain f where c: "c = Exec f" using Cons.prems(1) by (cases c) simp_all
  obtain u where u: "f (view l m) = Some u" "cpu u = creg m" "currentProcess (mem u) = Some p" "straight cs u = Some u'"
    using Cons.prems by (auto simp: c view_def split: option.splits if_splits)
  let ?m = "m\<lparr>kern := mem u, creg := cpu u, conf := (conf m)(p := (loc u, cs @ k) # fs), tout := out u\<rparr>"
  have "tick P m = Some ?m" using Cons.prems u by (simp add: c tick_def ustep_def exec_cmd_def)
  moreover have v: "view (loc u) ?m = u" by (simp add: view_def)
  have "straight cs (view (loc u) ?m) = Some u'" unfolding v by (rule u(4))
  note ih = Cons.IH [OF this]
  moreover have "ticks P (length cs) ?m =
      Some (?m\<lparr>kern := mem u', creg := cpu u', conf := (conf ?m)(p := (loc u', k) # fs), tout := out u'\<rparr>)"
    by (rule ih) (use Cons.prems u in simp_all)
  ultimately show ?case by (simp del: fun_upd_apply)
qed

lemma leads_straight:
  assumes a: "at w p l (cs @ k) fs"
    and f: "\<And>u X. seen w l u \<Longrightarrow> implements (mem u) (ak w X, w_tree w) \<Longrightarrow>
      \<exists>u'. straight cs u = Some u' \<and> turned P Q w p k fs X u u'"
  shows "leads P w Q"
proof -
  have "leads P w (\<lambda>w'. leads P w' Q)"
    unfolding leads_def [of P w "\<lambda>w'. leads P w' Q"]
  proof (intro allI impI)
    fix m assume m: "sees w m"
    then obtain X where X: "implements (kern m) (ak w X, w_tree w)" "\<forall>p\<in>set (members (w_tree w)). plain (X p)"
      "\<forall>p. w_ctx w p (X p)" unfolding sees_def by blast
    have "implements (mem (view l m)) (ak w X, w_tree w)" using X(1) by (simp add: view_def)
    from f [OF sees_view(1) [OF m a] this, unfolded turned_def] obtain u' w' where u': "straight cs (view l m) = Some u'"
      "implements (mem u') (ak w' X, w_tree w')" "cpu u' = cpu (view l m)" "ustates (mem u') = w_states w'" "out u' = w_out w'"
      "w_tree w' = w_tree w" "w_ctx w' = w_ctx w" "w_reg w' = w_reg w"
      "w_conf w' = (w_conf w)(p := (loc u', k) # fs)" "leads P w' Q" by blast
    let ?m = "m\<lparr>kern := mem u', creg := cpu u', conf := (conf m)(p := (loc u', k) # fs), tout := out u'\<rparr>"
    have "ticks P (length cs) m = Some ?m"
      using straight_ticks [OF u'(1)] sees_view [OF m a] by blast
    moreover have "sees w' ?m" using X(2,3) u' m by (auto simp: sees_def view_def)
    ultimately show "\<exists>n m' w'. ticks P n m = Some m' \<and> sees w' m' \<and> leads P w' Q" using u'(10) by blast
  qed
  then show ?thesis by (rule leads_trans) blast
qed

definition child_state :: "p2_link \<Rightarrow> state_t \<Rightarrow> word32 \<Rightarrow> ufun \<Rightarrow> state_t" where
  "child_state L st sp f =
     set_status (s_status st OR IEPBITON OR CAUSEINTMASK) (set_pc (code L f) (set_t9 (code L f) (set_sp sp st)))"

lemma child_state_simps [simp]:
  "wf_state st \<Longrightarrow> s_sp (child_state L st sp f) = sp" "wf_state st \<Longrightarrow> s_t9 (child_state L st sp f) = code L f"
  "s_pc (child_state L st sp f) = code L f"
  "s_status (child_state L st sp f) = s_status st OR IEPBITON OR CAUSEINTMASK"
  "wf_state (child_state L st sp f) = wf_state st"
  by (simp_all add: child_state_def set_status_def set_pc_def reg_defs wf_state_def STATEREGNUM_def)

lemma s_status_set [simp]: "s_status (set_t9 v st) = s_status st" "s_status (set_sp v st) = s_status st"
  by (simp_all add: reg_defs)

definition put_st :: "p2_link \<Rightarrow> svar \<Rightarrow> state_t \<Rightarrow> ustate \<Rightarrow> ustate" where
  "put_st L x st u = u\<lparr>mem := (mem u)\<lparr>st_mem := (st_mem (mem u))(staddr L x \<mapsto> st)\<rparr>\<rparr>"

lemma put_st_simps [simp]:
  "cpu (put_st L x st u) = cpu u" "loc (put_st L x st u) = loc u" "out (put_st L x st u) = out u"
  "st_mem (mem (put_st L x st u)) = (st_mem (mem u))(staddr L x \<mapsto> st)"
  "int_mem (mem (put_st L x st u)) = int_mem (mem u)"
  "put_st L x b (put_st L x a u) = put_st L x b u"
  "currentProcess (mem (put_st L x st u)) = currentProcess (mem u)"
  by (simp_all add: put_st_def)

lemma straight_STST:
  "st_mem (mem u) (staddr L x) \<noteq> None \<Longrightarrow> straight (STST L x # cs) u = straight cs (put_st L x (cpu u) u)"
  by (auto simp: STST_def put_st_def)

lemma straight_setst:
  "st_mem (mem u) (staddr L x) = Some st \<Longrightarrow> e u = Some v \<Longrightarrow>
   straight (setst L x e f # cs) u = straight cs (put_st L x (f v st) u)"
  by (simp add: setst_def put_st_def)

lemma set_child_run:
  assumes "st_mem (mem u) (staddr L x) \<noteq> None"
  shows "straight (set_child L x x n f @ cs) u = straight cs (put_st L x (child_state L (cpu u) (s_sp (cpu u) - n) f) u)"
    and "staddr L x \<noteq> staddr L y \<Longrightarrow> st_mem (mem u) (staddr L y) \<noteq> None \<Longrightarrow>
      straight (set_child L x y n f @ cs) u =
      straight cs (put_st L x (child_state L (cpu u) (s_sp (the (st_mem (mem u) (staddr L y))) - n) f) u)"
  using assms
  by (auto simp: set_child_def set_entry_def straight_STST straight_setst getst_def child_state_def
      set_status_def set_pc_def)

definition put_g :: "memaddr \<Rightarrow> word32 \<Rightarrow> ustate \<Rightarrow> ustate" where
  "put_g a v u = u\<lparr>mem := (mem u)\<lparr>int_mem := (int_mem (mem u))(a \<mapsto> v)\<rparr>\<rparr>"

lemma put_g_simps [simp]:
  "cpu (put_g a v u) = cpu u" "loc (put_g a v u) = loc u" "out (put_g a v u) = out u"
  "st_mem (mem (put_g a v u)) = st_mem (mem u)" "int_mem (mem (put_g a v u)) = (int_mem (mem u))(a \<mapsto> v)"
  "put_st L x st (put_g a v u) = put_g a v (put_st L x st u)"
  "currentProcess (mem (put_g a v u)) = currentProcess (mem u)"
  by (simp_all add: put_g_def put_st_def)

lemma straight_setg:
  "e u = Some v \<Longrightarrow> int_mem (mem u) (g_addr L x) \<noteq> None \<Longrightarrow>
   straight (setg L x e # cs) u = straight cs (put_g (g_addr L x) v u)"
  by (auto simp: setg_def poke_def put_g_def)

text \<open>The state of \<open>p5\<close>, whose stack pointer is also kept in \<open>p5Stack\<close>.\<close>

definition set_p5 :: "p2_link \<Rightarrow> ucmd list" where
  "set_p5 L =
     [STST L P5state,
      setst L P5state (\<lambda>u. map_option (\<lambda>v. v - 2 * QPAGE) (getst L P4state s_sp u)) set_sp,
      setg L P5Stack (getst L P5state s_sp)]
     @ set_entry L P5state U_p5
     @ [setst L P5state (\<lambda>u. map_option (\<lambda>v. v OR IEPBITON OR CAUSEINTMASK) (getst L P5state s_status u)) set_status]"

lemma set_p5_run:
  assumes "st_mem (mem u) (staddr L P5state) \<noteq> None" "int_mem (mem u) (g_addr L P5Stack) \<noteq> None" "wf_state (cpu u)"
    and "staddr L P5state \<noteq> staddr L P4state" "st_mem (mem u) (staddr L P4state) \<noteq> None"
  defines "sp \<equiv> s_sp (the (st_mem (mem u) (staddr L P4state)))"
  shows "straight (set_p5 L @ cs) u =
    straight cs (put_g (g_addr L P5Stack) (sp - 2 * QPAGE) (put_st L P5state (child_state L (cpu u) (sp - 2 * QPAGE) U_p5) u))"
proof -
  have "s_sp (set_sp v (cpu u)) = v" for v using assms(3) by (simp add: reg_defs wf_state_def STATEREGNUM_def)
  then show ?thesis
    using assms(1-5) unfolding sp_def
    by (auto simp: set_p5_def set_entry_def straight_STST straight_setst straight_setg getst_def child_state_def
        set_status_def set_pc_def)
qed

section \<open>The states of all processes\<close>

text \<open>Which state, how many pages below the stack of the root process, and which function.\<close>

definition offspring :: "(svar \<times> word32 \<times> ufun) list" where
  "offspring =
     [(P2state, 1, U_p2), (P3state, 2, U_p3), (P4state, 3, U_p4), (P5state, 5, U_p5), (P6state, 7, U_p6),
      (P7state, 8, U_p7), (P8rootstate, 9, U_p8root), (Child1state, 10, U_child1), (Child2state, 11, U_child2),
      (Gchild1state, 12, U_p8leaf), (Gchild2state, 13, U_p8leaf), (Gchild3state, 14, U_p8leaf),
      (Gchild4state, 15, U_p8leaf)]"

definition sp_below :: "state_t \<Rightarrow> word32 \<Rightarrow> word32" where
  "sp_below st k = s_sp st - k * QPAGE"

lemma sp_below_diff: "sp_below st k - QPAGE = sp_below st (k + 1)" "sp_below st k - 2 * QPAGE = sp_below st (k + 2)"
  "s_sp st = sp_below st 0"
  by (simp_all add: sp_below_def algebra_simps)

definition born :: "p2_link \<Rightarrow> state_t \<Rightarrow> svar \<times> word32 \<times> ufun \<Rightarrow> memaddr \<times> state_t" where
  "born L st = (\<lambda>(x, k, f). (staddr L x, child_state L st (sp_below st k) f))"

text \<open>What \<open>test_states\<close> does to the memory.\<close>

definition all_born :: "p2_link \<Rightarrow> ustate \<Rightarrow> ustate" where
  "all_born L u = u\<lparr>mem := (mem u)\<lparr>st_mem := (st_mem (mem u)) ++ map_of (rev (map (born L (cpu u)) offspring)),
     int_mem := (int_mem (mem u))(g_addr L P5Stack \<mapsto> sp_below (cpu u) 5)\<rparr>\<rparr>"

lemma test_states_run:
  assumes "inj (staddr L)" "\<And>x. st_mem (mem u) (staddr L x) \<noteq> None" "wf_state (cpu u)"
    and "int_mem (mem u) (g_addr L P5Stack) \<noteq> None"
  shows "straight (test_states L) u = Some (all_born L u)"
proof -
  have i: "staddr L x = staddr L y \<longleftrightarrow> x = y" for x y using assms(1) by (simp add: inj_eq)
  have split: "test_states L =
     set_child L P2state P2state QPAGE U_p2 @ set_child L P3state P2state QPAGE U_p3
     @ set_child L P4state P3state QPAGE U_p4 @ set_p5 L
     @ set_child L P6state P5state (2 * QPAGE) U_p6 @ set_child L P7state P6state QPAGE U_p7
     @ set_child L P8rootstate P7state QPAGE U_p8root @ set_child L Child1state P8rootstate QPAGE U_child1
     @ set_child L Child2state Child1state QPAGE U_child2 @ set_child L Gchild1state Child2state QPAGE U_p8leaf
     @ set_child L Gchild2state Gchild1state QPAGE U_p8leaf @ set_child L Gchild3state Gchild2state QPAGE U_p8leaf
     @ set_child L Gchild4state Gchild3state QPAGE U_p8leaf @ []"
    by (simp add: test_states_def set_p5_def)
  show ?thesis
    unfolding split
    apply (simp add: set_child_run set_p5_run assms i sp_below_diff(1,2) sp_below_diff(3) [of "cpu u"] del: g_addr.simps append_Nil2)
    apply (simp add: all_born_def offspring_def born_def put_st_def put_g_def del: g_addr.simps)
    done
qed

section \<open>On the nucleus\<close>

definition w_born :: "p2_link \<Rightarrow> state_t \<Rightarrow> world \<Rightarrow> world" where
  "w_born L c w = w\<lparr>w_states := w_states w ++ map_of (rev (map (born L c) offspring)),
     w_sem := (w_sem w)(g_addr L P5Stack \<mapsto> sp_below c 5)\<rparr>"

lemma implements_states:
  assumes "implements s (A, t)" "\<forall>(a, st)\<in>set xs. wf_state st"
  shows "implements (s\<lparr>st_mem := st_mem s ++ map_of xs\<rparr>) (A, t)"
  using assms(2)
proof (induction xs)
  case (Cons x xs)
  then show ?case using implements_mem [of "s\<lparr>st_mem := st_mem s ++ map_of xs\<rparr>" A t "snd x" "fst x"]
    by (cases x) (simp del: fun_upd_apply)
qed (use assms(1) in simp)

lemma ustates_states:
  assumes "fst ` set xs \<inter> kareas = {}"
  shows "ustates (s\<lparr>st_mem := st_mem s ++ map_of xs\<rparr>) = ustates s ++ map_of xs"
proof
  fix a
  have "map_of xs a = None" if "a \<in> kareas" using assms that by (auto simp: map_of_eq_None_iff)
  then show "ustates (s\<lparr>st_mem := st_mem s ++ map_of xs\<rparr>) a = (ustates s ++ map_of xs) a"
    by (cases "a \<in> kareas") (simp_all add: ustates_def restrict_map_def map_add_def split: option.splits)
qed

lemma leads_test_states:
  assumes a: "at w p l (test_states L @ k) fs"
    and st: "inj (staddr L)" "\<And>x. w_states w (staddr L x) \<noteq> None"
    and g: "w_sem w (g_addr L P5Stack) \<noteq> None" "\<not> is_dev (w_base w) (g_addr L P5Stack)"
    and Q: "\<And>c. plain c \<Longrightarrow> leads P (w_born L c (goto p l k fs w)) Q"
  shows "leads P w Q"
proof (rule leads_straight [OF a])
  fix u X assume u: "seen w l u" and i: "implements (mem u) (ak w X, w_tree w)"
  let ?c = "cpu u" and ?xs = "rev (map (born L (cpu u)) offspring)"
  let ?w = "w_born L ?c (goto p l k fs w)" and ?a = "g_addr L P5Stack" and ?v = "sp_below ?c 5"
  have pl: "plain ?c" and us: "ustates (mem u) = w_states w" and im: "int_mem (mem u) = w_sem w"
    and lo: "loc u = l" "out u = w_out w" using u by (simp_all add: seen_def)
  have m: "st_mem (mem u) (staddr L x) \<noteq> None \<and> staddr L x \<notin> kareas" for x
    using st(2) [of x] unfolding us [symmetric] by (auto simp: ustates_def restrict_map_def split: if_splits)
  let ?s1 = "(mem u)\<lparr>st_mem := st_mem (mem u) ++ map_of ?xs\<rparr>"
  have run: "straight (test_states L) u = Some (all_born L u)"
    by (rule test_states_run [OF st(1)]) (use m pl g(1) im in \<open>simp_all add: plain_def del: g_addr.simps\<close>)
  have wf: "\<forall>(a, st)\<in>set ?xs. wf_state st" using pl by (auto simp: born_def plain_def)
  have ka: "fst ` set ?xs \<inter> kareas = {}" using m by (auto simp: born_def)
  have i1: "implements ?s1 (ak w X, w_tree w)" by (rule implements_states [OF i wf])
  have mu: "mem (all_born L u) = ?s1\<lparr>int_mem := (int_mem ?s1)(?a \<mapsto> ?v)\<rparr>" by (simp add: all_born_def)
  have "a_setsem ?a ?v (ak w X) = ak ?w X" by (simp add: ak_def a_setsem_def w_born_def)
  then have "implements (mem (all_born L u)) (ak ?w X, w_tree ?w)"
    unfolding mu using step_store [OF i1, of ?a ?v] g a by (simp add: w_born_def del: g_addr.simps)
  moreover have "ustates (mem (all_born L u)) = w_states ?w"
    using ustates_states [OF ka, of "mem u"] us by (simp add: mu ustates_def w_born_def)
  moreover have "leads P ?w Q" by (rule Q [OF pl])
  ultimately show "\<exists>u'. straight (test_states L) u = Some u' \<and> turned P Q w p k fs X u u'"
    using run lo unfolding turned_def
    by (intro exI [of _ "all_born L u"] conjI exI [of _ ?w]) (simp_all add: all_born_def w_born_def del: g_addr.simps)
qed

section \<open>Stacks\<close>

text \<open>
  The stack pointers: of the root process (running in \<open>u\<close>), of the second incarnation of \<open>p4\<close> (in
  the memory of \<open>v\<close>) and of \<open>p5\<close> after its memory management trap (in that of \<open>w\<close>), and of the
  states. A stack grows downwards from its pointer.
\<close>

definition state_sp :: "p2_link \<Rightarrow> ustate \<Rightarrow> svar \<Rightarrow> word32" where
  "state_sp L u x = s_sp (the (st_mem (mem u) (staddr L x)))"

definition stack_tops :: "p2_link \<Rightarrow> ustate \<Rightarrow> ustate \<Rightarrow> ustate \<Rightarrow> word32 list" where
  "stack_tops L u v w =
     [s_sp (cpu u), state_sp L v P4state, state_sp L w Mstat_o] @ map (state_sp L u \<circ> fst) offspring"

lemma wf_sp:
  "wf_state st \<Longrightarrow> s_sp (set_sp v st) = v" "wf_state (set_status v st) = wf_state st"
  "wf_state (set_pc v st) = wf_state st" "wf_state (set_t9 v st) = wf_state st"
  by (simp_all add: set_status_def set_pc_def reg_defs wf_state_def STATEREGNUM_def)

text \<open>What \<open>p4\<close> does to its state before it creates the second incarnation.\<close>

lemma p4_respawn_run:
  assumes "st_mem (mem u) (staddr L P4state) = Some st"
  shows "straight (p4_respawn L) u = Some (put_st L P4state (set_sp (s_sp st - QPAGE) st) u)"
  using straight_setst [where cs = "[]", OF assms] assms by (simp add: p4_respawn_def getst_def)

text \<open>What \<open>p5mm\<close> makes of the state that the memory management trap left.\<close>

lemma p5mm_return_run:
  assumes "st_mem (mem u) (staddr L Mstat_o) = Some st" "int_mem (mem u) (g_addr L P5Stack) = Some b"
  shows "straight (p5mm_return L) u = Some (put_st L Mstat_o
    (set_sp (b - QPAGE) (set_pc (code L U_p5b) (set_t9 (code L U_p5b) (set_status (s_status st AND p2_VMOFF OR KUPBITON) st)))) u)"
  using assms by (simp add: p5mm_return_def set_entry_def straight_setst getst_def getg_def rd_int_def del: g_addr.simps)

definition page_apart :: "word32 \<Rightarrow> word32 \<Rightarrow> bool" where
  "page_apart a b \<longleftrightarrow> QPAGE \<le> a - b \<and> QPAGE \<le> b - a"

lemma all_born_state:
  assumes "inj (staddr L)" "(x, k, f) \<in> set offspring"
  shows "st_mem (mem (all_born L u)) (staddr L x) = Some (child_state L (cpu u) (sp_below (cpu u) k) f)"
proof -
  have "staddr L x = staddr L y \<longleftrightarrow> x = y" for x y using assms(1) by (simp add: inj_eq)
  then show ?thesis using assms(2) by (auto simp: all_born_def offspring_def born_def)
qed

lemma page_apart_below:
  "page_apart (sp_below st j) (sp_below st k) \<longleftrightarrow> 1024 \<le> (k - j) * 1024 \<and> 1024 \<le> (j - k) * (1024 :: word32)"
  by (simp add: page_apart_def sp_below_def QPAGE_def algebra_simps)

lemma stack_tops_born:
  assumes "inj (staddr L)" "wf_state (cpu u)"
    and "state_sp L v P4state = sp_below (cpu u) 4" "state_sp L w Mstat_o = sp_below (cpu u) 6"
  shows "stack_tops L (all_born L u) v w =
    map (sp_below (cpu u)) [0, 4, 6, 1, 2, 3, 5, 7, 8, 9, 10, 11, 12, 13, 14, 15]"
proof -
  have sp: "state_sp L (all_born L u) x = sp_below (cpu u) k" if "(x, k, f) \<in> set offspring" for x k f
    using all_born_state [OF assms(1) that, of u] assms(2) by (simp add: state_sp_def)
  have "map (state_sp L (all_born L u) \<circ> fst) offspring = map (\<lambda>(x, k, f). sp_below (cpu u) k) offspring"
    using sp by (intro map_cong) auto
  then show ?thesis
    using assms(3,4) by (simp add: stack_tops_def offspring_def sp_below_diff(3) [of "cpu u"] all_born_def del: g_addr.simps)
qed

text \<open>
  C9. The root process of the test program gives every other process its function as entry point
  and a stack of its own. The pointer p4 then sets for its second incarnation (if its state is
  still the one the root process set up), the pointer p5mm sets for p5 (from the p5Stack the root
  process stored, whatever well-formed state the trap left), those of the 13 states and that of the root
  process itself are pairwise at least QPAGE = 1024 bytes apart, wherever the stack of the root
  process is.
\<close>

theorem stacks_apart:
  assumes "inj (staddr L)" "\<forall>x. st_mem (mem u) (staddr L x) \<noteq> None" "wf_state (cpu u)"
    and "int_mem (mem u) (vaddr L P5Stack) \<noteq> None"
  shows "\<exists>u'. straight (test_states L) u = Some u'
    \<and> (\<forall>(x, k, f)\<in>set offspring. \<exists>st. rd_state (StAt (staddr L x)) (mem u') = Some st
         \<and> s_pc st = code L f \<and> s_t9 st = code L f \<and> s_sp st = s_sp (cpu u) - k * QPAGE)
    \<and> (\<forall>v w. st_mem (mem v) (staddr L P4state) = st_mem (mem u') (staddr L P4state)
         \<longrightarrow> int_mem (mem w) (vaddr L P5Stack) = int_mem (mem u') (vaddr L P5Stack)
         \<longrightarrow> (\<exists>st. st_mem (mem w) (staddr L Mstat_o) = Some st \<and> wf_state st)
         \<longrightarrow> (\<exists>v' w'. straight (p4_respawn L) v = Some v' \<and> straight (p5mm_return L) w = Some w'
               \<and> sorted_wrt page_apart (stack_tops L u' v' w')))
    \<and> (\<exists>before after. p4 L = before @ p4_respawn L @ sys CREATETHREAD (staddr L P4state) 0 0 # after)
    \<and> (\<exists>before. p5mm L = before @ p5mm_return L @ [Load (staddr L Mstat_o)])"
proof (rule exI [of _ "all_born L u"], intro conjI allI impI)
  show "straight (test_states L) u = Some (all_born L u)"
    using test_states_run [of L u] assms by simp
  show "\<forall>(x, k, f)\<in>set offspring. \<exists>st. rd_state (StAt (staddr L x)) (mem (all_born L u)) = Some st
         \<and> s_pc st = code L f \<and> s_t9 st = code L f \<and> s_sp st = s_sp (cpu u) - k * QPAGE"
    using all_born_state [OF assms(1), where u = u] assms(3) by (fastforce simp: sp_below_def)
  show "\<exists>before after. p4 L = before @ p4_respawn L @ sys CREATETHREAD (staddr L P4state) 0 0 # after"
    by (intro exI [of _ "take 4 (p4 L)"] exI [of _ "drop 6 (p4 L)"]) (simp add: p4_def p4_respawn_def)
  show "\<exists>before. p5mm L = before @ p5mm_return L @ [Load (staddr L Mstat_o)]"
    unfolding p5mm_def by blast
next
  fix v w :: ustate
  assume v: "st_mem (mem v) (staddr L P4state) = st_mem (mem (all_born L u)) (staddr L P4state)"
    and w: "int_mem (mem w) (vaddr L P5Stack) = int_mem (mem (all_born L u)) (vaddr L P5Stack)"
    and m: "\<exists>st. st_mem (mem w) (staddr L Mstat_o) = Some st \<and> wf_state st"
  obtain st where st: "st_mem (mem w) (staddr L Mstat_o) = Some st" "wf_state st" using m by blast
  let ?c = "child_state L (cpu u) (sp_below (cpu u) 3) U_p4"
  have p4: "st_mem (mem v) (staddr L P4state) = Some ?c"
    unfolding v by (rule all_born_state [OF assms(1)]) (simp add: offspring_def)
  have b: "int_mem (mem w) (g_addr L P5Stack) = Some (sp_below (cpu u) 5)" using w by (simp add: all_born_def)
  obtain v' where v': "straight (p4_respawn L) v = Some v'" "state_sp L v' P4state = sp_below (cpu u) 4"
    using p4_respawn_run [OF p4] assms(3) by (simp add: state_sp_def sp_below_diff(1) wf_sp)
  obtain w' where w': "straight (p5mm_return L) w = Some w'" "state_sp L w' Mstat_o = sp_below (cpu u) 6"
    using p5mm_return_run [OF st(1) b] st(2) by (simp add: state_sp_def sp_below_diff(1) wf_sp)
  have "sorted_wrt page_apart (stack_tops L (all_born L u) v' w')"
    unfolding stack_tops_born [OF assms(1,3) v'(2) w'(2)] by (simp add: page_apart_below)
  with v'(1) w'(1) show "\<exists>v' w'. straight (p4_respawn L) v = Some v' \<and> straight (p5mm_return L) w = Some w'
      \<and> sorted_wrt page_apart (stack_tops L (all_born L u) v' w')" by blast
qed

text \<open>The program at concrete addresses.\<close>

fun ex_var :: "gvar \<Rightarrow> memaddr" where
  "ex_var Term_mut = 0x20031000"
| "ex_var Testsem = 0x20031004"
| "ex_var Startp2 = 0x20031008"
| "ex_var Endp2 = 0x2003100C"
| "ex_var Endp3 = 0x20031010"
| "ex_var Blkp4 = 0x20031014"
| "ex_var Synp4 = 0x20031018"
| "ex_var Endp4 = 0x2003101C"
| "ex_var Endp5 = 0x20031020"
| "ex_var Endp8 = 0x20031024"
| "ex_var Endcreate = 0x20031028"
| "ex_var Blkp8 = 0x2003102C"
| "ex_var P1p2synch = 0x20031030"
| "ex_var P8inc = 0x20031034"
| "ex_var P4inc = 0x20031038"
| "ex_var P5Stack = 0x2003103C"
| "ex_var Creation = 0x20031040"
| "ex_var P5MemLocation = 0x20031044"
| "ex_var (Sem i) = 0"

fun ex_st :: "svar \<Rightarrow> memaddr" where
  "ex_st P2state = 0x20032000"
| "ex_st P3state = 0x2003208C"
| "ex_st P4state = 0x20032118"
| "ex_st P5state = 0x200321A4"
| "ex_st P6state = 0x20032230"
| "ex_st P7state = 0x200322BC"
| "ex_st P8rootstate = 0x20032348"
| "ex_st Child1state = 0x200323D4"
| "ex_st Child2state = 0x20032460"
| "ex_st Gchild1state = 0x200324EC"
| "ex_st Gchild2state = 0x20032578"
| "ex_st Gchild3state = 0x20032604"
| "ex_st Gchild4state = 0x20032690"
| "ex_st Pstat_n = 0x2003271C"
| "ex_st Mstat_n = 0x200327A8"
| "ex_st Sstat_n = 0x20032834"
| "ex_st Pstat_o = 0x200328C0"
| "ex_st Mstat_o = 0x2003294C"
| "ex_st Sstat_o = 0x200329D8"

fun ex_code :: "ufun \<Rightarrow> memaddr" where
  "ex_code U_test = 0x20010400"
| "ex_code U_p2 = 0x20010800"
| "ex_code U_p3 = 0x20010C00"
| "ex_code U_p4 = 0x20011000"
| "ex_code U_p5 = 0x20011400"
| "ex_code U_p5a = 0x20011800"
| "ex_code U_p5b = 0x20011C00"
| "ex_code U_p5prog = 0x20012000"
| "ex_code U_p5mm = 0x20012400"
| "ex_code U_p5sys = 0x20012800"
| "ex_code U_p6 = 0x20012C00"
| "ex_code U_p7 = 0x20013000"
| "ex_code U_p8root = 0x20013400"
| "ex_code U_child1 = 0x20013800"
| "ex_code U_child2 = 0x20013C00"
| "ex_code U_p8leaf = 0x20014000"

definition ex_p2 :: p2_link where
  "ex_p2 = \<lparr>vaddr = ex_var, sarr = 0x20030000, staddr = ex_st, code = ex_code\<rparr>"

lemma ex_p2_inj: "inj (staddr ex_p2)" "inj (code ex_p2)"
proof -
  have "x = y" if "ex_st x = ex_st y" for x y using that by (cases x; cases y) simp_all
  then show "inj (staddr ex_p2)" by (simp add: ex_p2_def inj_def)
  have "x = y" if "ex_code x = ex_code y" for x y using that by (cases x; cases y) simp_all
  then show "inj (code ex_p2)" by (simp add: ex_p2_def inj_def)
qed

lemma ex_st_mapped: "ex_st x \<noteq> 0xFFFFFFFF" by (cases x) simp_all

definition ex_user :: ustate where
  "ex_user = \<lparr>loc = no_locals, mem = ex_machine, cpu = ex_state, out = []\<rparr>"

theorem stacks_apart_witness:
  "\<exists>u' v' w'. straight (test_states ex_p2) ex_user = Some u' \<and> straight (p4_respawn ex_p2) u' = Some v'
     \<and> straight (p5mm_return ex_p2) (put_st ex_p2 Mstat_o ex_state u') = Some w'
     \<and> sorted_wrt page_apart (stack_tops ex_p2 u' v' w')"
proof -
  have "st_mem (mem ex_user) (staddr ex_p2 x) \<noteq> None" for x
    using ex_st_mapped [of x] by (simp add: ex_user_def ex_machine_def ex_p2_def NULL_def)
  moreover have wf: "wf_state ex_state" by (simp add: ex_state_def wf_state_def STATEREGNUM_def)
  moreover have "int_mem (mem ex_user) (vaddr ex_p2 P5Stack) \<noteq> None"
    by (simp add: ex_user_def ex_machine_def ex_p2_def NULL_def)
  ultimately obtain u' where u': "straight (test_states ex_p2) ex_user = Some u'"
    and r: "\<forall>v w. st_mem (mem v) (staddr ex_p2 P4state) = st_mem (mem u') (staddr ex_p2 P4state)
         \<longrightarrow> int_mem (mem w) (vaddr ex_p2 P5Stack) = int_mem (mem u') (vaddr ex_p2 P5Stack)
         \<longrightarrow> (\<exists>st. st_mem (mem w) (staddr ex_p2 Mstat_o) = Some st \<and> wf_state st)
         \<longrightarrow> (\<exists>v' w'. straight (p4_respawn ex_p2) v = Some v' \<and> straight (p5mm_return ex_p2) w = Some w'
               \<and> sorted_wrt page_apart (stack_tops ex_p2 u' v' w'))"
    using stacks_apart [OF ex_p2_inj(1), of ex_user] by (auto simp: ex_user_def)
  from r [rule_format, of u' "put_st ex_p2 Mstat_o ex_state u'"] u' wf show ?thesis by auto
qed

end
