(* ===== verification/P2_Loops.thy ===== *)
theory P2_Loops
  imports P2_States
begin

text \<open>
  Running the test program of \<open>phase2/p2test.c\<close>: its variables in memory, and rules for its
  loops and for what depends on registers and the clock.
\<close>

section \<open>Rules\<close>

lemma leads_letl_any:
  assumes "at w p l (letl f # k) fs" "\<And>u. seen w l u \<Longrightarrow> leads P (goto p (f u) k fs w) Q"
  shows "leads P w Q"
  by (rule leads_exec [where f = "\<lambda>u. Some (u\<lparr>loc := f u\<rparr>)"]) (use assms in \<open>auto simp: letl_def\<close>)

lemma leads_skip:
  assumes "at w p l (Cond b xs [] # k) fs" "\<And>u. seen w l u \<Longrightarrow> b u = Some False" "leads P (goto p l k fs w) Q"
  shows "leads P w Q"
  by (rule leads_cond [OF assms(1,2)]) (use assms(3) in simp_all)

lemma leads_cond_any:
  assumes a: "at w p l (Cond b xs ys # k) fs" and b: "\<And>u. seen w l u \<Longrightarrow> b u \<noteq> None"
    and Q: "\<And>t. (\<exists>u. seen w l u \<and> b u = Some t) \<Longrightarrow> leads P (goto p l ((if t then xs else ys) @ k) fs w) Q"
  shows "leads P w Q"
proof (rule leads_tick)
  fix m assume m: "sees w m"
  obtain t where t: "b (view l m) = Some t" using b [OF sees_view(1) [OF m a]] by blast
  have "tick P m = Some (m\<lparr>conf := (conf m)(p := (l, (if t then xs else ys) @ k) # fs)\<rparr>)"
    unfolding tick_at [OF m a] exec_cmd_def using t by simp
  then show "\<exists>m' w'. tick P m = Some m' \<and> sees w' m' \<and> leads P w' Q"
    using sees_goto [OF m] Q t sees_view(1) [OF m a] by blast
qed

text \<open>
  A counting loop whose body keeps \<open>I\<close> and ends with the same counter. \<open>I\<close> does not depend on what
  the process executes.
\<close>

definition counts :: "int \<Rightarrow> int \<Rightarrow> (int \<Rightarrow> bool) \<Rightarrow> bool" where
  "counts a b c \<longleftrightarrow> 0 \<le> a \<and> a \<le> b \<and> b < 2 ^ 31 - 1 \<and> (\<forall>i. a \<le> i \<and> i \<le> b \<longrightarrow> c i = (i < b))"

abbreviation incr :: ucmd where
  "incr \<equiv> letl (\<lambda>u. (loc u)\<lparr>u_i := u_i (loc u) + 1\<rparr>)"

abbreviation for_loop :: "(int \<Rightarrow> bool) \<Rightarrow> ucmd list \<Rightarrow> ucmd" where
  "for_loop c bd \<equiv> Loop (\<lambda>u. Some (c (sint (u_i (loc u))))) (bd @ [incr])"

lemma sint_count: "0 \<le> i \<Longrightarrow> i < 2 ^ 31 \<Longrightarrow> sint (word_of_int i :: word32) = i"
  by (simp add: signed_of_int signed_take_bit_int_eq_self)

lemma leads_for_from:
  assumes c: "counts a b c"
    and I: "\<And>w l k. I w \<Longrightarrow> w_run w = Some p \<and> I (goto p l k fs w)"
    and bd: "\<And>w l i k. I w \<Longrightarrow> at w p l (bd @ k) fs \<Longrightarrow> a \<le> i \<Longrightarrow> i < b \<Longrightarrow> u_i l = word_of_int i \<Longrightarrow>
      leads P w (\<lambda>w'. I w' \<and> (\<exists>l'. at w' p l' k fs \<and> u_i l' = u_i l))"
    and Q: "\<And>w l. I w \<Longrightarrow> at w p l k fs \<Longrightarrow> leads P w Q"
    and w: "I w" "at w p l (for_loop c bd # k) fs" "u_i l = word_of_int i" "a \<le> i" "i \<le> b"
  shows "leads P w Q"
  using w
proof (induction "nat (b - i)" arbitrary: w l i)
  case 0
  have i: "i = b" using 0 by simp
  have "sint (u_i l) = i" using 0 c by (simp add: counts_def sint_count)
  then have g: "\<And>u. seen w l u \<Longrightarrow> Some (c (sint (u_i (loc u)))) = Some False" using c i by (simp add: seen_def counts_def)
  have q: "leads P (goto p l k fs w) Q" using I [OF 0(2)] by (intro Q [where l = l]) simp_all
  show ?case by (rule leads_loop [OF 0(3) g]) (use q in simp_all)
next
  case (Suc n)
  have i: "i < b" using Suc.hyps(2) by simp
  have ui: "u_i l = word_of_int i" "sint (u_i l) = i" using Suc.prems c by (simp_all add: counts_def sint_count)
  then have g: "\<And>u. seen w l u \<Longrightarrow> Some (c (sint (u_i (loc u)))) = Some True"
    using c i Suc.prems(4) by (simp add: seen_def counts_def)
  let ?k = "incr # for_loop c bd # k"
  have 1: "leads P (goto p l (bd @ ?k) fs w) (\<lambda>w'. I w' \<and> (\<exists>l'. at w' p l' ?k fs \<and> u_i l' = u_i l))"
    by (rule bd) (use Suc.prems I ui i in simp_all)
  have 2: "leads P w' Q" if I': "I w'" and a': "at w' p l' ?k fs" and u': "u_i l' = u_i l" for w' l'
  proof (rule leads_letl [OF a', where l' = "l'\<lparr>u_i := u_i l' + 1\<rparr>"])
    have n: "u_i (l'\<lparr>u_i := u_i l' + 1\<rparr>) = word_of_int (i + 1)" using u' ui(1) by simp
    show "leads P (goto p (l'\<lparr>u_i := u_i l' + 1\<rparr>) (for_loop c bd # k) fs w') Q"
      by (rule Suc.hyps(1) [OF _ _ _ n]) (use Suc.hyps(2) i I [OF I'] Suc.prems(4) in simp_all)
  qed (simp add: seen_def)
  have "leads P (goto p l (bd @ ?k) fs w) Q"
    by (rule leads_trans [OF 1]) (use 2 in blast)
  then show ?case by (intro leads_loop [OF Suc.prems(2) g, where P = P and Q = Q]) simp_all
qed

lemma leads_for:
  assumes "counts a b c" "\<And>w l k. I w \<Longrightarrow> w_run w = Some p \<and> I (goto p l k fs w)"
    and "\<And>w l i k. I w \<Longrightarrow> at w p l (bd @ k) fs \<Longrightarrow> a \<le> i \<Longrightarrow> i < b \<Longrightarrow> u_i l = word_of_int i \<Longrightarrow>
      leads P w (\<lambda>w'. I w' \<and> (\<exists>l'. at w' p l' k fs \<and> u_i l' = u_i l))"
    and "\<And>w l. I w \<Longrightarrow> at w p l k fs \<Longrightarrow> leads P w Q"
    and w: "I w" "at w p l (for_i a c bd @ k) fs"
  shows "leads P w Q"
proof -
  let ?l = "l\<lparr>u_i := word_of_int a\<rparr>"
  have a: "at w p l (letl (\<lambda>u. (loc u)\<lparr>u_i := word_of_int a\<rparr>) # for_loop c bd # k) fs"
    using w(2) by (simp add: for_i_def)
  have "leads P (goto p ?l (for_loop c bd # k) fs w) Q"
    by (rule leads_for_from [OF assms(1-4), where l = ?l and i = a])
      (use assms(1) assms(2) [OF w(1)] in \<open>simp_all add: counts_def\<close>)
  then show ?thesis by (intro leads_letl [OF a, where l' = ?l]) (simp_all add: seen_def)
qed

section \<open>The variables\<close>

definition gvars :: "gvar set" where
  "gvars = {x. \<forall>i. x = Sem i \<longrightarrow> i \<le> 20}"

text \<open>The linker gives every variable an address of its own, which is no device semaphore.\<close>

definition link_ok :: "p2_link \<Rightarrow> memaddr \<Rightarrow> bool" where
  "link_ok L b \<longleftrightarrow> inj_on (g_addr L) gvars \<and> (\<forall>x\<in>gvars. 0 < g_addr L x \<and> g_addr L x < MAXINT \<and> \<not> is_dev b (g_addr L x))
     \<and> inj (staddr L) \<and> inj (code L)"

text \<open>The variables have the values \<open>M\<close>, and the processes \<open>V x\<close> wait on \<open>x\<close>.\<close>

definition vars :: "p2_link \<Rightarrow> (gvar \<Rightarrow> word32) \<Rightarrow> (gvar \<Rightarrow> nat list) \<Rightarrow> world \<Rightarrow> bool" where
  "vars L M V w \<longleftrightarrow> link_ok L (w_base w) \<and> (\<forall>x\<in>gvars. w_sem w (g_addr L x) = Some (M x) \<and> w_waits w (g_addr L x) = V x)"

lemma gvars_simps [simp]:
  "Term_mut \<in> gvars" "Testsem \<in> gvars" "Startp2 \<in> gvars" "Endp2 \<in> gvars" "P1p2synch \<in> gvars" "P5Stack \<in> gvars"
  "Sem i \<in> gvars \<longleftrightarrow> i \<le> 20"
  by (auto simp: gvars_def)

lemma varsD:
  assumes "vars L M V w" "x \<in> gvars"
  shows "w_sem w (g_addr L x) = Some (M x)" "w_waits w (g_addr L x) = V x" "0 < g_addr L x" "g_addr L x < MAXINT"
    "\<not> is_dev (w_base w) (g_addr L x)" "sem_ok w (g_addr L x) (M x)"
    "\<And>y. y \<in> gvars \<Longrightarrow> g_addr L x = g_addr L y \<longleftrightarrow> x = y" "g_addr L x \<noteq> tdev w"
  using assms not_tdev [of w "g_addr L x"] unfolding vars_def link_ok_def sem_ok_def
  by (simp_all add: inj_on_eq_iff [of "g_addr L" gvars])

lemma vars_cong:
  "w_base w' = w_base w \<Longrightarrow> w_sem w' = w_sem w \<Longrightarrow> w_waits w' = w_waits w \<Longrightarrow> vars L M V w' = vars L M V w"
  by (simp add: vars_def)

lemma vars_upd:
  assumes "vars L M V w" "x \<in> gvars" "w_base w' = w_base w" "w_sem w' = (w_sem w)(g_addr L x \<mapsto> v)"
    "w_waits w' = (w_waits w)(g_addr L x := qs)"
  shows "vars L (M(x := v)) (V(x := qs)) w'"
proof -
  have "g_addr L y = g_addr L x \<longleftrightarrow> y = x" if "y \<in> gvars" for y using varsD(7) [OF assms(1) that assms(2)] .
  then show ?thesis using assms by (auto simp: vars_def)
qed

lemma vars_set:
  assumes "vars L M V w" "x \<in> gvars" "w_base w' = w_base w" "w_sem w' = (w_sem w)(g_addr L x \<mapsto> v)" "w_waits w' = w_waits w"
  shows "vars L (M(x := v)) V w'"
proof -
  have "w_waits w' = (w_waits w)(g_addr L x := V x)" using assms(5) varsD(2) [OF assms(1,2)] by (simp add: fun_upd_idem)
  from vars_upd [OF assms(1-4) this] show ?thesis by simp
qed

lemma term_free_cong:
  "w_base w' = w_base w \<Longrightarrow> w_sem w' (tdev w) = w_sem w (tdev w) \<Longrightarrow> w_waits w' (tdev w) = w_waits w (tdev w) \<Longrightarrow>
   term_free w' = term_free w"
  by (simp add: term_free_def)

section \<open>System calls on the variables\<close>

lemma leads_sys_V:
  assumes at: "at w p l (sys VERHOGEN (g_addr L x) 0 0 # k) fs" and v: "vars L M V w" "x \<in> gvars"
    and Q: "leads P (w_V (g_addr L x) (M x) (goto p l k fs w)) Q"
  shows "leads P w Q"
  by (rule leads_V [where p = p and l = l and k = k and fs = fs and a = "g_addr L x" and y = 0 and z = 0 and v = "M x" and
        g = "\<lambda>_. Some (3, g_addr L x, 0, 0)"])
    (use at varsD [OF v] Q in \<open>simp_all add: sys_def p2_numbers\<close>)

lemma leads_sys_P:
  assumes at: "at w p l (sys PASSERN (g_addr L x) 0 0 # k) fs" and v: "vars L M V w" "x \<in> gvars" "\<not> sint (M x - 1) < 0"
    and Q: "leads P (w_set (g_addr L x) (M x - 1) (goto p l k fs w)) Q"
  shows "leads P w Q"
  by (rule leads_P [where p = p and l = l and k = k and fs = fs and a = "g_addr L x" and y = 0 and z = 0 and v = "M x" and
        g = "\<lambda>_. Some (4, g_addr L x, 0, 0)"])
    (use at varsD [OF v(1,2)] v(3) Q in \<open>simp_all add: sys_def p2_numbers\<close>)

lemma leads_sys_wait:
  assumes at: "at w p l (sys PASSERN (g_addr L x) 0 0 # k) fs" and v: "vars L M V w" "x \<in> gvars" "sint (M x - 1) < 0"
    and d: "dispatchable P b (w_block p (g_addr L x) (M x) (goto p l k fs w))"
    and Q: "leads P (next_world b (w_block p (g_addr L x) (M x) (goto p l k fs w))) Q"
  shows "leads P w Q"
  by (rule leads_P_wait [where p = p and l = l and k = k and fs = fs and a = "g_addr L x" and y = 0 and z = 0 and v = "M x" and
        g = "\<lambda>_. Some (4, g_addr L x, 0, 0)" and b = b])
    (use at varsD [OF v(1,2)] v(3) d Q in \<open>simp_all add: sys_def p2_numbers\<close>)

lemma w_V_none: "\<not> sint (v + 1) \<le> 0 \<Longrightarrow> w_V a v w = w_set a (v + 1) w"
  by (simp add: w_V_def w_set_def)

section \<open>The loops of process p2\<close>

text \<open>The world is the same but for what process \<open>p\<close> executes and its registers.\<close>

definition same_but :: "nat \<Rightarrow> world \<Rightarrow> world \<Rightarrow> bool" where
  "same_but p w0 w \<longleftrightarrow> w = w0\<lparr>w_conf := w_conf w, w_ctx := w_ctx w, w_reg := w_reg w\<rparr>
     \<and> (\<forall>q. q \<noteq> p \<longrightarrow> w_conf w q = w_conf w0 q \<and> w_ctx w q = w_ctx w0 q)"

lemma same_butD:
  assumes "same_but p w0 w"
  shows "w_run w = w_run w0" "w_base w = w_base w0" "w_sem w = w_sem w0" "w_waits w = w_waits w0" "w_ready w = w_ready w0"
    "w_tree w = w_tree w0" "w_states w = w_states w0" "w_free w = w_free w0" "w_out w = w_out w0"
    "q \<noteq> p \<Longrightarrow> w_conf w q = w_conf w0 q" "q \<noteq> p \<Longrightarrow> w_ctx w q = w_ctx w0 q"
proof -
  have e: "w = w0\<lparr>w_conf := w_conf w, w_ctx := w_ctx w, w_reg := w_reg w\<rparr>" using assms unfolding same_but_def by blast
  show "w_run w = w_run w0" "w_base w = w_base w0" "w_sem w = w_sem w0" "w_waits w = w_waits w0" "w_ready w = w_ready w0"
    "w_tree w = w_tree w0" "w_states w = w_states w0" "w_free w = w_free w0" "w_out w = w_out w0"
    by (subst e, simp)+
  show "q \<noteq> p \<Longrightarrow> w_conf w q = w_conf w0 q" "q \<noteq> p \<Longrightarrow> w_ctx w q = w_ctx w0 q"
    using assms by (simp_all add: same_but_def)
qed

lemma same_butI:
  assumes "w_run w = w_run w0" "w_base w = w_base w0" "w_sem w = w_sem w0" "w_waits w = w_waits w0" "w_ready w = w_ready w0"
    "w_tree w = w_tree w0" "w_states w = w_states w0" "w_free w = w_free w0" "w_out w = w_out w0"
    "\<And>q. q \<noteq> p \<Longrightarrow> w_conf w q = w_conf w0 q \<and> w_ctx w q = w_ctx w0 q"
  shows "same_but p w0 w"
  unfolding same_but_def by (intro conjI world.equality) (use assms in simp_all)

lemma same_but_goto: "same_but p w0 w \<Longrightarrow> same_but p w0 (goto p l k fs w)"
  by (rule same_butI) (simp_all add: same_butD)

lemma vars_same_but: "same_but p w0 w \<Longrightarrow> vars L M V w = vars L M V w0"
  by (rule vars_cong) (simp_all add: same_butD)

lemma sem_index: "u_i l = word_of_int i \<Longrightarrow> 0 \<le> i \<Longrightarrow> i < p2_MAXSEM + 1 \<Longrightarrow> Sem (u_i l) \<in> gvars"
  by (simp add: p2_MAXSEM_def word_le_def uint_word_of_int take_bit_int_eq_self)

lemma counts_sems: "counts 0 (p2_MAXSEM + 1) (\<lambda>i. i \<le> p2_MAXSEM)"
  by (auto simp: counts_def p2_MAXSEM_def)

lemma leads_sem_loop:
  assumes v: "vars L M V w" "\<And>i. i \<le> 20 \<Longrightarrow> M (Sem i) = 0"
    and at: "at w p l (for_i 0 (\<lambda>i. i \<le> p2_MAXSEM) [Exec (\<lambda>u. poke (g_addr L (Sem (u_i (loc u)))) 0 u)] @ k) fs"
    and Q: "\<And>w' l'. same_but p w w' \<Longrightarrow> at w' p l' k fs \<Longrightarrow> leads P w' Q"
  shows "leads P w Q"
proof (rule leads_for [OF counts_sems _ _ _ _ at, where I = "same_but p w"])
  fix w1 l i k1
  assume I: "same_but p w w1" and a: "at w1 p l ([Exec (\<lambda>u. poke (g_addr L (Sem (u_i (loc u)))) 0 u)] @ k1) fs"
    and i: "0 \<le> i" "i < p2_MAXSEM + 1" "u_i l = word_of_int i"
  let ?x = "Sem (u_i l)" and ?Q = "\<lambda>w'. same_but p w w' \<and> (\<exists>l'. at w' p l' k1 fs \<and> u_i l' = u_i l)"
  have x: "?x \<in> gvars" by (rule sem_index [OF i(3,1,2)])
  note d = varsD [OF v(1) x]
  have "w_sem w (g_addr L ?x) = Some 0" using d(1) v(2) x by simp
  then have m: "goto p l k1 fs w1\<lparr>w_sem := (w_sem w1)(g_addr L ?x \<mapsto> 0)\<rparr> = goto p l k1 fs w1"
    by (intro world.equality) (simp_all add: same_butD [OF I] fun_upd_idem)
  have q: "leads P (goto p l k1 fs w1\<lparr>w_sem := (w_sem w1)(g_addr L ?x \<mapsto> 0)\<rparr>) ?Q"
    unfolding m by (rule leads_here) (use a same_but_goto [OF I] in simp)
  show "leads P w1 ?Q"
    by (rule leads_poke [OF a [unfolded append_Cons append_Nil] _ _ _ q])
      (use d in \<open>simp_all add: same_butD [OF I] seen_def\<close>)
qed (use Q at same_but_goto same_butD(1) in \<open>auto intro: same_butI\<close>)

text \<open>V, then P, on every semaphore of \<open>s\<close>: the error message is not printed.\<close>

definition vp_body :: "p2_link \<Rightarrow> ucmd list" where
  "vp_body L =
     [Call (\<lambda>u. Some (VERHOGEN, g_addr L (Sem (u_i (loc u))), 0, 0)),
      Call (\<lambda>u. Some (PASSERN, g_addr L (Sem (u_i (loc u))), 0, 0)),
      Cond (\<lambda>u. map_option (\<lambda>v. v \<noteq> 0) (getg L (Sem (u_i (loc u))) u))
        (print L ''error: p2 bad v/p pairs\<newline>'') []]"

lemma leads_vp_body:
  assumes v: "w_sem w a = Some 0" "0 < a" "a < MAXINT" "\<not> is_dev (w_base w) a" and a: "a = g_addr L (Sem (u_i l))"
    and at: "at w p l (vp_body L @ k) fs" and Q: "leads P (goto p l k fs w\<lparr>w_reg := (\<lambda>_. True)\<rparr>) Q"
  shows "leads P w Q"
proof -
  let ?w1 = "w_set a 1 (goto p l (tl (vp_body L) @ k) fs w)" and ?w2 = "w_set a 0 (goto p l (tl (tl (vp_body L)) @ k) fs w)"
  have "goto p l k fs ?w2 = goto p l k fs w\<lparr>w_reg := (\<lambda>_. True)\<rparr>"
    by (rule world.equality) (use v in \<open>simp_all add: w_set_def fun_upd_idem\<close>)
  with Q have 3: "leads P (goto p l k fs ?w2) Q" by (simp only:)
  have 2: "leads P ?w2 Q"
    by (rule leads_skip [where p = p and l = l and fs = fs and k = k and
          b = "\<lambda>u. map_option (\<lambda>v. v \<noteq> 0) (getg L (Sem (u_i (loc u))) u)"])
      (use at v a 3 in \<open>simp_all add: vp_body_def seen_def getg_def rd_int_def del: g_addr.simps\<close>)
  have "w_set a (1 - 1) (goto p l (tl (tl (vp_body L)) @ k) fs ?w1) = ?w2"
    by (rule world.equality) (simp_all add: w_set_def)
  with 2 have 2: "leads P (w_set a (1 - 1) (goto p l (tl (tl (vp_body L)) @ k) fs ?w1)) Q" by (simp only:)
  have 1: "leads P ?w1 Q"
    by (rule leads_P [OF _ _ _ _ _ _ _ 2, where y = 0 and z = 0 and
          g = "\<lambda>u. Some (PASSERN, g_addr L (Sem (u_i (loc u))), 0, 0)"])
      (use at v a in \<open>simp_all add: vp_body_def seen_def p2_numbers del: g_addr.simps\<close>)
  show ?thesis
    by (rule leads_V [where p = p and l = l and fs = fs and k = "tl (vp_body L) @ k" and a = a and v = 0 and y = 0 and z = 0 and
          g = "\<lambda>u. Some (VERHOGEN, g_addr L (Sem (u_i (loc u))), 0, 0)"])
      (use at v a 1 in \<open>simp_all add: vp_body_def seen_def p2_numbers w_V_none del: g_addr.simps\<close>)
qed

lemma leads_vp_loop:
  assumes v: "vars L M V w" "\<And>i. i \<le> 20 \<Longrightarrow> M (Sem i) = 0"
    and at: "at w p l (for_i 0 (\<lambda>i. i \<le> p2_MAXSEM) (vp_body L) @ k) fs"
    and Q: "\<And>w' l'. same_but p w w' \<Longrightarrow> at w' p l' k fs \<Longrightarrow> leads P w' Q"
  shows "leads P w Q"
proof (rule leads_for [OF counts_sems _ _ _ _ at, where I = "same_but p w"])
  fix w1 l i k1
  assume I: "same_but p w w1" and a: "at w1 p l (vp_body L @ k1) fs"
    and i: "0 \<le> i" "i < p2_MAXSEM + 1" "u_i l = word_of_int i"
  let ?x = "Sem (u_i l)" and ?Q = "\<lambda>w'. same_but p w w' \<and> (\<exists>l'. at w' p l' k1 fs \<and> u_i l' = u_i l)"
  have x: "?x \<in> gvars" by (rule sem_index [OF i(3,1,2)])
  note d = varsD [OF v(1) x]
  have "w_sem w (g_addr L ?x) = Some 0" using d(1) v(2) x by simp
  moreover have "leads P (goto p l k1 fs w1\<lparr>w_reg := (\<lambda>_. True)\<rparr>) ?Q"
    by (rule leads_here) (use a in \<open>auto intro!: same_butI simp: same_butD [OF I]\<close>)
  ultimately show "leads P w1 ?Q"
    by (intro leads_vp_body [OF _ _ _ _ refl a]) (use d in \<open>simp_all add: same_butD [OF I]\<close>)
qed (use Q at same_but_goto same_butD(1) in \<open>auto intro: same_butI\<close>)

text \<open>The delay loop.\<close>

lemma leads_delay_loop:
  assumes at: "at w p l (for_i 1 (\<lambda>i. i < LOOPNUM) [] @ k) fs"
    and Q: "\<And>w' l'. same_but p w w' \<Longrightarrow> at w' p l' k fs \<Longrightarrow> leads P w' Q"
  shows "leads P w Q"
proof (rule leads_for [OF _ _ _ _ _ at, where I = "same_but p w" and b = LOOPNUM])
  show "counts 1 LOOPNUM (\<lambda>i. i < LOOPNUM)" by (simp add: counts_def LOOPNUM_def)
  fix w1 l k1
  assume "same_but p w w1" "at w1 p l ([] @ k1) fs"
  then show "leads P w1 (\<lambda>w'. same_but p w w' \<and> (\<exists>l'. at w' p l' k1 fs \<and> u_i l' = u_i l))"
    by (intro leads_here) auto
qed (use Q at same_but_goto same_butD(1) in \<open>auto intro: same_butI\<close>)

end
