(* ===== verification/P2_Run.thy ===== *)
theory P2_Run
  imports P2_Loops
begin

text \<open>
  The first part of the test program of \<open>phase2/p2test.c\<close> on the nucleus: the root process starts
  \<open>p2\<close>, and both synchronise by semaphores.
\<close>

declare g_addr.simps [simp del] One_nat_def [simp del]

section \<open>The root process up to SYS 1\<close>

lemma test_split:
  "\<exists>rest. test L =
     sys VERHOGEN (g_addr L Testsem) 0 0 # print L ''p1 v(testsem)\<newline>'' @ test_states L
     @ sys CREATETHREAD (staddr L P2state) 0 0 # print L ''p2 was started\<newline>''
     @ sys VERHOGEN (g_addr L Startp2) 0 0 # sys PASSERN (g_addr L Endp2) 0 0
     # Cond (\<lambda>u. map_option (\<lambda>v. v = 0) (getg L P1p2synch u)) (print L ''error: p1/p2 synchronization bad\<newline>'') []
     # sys CREATETHREAD (staddr L P3state) 0 0 # rest"
  by (simp add: test_def)

text \<open>The values of the variables while the processes run; \<open>v\<close> is that of \<open>p5Stack\<close>.\<close>

definition M0 :: "gvar \<Rightarrow> word32" where "M0 = p2_init"
definition M1 :: "word32 \<Rightarrow> gvar \<Rightarrow> word32" where "M1 v = p2_init(Testsem := 1, P5Stack := v)"

lemma leads_sys_V_go:
  assumes at: "at w p l (sys VERHOGEN (g_addr L x) 0 0 # k) fs" and v: "vars L M V w" "x \<in> gvars" "\<not> sint (M x + 1) \<le> 0"
    and Q: "leads P (w_set (g_addr L x) (M x + 1) (goto p l k fs w)) Q"
  shows "leads P w Q"
  by (rule leads_sys_V [OF at v(1,2)]) (use Q in \<open>simp add: w_V_none [OF v(3)]\<close>)

lemma vars_printed: "vars L M V (w_printed p l k fs cs w) = vars L M V w"
  by (rule vars_cong) (simp_all add: w_printed_def)

lemma term_free_printed: "term_free (w_printed p l k fs cs w) = term_free w"
  by (rule term_free_cong) (simp_all add: w_printed_def)

lemma leads_print_vars:
  assumes at: "at w p l (print L msg @ k) fs" and v: "vars L M V w" "M Term_mut = 1" and r: "w_ready w = []" "term_free w"
    and Q: "\<And>l'. leads P (w_printed p l' k fs msg w) Q"
  shows "leads P w Q"
  by (rule leads_print [OF at _ r]) (use varsD(6) [OF v(1), of Term_mut] v(2) Q in auto)

text \<open>Before and after the system call that creates \<open>p2\<close>.\<close>

definition start :: "p2_link \<Rightarrow> ucmd list \<Rightarrow> world \<Rightarrow> bool" where
  "start L k w \<longleftrightarrow> (\<exists>l. at w 0 l k []) \<and> w_ready w = [] \<and> w_free w = [1..<MAXPROC] \<and> w_tree w = PNode 0 []
     \<and> term_free w \<and> (\<forall>x. w_states w (staddr L x) \<noteq> None)"

definition forked :: "p2_link \<Rightarrow> state_t \<Rightarrow> ucmd list \<Rightarrow> world \<Rightarrow> bool" where
  "forked L c k w \<longleftrightarrow> (\<exists>l. at w 0 l k []) \<and> w_ready w = [1] \<and> w_conf w 1 = [] \<and> w_tree w = PNode 0 [PNode 1 []]
     \<and> term_free w \<and> w_ctx w 1 = (\<lambda>st. st = child_state L c (sp_below c 1) U_p2)
     \<and> vars L (M1 (sp_below c 5)) (\<lambda>_. []) w \<and> w_out w = map print_cmd ''p1 v(testsem)\<newline>''"

lemma plain_child:
  assumes "plain c"
  shows "plain (child_state L c sp f)"
proof -
  have "(s_status c OR IEPBITON OR CAUSEINTMASK) AND KERNELOFF = 0" "(s_status c OR IEPBITON OR CAUSEINTMASK) AND VMBITS = 0"
    using assms by (simp_all add: plain_def kernel_mode_def bit.conj_disj_distrib2 KERNELOFF_def VMBITS_def IEPBITON_def CAUSEINTMASK_def)
  then show ?thesis using assms by (simp add: plain_def kernel_mode_def)
qed

lemma w_born_state:
  assumes "inj (staddr L)" "(x, k, f) \<in> set offspring"
  shows "w_states (w_born L c w) (staddr L x) = Some (child_state L c (sp_below c k) f)"
proof -
  have "staddr L x = staddr L y \<longleftrightarrow> x = y" for x y using assms(1) by (simp add: inj_eq)
  then show ?thesis using assms(2) by (auto simp: w_born_def offspring_def born_def)
qed

lemma leads_forked:
  assumes w: "start L (sys VERHOGEN (g_addr L Testsem) 0 0 # print L ''p1 v(testsem)\<newline>'' @ test_states L
     @ sys CREATETHREAD (staddr L P2state) 0 0 # k) w" and v: "vars L p2_init (\<lambda>_. []) w" "w_out w = []"
    and Q: "\<And>c w'. plain c \<Longrightarrow> forked L c k w' \<Longrightarrow> leads P w' Q"
  shows "leads P w Q"
proof -
  let ?k1 = "sys CREATETHREAD (staddr L P2state) 0 0 # k"
  let ?k2 = "test_states L @ ?k1" and ?M = "p2_init(Testsem := 1)"
  obtain l where at: "at w 0 l (sys VERHOGEN (g_addr L Testsem) 0 0 # print L ''p1 v(testsem)\<newline>'' @ ?k2) []"
    using w by (auto simp: start_def)
  let ?w1 = "w_set (g_addr L Testsem) (p2_init Testsem + 1) (goto 0 l (print L ''p1 v(testsem)\<newline>'' @ ?k2) [] w)"
  have v1: "vars L ?M (\<lambda>_. []) ?w1" by (rule vars_set [OF v(1)]) simp_all
  have t1: "term_free ?w1"
    using w varsD(8) [OF v(1), of Testsem] by (simp add: start_def term_free_def)
  have 3: "leads P (w_born L c (goto 0 l' ?k1 [] (w_printed 0 l' ?k2 [] ''p1 v(testsem)\<newline>'' ?w1))) Q"
    (is "leads P ?w2 Q") if c: "plain c" for c l'
  proof (rule leads_create [where p = 0 and l = l' and k = k and fs = "[]" and q = 1 and F = "[2..<MAXPROC]" and
        a = "staddr L P2state" and y = 0 and z = 0 and st = "child_state L c (sp_below c 1) U_p2" and g = "\<lambda>_. Some (1, staddr L P2state, 0, 0)"])
    show "w_states ?w2 (staddr L P2state) = Some (child_state L c (sp_below c 1) U_p2)"
      by (rule w_born_state) (use v(1) in \<open>simp_all add: vars_def link_ok_def offspring_def\<close>)
    show "w_free ?w2 = 1 # [2..<MAXPROC]" using w by (simp add: start_def w_born_def w_printed_def MAXPROC_def upt_rec)
    show "leads P (w_fork 0 (child_state L c (sp_below c 1) U_p2) 1 [2..<MAXPROC] (goto 0 l' k [] ?w2)) Q" (is "leads P ?w3 Q")
    proof (rule Q [OF c])
      have "vars L (?M(P5Stack := sp_below c 5)) (\<lambda>_. []) ?w3"
        by (rule vars_set [OF v1]) (simp_all add: w_fork_def w_born_def w_printed_def)
      moreover have "term_free ?w3"
        using t1 varsD(8) [OF v1, of P5Stack] by (simp add: term_free_def w_fork_def w_born_def w_printed_def)
      ultimately show "forked L c k ?w3"
        using w v(2) by (simp add: forked_def start_def M1_def w_fork_def w_born_def w_printed_def)
    qed
  qed (use w c plain_child in \<open>simp_all add: sys_def p2_numbers start_def w_born_def w_printed_def\<close>)
  have 2: "leads P (w_printed 0 l' ?k2 [] ''p1 v(testsem)\<newline>'' ?w1) Q" for l'
    by (rule leads_test_states [OF _ _ _ _ _ 3])
      (use w v(1) varsD(1,5) [OF v1, of P5Stack] in \<open>simp_all add: w_printed_def vars_def link_ok_def start_def\<close>)
  have 1: "leads P ?w1 Q"
    by (rule leads_print_vars [OF _ v1 _ _ t1 2]) (use w in \<open>simp_all add: start_def\<close>)
  show ?thesis
    by (rule leads_sys_V_go [OF at v(1) _ _ 1]) simp_all
qed

section \<open>Process p2 starts\<close>

lemma next_world_none: "w_ready w = [] \<Longrightarrow> next_world b w = w"
  by (simp add: next_world_def)

lemma next_world_ready:
  assumes "w_ready w = q # R"
  shows "w_ready (next_world b w) = R" "w_run (next_world b w) = Some q" "w_reg (next_world b w) = w_ctx w q"
    "w_conf (next_world b w) = (if w_conf w q = [] then (w_conf w)(q := [(no_locals, b)]) else w_conf w)"
    "w_sem (next_world b w) = w_sem w" "w_waits (next_world b w) = w_waits w" "w_base (next_world b w) = w_base w"
    "w_tree (next_world b w) = w_tree w" "w_out (next_world b w) = w_out w" "w_states (next_world b w) = w_states w"
    "w_free (next_world b w) = w_free w" "w_ctx (next_world b w) = w_ctx w"
  using assms by (simp_all add: next_world_def)

text \<open>
  The root process prints its message: at the first character it waits for the terminal and
  \<open>p2\<close> runs, which waits on \<open>startp2\<close>; the terminal resumes the root process.
\<close>

definition greeted :: "p2_link \<Rightarrow> word32 \<Rightarrow> string \<Rightarrow> ucmd list \<Rightarrow> ucmd list \<Rightarrow> world \<Rightarrow> bool" where
  "greeted L v msg k k2 w \<longleftrightarrow> (\<exists>l. at w 0 l k [] \<and> u_s l = msg) \<and> w_ready w = [] \<and> (\<exists>l. w_conf w 1 = [(l, k2)])
     \<and> w_tree w = PNode 0 [PNode 1 []] \<and> term_free w
     \<and> vars L ((M1 v)(Startp2 := -1, Term_mut := 0)) ((\<lambda>_. [])(Startp2 := [1])) w"

lemma code_body:
  assumes "link_ok L b"
  shows "p2_prog L (code L f) = Some (body L f)"
proof -
  have "code L g = code L f \<longleftrightarrow> g = f" for g using assms by (simp add: link_ok_def inj_eq)
  then show ?thesis by (cases f) (simp_all add: p2_prog_def ufuns_def)
qed

lemma vars_other:
  "w_base w' = w_base w \<Longrightarrow> (\<And>x. x \<in> gvars \<Longrightarrow> w_sem w' (g_addr L x) = w_sem w (g_addr L x) \<and> w_waits w' (g_addr L x) = w_waits w (g_addr L x)) \<Longrightarrow>
   vars L M V w' = vars L M V w"
  by (simp add: vars_def)

lemma char_vars:
  assumes "vars L M V w"
  shows "vars L M V (w_char p l k fs w)"
  by (subst vars_other [where w = w]) (use assms varsD(8) [OF assms] in \<open>simp_all\<close>)

lemma leads_greeted:
  assumes w: "forked L c (print L msg @ k) w" and m: "msg \<noteq> []" and p2: "p2 L = sys PASSERN (g_addr L Startp2) 0 0 # k2"
    and Q: "\<And>w'. greeted L (sp_below c 5) (tl msg) (print_loop # sys VERHOGEN (g_addr L Term_mut) 0 0 # k) k2 w' \<Longrightarrow>
      w_out w' = w_out w @ [print_cmd (hd msg)] \<Longrightarrow> leads (p2_prog L) w' Q"
  shows "leads (p2_prog L) w Q"
proof -
  let ?v = "sp_below c 5" and ?kt = "sys VERHOGEN (g_addr L Term_mut) 0 0 # k" and ?P = "p2_prog L"
  obtain l where at: "at w 0 l (print L msg @ k) []" using w by (auto simp: forked_def)
  have v: "vars L (M1 ?v) (\<lambda>_. []) w" and r: "w_ready w = [1]" "w_conf w 1 = []"
    and tree: "w_tree w = PNode 0 [PNode 1 []]" and ctx: "w_ctx w 1 = (\<lambda>st. st = child_state L c (sp_below c 1) U_p2)"
    using w by (simp_all add: forked_def)
  obtain vt where vt: "w_waits w (tdev w) = []" "w_sem w (tdev w) = Some vt" "sint (vt - 1) < 0"
    using w unfolding forked_def term_free_def by blast
  have nt: "g_addr L x \<noteq> tdev w" if "x \<in> gvars" for x using varsD(8) [OF v that] .
  define l1 where "l1 = l\<lparr>u_s := msg\<rparr>"
  define w1 where "w1 = w_set (g_addr L Term_mut) 0 (goto 0 l1 (print_loop # ?kt) [] w)"
  have v1: "vars L ((M1 ?v)(Term_mut := 0)) (\<lambda>_. []) w1" by (rule vars_set [OF v]) (simp_all add: w1_def)
  define wc where "wc = w_char 0 l1 ?kt [] w1"
  have rc: "w_ready wc = [1]" "w_conf wc 1 = []" "w_ctx wc 1 = (\<lambda>st. st = child_state L c (sp_below c 1) U_p2)"
    using r ctx by (simp_all add: wc_def w1_def)
  define w2 where "w2 = next_world (p2 L) wc"
  note nw = next_world_ready [OF rc(1), where b = "p2 L", folded w2_def]
  have v2: "vars L ((M1 ?v)(Term_mut := 0)) (\<lambda>_. []) w2"
    using char_vars [OF v1, of 0 l1 ?kt "[]"] by (subst vars_cong [where w = wc]) (simp_all add: nw wc_def)
  have at2: "at w2 1 no_locals (sys PASSERN (g_addr L Startp2) 0 0 # k2) []" using nw rc p2 by simp
  define w3 where "w3 = w_block 1 (g_addr L Startp2) 0 (goto 1 no_locals k2 [] w2)"
  have v3: "vars L ((M1 ?v)(Term_mut := 0, Startp2 := 0 - 1)) ((\<lambda>_. [])(Startp2 := [1])) w3"
    by (rule vars_upd [OF v2]) (use varsD(2) [OF v2, of Startp2] in \<open>simp_all add: w3_def\<close>)
  have s3: "w_waits w3 (tdev w3) = [0]" "w_sem w3 (tdev w3) = Some (vt - 1)" "w_run w3 = None" "w_ready w3 = []"
    "w_base w3 = w_base w" "w_conf w3 0 = (l1, print_rest @ ?kt) # []" "w_conf w3 1 = [(no_locals, k2)]"
    "w_tree w3 = PNode 0 [PNode 1 []]" "w_out w3 = w_out w @ [print_cmd (hd msg)]"
    using vt nt [of Startp2] nt [of Term_mut] nw tree by (simp_all add: w3_def wc_def w1_def l1_def)
  have 3: "leads ?P w3 Q"
  proof (rule leads_print_rest [OF s3(3,4,1,2,6)], rule Q)
    let ?w4 = "w3\<lparr>w_sem := (w_sem w3)(tdev w3 \<mapsto> vt - 1 + 1), w_waits := (w_waits w3)(tdev w3 := []), w_run := Some 0,
        w_conf := (w_conf w3)(0 := [(l1\<lparr>u_s := tl (u_s l1), u_status := 5\<rparr>, print_loop # ?kt)]),
        w_ctx := (w_ctx w3)(0 := \<lambda>_. True), w_reg := \<lambda>_. True\<rparr>"
    have "vars L ((M1 ?v)(Startp2 := - 1, Term_mut := 0)) ((\<lambda>_. [])(Startp2 := [1])) w3"
      using v3 by (simp add: fun_upd_twist)
    then have "vars L ((M1 ?v)(Startp2 := - 1, Term_mut := 0)) ((\<lambda>_. [])(Startp2 := [1])) ?w4"
      by (subst vars_other [where w = w3]) (use varsD(8) [OF v3] in simp_all)
    moreover have "term_free ?w4" using vt by (simp add: term_free_def)
    ultimately show "greeted L ?v (tl msg) (print_loop # ?kt) k2 ?w4"
      using s3 by (simp add: greeted_def l1_def)
  qed (simp add: s3)
  have s2: "soft (w_base w3) (w_waits w3) \<noteq> 0" by (rule soft_waits [where W = "w_waits w3", OF s3(1)])
  have 2: "leads ?P w2 Q"
    by (rule leads_sys_wait [OF at2 v2, where b = "[]"])
      (use 3 s2 s3(4) in \<open>simp_all add: M1_def next_world_none dispatchable_def w3_def [symmetric]\<close>)
  have d: "dispatchable ?P (p2 L) wc"
    using rc code_body [of L "w_base w" U_p2] v by (simp add: dispatchable_def vars_def)
  have 1: "leads ?P w1 Q"
    by (rule leads_first_char [where p = 0 and l = l1 and k = ?kt and fs = "[]" and v = vt and b = "p2 L"])
      (use at m vt 2 d nt [of Term_mut] in \<open>simp_all add: wc_def [symmetric] w2_def [symmetric]\<close>, simp_all add: w1_def l1_def)
  show ?thesis
  proof (rule leads_enter_print [OF at])
    show "sem_ok w (g_addr L Term_mut) 1" using varsD(6) [OF v, of Term_mut] by (simp add: M1_def)
    show "leads ?P (w_set (g_addr L Term_mut) 0 (goto 0 (l\<lparr>u_s := msg\<rparr>) (print_loop # ?kt) [] w)) Q"
      using 1 by (simp only: w1_def l1_def)
  qed
qed

text \<open>The root process wakes \<open>p2\<close> and waits for it.\<close>

lemma w_V_wake:
  assumes "w_waits w a = q # qs" "sint (v + 1) \<le> 0"
  shows "w_sem (w_V a v w) = (w_sem w)(a \<mapsto> v + 1)" "w_waits (w_V a v w) = (w_waits w)(a := qs)"
    "w_ready (w_V a v w) = w_ready w @ [q]"
  using assms by (simp_all add: w_V_def)

lemma w_printed_same [simp]:
  "w_run (w_printed p l k fs cs w) = w_run w" "w_tree (w_printed p l k fs cs w) = w_tree w"
  "w_base (w_printed p l k fs cs w) = w_base w" "w_states (w_printed p l k fs cs w) = w_states w"
  "w_free (w_printed p l k fs cs w) = w_free w" "w_ready (w_printed p l k fs cs w) = w_ready w"
  "w_ctx (w_printed p l k fs cs w) = (w_ctx w)(p := (\<lambda>_. True))" "w_waits (w_printed p l k fs cs w) = w_waits w"
  "w_sem (w_printed p l k fs cs w) = w_sem w" "w_out (w_printed p l k fs cs w) = w_out w @ map print_cmd cs"
  "w_conf (w_printed p l k fs cs w) = (w_conf w)(p := (l, k) # fs)" "w_reg (w_printed p l k fs cs w) = (\<lambda>_. True)"
  by (simp_all add: w_printed_def)

definition handed :: "p2_link \<Rightarrow> word32 \<Rightarrow> ucmd list \<Rightarrow> ucmd list \<Rightarrow> world \<Rightarrow> bool" where
  "handed L v k1 k2 w \<longleftrightarrow> (\<exists>l. at w 1 l k2 []) \<and> w_ready w = [] \<and> (\<exists>l. w_conf w 0 = [(l, k1)])
     \<and> w_tree w = PNode 0 [PNode 1 []] \<and> term_free w
     \<and> vars L ((M1 v)(Endp2 := -1)) ((\<lambda>_. [])(Endp2 := [0])) w"

lemma leads_handed:
  assumes w: "greeted L v msg (print_loop # sys VERHOGEN (g_addr L Term_mut) 0 0 # sys VERHOGEN (g_addr L Startp2) 0 0
      # sys PASSERN (g_addr L Endp2) 0 0 # k1) k2 w"
    and Q: "\<And>w'. handed L v k1 k2 w' \<Longrightarrow> w_out w' = w_out w @ map print_cmd msg \<Longrightarrow> leads P w' Q"
  shows "leads P w Q"
proof -
  let ?ke = "sys PASSERN (g_addr L Endp2) 0 0 # k1"
  let ?ks = "sys VERHOGEN (g_addr L Startp2) 0 0 # ?ke"
  obtain l l2 where at: "at w 0 l (print_loop # sys VERHOGEN (g_addr L Term_mut) 0 0 # ?ks) []" "u_s l = msg"
    and c2: "w_conf w 1 = [(l2, k2)]" using w by (auto simp: greeted_def)
  have v0: "vars L ((M1 v)(Startp2 := -1, Term_mut := 0)) ((\<lambda>_. [])(Startp2 := [1])) w"
    and r: "w_ready w = []" and t: "term_free w" "w_tree w = PNode 0 [PNode 1 []]"
    using w by (simp_all add: greeted_def)
  have nt: "g_addr L x \<noteq> tdev w" if "x \<in> gvars" for x using varsD(8) [OF v0 that] .
  have main: "leads P (w_printed 0 l' (sys VERHOGEN (g_addr L Term_mut) 0 0 # ?ks) [] msg w) Q" for l'
  proof -
    define w1 where "w1 = w_printed 0 l' (sys VERHOGEN (g_addr L Term_mut) 0 0 # ?ks) [] msg w"
    have v1: "vars L ((M1 v)(Startp2 := -1, Term_mut := 0)) ((\<lambda>_. [])(Startp2 := [1])) w1"
      using v0 by (simp add: w1_def vars_printed)
    define w2 where "w2 = w_set (g_addr L Term_mut) 1 (goto 0 l' ?ks [] w1)"
    have v2: "vars L ((M1 v)(Startp2 := -1, Term_mut := 0, Term_mut := 1)) ((\<lambda>_. [])(Startp2 := [1])) w2"
      by (rule vars_set [OF v1]) (simp_all add: w2_def)
    define w3 where "w3 = w_V (g_addr L Startp2) (-1) (goto 0 l' ?ke [] w2)"
    have w3: "w_sem w3 = (w_sem w2)(g_addr L Startp2 \<mapsto> -1 + 1)" "w_waits w3 = (w_waits w2)(g_addr L Startp2 := [])"
      "w_ready w3 = [1]"
      unfolding w3_def using varsD(2) [OF v2, of Startp2] r by (subst w_V_wake [where q = 1 and qs = "[]"]; simp add: w2_def w1_def)+
    have v3: "vars L ((M1 v)(Startp2 := -1, Term_mut := 0, Term_mut := 1, Startp2 := -1 + 1)) ((\<lambda>_. [])(Startp2 := [1], Startp2 := [])) w3"
      by (rule vars_upd [OF v2 _ _ w3(1,2)]) (simp_all add: w3_def)
    have e: "(M1 v)(Startp2 := -1, Term_mut := 0, Term_mut := 1, Startp2 := -1 + 1) = M1 v"
      "((\<lambda>_. [])(Startp2 := [1], Startp2 := [])) = (\<lambda>_. [])" by (auto simp: M1_def)
    define w4 where "w4 = w_block 0 (g_addr L Endp2) 0 (goto 0 l' k1 [] w3)"
    have v4: "vars L ((M1 v)(Endp2 := 0 - 1)) ((\<lambda>_. [])(Endp2 := [0])) w4"
      by (rule vars_upd [OF v3 [unfolded e]]) (use varsD(2) [OF v3 [unfolded e], of Endp2] in \<open>simp_all add: w4_def\<close>)
    have s4: "w_ready w4 = [1]" "w_conf w4 1 = [(l2, k2)]" "w_conf w4 0 = [(l', k1)]"
      using w3(3) c2 by (simp_all add: w4_def w3_def w2_def w1_def)
    define w5 where "w5 = next_world [] w4"
    note n5 = next_world_ready [OF s4(1), where b = "[]", folded w5_def]
    have "vars L ((M1 v)(Endp2 := -1)) ((\<lambda>_. [])(Endp2 := [0])) w5"
      using v4 by (subst vars_cong [where w = w4]) (simp_all add: n5)
    moreover have "term_free w5"
      using t(1) nt [of Term_mut] nt [of Startp2] nt [of Endp2] w3(1,2)
      by (simp add: term_free_def n5 w4_def, simp add: w3_def w2_def w1_def)
    moreover have "w_tree w5 = PNode 0 [PNode 1 []]" "w_out w5 = w_out w @ map print_cmd msg"
      using t(2) by (simp_all add: n5 w4_def w3_def w2_def w1_def)
    ultimately have 5: "leads P w5 Q" using s4 by (intro Q) (simp_all add: handed_def n5)
    have 3: "leads P w3 Q"
      by (rule leads_sys_wait [OF _ v3 [unfolded e], where x = Endp2 and p = 0 and l = l' and k = k1 and fs = "[]" and b = "[]"])
        (use 5 s4 in \<open>simp_all add: M1_def dispatchable_def w4_def [symmetric] w5_def [symmetric]\<close>,
          simp add: w3_def w2_def w1_def at(1))
    have 2: "leads P w2 Q"
      by (rule leads_sys_V [OF _ v2, where x = Startp2 and p = 0 and l = l' and k = ?ke and fs = "[]"])
        (use 3 at in \<open>simp_all add: w3_def\<close>, simp_all add: w2_def w1_def)
    show ?thesis
      unfolding w1_def [symmetric]
      by (rule leads_leave_print [where p = 0 and l = l' and k = ?ks and fs = "[]"])
        (use 2 at varsD(6) [OF v1, of Term_mut] in \<open>simp_all add: w2_def\<close>, simp_all add: w1_def)
  qed
  show ?thesis
    by (rule leads_print_loop [OF at(1) r t(1)]) (use main at(2) in blast)
qed

section \<open>Process p2 runs\<close>

text \<open>While \<open>p2\<close> runs, the root process waits on \<open>endp2\<close>; \<open>p2\<close>'s commands keep that.\<close>

lemma handed_same:
  assumes "handed L v k1 k0 w" "same_but 1 w w'" "at w' 1 l k []"
  shows "handed L v k1 k w'" "w_out w' = w_out w"
  using assms same_butD [OF assms(2)] vars_same_but [OF assms(2)]
  by (auto simp: handed_def term_free_def)

lemma same_but_reg: "same_but p w (goto p l k fs w)" "same_but p w (goto p l k fs w\<lparr>w_reg := r\<rparr>)"
  by (auto intro!: same_butI)

lemma handed_at: "handed L v k1 k w \<Longrightarrow> \<exists>l. at w 1 l k []"
  by (simp add: handed_def)

lemma h_print:
  assumes w: "handed L v k1 (print L msg @ k) w"
    and Q: "\<And>w'. handed L v k1 k w' \<Longrightarrow> w_out w' = w_out w @ map print_cmd msg \<Longrightarrow> leads P w' Q"
  shows "leads P w Q"
proof -
  obtain l where at: "at w 1 l (print L msg @ k) []" using handed_at [OF w] by blast
  have v: "vars L ((M1 v)(Endp2 := -1)) ((\<lambda>_. [])(Endp2 := [0])) w" and r: "w_ready w = []" "term_free w"
    using w by (simp_all add: handed_def)
  show ?thesis
  proof (rule leads_print_vars [OF at v _ r])
    show "leads P (w_printed 1 l' k [] msg w) Q" for l'
      using w v by (intro Q) (simp_all add: handed_def vars_printed term_free_printed)
  qed (simp add: M1_def)
qed

lemma h_cond:
  assumes w: "handed L v k1 (Cond b xs ys # k) w" and b: "\<And>l u. seen w l u \<Longrightarrow> b u \<noteq> None"
    and Q: "\<And>w'. handed L v k1 (xs @ k) w' \<Longrightarrow> w_out w' = w_out w \<Longrightarrow> leads P w' Q"
      "\<And>w'. handed L v k1 (ys @ k) w' \<Longrightarrow> w_out w' = w_out w \<Longrightarrow> leads P w' Q"
  shows "leads P w Q"
proof -
  obtain l where at: "at w 1 l (Cond b xs ys # k) []" using handed_at [OF w] by blast
  show ?thesis
  proof (rule leads_cond_any [OF at b])
    fix t
    have "handed L v k1 ((if t then xs else ys) @ k) (goto 1 l ((if t then xs else ys) @ k) [] w)"
      using handed_same [OF w same_but_reg(1)] at by simp
    then show "leads P (goto 1 l ((if t then xs else ys) @ k) [] w) Q" using Q by (cases t) simp_all
  qed
qed

text \<open>The commands without output.\<close>

lemma h_silent:
  assumes w: "handed L v k1 k0 w" and Q: "\<And>w'. handed L v k1 k w' \<Longrightarrow> w_out w' = w_out w \<Longrightarrow> leads P w' Q"
    and s: "same_but 1 w w'" "at w' 1 l k []"
  shows "leads P w' Q"
  using Q handed_same [OF w s] by blast

lemma h_letl:
  assumes w: "handed L v k1 (letl f # k) w" and Q: "\<And>w'. handed L v k1 k w' \<Longrightarrow> w_out w' = w_out w \<Longrightarrow> leads P w' Q"
  shows "leads P w Q"
proof -
  obtain l where at: "at w 1 l (letl f # k) []" using handed_at [OF w] by blast
  show ?thesis
    by (rule leads_letl_any [OF at], rule h_silent [OF w Q same_but_reg(1)]) (use at in simp_all)
qed

lemma h_stck:
  assumes w: "handed L v k1 (stck f # k) w" and Q: "\<And>w'. handed L v k1 k w' \<Longrightarrow> w_out w' = w_out w \<Longrightarrow> leads P w' Q"
  shows "leads P w Q"
proof -
  obtain l where at: "at w 1 l (stck f # k) []" using handed_at [OF w] by blast
  show ?thesis
    by (rule leads_stck [OF at], rule h_silent [OF w Q same_but_reg(1)]) (use at in simp_all)
qed

lemma h_cpu_time:
  assumes w: "handed L v k1 (sys GETCPUTIME 0 0 0 # k) w"
    and Q: "\<And>w'. handed L v k1 k w' \<Longrightarrow> w_out w' = w_out w \<Longrightarrow> leads P w' Q"
  shows "leads P w Q"
proof -
  obtain l where at: "at w 1 l (Call (\<lambda>_. Some (6, 0, 0, 0)) # k) []"
    using handed_at [OF w] by (auto simp: sys_def p2_numbers)
  show ?thesis
    by (rule leads_cpu_time [OF at refl], rule h_silent [OF w Q same_but_reg(2)]) (use at in simp_all)
qed

lemma h_delay:
  assumes w: "handed L v k1 (for_i 1 (\<lambda>i. i < LOOPNUM) [] @ k) w"
    and Q: "\<And>w'. handed L v k1 k w' \<Longrightarrow> w_out w' = w_out w \<Longrightarrow> leads P w' Q"
  shows "leads P w Q"
proof -
  obtain l where at: "at w 1 l (for_i 1 (\<lambda>i. i < LOOPNUM) [] @ k) []" using handed_at [OF w] by blast
  show ?thesis by (rule leads_delay_loop [OF at], rule h_silent [OF w Q])
qed

lemma h_sem_loops:
  assumes w: "handed L v k1 (for_i 0 (\<lambda>i. i \<le> p2_MAXSEM) [Exec (\<lambda>u. poke (g_addr L (Sem (u_i (loc u)))) 0 u)]
      @ for_i 0 (\<lambda>i. i \<le> p2_MAXSEM) (vp_body L) @ k) w"
    and Q: "\<And>w'. handed L v k1 k w' \<Longrightarrow> w_out w' = w_out w \<Longrightarrow> leads P w' Q"
  shows "leads P w Q"
proof -
  obtain l where at: "at w 1 l (for_i 0 (\<lambda>i. i \<le> p2_MAXSEM) [Exec (\<lambda>u. poke (g_addr L (Sem (u_i (loc u)))) 0 u)]
      @ for_i 0 (\<lambda>i. i \<le> p2_MAXSEM) (vp_body L) @ k) []" using handed_at [OF w] by blast
  have v: "vars L ((M1 v)(Endp2 := -1)) ((\<lambda>_. [])(Endp2 := [0])) w" using w by (simp add: handed_def)
  have z: "((M1 v)(Endp2 := -1)) (Sem i) = 0" for i by (simp add: M1_def)
  show ?thesis
  proof (rule leads_sem_loop [OF v _ at], rule z)
    fix w1 l1 assume s1: "same_but 1 w w1" and a1: "at w1 1 l1 (for_i 0 (\<lambda>i. i \<le> p2_MAXSEM) (vp_body L) @ k) []"
    show "leads P w1 Q"
    proof (rule leads_vp_loop [OF v [folded vars_same_but [OF s1]] _ a1], rule z)
      fix w2 l2 assume s2: "same_but 1 w1 w2" and a2: "at w2 1 l2 k []"
      note h1 = handed_same [OF w s1 a1]
      show "leads P w2 Q" by (rule h_silent [OF h1(1) _ s2 a2]) (use Q h1(2) in simp)
    qed
  qed
qed

text \<open>\<open>p2\<close> wakes the root process and terminates.\<close>

definition joined :: "p2_link \<Rightarrow> word32 \<Rightarrow> ucmd list \<Rightarrow> world \<Rightarrow> bool" where
  "joined L v k1 w \<longleftrightarrow> (\<exists>l. at w 0 l k1 []) \<and> w_ready w = [] \<and> w_tree w = PNode 0 [] \<and> term_free w
     \<and> vars L ((M1 v)(P1p2synch := 1)) (\<lambda>_. []) w"

lemma leads_joined:
  assumes w: "handed L v k1 (setg L P1p2synch (\<lambda>_. Some 1) # sys VERHOGEN (g_addr L Endp2) 0 0 # sys TERMINATETHREAD 0 0 0 # k) w"
    and Q: "\<And>w'. joined L v k1 w' \<Longrightarrow> w_out w' = w_out w \<Longrightarrow> leads P w' Q"
  shows "leads P w Q"
proof -
  let ?kx = "sys TERMINATETHREAD 0 0 0 # k"
  let ?kv = "sys VERHOGEN (g_addr L Endp2) 0 0 # ?kx"
  obtain l l1 where at: "at w 1 l (setg L P1p2synch (\<lambda>_. Some 1) # ?kv) []" and c0: "w_conf w 0 = [(l1, k1)]"
    using w by (auto simp: handed_def)
  have v: "vars L ((M1 v)(Endp2 := -1)) ((\<lambda>_. [])(Endp2 := [0])) w" and r: "w_ready w = []" "term_free w"
    "w_tree w = PNode 0 [PNode 1 []]" using w by (simp_all add: handed_def)
  have nt: "g_addr L x \<noteq> tdev w" if "x \<in> gvars" for x using varsD(8) [OF v that] .
  define w1 where "w1 = goto 1 l ?kv [] w\<lparr>w_sem := (w_sem w)(g_addr L P1p2synch \<mapsto> 1)\<rparr>"
  have v1: "vars L ((M1 v)(Endp2 := -1, P1p2synch := 1)) ((\<lambda>_. [])(Endp2 := [0])) w1"
    by (rule vars_set [OF v]) (simp_all add: w1_def)
  define w2 where "w2 = w_V (g_addr L Endp2) (-1) (goto 1 l ?kx [] w1)"
  have w2: "w_sem w2 = (w_sem w1)(g_addr L Endp2 \<mapsto> -1 + 1)" "w_waits w2 = (w_waits w1)(g_addr L Endp2 := [])"
    "w_ready w2 = [0]"
    unfolding w2_def using varsD(2) [OF v1, of Endp2] r by (subst w_V_wake [where q = 0 and qs = "[]"]; simp add: w1_def)+
  have v2: "vars L ((M1 v)(Endp2 := -1, P1p2synch := 1, Endp2 := -1 + 1)) ((\<lambda>_. [])(Endp2 := [0], Endp2 := [])) w2"
    by (rule vars_upd [OF v1 _ _ w2(1,2)]) (simp_all add: w2_def)
  have e: "(M1 v)(Endp2 := -1, P1p2synch := 1, Endp2 := -1 + 1) = (M1 v)(P1p2synch := 1)"
    "((\<lambda>_. [])(Endp2 := [0], Endp2 := [])) = (\<lambda>_. [])" by (auto simp: M1_def)
  define w3 where "w3 = w_exit 1 (goto 1 l k [] w2)"
  have s3: "w_ready w3 = [0]" "w_conf w3 0 = [(l1, k1)]" "w_sem w3 = w_sem w2" "w_waits w3 = w_waits w2" "w_base w3 = w_base w"
    "w_tree w3 = PNode 0 []" "w_out w3 = w_out w"
    using w2(3) c0 r(3) by (simp_all add: w3_def w_exit_def) (simp_all add: w2_def w1_def)
  define w4 where "w4 = next_world [] w3"
  note n4 = next_world_ready [OF s3(1), where b = "[]", folded w4_def]
  have "vars L ((M1 v)(P1p2synch := 1)) (\<lambda>_. []) w4"
    using v2 [unfolded e] by (subst vars_cong [where w = w2]) (simp_all add: n4 s3, simp add: w2_def w1_def)
  moreover have "term_free w4"
    using r(2) nt [of Endp2] nt [of P1p2synch] by (simp add: term_free_def n4 s3 w2(1,2), simp add: w1_def)
  ultimately have 4: "leads P w4 Q" by (intro Q) (simp_all add: joined_def n4 s3)
  have at2: "at w2 1 l (Call (\<lambda>_. Some (2, 0, 0, 0)) # k) []" using at by (simp add: w2_def w1_def sys_def p2_numbers)
  have t2: "w_tree w2 = PNode 0 [PNode 1 []]" using r(3) by (simp add: w2_def w1_def)
  have 2: "leads P w2 Q"
    by (rule leads_exit [OF at2 refl, where b = "[]"])
      (use 4 s3 w2(3) t2 in \<open>simp_all add: dispatchable_def w3_def [symmetric] w4_def [symmetric]\<close>)
  have 1: "leads P w1 Q"
    by (rule leads_sys_V [OF _ v1, where x = Endp2 and p = 1 and l = l and k = ?kx and fs = "[]"])
      (use 2 at in \<open>simp_all add: w2_def\<close>, simp_all add: w1_def)
  show ?thesis
    by (rule leads_poke [OF at [unfolded setg_def], where b = "g_addr L P1p2synch" and v = 1])
      (use 1 varsD(1,5) [OF v, of P1p2synch] in \<open>simp_all add: w1_def\<close>)
qed

text \<open>What \<open>p2\<close> says about the CPU time depends on the clock.\<close>

definition p2_verdicts :: "string set" where
  "p2_verdicts = insert ''p2 is OK\<newline>''
     {e1 @ e2 @ ''p2 blew it!\<newline>'' | e1 e2. e1 \<in> {[], ''error: more cpu time than real time\<newline>''}
        \<and> e2 \<in> {[], ''error: not enough cpu time went by\<newline>''}}"

lemma per_scale_some: "seen w l u \<Longrightarrow> \<exists>t. per_scale n u = Some t"
  by (simp add: per_scale_def seen_def Let_def signed_eq_0_iff)

text \<open>A message that may be left out.\<close>

lemma h_maybe:
  assumes w: "handed L v k1 (Cond b (print L msg) [] # k) w" and b: "\<And>l u. seen w l u \<Longrightarrow> b u \<noteq> None"
    and Q: "\<And>w' e. handed L v k1 k w' \<Longrightarrow> e \<in> {[], msg} \<Longrightarrow> w_out w' = w_out w @ map print_cmd e \<Longrightarrow> leads P w' Q"
  shows "leads P w Q"
proof (rule h_cond [OF w b])
  fix w1 assume h: "handed L v k1 (print L msg @ k) w1" "w_out w1 = w_out w"
  show "leads P w1 Q" by (rule h_print [OF h(1)]) (use Q [of _ msg] h(2) in simp)
next
  fix w1 assume "handed L v k1 ([] @ k) w1" "w_out w1 = w_out w"
  then show "leads P w1 Q" using Q [of w1 "[]"] by simp
qed

lemma p2_split:
  "\<exists>b c d k3. (\<forall>w l u. seen w l u \<longrightarrow> b u \<noteq> None \<and> c u \<noteq> None \<and> d u \<noteq> None) \<and>
   p2 L = sys PASSERN (g_addr L Startp2) 0 0
     # print L ''p2 starts\<newline>''
     @ for_i 0 (\<lambda>i. i \<le> p2_MAXSEM) [Exec (\<lambda>u. poke (g_addr L (Sem (u_i (loc u)))) 0 u)]
     @ for_i 0 (\<lambda>i. i \<le> p2_MAXSEM) (vp_body L)
     @ print L ''p2 v's successfully\<newline>''
     @ stck (\<lambda>t l. l\<lparr>u_now1 := t\<rparr>) # sys GETCPUTIME 0 0 0 # letl (\<lambda>u. (loc u)\<lparr>u_cpu_t1 := s_v0 (cpu u)\<rparr>)
     # for_i 1 (\<lambda>i. i < LOOPNUM) []
     @ sys GETCPUTIME 0 0 0 # letl (\<lambda>u. (loc u)\<lparr>u_cpu_t2 := s_v0 (cpu u)\<rparr>) # stck (\<lambda>t l. l\<lparr>u_now2 := t\<rparr>)
     # Cond b (print L ''p2 is OK\<newline>'')
         (Cond c (print L ''error: more cpu time than real time\<newline>'') []
          # Cond d (print L ''error: not enough cpu time went by\<newline>'') [] # print L ''p2 blew it!\<newline>'')
     # setg L P1p2synch (\<lambda>_. Some 1) # sys VERHOGEN (g_addr L Endp2) 0 0 # sys TERMINATETHREAD 0 0 0 # k3"
  (is "\<exists>b c d k3. ?S b c d \<and> p2 L = ?P b c d k3")
proof -
  let ?b = "\<lambda>u. do { n \<leftarrow> per_scale MINLOOPTIME u; let l = loc u;
            Some (sint (u_now2 l - u_now1 l) \<ge> sint (u_cpu_t2 l - u_cpu_t1 l) \<and> sint (u_cpu_t2 l - u_cpu_t1 l) \<ge> n) }"
  let ?c = "\<lambda>u. Some (sint (u_now2 (loc u) - u_now1 (loc u)) < sint (u_cpu_t2 (loc u) - u_cpu_t1 (loc u)))"
  let ?d = "\<lambda>u. do { n \<leftarrow> per_scale MINLOOPTIME u; Some (sint (u_cpu_t2 (loc u) - u_cpu_t1 (loc u)) < n) }"
  have "?S ?b ?c ?d"
  proof (intro allI impI)
    fix w l u assume "seen w l u"
    then obtain t where "per_scale MINLOOPTIME u = Some t" using per_scale_some by blast
    then show "?b u \<noteq> None \<and> ?c u \<noteq> None \<and> ?d u \<noteq> None" by (simp add: Let_def)
  qed
  moreover have "\<exists>k3. p2 L = ?P ?b ?c ?d k3" by (simp add: p2_def vp_body_def)
  then obtain k3 where "p2 L = ?P ?b ?c ?d k3" by (rule exE)
  ultimately show ?thesis by (intro exI conjI)
qed

lemma leads_p2:
  assumes w: "handed L v k1 k2 w" and k2: "p2 L = sys PASSERN (g_addr L Startp2) 0 0 # k2"
    and Q: "\<And>w' s. joined L v k1 w' \<Longrightarrow> s \<in> p2_verdicts \<Longrightarrow>
      w_out w' = w_out w @ map print_cmd (''p2 starts\<newline>'' @ ''p2 v's successfully\<newline>'' @ s) \<Longrightarrow> leads P w' Q"
  shows "leads P w Q"
proof -
  obtain b c d k3 where bcd: "\<And>w l u. seen w l u \<Longrightarrow> b u \<noteq> None \<and> c u \<noteq> None \<and> d u \<noteq> None"
    and p2: "k2 = print L ''p2 starts\<newline>''
     @ for_i 0 (\<lambda>i. i \<le> p2_MAXSEM) [Exec (\<lambda>u. poke (g_addr L (Sem (u_i (loc u)))) 0 u)]
     @ for_i 0 (\<lambda>i. i \<le> p2_MAXSEM) (vp_body L)
     @ print L ''p2 v's successfully\<newline>''
     @ stck (\<lambda>t l. l\<lparr>u_now1 := t\<rparr>) # sys GETCPUTIME 0 0 0 # letl (\<lambda>u. (loc u)\<lparr>u_cpu_t1 := s_v0 (cpu u)\<rparr>)
     # for_i 1 (\<lambda>i. i < LOOPNUM) []
     @ sys GETCPUTIME 0 0 0 # letl (\<lambda>u. (loc u)\<lparr>u_cpu_t2 := s_v0 (cpu u)\<rparr>) # stck (\<lambda>t l. l\<lparr>u_now2 := t\<rparr>)
     # Cond b (print L ''p2 is OK\<newline>'')
         (Cond c (print L ''error: more cpu time than real time\<newline>'') []
          # Cond d (print L ''error: not enough cpu time went by\<newline>'') [] # print L ''p2 blew it!\<newline>'')
     # setg L P1p2synch (\<lambda>_. Some 1) # sys VERHOGEN (g_addr L Endp2) 0 0 # sys TERMINATETHREAD 0 0 0 # k3"
    using p2_split [of L] unfolding k2 by blast
  let ?fin = "setg L P1p2synch (\<lambda>_. Some 1) # sys VERHOGEN (g_addr L Endp2) 0 0 # sys TERMINATETHREAD 0 0 0 # k3"
  let ?o = "w_out w @ map print_cmd (''p2 starts\<newline>'' @ ''p2 v's successfully\<newline>'')"
  have fin: "leads P w' Q" if "handed L v k1 ?fin w'" "s \<in> p2_verdicts" "w_out w' = ?o @ map print_cmd s" for w' s
    by (rule leads_joined [OF that(1)], rule Q) (use that in simp_all)
  have verdict: "leads P w' Q"
    if h: "handed L v k1 (Cond b (print L ''p2 is OK\<newline>'')
         (Cond c (print L ''error: more cpu time than real time\<newline>'') []
          # Cond d (print L ''error: not enough cpu time went by\<newline>'') [] # print L ''p2 blew it!\<newline>'') # ?fin) w'"
      and o: "w_out w' = ?o" for w'
  proof (rule h_cond [OF h])
    fix w1 assume h1: "handed L v k1 (print L ''p2 is OK\<newline>'' @ ?fin) w1" "w_out w1 = w_out w'"
    show "leads P w1 Q"
      by (rule h_print [OF h1(1)], rule fin [where s = "''p2 is OK\<newline>''"]) (use h1(2) o in \<open>simp_all add: p2_verdicts_def\<close>)
  next
    fix w1 assume h1: "handed L v k1 ((Cond c (print L ''error: more cpu time than real time\<newline>'') []
          # Cond d (print L ''error: not enough cpu time went by\<newline>'') [] # print L ''p2 blew it!\<newline>'') @ ?fin) w1"
      "w_out w1 = w_out w'"
    show "leads P w1 Q"
    proof (rule h_maybe [OF h1(1) [unfolded append_Cons]])
      fix w2 e1 assume h2: "handed L v k1 (Cond d (print L ''error: not enough cpu time went by\<newline>'') []
          # print L ''p2 blew it!\<newline>'' @ ?fin) w2" "e1 \<in> {[], ''error: more cpu time than real time\<newline>''}"
        "w_out w2 = w_out w1 @ map print_cmd e1"
      show "leads P w2 Q"
      proof (rule h_maybe [OF h2(1)])
        fix w3 e2 assume h3: "handed L v k1 (print L ''p2 blew it!\<newline>'' @ ?fin) w3"
          "e2 \<in> {[], ''error: not enough cpu time went by\<newline>''}" "w_out w3 = w_out w2 @ map print_cmd e2"
        have "e1 @ e2 @ ''p2 blew it!\<newline>'' \<in> p2_verdicts" using h2(2) h3(2) unfolding p2_verdicts_def by blast
        then show "leads P w3 Q"
          by (intro h_print [OF h3(1)] fin [where s = "e1 @ e2 @ ''p2 blew it!\<newline>''"]) (use h1(2) h2(3) h3(3) o in simp_all)
      qed (use bcd in blast)
    qed (use bcd in blast)
  qed (use bcd in blast)
  show ?thesis
  proof (rule h_print [OF w [unfolded p2]], erule h_sem_loops, erule h_print, erule h_stck, erule h_cpu_time, erule h_letl,
      erule h_delay [unfolded append_Cons], erule h_cpu_time, erule h_letl, erule h_stck, erule verdict)
  qed simp
qed

section \<open>From startup\<close>

text \<open>
  The machine is loaded with the nucleus and the test program: the variables have their initial
  values, the states are memory outside the areas of the machine. \<open>main\<close> loads the first process.
\<close>

definition p2_loaded :: "link \<Rightarrow> p2_link \<Rightarrow> machine \<Rightarrow> bool" where
  "p2_loaded K L m \<longleftrightarrow> mem_ok (kern m) \<and> link_ok L (devSemTable_addr (kern m)) \<and> a_test K = code L U_test
     \<and> (\<forall>x\<in>gvars. int_mem (kern m) (g_addr L x) = Some (p2_init x)) \<and> (\<forall>x. ustates (kern m) (staddr L x) \<noteq> None)
     \<and> conf m = (\<lambda>_. []) \<and> tout m = []"

definition p2_boot :: "link \<Rightarrow> p2_link \<Rightarrow> machine \<Rightarrow> machine option" where
  "p2_boot K L m = do { (x, s) \<leftarrow> main K (kern m); nucleus_done (p2_prog L) None (Some (Some x, s)) m }"

lemma p2_boot_run:
  assumes "p2_loaded K L m"
  shows "\<exists>m' w. p2_boot K L m = Some m' \<and> sees w m' \<and> start L (test L) w \<and> vars L p2_init (\<lambda>_. []) w \<and> w_out w = []"
proof -
  let ?s = "kern m" and ?b = "devSemTable_addr (kern m)"
  let ?X = "(p_s \<circ> procTable ?s)(0 := first_state K (rambase (busreg ?s) + ramsize (busreg ?s)) (p_s (procTable ?s 0)))"
  have ok: "mem_ok ?s" and lk: "link_ok L ?b" and lt: "a_test K = code L U_test"
    and gs: "\<forall>x\<in>gvars. int_mem ?s (g_addr L x) = Some (p2_init x)" and us: "\<forall>x. ustates ?s (staddr L x) \<noteq> None"
    and cf: "conf m = (\<lambda>_. [])" "tout m = []" using assms by (simp_all add: p2_loaded_def)
  obtain s' x1 x2 x3 x4 where s': "main K ?s = Some (a_exit (boot_abs K ?s), s')" "st_mem s' = mem4 (st_mem ?s) x1 x2 x3 x4"
    using main_run [OF ok, of K] by blast
  have i: "implements s' (boot_spec K ?s)" using main_implements [OF ok, of K] s'(1) by auto
  let ?w = "\<lparr>w_free = [1..<MAXPROC], w_ready = [], w_waits = (\<lambda>_. []), w_run = Some 0, w_ctx = (\<lambda>_ _. True),
     w_sem = zeroed ?b DEVSEMS (int_mem ?s), w_base = ?b, w_tree = PNode 0 [], w_states = ustates s',
     w_conf = (\<lambda>_. [])(0 := [(no_locals, test L)]), w_out = [], w_reg = (\<lambda>_. True)\<rparr>"
  have i': "implements s' (ak ?w ?X, PNode 0 [])"
    using i by (simp add: boot_spec_def a_dispatch_def boot_abs_def ak_def)
  have wf: "wf_state (p_s (procTable ?s 0))" using mem_okD(5) [OF ok, of 0] by (simp add: MAXPROC_def)
  have st: "plain (?X 0)"
    using first_state_wf [OF wf] by (simp add: plain_def kernel_mode_def first_state_def FIRSTPROCESSSTATUSMASK_def KERNELOFF_def VMBITS_def)
  have pc: "p2_prog L (s_pc (?X 0)) = Some (test L)"
    using code_body [OF lk, of U_test] lt by (simp add: first_state_def reg_defs)
  let ?m = "m\<lparr>kern := s', creg := ?X 0, conf := (conf m)(0 := [(no_locals, test L)])\<rparr>"
  have "currentProcess s' = Some 0" using krelD(2) [OF implementsD(1) [OF i']] by simp
  then have boot: "p2_boot K L m = Some ?m"
    using s'(1) pc cf by (simp add: p2_boot_def nucleus_done_def a_exit_def boot_abs_def starts_def)
  have sees: "sees ?w ?m"
    unfolding sees_def by (intro conjI exI [of _ ?X]) (use i' st cf in simp_all)
  have "ustates s' (staddr L x) = ustates ?s (staddr L x)" for x
    using us [THEN spec, of x] s'(2) by (auto simp: ustates_def restrict_map_def kareas_def mem4_def split: if_splits)
  moreover have "\<exists>i<DEVSEMS. devsem ?b 32 = devsem ?b i" by (intro exI [of _ 32]) (simp add: DEVSEMS_49)
  then have "zeroed ?b DEVSEMS (int_mem ?s) (devsem ?b 32) = Some 0" by (simp add: zeroed_def)
  ultimately have "start L (test L) ?w" using us by (simp add: start_def term_free_def)
  moreover have "zeroed ?b DEVSEMS (int_mem ?s) (g_addr L x) = Some (p2_init x)" if "x \<in> gvars" for x
    using gs lk that by (auto simp: zeroed_def link_ok_def is_dev_def)
  then have "vars L p2_init (\<lambda>_. []) ?w" using lk by (simp add: vars_def)
  ultimately show ?thesis using boot sees by (intro exI [of _ ?m] exI [of _ ?w]) simp
qed

text \<open>The root process after \<open>p2\<close> has ended: it does not print that the synchronisation is bad.\<close>

lemma leads_checked:
  assumes w: "joined L v (Cond (\<lambda>u. map_option (\<lambda>v. v = 0) (getg L P1p2synch u)) xs [] # k) w"
    and Q: "\<And>w'. joined L v k w' \<Longrightarrow> w_out w' = w_out w \<Longrightarrow> Q w'"
  shows "leads P w Q"
proof -
  obtain l where at: "at w 0 l (Cond (\<lambda>u. map_option (\<lambda>v. v = 0) (getg L P1p2synch u)) xs [] # k) []"
    using w by (auto simp: joined_def)
  have v: "vars L ((M1 v)(P1p2synch := 1)) (\<lambda>_. []) w" using w by (simp add: joined_def)
  have "w_sem w (g_addr L P1p2synch) = Some 1" using varsD(1) [OF v, of P1p2synch] by simp
  then have b: "\<And>u. seen w l u \<Longrightarrow> map_option (\<lambda>v. v = 0) (getg L P1p2synch u) = Some False"
    by (simp add: seen_def getg_def rd_int_def)
  have "joined L v k (goto 0 l k [] w)"
    using w v by (auto simp: joined_def term_free_def vars_cong [of "goto 0 l k [] w" w])
  then have q: "leads P (goto 0 l k [] w) Q" by (intro leads_here Q) simp_all
  show ?thesis by (rule leads_skip [OF at b q])
qed

definition p12_output :: "string \<Rightarrow> string" where
  "p12_output s = ''p1 v(testsem)\<newline>'' @ ''p2 was started\<newline>'' @ ''p2 starts\<newline>'' @ ''p2 v's successfully\<newline>'' @ s"

lemma leads_p1_p2:
  assumes s: "start L (test L) w" and v: "vars L p2_init (\<lambda>_. []) w" and o0: "w_out w = []"
  shows "leads (p2_prog L) w (\<lambda>w'. \<exists>x rest s. joined L x (sys CREATETHREAD (staddr L P3state) 0 0 # rest) w'
    \<and> (\<exists>pre. test L = pre @ sys CREATETHREAD (staddr L P3state) 0 0 # rest) \<and> s \<in> p2_verdicts
    \<and> w_out w' = map print_cmd (p12_output s))" (is "leads ?P w ?Q")
proof -
  obtain rest where t: "test L =
     sys VERHOGEN (g_addr L Testsem) 0 0 # print L ''p1 v(testsem)\<newline>'' @ test_states L
     @ sys CREATETHREAD (staddr L P2state) 0 0 # print L ''p2 was started\<newline>''
     @ sys VERHOGEN (g_addr L Startp2) 0 0 # sys PASSERN (g_addr L Endp2) 0 0
     # Cond (\<lambda>u. map_option (\<lambda>v. v = 0) (getg L P1p2synch u)) (print L ''error: p1/p2 synchronization bad\<newline>'') []
     # sys CREATETHREAD (staddr L P3state) 0 0 # rest" using test_split [of L] by blast
  let ?k3 = "sys CREATETHREAD (staddr L P3state) 0 0 # rest"
  have pre: "\<exists>pre. test L = pre @ ?k3" unfolding t by (metis append.assoc append_Cons append_Nil)
  obtain k2 where k2: "p2 L = sys PASSERN (g_addr L Startp2) 0 0 # k2" using p2_split [of L] by blast
  show ?thesis
  proof (rule leads_forked [OF s [unfolded t] v o0])
    fix c w1 assume f: "forked L c (print L ''p2 was started\<newline>''
     @ sys VERHOGEN (g_addr L Startp2) 0 0 # sys PASSERN (g_addr L Endp2) 0 0
     # Cond (\<lambda>u. map_option (\<lambda>v. v = 0) (getg L P1p2synch u)) (print L ''error: p1/p2 synchronization bad\<newline>'') [] # ?k3) w1"
    have o1: "w_out w1 = map print_cmd ''p1 v(testsem)\<newline>''" using f by (simp add: forked_def)
    show "leads ?P w1 ?Q"
    proof (rule leads_greeted [OF f _ k2], simp, erule leads_handed, erule leads_p2 [OF _ k2], erule leads_checked)
      fix w2 w3 w4 w5 s
      assume o: "w_out w2 = w_out w1 @ [print_cmd (hd ''p2 was started\<newline>'')]"
        "w_out w3 = w_out w2 @ map print_cmd (tl ''p2 was started\<newline>'')"
        "w_out w4 = w_out w3 @ map print_cmd (''p2 starts\<newline>'' @ ''p2 v's successfully\<newline>'' @ s)"
        "w_out w5 = w_out w4" and j: "joined L (sp_below c 5) ?k3 w5" "s \<in> p2_verdicts"
      have "w_out w5 = map print_cmd (p12_output s)" using o o1 by (simp add: p12_output_def)
      then show "?Q w5" using pre j by blast
    qed
  qed
qed

text \<open>
  C7. The nucleus runs the first part of the test program, from startup, on the schedule of tick: no
  quantum and no clock interrupt occurs, and whenever every process waits, terminal 0 interrupts
  with status 5. main loads the root process, which prints its message, sets up the states, creates p2 and waits for it on a semaphore;
  p2 waits for the root process, does V and P on 21 semaphores, asks for its CPU time, wakes the
  root process and terminates. The terminal shows what the processes print in the order of the
  recorded session, the root process goes on with p1p2synch set, without the message that
  the synchronisation is bad, and all of this in finitely many steps, whatever values the
  time-of-day clock has.
\<close>

theorem p1_p2_synchronise:
  assumes "p2_loaded K L m"
  shows "\<exists>m0 n m' s. p2_boot K L m = Some m0 \<and> ticks (p2_prog L) n m0 = Some m' \<and> s \<in> p2_verdicts
    \<and> tout m' = map print_cmd (p12_output s)
    \<and> currentProcess (kern m') = Some 0 \<and> rd_int (g_addr L P1p2synch) (kern m') = Some 1
    \<and> (\<exists>l pre rest. test L = pre @ sys CREATETHREAD (staddr L P3state) 0 0 # rest
         \<and> conf m' 0 = [(l, sys CREATETHREAD (staddr L P3state) 0 0 # rest)])"
proof -
  obtain m0 w where b: "p2_boot K L m = Some m0" "sees w m0" "start L (test L) w" "vars L p2_init (\<lambda>_. []) w" "w_out w = []"
    using p2_boot_run [OF assms] by blast
  obtain n m' w' x rest pre s where r: "ticks (p2_prog L) n m0 = Some m'" "sees w' m'"
    "joined L x (sys CREATETHREAD (staddr L P3state) 0 0 # rest) w'" "test L = pre @ sys CREATETHREAD (staddr L P3state) 0 0 # rest"
    "s \<in> p2_verdicts" "w_out w' = map print_cmd (p12_output s)"
    using leads_p1_p2 [OF b(3-5)] b(2) unfolding leads_def by blast
  obtain l where at: "at w' 0 l (sys CREATETHREAD (staddr L P3state) 0 0 # rest) []" using r(3) by (auto simp: joined_def)
  have v: "vars L ((M1 x)(P1p2synch := 1)) (\<lambda>_. []) w'" using r(3) by (simp add: joined_def)
  have "int_mem (kern m') (g_addr L P1p2synch) = Some 1"
    using sees_view(1) [OF r(2) at] varsD(1) [OF v, of P1p2synch] by (simp add: seen_def view_def)
  moreover have "tout m' = map print_cmd (p12_output s)" using r(2,6) by (simp add: sees_def)
  ultimately show ?thesis
    using b(1) r(1,4,5) sees_view(2,3) [OF r(2) at] unfolding rd_int_def by blast
qed

section \<open>A loaded machine\<close>

definition ex_p2_machine :: machine where
  "ex_p2_machine = \<lparr>kern = ex_machine\<lparr>int_mem := (\<lambda>a. if a = NULL then None
       else if a \<in> {ex_var Term_mut, ex_var Blkp4, ex_var P4inc} then Some 1 else Some 0)\<rparr>,
     creg = ex_state, conf = (\<lambda>_. []), tout = []\<rparr>"

lemma ex_var_range: "\<forall>i. x \<noteq> Sem i \<Longrightarrow> 0x20031000 \<le> uint (ex_var x) \<and> uint (ex_var x) < 0x20032000"
  by (cases x) simp_all

lemma ex_sem_place: "i \<le> 20 \<Longrightarrow> uint (0x20030000 + 4 * i :: word32) = 0x20030000 + 4 * uint i"
proof -
  assume "i \<le> 20"
  then have "uint i \<le> 20" by (simp add: word_le_def)
  then show ?thesis by (simp add: uint_word_ariths)
qed

lemma ex_place:
  "x \<in> gvars \<Longrightarrow> uint (g_addr ex_p2 x) = (case x of Sem i \<Rightarrow> 0x20030000 + 4 * uint i | _ \<Rightarrow> uint (ex_var x))"
  by (cases x) (simp_all add: g_addr.simps ex_p2_def ex_sem_place)

lemma ex_var_inj: "\<forall>i. x \<noteq> Sem i \<Longrightarrow> \<forall>i. y \<noteq> Sem i \<Longrightarrow> ex_var x = ex_var y \<Longrightarrow> x = y"
  by (cases x; cases y) simp_all

lemma ex_place_sem: "Sem i \<in> gvars \<Longrightarrow> uint (g_addr ex_p2 (Sem i)) = 0x20030000 + 4 * uint i \<and> uint i \<le> 20"
  using ex_place [of "Sem i"] by (simp add: word_le_def)

lemma ex_place_var: "\<forall>i. x \<noteq> Sem i \<Longrightarrow> g_addr ex_p2 x = ex_var x"
  by (cases x) (simp_all add: g_addr.simps ex_p2_def)

lemma ex_place_inj: "inj_on (g_addr ex_p2) gvars"
proof (rule inj_onI)
  fix x y assume g: "x \<in> gvars" "y \<in> gvars" and e: "g_addr ex_p2 x = g_addr ex_p2 y"
  have sem: False if "Sem i \<in> gvars" "\<forall>i. z \<noteq> Sem i" "g_addr ex_p2 (Sem i) = g_addr ex_p2 z" for i z
    using ex_place_sem [OF that(1)] ex_var_range [OF that(2)] ex_place_var [OF that(2)] that(3) by simp
  show "x = y"
  proof (cases "\<forall>i. x \<noteq> Sem i")
    case x: True
    show ?thesis
    proof (cases "\<forall>i. y \<noteq> Sem i")
      case True
      then show ?thesis using ex_var_inj [OF x True] e by (simp add: ex_place_var x)
    next
      case False
      then show ?thesis using sem [OF _ x] g(2) e by metis
    qed
  next
    case False
    then obtain i where x: "x = Sem i" by blast
    show ?thesis
    proof (cases "\<forall>i. y \<noteq> Sem i")
      case True
      then show ?thesis using sem [OF _ True] g(1) e x by metis
    next
      case False
      then obtain j where y: "y = Sem j" by blast
      have "uint i = uint j" using ex_place_sem [of i] ex_place_sem [of j] g e unfolding x y by simp
      then show ?thesis using x y by (simp add: word_uint_eq_iff)
    qed
  qed
qed

lemma ex_p2_loaded: "p2_loaded ex_link ex_p2 ex_p2_machine"
proof -
  have r: "dev_range 0x20002000" by (rule ex_range(1))
  have place: "0x20030000 \<le> uint (g_addr ex_p2 x) \<and> uint (g_addr ex_p2 x) < 0x20032000" if "x \<in> gvars" for x
  proof (cases "\<forall>i. x \<noteq> Sem i")
    case True
    then show ?thesis using ex_var_range [OF True] ex_place_var [OF True] by simp
  next
    case False
    then obtain i where "x = Sem i" by blast
    then show ?thesis using ex_place_sem [of i] that uint_ge_0 [of i] by simp
  qed
  have nd: "\<not> is_dev 0x20002000 (g_addr ex_p2 x)" if "x \<in> gvars" for x
  proof
    assume "is_dev 0x20002000 (g_addr ex_p2 x)"
    then obtain i where "i < DEVSEMS" "g_addr ex_p2 x = devsem 0x20002000 i" unfolding is_dev_def by blast
    then show False using uint_devsem [OF r, of i] place [OF that] by (simp add: DEVSEMS_49)
  qed
  have rng: "0 < g_addr ex_p2 x \<and> g_addr ex_p2 x < MAXINT" if "x \<in> gvars" for x
  proof -
    have "g_addr ex_p2 x < 0x20032000" "0 < g_addr ex_p2 x" using place [OF that] by (simp_all add: word_less_def)
    moreover have "(0x20032000 :: word32) < MAXINT" by (simp add: MAXINT_def)
    ultimately show ?thesis by (meson less_trans)
  qed
  have "link_ok ex_p2 0x20002000"
    using ex_place_inj nd rng ex_p2_inj by (simp add: link_ok_def)
  moreover have "mem_ok (kern ex_p2_machine)"
    using ex_machine_ok unfolding ex_p2_machine_def ex_machine_def mem_ok_def by (auto split: if_splits)
  moreover have "int_mem (kern ex_p2_machine) (g_addr ex_p2 x) = Some (p2_init x)" if "x \<in> gvars" for x
  proof -
    have "g_addr ex_p2 x = ex_var y \<longleftrightarrow> x = y" if "y \<in> {Term_mut, Blkp4, P4inc}" for y
      using inj_on_eq_iff [OF ex_place_inj, of x y] \<open>x \<in> gvars\<close> that by (auto simp: g_addr.simps ex_p2_def gvars_def)
    moreover have "g_addr ex_p2 x \<noteq> NULL" using place [OF that] by (auto simp: NULL_def)
    ultimately show ?thesis by (cases x) (simp_all add: ex_p2_machine_def del: ex_var.simps)
  qed
  moreover have "ustates (kern ex_p2_machine) (staddr ex_p2 x) \<noteq> None" for x
    by (cases x) (simp_all add: ustates_def ex_p2_machine_def ex_machine_def ex_p2_def kareas_def area_defs NULL_def)
  ultimately show ?thesis
    by (simp add: p2_loaded_def ex_p2_machine_def ex_machine_def ex_link_def ex_p2_def)
qed

theorem p1_p2_synchronise_witness:
  "\<exists>m0 n m' s. p2_boot ex_link ex_p2 ex_p2_machine = Some m0 \<and> ticks (p2_prog ex_p2) n m0 = Some m'
    \<and> s \<in> p2_verdicts \<and> tout m' = map print_cmd (p12_output s)"
  using p1_p2_synchronise [OF ex_p2_loaded] by blast

end
