(* ===== verification/Nucleus_Properties.thy ===== *)
theory Nucleus_Properties
  imports Nucleus_Runs
begin

text \<open>
  What holds of every run of the nucleus from startup: refinement, accounting, how handlers end,
  round robin, and the fault after SYS 2 has killed a process that waits for a device.
\<close>

section \<open>Reachable states\<close>

lemma boot_runs:
  assumes "mem_ok s" "aruns (boot_spec L s) es \<sigma>"
  shows "\<exists>s0 s'. main L s = Some (a_exit (boot_abs L s), s0) \<and> kruns es s0 = Some s' \<and> implements s' \<sigma>"
  using main_implements [OF assms(1)] runs_simulate [OF assms(2)] by blast

lemma boot_reached:
  assumes "mem_ok s" "aruns (boot_spec L s) es \<sigma>" "main L s = Some (x, s0)" "kruns es s0 = Some s'"
  shows "implements s' \<sigma>"
  using boot_runs [OF assms(1,2)] assms(3,4) by auto

lemma boot_exit: "a_exit (boot_abs L s) = Exit_LDST (first_state L (rambase (busreg s) + ramsize (busreg s)) (p_s (procTable s 0)))"
  by (simp add: a_exit_def boot_abs_def)

lemma kruns_append: "kruns (es @ fs) s = kruns es s \<bind> kruns fs"
  by (induction es arbitrary: s) (auto split: bind_splits)

text \<open>Every block is in exactly one place.\<close>

lemma kq_everywhere:
  assumes "kq s F R W H" "p < MAXPROC"
  shows "p \<in> set F \<or> p \<in> set R \<or> p \<in> set H \<or> (\<exists>a. p \<in> set (W a))"
proof -
  obtain B where B: "asl_rel s W B" "mset (F @ R) + (mset H + B) = mset [0..<MAXPROC]"
    using assms(1) unfolding kq_def places_def pool_def by blast
  have "p \<in># mset [0..<MAXPROC]" using assms(2) by simp
  then have "p \<in># mset (F @ R) + (mset H + B)" unfolding B(2) .
  then show ?thesis using asl_rel_blocked_iff [OF B(1), of p] by auto
qed

definition block_places :: "akernel \<Rightarrow> nat \<Rightarrow> bool list" where
  "block_places A p = [p \<in> set (a_free A), p \<in> set (a_ready A), a_run A = Some p, \<exists>a. p \<in> set (a_waits A a)]"

lemma krel_one_place:
  assumes "krel s A" "p < MAXPROC"
  shows "length (filter id (block_places A p)) = 1"
proof -
  note k = krelD(1) [OF assms(1)]
  have h: "a_run A = Some p \<longleftrightarrow> p \<in> set (hand (a_run A))" by (auto simp: hand_def split: option.splits)
  show ?thesis
    using kq_everywhere [OF k assms(2)] kq_distinct(1,3) [OF k] unfolding block_places_def h by auto
qed

section \<open>How a step ends\<close>

lemma astep_ends:
  assumes "astep (A, t) e x (A', t')"
  shows "(x = None \<or> (\<exists>st. x = Some (Exit_LDST st))) \<and> a_run A' \<noteq> None
    \<or> (\<exists>B. x = Some (a_exit B) \<and> A' = a_dispatch B \<and> a_run B = None)"
  using assms
proof cases
  case (terminate st u B)
  then show ?thesis by (auto simp: a_terminate_def)
next
  case (passeren_wait st v B)
  then show ?thesis using a_run_wait [of A "s_a1 st" v] by (auto simp: calls_def)
next
  case (wait_clock st a v B)
  then show ?thesis using a_run_wait [of A a v] by (auto simp: calls_def)
next
  case (wait_io st a v B)
  then show ?thesis using a_run_wait [of A a v] by (auto simp: calls_def)
next
  case (quantum st B f regs)
  then show ?thesis by (auto simp: a_preempt_def split: option.splits)
qed (auto simp: calls_def a_fork_def a_setsem_def a_V_def a_P_def a_wake_def Let_def split: list.splits)

text \<open>When nothing runs and nothing is ready: no process waits for a device, or all wait for others.\<close>

lemma soft_zero: "soft b W = 0 \<longleftrightarrow> (\<forall>i<DEVSEMS. W (devsem b i) = [])"
  by (auto simp: soft_def)

lemma soft_members:
  assumes k: "krel s A" and t: "tree_ok T A t" and idle: "a_run A = None" "a_ready A = []"
  shows "soft (a_base A) (a_waits A) = 0 \<longleftrightarrow>
    (\<forall>p\<in>set (members t). \<exists>a. p \<in> set (a_waits A a) \<and> \<not> is_dev (a_base A) a)"
proof
  assume z: "soft (a_base A) (a_waits A) = 0"
  show "\<forall>p\<in>set (members t). \<exists>a. p \<in> set (a_waits A a) \<and> \<not> is_dev (a_base A) a"
  proof
    fix p assume p: "p \<in> set (members t)"
    then have "p < MAXPROC" "p \<notin> set (a_free A)" using tree_ok_distinct(3,5) [OF t] by auto
    then obtain a where a: "p \<in> set (a_waits A a)" using kq_everywhere [OF krelD(1) [OF k], of p] idle by auto
    then show "\<exists>a. p \<in> set (a_waits A a) \<and> \<not> is_dev (a_base A) a"
      using z [unfolded soft_zero] by (auto simp: is_dev_def)
  qed
next
  assume w: "\<forall>p\<in>set (members t). \<exists>a. p \<in> set (a_waits A a) \<and> \<not> is_dev (a_base A) a"
  show "soft (a_base A) (a_waits A) = 0"
    unfolding soft_zero
  proof (intro allI impI, rule ccontr)
    fix i assume i: "i < DEVSEMS" "a_waits A (devsem (a_base A) i) \<noteq> []"
    then obtain p where p: "p \<in> set (a_waits A (devsem (a_base A) i))" by (cases "a_waits A (devsem (a_base A) i)") auto
    have "p < MAXPROC" by (rule kq_wait(1) [OF krelD(1) [OF k] p])
    moreover have "p \<notin> set (a_free A)" using kq_distinct(3) [OF krelD(1) [OF k], of p] p by auto
    ultimately have "p \<in> set (members t)" by (rule tree_ok_distinct(4) [OF t])
    then obtain a where "p \<in> set (a_waits A a)" "\<not> is_dev (a_base A) a" using w by blast
    then show False using kq_wait_unique [OF krelD(1) [OF k] p] i(1) by (auto simp: is_dev_def)
  qed
qed

section \<open>Round robin\<close>

definition is_quantum :: "event \<Rightarrow> bool" where
  "is_quantum e \<longleftrightarrow> (\<exists>st f regs. e = Interrupt st f regs \<and> wf_state st \<and> getLineNumber (s_cause st) = 1)"

lemma quantum_step:
  assumes "is_quantum e" "a_run A = Some r"
  shows "\<exists>x B. astep (A, t) e x (B, t) \<and> a_run B = Some (hd (a_ready A @ [r])) \<and> a_ready B = tl (a_ready A @ [r])"
proof -
  obtain st f regs where e: "e = Interrupt st f regs" "wf_state st" "getLineNumber (s_cause st) = 1"
    using assms(1) by (auto simp: is_quantum_def)
  let ?B = "a_preempt st A"
  have R: "a_ready ?B = a_ready A @ [r]" using assms(2) by (simp add: a_preempt_def)
  have "astep (A, t) e (Some (a_exit ?B)) (a_dispatch ?B, t)"
    unfolding e(1) using assms(2) by (intro astep.quantum [OF e(2,3)]) simp_all
  moreover have "a_run (a_dispatch ?B) = Some (hd (a_ready A @ [r]))" "a_ready (a_dispatch ?B) = tl (a_ready A @ [r])"
    using R by (simp_all add: a_dispatch_def split: list.splits)
  ultimately show ?thesis by blast
qed

lemma quanta_rotate:
  assumes "\<forall>e\<in>set es. is_quantum e" "a_run A = Some r" "i < length (a_ready A)" "length es = Suc i"
  shows "\<exists>B. aruns (A, t) es (B, t) \<and> a_run B = Some (a_ready A ! i)"
  using assms
proof (induction i arbitrary: A r es)
  case 0
  then obtain e where e: "es = [e]" "is_quantum e" by (cases es) auto
  from quantum_step [OF e(2) 0(2), of t] obtain x B where B: "astep (A, t) e x (B, t)"
    "a_run B = Some (hd (a_ready A @ [r]))" by blast
  moreover have "hd (a_ready A @ [r]) = a_ready A ! 0" using 0(3) by (cases "a_ready A") auto
  ultimately show ?case unfolding e(1) by (auto intro: aruns.intros)
next
  case (Suc i)
  obtain e fs where e: "es = e # fs" "is_quantum e" "\<forall>e\<in>set fs. is_quantum e" "length fs = Suc i"
    using Suc.prems(1,4) by (cases es) auto
  from quantum_step [OF e(2) Suc.prems(2), of t] obtain x A1 where A1: "astep (A, t) e x (A1, t)"
    "a_run A1 = Some (hd (a_ready A @ [r]))" "a_ready A1 = tl (a_ready A @ [r])" by blast
  obtain q R where R: "a_ready A = q # R" using Suc.prems(3) by (cases "a_ready A") auto
  then have "i < length (a_ready A1)" "a_ready A1 ! i = a_ready A ! Suc i"
    using A1(3) Suc.prems(3) by (simp_all add: nth_append)
  with Suc.IH [OF e(3) A1(2) _ e(4)] obtain B where "aruns (A1, t) fs (B, t)" "a_run B = Some (a_ready A ! Suc i)"
    by auto
  then show ?case unfolding e(1) using A1(1) by (blast intro: aruns.intros)
qed

section \<open>The fault after SYS 2\<close>

lemma device_after_kill:
  assumes i: "implements s (A, t)" and sg: "signals l d st f" and a: "a = devsem (a_base A) (sig_sem l d regs)"
    and W: "a_waits A a = []" and v: "a_sem A a = Some v" "sint v < 0"
  shows "handle (Interrupt st f regs) s = None"
proof -
  have st: "wf_state st" "getLineNumber (s_cause st) = l" and l: "3 \<le> l" "l \<le> 7"
    and dl: "lowestDevice (f (nat (l - 3))) = int d" "d < 8"
    using sg by (simp_all add: signals_def)
  note e = int_enter [OF i st(1), where f = f and regs = regs]
  have "sint (v + 1) \<le> 0" using sint_succ [OF v(2)] v(2) by simp
  from deviceInterrupt_run(2) [OF implementsD(1) [OF e(1)] l _ dl(2), unfolded e(3) e(5), OF dl(1) v(1) [unfolded a] this]
  show ?thesis using e(6) st(2) l W a by simp
qed

section \<open>An example\<close>

text \<open>
  From startup, process 0 creates 1, 1 creates 2, and 2 waits for the first disk; quanta end in
  between. The states on the way, with the saved states \<open>c\<close>.
\<close>

definition ex_int :: "word32 \<Rightarrow> event" where
  "ex_int c = Interrupt (int_state c) (\<lambda>_. 1)
     (\<lambda>_. \<lparr>d_status = 5, d_command = 0, d_data0 = 0, d_data1 = 0\<rparr>)"

definition ex_at :: "nat list \<Rightarrow> nat list \<Rightarrow> nat \<Rightarrow> (nat \<Rightarrow> state_t) \<Rightarrow> akernel" where
  "ex_at F R p c = \<lparr>a_free = F, a_ready = R, a_waits = (\<lambda>_. []), a_run = Some p, a_ctx = c,
     a_sem = int_mem ex_machine, a_base = 0x20002000\<rparr>"

definition ex_blocked :: "(nat \<Rightarrow> state_t) \<Rightarrow> akernel" where
  "ex_blocked c = \<lparr>a_free = [3..<20], a_ready = [0], a_waits = (\<lambda>_. [])(0x20002000 := [2]), a_run = Some 1,
     a_ctx = c, a_sem = (int_mem ex_machine)(0x20002000 \<mapsto> -1), a_base = 0x20002000\<rparr>"

definition ex_events :: "event list" where
  "ex_events = [Create (sys_state 1 0x20003000 0 0) ex_state, ex_int 0x200,
     Create (sys_state 1 0x20003000 0 0) ex_state, ex_int 0x200, ex_int 0x200, Syscall (sys_state 8 3 0 0)]"

definition ex_family :: ptree where
  "ex_family = PNode 0 [PNode 1 [PNode 2 []]]"

lemma ex_calls: "a_run A \<noteq> None \<Longrightarrow> calls n (sys_state n x y z) A"
  by (simp add: calls_def)

lemma ex_fork:
  "astep (ex_at (q # F) R p c, t) (Create (sys_state 1 0x20003000 0 0) ex_state)
     (Some (Exit_LDST (set_v0 0 (adv (sys_state 1 0x20003000 0 0))))) (ex_at F (R @ [q]) p (c(q := ex_state)), graft p q t)"
proof -
  have "a_fork ex_state (ex_at (q # F) R p c) = ex_at F (R @ [q]) p (c(q := ex_state))"
    by (simp add: a_fork_def ex_at_def)
  moreover have "wf_state ex_state" by (simp add: wf_state_def ex_state_def STATEREGNUM_def)
  ultimately show ?thesis
    using astep.create [OF ex_calls, of "ex_at (q # F) R p c" p q F ex_state "0x20003000" 0 0 t]
    by (simp add: ex_at_def area_defs)
qed

lemma ex_quantum:
  "astep (ex_at F (q # R) p c, t) (ex_int 0x200) (Some (a_exit (a_preempt (int_state 0x200) (ex_at F (q # R) p c))))
     (ex_at F (R @ [p]) q (c(p := int_state 0x200)), t)"
proof -
  have "a_dispatch (a_preempt (int_state 0x200) (ex_at F (q # R) p c)) = ex_at F (R @ [p]) q (c(p := int_state 0x200))"
    by (simp add: a_dispatch_def a_preempt_def ex_at_def)
  moreover have "getLineNumber 0x200 = 1" by (simp add: getLineNumber_def CHECK_BIT_def)
  ultimately show ?thesis
    using astep.quantum [of "int_state 0x200" "ex_at F (q # R) p c" "a_preempt (int_state 0x200) (ex_at F (q # R) p c)"]
    by (simp add: ex_at_def ex_int_def)
qed

lemma ex_disk:
  "\<exists>x c'. astep (ex_at [3..<20] [1, 0] 2 c, t) (Syscall (sys_state 8 3 0 0)) x (ex_blocked c', t)"
proof -
  let ?A = "ex_at [3..<20] [1, 0] 2 c" and ?st = "sys_state 8 3 0 0"
  have io: "io_args_ok ?st" "ioSem ?st = 0" by (simp_all add: io_args_ok_def ioSem_def io_index_def)
  have a: "devsem (a_base ?A) (ioSem ?st) = 0x20002000" by (simp add: io devsem_def ex_at_def)
  have v: "a_sem ?A 0x20002000 = Some 0" by (simp add: ex_at_def ex_machine_def NULL_def)
  have "a_dispatch (a_P 0x20002000 (adv ?st) ?A) = ex_blocked (c(2 := adv ?st))"
    using v by (simp add: a_dispatch_def a_P_def a_block_def a_setsem_def ex_at_def ex_blocked_def)
  moreover have "a_run ?A \<noteq> None" by (simp add: ex_at_def)
  ultimately show ?thesis
    using astep.wait_io [OF ex_calls io(1) a [symmetric] v, of _ t] by auto
qed

lemma ex_boot: "boot_spec ex_link ex_machine
    = (ex_at [1..<20] [] 0 (a_ctx (boot_abs ex_link ex_machine)), PNode 0 [])"
proof -
  have "zeroed 0x20002000 DEVSEMS (int_mem ex_machine) = int_mem ex_machine"
    using ex_machine_int by (auto simp: zeroed_def fun_eq_iff)
  moreover have "devSemTable_addr ex_machine = 0x20002000" by (simp add: ex_machine_def)
  ultimately show ?thesis by (simp add: boot_spec_def boot_abs_def a_dispatch_def ex_at_def MAXPROC_def)
qed

lemma ex_four:
  "\<exists>c. aruns (boot_spec ex_link ex_machine) (take 4 ex_events) (ex_at [3..<20] [2, 1] 0 c, ex_family)"
proof -
  have l: "[1..<20] = 1 # 2 # [3..<20]" by code_simp
  note 1 = ex_fork [of 1 "2 # [3..<20]" "[]" 0 _ "PNode 0 []", simplified]
  note 2 = ex_quantum [of "2 # [3..<20]" 1 "[]" 0 _ "PNode 0 [PNode 1 []]", simplified]
  note 3 = ex_fork [of 2 "[3..<20]" "[0]" 1 _ "PNode 0 [PNode 1 []]", simplified]
  note 4 = ex_quantum [of "[3..<20]" 0 "[2]" 1 _ ex_family, unfolded ex_family_def, simplified]
  have "take 4 ex_events = [Create (sys_state 1 0x20003000 0 0) ex_state, ex_int 0x200,
     Create (sys_state 1 0x20003000 0 0) ex_state, ex_int 0x200]" by (simp add: ex_events_def)
  then show ?thesis
    unfolding ex_boot l using aruns.event [OF 1 aruns.event [OF 2 aruns.event [OF 3
        aruns.event [OF 4 aruns.stop]]]] by (auto simp: ex_family_def)
qed

lemma aruns_append: "aruns \<sigma> es \<sigma>' \<Longrightarrow> aruns \<sigma>' fs \<sigma>'' \<Longrightarrow> aruns \<sigma> (es @ fs) \<sigma>''"
  by (induction rule: aruns.induct) (auto intro: aruns.event)

lemma ex_six: "\<exists>c. aruns (boot_spec ex_link ex_machine) ex_events (ex_blocked c, ex_family)"
proof -
  obtain c where c: "aruns (boot_spec ex_link ex_machine) (take 4 ex_events) (ex_at [3..<20] [2, 1] 0 c, ex_family)"
    using ex_four by blast
  have q: "\<exists>x. astep (ex_at [3..<20] [2, 1] 0 c, ex_family) (ex_int 0x200) x
      (ex_at [3..<20] [1, 0] 2 (c(0 := int_state 0x200)), ex_family)"
    using ex_quantum [of "[3..<20]" 2 "[1]" 0 c ex_family] by auto
  obtain x c' where "astep (ex_at [3..<20] [1, 0] 2 (c(0 := int_state 0x200)), ex_family)
      (Syscall (sys_state 8 3 0 0)) x (ex_blocked c', ex_family)" using ex_disk by blast
  with q have "aruns (ex_at [3..<20] [2, 1] 0 c, ex_family) [ex_int 0x200, Syscall (sys_state 8 3 0 0)]
      (ex_blocked c', ex_family)" by (blast intro: aruns.intros)
  from aruns_append [OF c this] show ?thesis by (auto simp: ex_events_def)
qed

section \<open>Properties\<close>

text \<open>
  C1. The whole nucleus refines its abstract system: startup loads the first process, and from then on
  every sequence of system calls and interrupts that the abstract system admits is handled
  without a fault and without an endless loop, and leads to a state that represents the
  abstract one: the queues, the saved states, the semaphores, the counters and the family tree.
\<close>

theorem nucleus_refines:
  assumes "mem_ok s" and "aruns (boot_spec L s) es (A, t)"
  shows "\<exists>st s0 s'. main L s = Some (Exit_LDST st, s0) \<and> kruns es s0 = Some s'
    \<and> krel s' A \<and> family (procTable s') t"
  using boot_runs [OF assms] by (auto simp: implements_def tree_ok_def boot_exit)

theorem nucleus_refines_witness:
  "\<exists>st s0 s'. main ex_link ex_machine = Some (Exit_LDST st, s0) \<and> kruns ex_events s0 = Some s'
    \<and> currentProcess s' = Some 1 \<and> family (procTable s') ex_family"
proof -
  obtain c where c: "aruns (boot_spec ex_link ex_machine) ex_events (ex_blocked c, ex_family)" using ex_six by blast
  show ?thesis using nucleus_refines [OF ex_machine_ok c] krelD(2) [of _ "ex_blocked c"]
    by (fastforce simp: ex_blocked_def)
qed

text \<open>
  C2. What holds in every state that the nucleus reaches from startup by events the abstract system
  admits (so without SYS 5 and exceptions that are passed up, and with SYS 2 only where the kill is
  orderly and leaves a process ready): the process counter is the number of processes in the
  family tree, the soft block counter the number of processes that wait for a device or the
  clock; the tree holds exactly the blocks that are not free; every block is in exactly one
  place (free, ready, running or waiting on a semaphore); and no device semaphore exceeds minus
  the number of processes that wait on it (it is less after SYS 2 has killed a waiting process).
\<close>

theorem nucleus_accounts:
  assumes "mem_ok s" and "aruns (boot_spec L s) es (A, t)"
    and "main L s = Some (x, s0)" and "kruns es s0 = Some s'"
  shows "processCount s' = int (length (members t))
    \<and> softBlockCount s' = int (soft (devSemTable_addr s') (a_waits A))
    \<and> family (procTable s') t \<and> mset (members t) + mset (a_free A) = mset [0..<MAXPROC]
    \<and> (\<forall>p<MAXPROC. length (filter id (block_places A p)) = 1)
    \<and> (\<forall>i<DEVSEMS. \<exists>v. int_mem s' (devSem_addr s' (int i)) = Some v
         \<and> sint v \<le> - int (length (a_waits A (devSem_addr s' (int i)))))"
proof -
  note D = implementsD [OF boot_reached [OF assms]]
  have m: "mset (members t) + mset (a_free A) = mset [0..<MAXPROC]" using D(2) by (simp add: tree_ok_def)
  have "length (members t) + length (a_free A) = MAXPROC" using arg_cong [OF m, of size] by simp
  then have "processCount s' = int (length (members t))" using krelD(8) [OF D(1)] by simp
  moreover have "\<forall>i<DEVSEMS. \<exists>v. int_mem s' (devSem_addr s' (int i)) = Some v
         \<and> sint v \<le> - int (length (a_waits A (devSem_addr s' (int i))))"
    using D(3) krelD(6,7) [OF D(1)] by (simp add: dev_sync_def devSem_addr_devsem)
  moreover have "softBlockCount s' = int (soft (devSemTable_addr s') (a_waits A))"
    using krelD(7,9) [OF D(1)] by simp
  ultimately show ?thesis using m D(2) krel_one_place [OF D(1)] by (simp only: tree_ok_def) blast
qed

theorem nucleus_accounts_witness:
  "\<exists>x s0 s'. main ex_link ex_machine = Some (x, s0) \<and> kruns ex_events s0 = Some s' \<and> processCount s' = 3"
proof -
  obtain c where c: "aruns (boot_spec ex_link ex_machine) ex_events (ex_blocked c, ex_family)" using ex_six by blast
  obtain s0 s' where s: "main ex_link ex_machine = Some (a_exit (boot_abs ex_link ex_machine), s0)"
    "kruns ex_events s0 = Some s'" using boot_runs [OF ex_machine_ok c] by blast
  show ?thesis using s nucleus_accounts [OF ex_machine_ok c s] by (auto simp: ex_family_def)
qed

text \<open>
  C3. Every state that the nucleus reaches from startup by events the abstract system admits (so
  without SYS 5 and exceptions that are passed up, and with SYS 2 only where the kill is orderly
  and leaves a process ready) is well typed: the pointers to the running process, the tail
  of the ready queue and the free list are NULL or point to a block of the table; the links of
  ready and free blocks are never NULL and stay within the table; the first child of a process points back to it; every
  saved state, in a block or in memory, has its 31 registers; the old and new areas and the device
  semaphores are mapped; and the divisor of the clock is not 0.
\<close>

theorem nucleus_well_typed:
  assumes "mem_ok s" and "aruns (boot_spec L s) es (A, t)"
    and "main L s = Some (x, s0)" and "kruns es s0 = Some s'"
  shows "block_ptr (currentProcess s') \<and> block_ptr (readyQue s') \<and> block_ptr (pcbFree_h s')
    \<and> (\<forall>p \<in> set (a_ready A) \<union> set (a_free A). \<forall>link \<in> {p_next, p_prev}. \<exists>q < MAXPROC. link (procTable s' p) = Some q)
    \<and> (\<forall>p \<in> set (members t). block_ptr (p_child (procTable s' p))
         \<and> (\<forall>c. p_child (procTable s' p) = Some c \<longrightarrow> p_prnt (procTable s' c) = Some p))
    \<and> (\<forall>p < MAXPROC. wf_state (p_s (procTable s' p))) \<and> (\<forall>a st. st_mem s' a = Some st \<longrightarrow> wf_state st)
    \<and> (\<forall>a \<in> kareas. \<exists>st. st_mem s' a = Some st) \<and> (\<forall>i < DEVSEMS. \<exists>v. int_mem s' (devSem_addr s' (int i)) = Some v)
    \<and> timescale (busreg s') \<noteq> 0"
proof -
  note D = implementsD [OF boot_reached [OF assms]]
  note Q = kqD(1,2) [OF krelD(1) [OF D(1)]]
  note M = mem_okD [OF krelD(10) [OF D(1)]]
  have "block_ptr (currentProcess s')" using krelD(2,4) [OF D(1)] by (auto simp: block_ptr_def)
  moreover have "block_ptr (readyQue s')" "block_ptr (pcbFree_h s')"
    using procq_tail_in [OF Q(2)] procq_tail_in [OF Q(1)] procq_table [OF Q(2)] procq_table [OF Q(1)]
    by (auto simp: block_ptr_def)
  moreover have "\<forall>p \<in> set (a_ready A) \<union> set (a_free A). \<forall>link \<in> {p_next, p_prev}. \<exists>q < MAXPROC. link (procTable s' p) = Some q"
    using procq_links [OF Q(1)] procq_links [OF Q(2)] procq_table [OF Q(1)] procq_table [OF Q(2)] by blast
  moreover have "family (procTable s') t" using D(2) by (simp add: tree_ok_def)
  ultimately show ?thesis
    using M family_links_typed by (auto simp: devSem_addr_devsem)
qed


theorem nucleus_well_typed_witness:
  "\<exists>x s0 s'. main ex_link ex_machine = Some (x, s0) \<and> kruns ex_events s0 = Some s' \<and> block_ptr (readyQue s')
    \<and> wf_state (p_s (procTable s' 2))"
proof -
  obtain c where c: "aruns (boot_spec ex_link ex_machine) ex_events (ex_blocked c, ex_family)" using ex_six by blast
  obtain s0 s' where s: "main ex_link ex_machine = Some (a_exit (boot_abs ex_link ex_machine), s0)"
    "kruns ex_events s0 = Some s'" using boot_runs [OF ex_machine_ok c] by blast
  show ?thesis using s nucleus_well_typed [OF ex_machine_ok c s] by (auto simp: MAXPROC_def)
qed

text \<open>
  C4. How handlers end, in every state reached by events that the abstract system admits and for every
  event that it admits there: never with HALT and never by falling off the end of the C code; with WAIT only when no
  process runs and some process waits for a device or the clock; and with PANIC exactly when no
  process runs and every process of the tree waits on a semaphore that is not a device's, which
  is deadlock.
\<close>

theorem nucleus_exits:
  assumes "mem_ok s" and "aruns (boot_spec L s) es (A, t)" and "astep (A, t) e x (A', t')"
    and "main L s = Some (x0, s0)" and "kruns es s0 = Some s1"
  shows "\<exists>y s'. handle e s1 = Some (y, s') \<and> currentProcess s' = a_run A'
    \<and> y \<noteq> Some Exit_HALT \<and> y \<noteq> Some Exit_return
    \<and> (y = Some Exit_WAIT \<longrightarrow> a_run A' = None \<and> 0 < softBlockCount s')
    \<and> (y = Some Exit_PANIC \<longleftrightarrow> a_run A' = None
         \<and> (\<forall>p\<in>set (members t'). \<exists>a. p \<in> set (a_waits A' a) \<and> \<not> is_dev (a_base A') a))"
proof -
  obtain y s' where s': "handle e s1 = Some (y, s')" "astep (A, t) e y (A', t')" "implements s' (A', t')"
    using simulation [OF assms(3) boot_reached [OF assms(1,2,4,5)]] by blast
  note D = implementsD [OF s'(3)]
  note c = krelD(2) [OF D(1)]
  from astep_ends [OF s'(2)] show ?thesis
  proof (elim disjE exE conjE)
    assume "a_run A' \<noteq> None" "y = None"
    then show ?thesis using s'(1) c by auto
  next
    fix st assume "a_run A' \<noteq> None" "y = Some (Exit_LDST st)"
    then show ?thesis using s'(1) c by auto
  next
    fix B assume B: "y = Some (a_exit B)" "A' = a_dispatch B" "a_run B = None"
    note ex = exit_of_dispatch [OF D(2) [unfolded B(2)] B(3)]
    show ?thesis
    proof (cases "a_ready B")
      case Nil
      have A': "A' = B" using ex(4) Nil B(2) by simp
      have "soft (a_base B) (a_waits B) = 0 \<longleftrightarrow>
          (\<forall>p\<in>set (members t'). \<exists>a. p \<in> set (a_waits B a) \<and> \<not> is_dev (a_base B) a)"
        using soft_members [OF D(1,2)] B(3) Nil unfolding A' by simp
      moreover have "softBlockCount s' = int (soft (a_base B) (a_waits B))" using krelD(9) [OF D(1)] unfolding A' .
      ultimately show ?thesis using s'(1) c ex(1,2,5,6) Nil B(1,3) unfolding A'
        by (intro exI [of _ y] exI [of _ s']) auto
    next
      case (Cons p ps)
      then have "a_run A' \<noteq> None" using ex(3) B(2) by simp
      then show ?thesis using s'(1) c ex(1,2,5,6) Cons B(1) by (intro exI [of _ y] exI [of _ s']) simp
    qed
  qed
qed

theorem nucleus_exits_witness:
  "\<exists>x0 s0 s'. main ex_link ex_machine = Some (x0, s0)
    \<and> handle (Syscall (sys_state 4 0x20001000 0 0)) s0 = Some (Some Exit_PANIC, s')"
proof -
  let ?st = "sys_state 4 0x20001000 0 0" and ?A = "ex_at [1..<20] [] 0 (a_ctx (boot_abs ex_link ex_machine))"
  let ?B = "a_P 0x20001000 (adv ?st) ?A"
  have v: "a_sem ?A 0x20001000 = Some 0" by (simp add: ex_at_def ex_machine_def NULL_def)
  have B: "a_run ?B = None" "a_ready ?B = []" "a_waits ?B = (\<lambda>_. [])(0x20001000 := [0])"
    "a_base ?B = 0x20002000" "a_dispatch ?B = ?B"
    using v by (simp_all add: a_P_def a_block_def a_setsem_def a_dispatch_def ex_at_def)
  have n: "\<not> is_dev 0x20002000 0x20001000" by (rule ex_range(2))
  have "astep (?A, PNode 0 []) (Syscall ?st) (Some (a_exit ?B)) (a_dispatch ?B, PNode 0 [])"
    by (rule astep.passeren_wait [where v = 0, OF ex_calls]) (use v n in \<open>simp_all add: ex_at_def MAXINT_def\<close>)
  note st = this [unfolded B(5)]
  have r: "aruns (boot_spec ex_link ex_machine) [] (?A, PNode 0 [])" unfolding ex_boot by (rule aruns.stop)
  obtain s0 where s0: "main ex_link ex_machine = Some (a_exit (boot_abs ex_link ex_machine), s0)"
    using main_implements [OF ex_machine_ok] by blast
  obtain y s' where "handle (Syscall ?st) s0 = Some (y, s')" "y = Some Exit_PANIC"
    using nucleus_exits [OF ex_machine_ok r st s0, of s0] B n by auto
  then show ?thesis using s0 by blast
qed

text \<open>
  C5. Round robin is fair: in every state with a running process that the nucleus reaches from startup
  by events the abstract system admits (so without SYS 5 and exceptions that are passed up, and
  with SYS 2 only where the kill is orderly and leaves a process ready), the process at position
  i of the ready queue runs after i + 1 ends of a quantum, when these are the next events.
\<close>

theorem ready_process_runs:
  assumes "mem_ok s" and "aruns (boot_spec L s) es (A, t)" and "main L s = Some (x, s0)"
    and "kruns es s0 = Some s1" and "a_run A \<noteq> None" and "i < length (a_ready A)"
    and "length qs = Suc i" and "\<forall>e\<in>set qs. is_quantum e"
  shows "\<exists>s'. kruns qs s1 = Some s' \<and> currentProcess s' = Some (a_ready A ! i)"
proof -
  obtain r where "a_run A = Some r" using assms(5) by auto
  from quanta_rotate [OF assms(8) this assms(6,7), of t] obtain B where
    B: "aruns (A, t) qs (B, t)" "a_run B = Some (a_ready A ! i)" by blast
  from runs_simulate [OF B(1) boot_reached [OF assms(1-4)]] obtain s' where
    "kruns qs s1 = Some s'" "implements s' (B, t)" by blast
  then show ?thesis using krelD(2) [OF implementsD(1)] B(2) by auto
qed

theorem ready_process_runs_witness:
  "\<exists>x s0 s1 s'. main ex_link ex_machine = Some (x, s0) \<and> kruns (take 4 ex_events) s0 = Some s1
    \<and> kruns [ex_int 0x200, ex_int 0x200] s1 = Some s' \<and> currentProcess s' = Some 1"
proof -
  obtain c where c: "aruns (boot_spec ex_link ex_machine) (take 4 ex_events) (ex_at [3..<20] [2, 1] 0 c, ex_family)"
    using ex_four by blast
  obtain s0 s1 where s: "main ex_link ex_machine = Some (a_exit (boot_abs ex_link ex_machine), s0)"
    "kruns (take 4 ex_events) s0 = Some s1" using boot_runs [OF ex_machine_ok c] by blast
  have q: "\<forall>e\<in>set [ex_int 0x200, ex_int 0x200]. is_quantum e"
    by (simp add: is_quantum_def ex_int_def getLineNumber_def CHECK_BIT_def)
  show ?thesis using s ready_process_runs [OF ex_machine_ok c s, of 1 "[ex_int 0x200, ex_int 0x200]"] q
    by (simp add: ex_at_def)
qed

text \<open>
  C6. SYS 2 leaves a device semaphore as it is when it kills a process that waits for the device
  (terminateRecursively increments only the others, expecting the interrupt to do it). But the
  interrupt handler takes a semaphore that is at most 0 to have a waiter: when all the
  processes that waited for a device have been killed, the interrupt of that device writes
  through the NULL that removeBlocked returns. So after any run from startup that the abstract system
  admits, SYS 2 of such a parent and then the interrupt of the device are a fault.
\<close>

theorem interrupt_after_kill_faults:
  assumes "mem_ok s" and "aruns (boot_spec L s) es (A, t)" and "main L s = Some (x, s0)"
    and "calls 2 st A" and "a_run A = Some (pid u)" and "u \<in> set (subtrees t)" and "pid u \<noteq> pid t"
    and "orderly (doomed u) A" and "\<exists>q\<in>set (a_ready A). q \<notin> set (doomed u)"
    and "signals l d st' f" and "b = devsem (a_base A) (sig_sem l d regs)"
    and "a_waits A b \<noteq> []" and "set (a_waits A b) \<subseteq> set (doomed u)"
  shows "kruns (es @ [Syscall st]) s0 \<noteq> None \<and> kruns (es @ [Syscall st, Interrupt st' f regs]) s0 = None"
proof -
  obtain s1 where s1: "kruns es s0 = Some s1" "implements s1 (A, t)" using boot_runs [OF assms(1,2)] assms(3) by auto
  note D = implementsD [OF s1(2)] and l = assms(10) [unfolded signals_def]
  let ?B = "a_terminate (pid u) (doomed u) A"
  have du: "distinct (doomed u)"
    using distinct_doomed [OF distinct_subtree [OF tree_ok_distinct(1) [OF D(2)] assms(6)]] .
  have dw: "distinct (a_waits A a)" for a by (rule kq_wait_distinct [OF krelD(1) [OF D(1)]])
  have "distinct (a_ready A)" using kq_distinct(1) [OF krelD(1) [OF D(1)]] by simp
  then have ready: "a_ready ?B \<noteq> []" using assms(9) by (auto simp: a_terminate_def a_kill_ready filter_empty_conv)
  obtain s2 where s2: "handle (Syscall st) s1 = Some (Some (a_exit ?B), s2)"
    "implements s2 (a_dispatch ?B, prune (pid u) t)"
    using step_terminate [OF s1(2) assms(4-8) refl ready] by blast
  have n: "sig_sem l d regs < DEVSEMS"
    using dev_indices(4) [of l d "s1\<lparr>busreg := (busreg s1)\<lparr>devreg := regs\<rparr>\<rparr>"] l by (simp add: dev_sem_def sig_sem_def)
  obtain v where v: "a_sem A b = Some v" "sint v \<le> - int (length (a_waits A b))"
    using D(3) n unfolding dev_sync_def assms(11) by blast
  have neg: "sint v < 0" using v(2) assms(12) by (cases "a_waits A b") auto
  have dev: "is_dev (a_base A) b" using n assms(11) by (auto simp: is_dev_def)
  have "a_waits ?B b = []" using assms(13) a_kill_waits [OF dw, of "doomed u" b]
    by (auto simp: a_terminate_def filter_empty_conv)
  then have W: "a_waits (a_dispatch ?B) b = []" by (simp add: a_dispatch_def split: list.splits)
  have "a_sem ?B b = Some v" using a_kill_sem [OF dw du, of b] dev v(1) by (simp add: a_terminate_def)
  then have S: "a_sem (a_dispatch ?B) b = Some v" by (simp add: a_dispatch_def split: list.splits)
  have "handle (Interrupt st' f regs) s2 = None"
    by (rule device_after_kill [OF s2(2) assms(10) _ W S neg]) (simp add: assms(11))
  then show ?thesis using s1(1) s2(1) by (simp add: kruns_append)
qed

theorem interrupt_after_kill_faults_witness:
  "\<exists>x s0. main ex_link ex_machine = Some (x, s0)
    \<and> kruns (ex_events @ [Syscall (sys_state 2 0 0 0)]) s0 \<noteq> None
    \<and> kruns (ex_events @ [Syscall (sys_state 2 0 0 0), ex_int 0x800]) s0 = None"
proof -
  obtain c where c: "aruns (boot_spec ex_link ex_machine) ex_events (ex_blocked c, ex_family)" using ex_six by blast
  obtain s0 where s: "main ex_link ex_machine = Some (a_exit (boot_abs ex_link ex_machine), s0)"
    using boot_runs [OF ex_machine_ok c] by blast
  let ?A = "ex_blocked c" and ?u = "PNode 1 [PNode 2 []]"
  let ?regs = "\<lambda>_ :: nat. \<lparr>d_status = 5, d_command = 0, d_data0 = 0, d_data1 = 0\<rparr>"
  have o: "orderly (doomed ?u) ?A" by (simp add: placed_def removable_def ex_blocked_def)
  have sg: "signals 3 0 (int_state 0x800) (\<lambda>_. 1)"
    by (simp add: signals_def getLineNumber_def CHECK_BIT_def lowestDevice_def)
  have n: "sig_sem 3 0 ?regs = 0"
    by (simp add: sig_sem_def from_receiver_def io_index_def)
  have "kruns (ex_events @ [Syscall (sys_state 2 0 0 0)]) s0 \<noteq> None
    \<and> kruns (ex_events @ [Syscall (sys_state 2 0 0 0), Interrupt (int_state 0x800) (\<lambda>_. 1) ?regs]) s0 = None"
    by (rule interrupt_after_kill_faults [OF ex_machine_ok c s ex_calls _ _ _ o _ sg refl])
      (simp_all add: ex_blocked_def ex_family_def n devsem_def)
  then show ?thesis using s unfolding ex_int_def by blast
qed

end
