(* ===== verification/P2_Properties.thy ===== *)
theory P2_Properties
  imports P2_Run Nucleus_Properties
begin

text \<open>
  What \<open>print\<close> of \<open>phase2/p2test.c\<close> does on the nucleus.
\<close>

text \<open>
  C10. print on the nucleus, on the schedule of tick (no quantum or clock interrupt; when every
  process waits, terminal 0 interrupts with status 5), when no other process is ready, nobody uses
  the terminal and term_mut is 1: the process transmits exactly the characters of the message, in
  order and one at a time. After each it waits first on the semaphore of the transmitter while no
  process is current, so only the interrupt of the terminal can bring the next. Then the process
  goes on with what follows, term_mut and every other variable as before.
\<close>

theorem print_prints:
  assumes "sees w m" "at w p l (print L msg @ k) fs" "w_ready w = []" "term_free w" "sem_ok w (g_addr L Term_mut) 1"
  shows "\<exists>n m'. ticks P n m = Some m' \<and> tout m' = tout m @ map print_cmd msg
    \<and> paced P (devsem (devSemTable_addr (kern m)) 32) p m msg n
    \<and> currentProcess (kern m') = Some p \<and> (\<exists>l'. conf m' p = (l', k) # fs) \<and> int_mem (kern m') = int_mem (kern m)"
proof -
  obtain n m' l' where n: "ticks P n m = Some m'" "sees (w_printed p l' k fs msg w) m'" "paced P (tdev w) p m msg n"
    using print_run [OF assms(1,2,5,3,4)] by blast
  have at: "at (w_printed p l' k fs msg w) p l' k fs" using assms(2) by simp
  have "int_mem (kern m') = int_mem (kern m)"
    using sees_view(1) [OF n(2) at] sees_view(1) [OF assms(1,2)] by (simp add: seen_def view_def)
  moreover have "tout m' = tout m @ map print_cmd msg" using n(2) assms(1) by (simp add: sees_def)
  moreover have "devSemTable_addr (kern m) = w_base w"
    using assms(1) krelD(7) by (fastforce simp: sees_def ak_def dest: implementsD(1))
  ultimately show ?thesis using n(1,3) sees_view(2,3) [OF n(2) at] by auto
qed

theorem print_prints_witness:
  "\<exists>m n m' j mj. ticks (p2_prog ex_p2) n m = Some m' \<and> tout m' = map print_cmd ''OK''
     \<and> j < n \<and> ticks (p2_prog ex_p2) j m = Some mj \<and> tout mj = map print_cmd ''O''
     \<and> currentProcess (kern mj) = None"
proof -
  obtain m w where b: "sees w m" "start ex_p2 (test ex_p2) w" "vars ex_p2 p2_init (\<lambda>_. []) w" "w_out w = []"
    using p2_boot_run [OF ex_p2_loaded] by blast
  let ?w = "goto 0 no_locals (print ex_p2 ''OK'' @ []) [] w"
  let ?m = "m\<lparr>conf := (conf m)(0 := (no_locals, print ex_p2 ''OK'' @ []) # [])\<rparr>"
  have "sees ?w ?m" by (rule sees_goto [OF b(1)])
  moreover have "at ?w 0 no_locals (print ex_p2 ''OK'' @ []) []" "w_ready ?w = []" "term_free ?w"
    using b(2) by (auto simp: start_def term_free_def)
  moreover have "sem_ok ?w (g_addr ex_p2 Term_mut) 1" using varsD(6) [OF b(3), of Term_mut] by (simp add: sem_ok_def)
  ultimately obtain n m' a where n: "ticks (p2_prog ex_p2) n ?m = Some m'" "tout m' = tout ?m @ map print_cmd ''OK''"
    and p: "paced (p2_prog ex_p2) a 0 ?m ''OK'' n"
    using print_prints [of ?w ?m 0 no_locals ex_p2 "''OK''" "[]" "[]" "p2_prog ex_p2"] by blast
  have t: "tout ?m = []" using b(1,4) by (simp add: sees_def)
  obtain ts where ts: "length ts = 2" "sorted_wrt (<) (ts @ [n])"
    "\<forall>i<2. \<exists>m'. ticks (p2_prog ex_p2) (ts ! i) ?m = Some m' \<and> waits_there a 0 m'
       \<and> tout m' = tout ?m @ map print_cmd (take (Suc i) ''OK'')"
    using p by (auto simp: paced_def numeral_2_eq_2)
  obtain mj where "ticks (p2_prog ex_p2) (ts ! 0) ?m = Some mj" "waits_there a 0 mj" "tout mj = map print_cmd ''O''"
    using ts(3) t by fastforce
  moreover have "ts ! 0 < n" using ts(1,2) by (auto simp: sorted_wrt_append)
  ultimately show ?thesis using n t unfolding waits_there_def by (intro exI [of _ ?m] exI conjI) auto
qed

end
