(* ===== verification/P1_Test.thy ===== *)
theory P1_Test
  imports Pcb_Tree Block_Places
begin

text \<open>
  The test program of phase 1, \<open>phase1/p1test.c\<close>: its terminal output, its message buffers and
  \<open>main2\<close>, which drives every operation of \<open>phase1/pcb.c\<close> and \<open>phase1/asl.c\<close> and stops with a panic
  at the first wrong answer.
\<close>

section \<open>State\<close>

text \<open>
  The globals of the test, the address of the array \<open>sem\<close> and of \<open>onesem\<close>, and the terminals:
  \<open>tstat t n\<close> is the \<open>n\<close>-th value read from the transmitter status register of terminal \<open>t\<close>, \<open>treads\<close>
  counts the reads and \<open>tcmds\<close> lists the commands written. \<open>mp\<close> is an index into \<open>okbuf\<close>.
\<close>

record p1_state = asl_store +
  okbuf :: "nat \<Rightarrow> char"
  errbuf :: "nat \<Rightarrow> char"
  mp :: nat
  procp :: "nat \<Rightarrow> pcb_PTR"
  var_p :: pcb_PTR
  var_qa :: pcb_PTR
  var_q :: pcb_PTR
  firstproc :: pcb_PTR
  lastproc :: pcb_PTR
  midproc :: pcb_PTR
  sem_base :: memaddr
  onesem :: memaddr
  tstat :: "nat \<Rightarrow> nat \<Rightarrow> word32"
  treads :: "nat \<Rightarrow> nat"
  tcmds :: "nat \<Rightarrow> word32 list"

definition MAXSEM :: nat where "MAXSEM = MAXPROC"

definition TRANSMITTED :: word32 where "TRANSMITTED = 5"
definition BUSY :: word32 where "BUSY = 3"
definition PRINTCHR :: word32 where "PRINTCHR = 2"
definition CHAROFFSET :: nat where "CHAROFFSET = 8"
definition STATUSMASK :: word32 where "STATUSMASK = 0xFF"

text \<open>\<open>&sem[i]\<close>.\<close>

definition sem_addr :: "p1_state \<Rightarrow> nat \<Rightarrow> memaddr" where
  "sem_addr s i = sem_base s + 4 * word_of_nat i"

section \<open>The terminal\<close>

definition termstat :: "nat \<Rightarrow> p1_state \<Rightarrow> word32 \<times> p1_state" where
  "termstat t s =
     (tstat s t (treads s t) AND STATUSMASK, s\<lparr>treads := (treads s)(t := Suc (treads s t))\<rparr>)"

text \<open>\<open>stat = termstat(statusp); while (stat == BUSY) stat = termstat(statusp);\<close>\<close>

partial_function (option) busyWait :: "nat \<Rightarrow> p1_state \<Rightarrow> (word32 \<times> p1_state) option" where
  "busyWait t s =
     (let (stat, s1) = termstat t s in if stat = BUSY then busyWait t s1 else Some (stat, s1))"

definition printCmd :: "char \<Rightarrow> word32" where
  "printCmd c = (push_bit CHAROFFSET (of_char c)) OR PRINTCHR"

text \<open>The print cycle: the value of \<open>error\<close> and the new state.\<close>

fun printCycle :: "string \<Rightarrow> nat \<Rightarrow> p1_state \<Rightarrow> (bool \<times> p1_state) option" where
  "printCycle [] t s = Some (False, s)"
| "printCycle (c # str) t s = do {
     (stat, s1) \<leftarrow> busyWait t (s\<lparr>tcmds := (tcmds s)(t := tcmds s t @ [printCmd c])\<rparr>);
     if stat \<noteq> TRANSMITTED then Some (True, s1) else printCycle str t s1
   }"

definition termprint :: "string \<Rightarrow> nat \<Rightarrow> p1_state \<Rightarrow> (bool \<times> p1_state) option" where
  "termprint str t s =
     (if t < DEVPERINT then
        let (stat, s1) = termstat t s
        in if stat = READY \<or> stat = TRANSMITTED
           then do { (error, s2) \<leftarrow> printCycle str t s1; Some (\<not> error, s2) }
           else Some (False, s1)
      else Some (False, s))"

section \<open>The message buffers\<close>

text \<open>\<open>*mp++ = c\<close>; a write after the end of the 2048 characters has no value.\<close>

definition putOk :: "char \<Rightarrow> p1_state \<Rightarrow> p1_state option" where
  "putOk c s = (if mp s < 2048 then Some (s\<lparr>okbuf := (okbuf s)(mp s := c), mp := mp s + 1\<rparr>) else None)"

fun copyOk :: "string \<Rightarrow> p1_state \<Rightarrow> p1_state option" where
  "copyOk [] s = putOk (CHR 0x00) s"
| "copyOk (c # str) s = do { s1 \<leftarrow> putOk c s; copyOk str s1 }"

definition addokbuf :: "string \<Rightarrow> p1_state \<Rightarrow> p1_state option" where
  "addokbuf strp s = do {
     s1 \<leftarrow> copyOk strp s;
     let s2 = s1\<lparr>mp := mp s1 - 1\<rparr>;
     (r, s3) \<leftarrow> termprint strp 0 s2;
     Some s3
   }"

fun copyErr :: "string \<Rightarrow> nat \<Rightarrow> p1_state \<Rightarrow> p1_state option" where
  "copyErr [] ep s = (if ep < 128 then Some (s\<lparr>errbuf := (errbuf s)(ep := CHR 0x00)\<rparr>) else None)"
| "copyErr (c # str) ep s =
     (if ep < 128 then copyErr str (ep + 1) (s\<lparr>errbuf := (errbuf s)(ep := c)\<rparr>) else None)"

text \<open>How the test ends: \<open>main2\<close> returns, or \<open>adderrbuf\<close> has called \<open>PANIC\<close>, which does not return.\<close>

datatype p1exit = P1_return | P1_PANIC

type_synonym p1out = "(p1exit \<times> p1_state) option"

definition adderrbuf :: "string \<Rightarrow> p1_state \<Rightarrow> p1out" where
  "adderrbuf strp s = do {
     s1 \<leftarrow> copyErr strp 0 s;
     (r, s2) \<leftarrow> termprint strp 0 s1;
     Some (P1_PANIC, s2)
   }"

section \<open>Control\<close>

text \<open>\<open>m; k\<close>, \<open>if (c) adderrbuf(msg); k\<close>, and \<open>for (i \<dots>) body\<close>.\<close>

definition pseq :: "p1out \<Rightarrow> (p1_state \<Rightarrow> p1out) \<Rightarrow> p1out" where
  "pseq m k = do { (e, s) \<leftarrow> m; (case e of P1_return \<Rightarrow> k s | P1_PANIC \<Rightarrow> Some (P1_PANIC, s)) }"

definition failIf :: "bool \<Rightarrow> string \<Rightarrow> p1_state \<Rightarrow> (p1_state \<Rightarrow> p1out) \<Rightarrow> p1out" where
  "failIf c msg s k = pseq (if c then adderrbuf msg s else Some (P1_return, s)) k"

definition finish :: "p1_state \<Rightarrow> p1out" where
  "finish s = Some (P1_return, s)"

fun pfor :: "(nat \<Rightarrow> p1_state \<Rightarrow> p1out) \<Rightarrow> nat list \<Rightarrow> p1_state \<Rightarrow> p1out" where
  "pfor f [] s = finish s"
| "pfor f (i # is) s = pseq (f i s) (pfor f is)"

abbreviation NL :: string where "NL \<equiv> [CHR 0x0A]"


section \<open>The test\<close>

text \<open>The bodies of the loops.\<close>

definition allocOne :: "nat \<Rightarrow> p1_state \<Rightarrow> p1out" where
  "allocOne i s = do {
     (r, s) \<leftarrow> allocPcb s;
     let s = s\<lparr>procp := (procp s)(i := r)\<rparr>;
     failIf (procp s i = None) ''allocPcb: unexpected NULL   '' s finish
   }"

definition freeOne :: "nat \<Rightarrow> p1_state \<Rightarrow> p1out" where
  "freeOne i s = do { s \<leftarrow> freePcb (procp s i) s; finish s }"

definition insertOne :: "nat \<Rightarrow> p1_state \<Rightarrow> p1out" where
  "insertOne i s = do {
     (r, s) \<leftarrow> allocPcb s;
     let s = s\<lparr>var_q := r\<rparr>;
     failIf (var_q s = None) ''allocPcb: unexpected NULL while insert   '' s (\<lambda>s. do {
       let s = (if i = 0 then s\<lparr>firstproc := var_q s\<rparr>
                else if i = 5 then s\<lparr>midproc := var_q s\<rparr>
                else if i = 9 then s\<lparr>lastproc := var_q s\<rparr> else s);
       (qa, s) \<leftarrow> insertProcQ (var_qa s) (var_q s) s;
       finish (s\<lparr>var_qa := qa\<rparr>)
     })
   }"

definition removeOne :: "nat \<Rightarrow> p1_state \<Rightarrow> p1out" where
  "removeOne i s = do {
     (r, qa, s) \<leftarrow> removeProcQ (var_qa s) s;
     let s = s\<lparr>var_qa := qa, var_q := r\<rparr>;
     failIf (var_q s = None) ''removeProcQ: unexpected NULL   '' s (\<lambda>s. do {
       s \<leftarrow> freePcb (var_q s) s;
       finish s
     })
   }"

definition adoptOne :: "nat \<Rightarrow> p1_state \<Rightarrow> p1out" where
  "adoptOne i s = do { s \<leftarrow> insertChild (procp s 0) (procp s i) s; finish s }"

definition orphanOne :: "nat \<Rightarrow> p1_state \<Rightarrow> p1out" where
  "orphanOne i s = do {
     (r, s) \<leftarrow> removeChild (procp s 0) s;
     let s = s\<lparr>var_q := r\<rparr>;
     failIf (var_q s = None) ''removeChild: unexpected NULL   '' s finish
   }"

definition blockOne :: "string \<Rightarrow> nat \<Rightarrow> p1_state \<Rightarrow> p1out" where
  "blockOne msg i s = do {
     (r, s) \<leftarrow> allocPcb s;
     let s = s\<lparr>procp := (procp s)(i := r)\<rparr>;
     (full, s) \<leftarrow> insertBlocked (sem_addr s i) (procp s i) s;
     failIf full msg s finish
   }"

definition moveOne :: "nat \<Rightarrow> p1_state \<Rightarrow> p1out" where
  "moveOne i s = do {
     (r, s) \<leftarrow> removeBlocked (sem_addr s i) s;
     let s = s\<lparr>var_q := r\<rparr>;
     failIf (var_q s = None) ''removeBlocked: wouldn't remove   '' s (\<lambda>s.
     failIf (var_q s \<noteq> procp s i) ''removeBlocked: removed wrong element   '' s (\<lambda>s. do {
       (full, s) \<leftarrow> insertBlocked (sem_addr s (i - 10)) (var_q s) s;
       failIf full ''insertBlocked(3): unexpected TRUE   '' s finish
     }))
   }"

text \<open>Allocation: all 20 blocks, then \<open>NULL\<close>; the last ten go back.\<close>

definition testAlloc :: "p1_state \<Rightarrow> p1out" where
  "testAlloc s = do {
     s \<leftarrow> initPcbs s;
     s \<leftarrow> addokbuf (''Initialized process control blocks   '' @ NL) s;
     pseq (pfor allocOne [0..<MAXPROC] s) (\<lambda>s. do {
     (r, s) \<leftarrow> allocPcb s;
     failIf (r \<noteq> None) ''allocPcb: allocated more than MAXPROC entries   '' s (\<lambda>s. do {
     s \<leftarrow> addokbuf (''allocPcb ok   '' @ NL) s;
     pseq (pfor freeOne [10..<MAXPROC] s) (\<lambda>s. do {
     s \<leftarrow> addokbuf (''freed 10 entries   '' @ NL) s;
     finish s }) }) })
   }"

text \<open>A queue of ten processes is filled.\<close>

definition testInsertQ :: "p1_state \<Rightarrow> p1out" where
  "testInsertQ s = (
     let s = s\<lparr>var_qa := None\<rparr>
     in failIf (\<not> emptyProcQ (var_qa s)) ''emptyProcQ: unexpected FALSE   '' s (\<lambda>s. do {
     s \<leftarrow> addokbuf (''Inserting...   '' @ NL) s;
     pseq (pfor insertOne [0..<10] s) (\<lambda>s. do {
     s \<leftarrow> addokbuf (''inserted 10 elements   '' @ NL) s;
     failIf (emptyProcQ (var_qa s)) ''emptyProcQ: unexpected TRUE'' s finish }) }))"

text \<open>\<open>headProcQ\<close> and \<open>outProcQ\<close>: the first, a middle and an absent element.\<close>

definition testOutQ :: "p1_state \<Rightarrow> p1out" where
  "testOutQ s = do {
     h \<leftarrow> headProcQ (var_qa s) s;
     failIf (h \<noteq> firstproc s) ''headProcQ failed   '' s (\<lambda>s. do {
     (r, qa, s) \<leftarrow> outProcQ (var_qa s) (firstproc s) s;
     let s = s\<lparr>var_qa := qa, var_q := r\<rparr>;
     failIf (var_q s = None \<or> var_q s \<noteq> firstproc s) ''outProcQ failed on first entry   '' s (\<lambda>s. do {
     s \<leftarrow> freePcb (var_q s) s;
     (r, qa, s) \<leftarrow> outProcQ (var_qa s) (midproc s) s;
     let s = s\<lparr>var_qa := qa, var_q := r\<rparr>;
     failIf (var_q s = None \<or> var_q s \<noteq> midproc s) ''outProcQ failed on middle entry   '' s (\<lambda>s. do {
     s \<leftarrow> freePcb (var_q s) s;
     (r, qa, s) \<leftarrow> outProcQ (var_qa s) (procp s 0) s;
     let s = s\<lparr>var_qa := qa\<rparr>;
     failIf (r \<noteq> None) ''outProcQ failed on nonexistent entry   '' s (\<lambda>s. do {
     s \<leftarrow> addokbuf (''outProcQ ok   '' @ NL) s;
     finish s }) }) }) })
   }"

text \<open>\<open>removeProcQ\<close> takes the rest, in order.\<close>

definition testRemoveQ :: "p1_state \<Rightarrow> p1out" where
  "testRemoveQ s = do {
     s \<leftarrow> addokbuf (''Removing...   '' @ NL) s;
     pseq (pfor removeOne [0..<8] s) (\<lambda>s.
     failIf (var_q s \<noteq> lastproc s) ''removeProcQ: failed on last entry   '' s (\<lambda>s. do {
     (r, qa, s) \<leftarrow> removeProcQ (var_qa s) s;
     let s = s\<lparr>var_qa := qa\<rparr>;
     failIf (r \<noteq> None) ''removeProcQ: removes too many entries   '' s (\<lambda>s.
     failIf (\<not> emptyProcQ (var_qa s)) ''emptyProcQ: unexpected FALSE   '' s (\<lambda>s. do {
     s \<leftarrow> addokbuf (''insertProcQ, removeProcQ and emptyProcQ ok   '' @ NL) s;
     s \<leftarrow> addokbuf (''process queues module ok      '' @ NL) s;
     finish s })) }))
   }"

text \<open>Nine children of \<open>procp[0]\<close>, taken out by \<open>outChild\<close> and \<open>removeChild\<close>.\<close>

definition testTree :: "p1_state \<Rightarrow> p1out" where
  "testTree s = do {
     s \<leftarrow> addokbuf (''checking process trees...'' @ NL) s;
     e \<leftarrow> emptyChild (procp s 2) s;
     failIf (\<not> e) ''emptyChild: unexpected FALSE   '' s (\<lambda>s. do {
     s \<leftarrow> addokbuf (''Inserting...   '' @ NL) s;
     pseq (pfor adoptOne [1..<10] s) (\<lambda>s. do {
     s \<leftarrow> addokbuf (''Inserted 9 children   '' @ NL) s;
     e \<leftarrow> emptyChild (procp s 0) s;
     failIf e ''emptyChild: unexpected TRUE   '' s (\<lambda>s. do {
     (r, s) \<leftarrow> outChild (procp s 1) s;
     let s = s\<lparr>var_q := r\<rparr>;
     failIf (var_q s = None \<or> var_q s \<noteq> procp s 1) ''outChild failed on first child   '' s (\<lambda>s. do {
     (r, s) \<leftarrow> outChild (procp s 4) s;
     let s = s\<lparr>var_q := r\<rparr>;
     failIf (var_q s = None \<or> var_q s \<noteq> procp s 4) ''outChild failed on middle child   '' s (\<lambda>s. do {
     (r, s) \<leftarrow> outChild (procp s 0) s;
     failIf (r \<noteq> None) ''outChild failed on nonexistent child   '' s (\<lambda>s. do {
     s \<leftarrow> addokbuf (''outChild ok   '' @ NL) s;
     finish s }) }) }) }) }) })
   }"

definition testRemoveChild :: "p1_state \<Rightarrow> p1out" where
  "testRemoveChild s = do {
     s \<leftarrow> addokbuf (''Removing...   '' @ NL) s;
     pseq (pfor orphanOne [0..<7] s) (\<lambda>s. do {
     (r, s) \<leftarrow> removeChild (procp s 0) s;
     failIf (r \<noteq> None) ''removeChild: removes too many children   '' s (\<lambda>s. do {
     e \<leftarrow> emptyChild (procp s 0) s;
     failIf (\<not> e) ''emptyChild: unexpected FALSE   '' s (\<lambda>s. do {
     s \<leftarrow> addokbuf (''insertChild, removeChild and emptyChild ok   '' @ NL) s;
     s \<leftarrow> addokbuf (''process tree module ok      '' @ NL) s;
     pfor freeOne [0..<10] s }) }) })
   }"

text \<open>Every process blocks on a semaphore of its own; a 21st semaphore finds no descriptor.\<close>

definition testInsertBlocked :: "p1_state \<Rightarrow> p1out" where
  "testInsertBlocked s = do {
     s \<leftarrow> initASL s;
     s \<leftarrow> addokbuf (''Initialized active semaphore list   '' @ NL) s;
     s \<leftarrow> addokbuf (''insertBlocked test #1 started  '' @ NL) s;
     pseq (pfor (blockOne ''insertBlocked(1): unexpected TRUE   '') [10..<MAXPROC] s) (\<lambda>s. do {
     s \<leftarrow> addokbuf (''insertBlocked test #2 started  '' @ NL) s;
     pseq (pfor (blockOne ''insertBlocked(2): unexpected TRUE   '') [0..<10] s) (\<lambda>s. do {
     (r, s) \<leftarrow> removeBlocked (sem_addr s 11) s;
     let s = s\<lparr>var_p := r\<rparr>;
     (full, s) \<leftarrow> insertBlocked (sem_addr s 11) (var_p s) s;
     failIf full ''removeBlocked: fails to return to free list   '' s (\<lambda>s. do {
     (full, s) \<leftarrow> insertBlocked (onesem s) (procp s 9) s;
     failIf (\<not> full) ''insertBlocked: inserted more than MAXPROC   '' s finish }) }) })
   }"

text \<open>The processes of the upper ten semaphores move to the lower ten.\<close>

definition testRemoveBlocked :: "p1_state \<Rightarrow> p1out" where
  "testRemoveBlocked s = do {
     s \<leftarrow> addokbuf (''removeBlocked test started   '' @ NL) s;
     pseq (pfor moveOne [10..<MAXPROC] s) (\<lambda>s. do {
     (r, s) \<leftarrow> removeBlocked (sem_addr s 11) s;
     failIf (r \<noteq> None) ''removeBlocked: removed nonexistent blocked proc   '' s (\<lambda>s. do {
     s \<leftarrow> addokbuf (''insertBlocked and removeBlocked ok   '' @ NL) s;
     finish s }) })
   }"

text \<open>\<open>headBlocked\<close> and \<open>outBlocked\<close> on the two processes of \<open>sem[9]\<close>.\<close>

definition testOutBlocked :: "p1_state \<Rightarrow> p1out" where
  "testOutBlocked s = do {
     h \<leftarrow> headBlocked (sem_addr s 11) s;
     failIf (h \<noteq> None) ''headBlocked: nonNULL for a nonexistent queue   '' s (\<lambda>s. do {
     h \<leftarrow> headBlocked (sem_addr s 9) s;
     let s = s\<lparr>var_q := h\<rparr>;
     failIf (var_q s = None) ''headBlocked(1): NULL for an existent queue   '' s (\<lambda>s.
     failIf (var_q s \<noteq> procp s 9) ''headBlocked(1): wrong process returned   '' s (\<lambda>s. do {
     (r, s) \<leftarrow> outBlocked (var_q s) s;
     let s = s\<lparr>var_p := r\<rparr>;
     failIf (var_p s \<noteq> var_q s) ''outBlocked(1): couldn't remove from valid queue   '' s (\<lambda>s. do {
     h \<leftarrow> headBlocked (sem_addr s 9) s;
     let s = s\<lparr>var_q := h\<rparr>;
     failIf (var_q s = None) ''headBlocked(2): NULL for an existent queue   '' s (\<lambda>s.
     failIf (var_q s \<noteq> procp s 19) ''headBlocked(2): wrong process returned   '' s (\<lambda>s. do {
     (r, s) \<leftarrow> outBlocked (var_q s) s;
     let s = s\<lparr>var_p := r\<rparr>;
     failIf (var_p s \<noteq> var_q s) ''outBlocked(2): couldn't remove from valid queue   '' s (\<lambda>s. do {
     (r, s) \<leftarrow> outBlocked (var_q s) s;
     let s = s\<lparr>var_p := r\<rparr>;
     failIf (var_p s \<noteq> None) ''outBlocked: removed same process twice.'' s (\<lambda>s. do {
     h \<leftarrow> headBlocked (sem_addr s 9) s;
     failIf (h \<noteq> None) ''out/headBlocked: unexpected nonempty queue   '' s (\<lambda>s. do {
     s \<leftarrow> addokbuf (''headBlocked and outBlocked ok   '' @ NL) s;
     s \<leftarrow> addokbuf (''ASL module ok   '' @ NL) s;
     s \<leftarrow> addokbuf (''So Long and Thanks for All the Fish'' @ NL) s;
     finish s }) }) }) })) }) })) })
   }"

definition main2 :: "p1_state \<Rightarrow> p1out" where
  "main2 s =
     pseq (testAlloc s) (\<lambda>s.
     pseq (testInsertQ s) (\<lambda>s.
     pseq (testOutQ s) (\<lambda>s.
     pseq (testRemoveQ s) (\<lambda>s.
     pseq (testTree s) (\<lambda>s.
     pseq (testRemoveChild s) (\<lambda>s.
     pseq (testInsertBlocked s) (\<lambda>s.
     pseq (testRemoveBlocked s) testOutBlocked)))))))"


section \<open>Output\<close>

text \<open>The messages so far, and a terminal 0 that is never busy for ever.\<close>

definition okmsg :: "p1_state \<Rightarrow> string" where
  "okmsg s = map (okbuf s) [0..<mp s]"

definition fair :: "nat \<Rightarrow> p1_state \<Rightarrow> bool" where
  "fair t s \<longleftrightarrow> (\<forall>n. \<exists>m\<ge>n. tstat s t m AND STATUSMASK \<noteq> BUSY)"

lemma busyWait_run:
  assumes "fair t s"
  shows "\<exists>stat tr. busyWait t s = Some (stat, s\<lparr>treads := tr\<rparr>)"
proof -
  obtain m where m: "treads s t \<le> m" "tstat s t m AND STATUSMASK \<noteq> BUSY"
    using assms unfolding fair_def by blast
  have "\<exists>stat tr. busyWait t s = Some (stat, s\<lparr>treads := tr\<rparr>)"
    if "treads s t + k = m" for k
    using that m(2)
  proof (induction k arbitrary: s)
    case 0
    then have "busyWait t s = Some (tstat s t m AND STATUSMASK, s\<lparr>treads := (treads s)(t := Suc m)\<rparr>)"
      by (subst busyWait.simps) (simp add: termstat_def)
    then show ?case by blast
  next
    case (Suc k)
    let ?s = "s\<lparr>treads := (treads s)(t := Suc (treads s t))\<rparr>"
    have "\<exists>stat tr. busyWait t ?s = Some (stat, ?s\<lparr>treads := tr\<rparr>)"
      using Suc.prems by (intro Suc.IH) simp_all
    then show ?case by (subst busyWait.simps) (auto simp: termstat_def)
  qed
  from this [of "m - treads s t"] m(1) show ?thesis by simp
qed

lemma printCycle_run:
  "fair t s \<Longrightarrow> \<exists>e tr tc. printCycle str t s = Some (e, s\<lparr>treads := tr, tcmds := tc\<rparr>)"
proof (induction str arbitrary: s)
  case Nil
  show ?case by (intro exI [of _ False] exI [of _ "treads s"] exI [of _ "tcmds s"]) simp
next
  case (Cons c str)
  let ?s = "s\<lparr>tcmds := (tcmds s)(t := tcmds s t @ [printCmd c])\<rparr>"
  have "fair t ?s" using Cons.prems by (simp add: fair_def)
  then obtain stat tr where b: "busyWait t ?s = Some (stat, ?s\<lparr>treads := tr\<rparr>)"
    using busyWait_run by blast
  have "fair t (?s\<lparr>treads := tr\<rparr>)" using Cons.prems by (simp add: fair_def)
  then obtain e tr' tc' where p: "printCycle str t (?s\<lparr>treads := tr\<rparr>)
      = Some (e, ?s\<lparr>treads := tr, treads := tr', tcmds := tc'\<rparr>)"
    using Cons.IH by blast
  have eq: "printCycle (c # str) t s =
      (if stat \<noteq> TRANSMITTED then Some (True, ?s\<lparr>treads := tr\<rparr>) else printCycle str t (?s\<lparr>treads := tr\<rparr>))"
    using b by simp
  have "?s\<lparr>treads := tr\<rparr> = s\<lparr>treads := tr, tcmds := (tcmds s)(t := tcmds s t @ [printCmd c])\<rparr>"
    "?s\<lparr>treads := tr, treads := tr', tcmds := tc'\<rparr> = s\<lparr>treads := tr', tcmds := tc'\<rparr>" by simp_all
  then show ?case unfolding eq p by (metis (full_types))
qed

lemma termprint_run:
  assumes "fair t s"
  shows "\<exists>e tr tc. termprint str t s = Some (e, s\<lparr>treads := tr, tcmds := tc\<rparr>)"
proof -
  have self: "\<exists>tr tc. s\<lparr>treads := u\<rparr> = s\<lparr>treads := tr, tcmds := tc\<rparr>" "\<exists>tr tc. s = s\<lparr>treads := tr, tcmds := tc\<rparr>"
    for u by (rule exI [of _ u], rule exI [of _ "tcmds s"], simp)
      (rule exI [of _ "treads s"], rule exI [of _ "tcmds s"], simp)
  let ?s = "s\<lparr>treads := (treads s)(t := Suc (treads s t))\<rparr>"
  have "fair t ?s" using assms by (simp add: fair_def)
  from printCycle_run [OF this, of str] obtain e tr tc where
    "printCycle str t ?s = Some (e, s\<lparr>treads := tr, tcmds := tc\<rparr>)" by auto
  then show ?thesis using self by (auto simp: termprint_def termstat_def Let_def)
qed

lemma copyOk_run:
  assumes "mp s + length str < 2048"
  shows "\<exists>ob. copyOk str s = Some (s\<lparr>okbuf := ob, mp := mp s + length str + 1\<rparr>)
    \<and> map ob [0..<mp s + length str] = okmsg s @ str \<and> ob (mp s + length str) = CHR 0x00"
  using assms
proof (induction str arbitrary: s)
  case Nil
  then show ?case by (auto simp: putOk_def okmsg_def intro!: exI [of _ "(okbuf s)(mp s := CHR 0x00)"])
next
  case (Cons c str)
  let ?s = "s\<lparr>okbuf := (okbuf s)(mp s := c), mp := mp s + 1\<rparr>"
  have "okmsg ?s = okmsg s @ [c]" by (simp add: okmsg_def)
  with Cons.IH [of ?s] Cons.prems show ?case by (auto simp: putOk_def)
qed

text \<open>
  A progress message changes the message buffer and the terminal only.
\<close>

definition talked :: "p1_state \<Rightarrow> p1_state \<Rightarrow> bool" where
  "talked s s' \<longleftrightarrow> (\<exists>ob n tr tc. s' = s\<lparr>okbuf := ob, mp := n, treads := tr, tcmds := tc\<rparr>)"

lemma talkedD:
  assumes "talked s s'"
  shows "procTable s' = procTable s" "pcbFree_h s' = pcbFree_h s" "semdTable s' = semdTable s"
    "semd_h s' = semd_h s" "semdFree_h s' = semdFree_h s" "procp s' = procp s" "var_p s' = var_p s"
    "var_qa s' = var_qa s" "var_q s' = var_q s" "firstproc s' = firstproc s" "lastproc s' = lastproc s"
    "midproc s' = midproc s" "sem_base s' = sem_base s" "onesem s' = onesem s" "tstat s' = tstat s"
  using assms by (auto simp: talked_def)

text \<open>What has been said so far, with room for more.\<close>

definition said :: "p1_state \<Rightarrow> string \<Rightarrow> bool" where
  "said s msg \<longleftrightarrow> fair 0 s \<and> okmsg s = msg"

lemma addokbuf_run:
  assumes "said s msg" and "length msg + length str < 2048"
  shows "\<exists>s'. addokbuf str s = Some s' \<and> talked s s' \<and> said s' (msg @ str)
    \<and> okbuf s' (length (msg @ str)) = CHR 0x00"
proof -
  have mp: "mp s = length msg" and fair: "fair 0 s" and m: "okmsg s = msg"
    using assms(1) by (auto simp: said_def okmsg_def)
  obtain ob where ob: "copyOk str s = Some (s\<lparr>okbuf := ob, mp := mp s + length str + 1\<rparr>)"
    "map ob [0..<mp s + length str] = okmsg s @ str" "ob (mp s + length str) = CHR 0x00"
    using copyOk_run [of s str] assms(2) mp by auto
  let ?s = "s\<lparr>okbuf := ob, mp := mp s + length str\<rparr>"
  have "fair 0 ?s" using fair by (simp add: fair_def)
  then obtain e tr tc where tp: "termprint str 0 ?s = Some (e, ?s\<lparr>treads := tr, tcmds := tc\<rparr>)"
    using termprint_run by blast
  let ?s' = "?s\<lparr>treads := tr, tcmds := tc\<rparr>"
  have "addokbuf str s = Some ?s'" using ob(1) tp by (simp add: addokbuf_def)
  moreover have "talked s ?s'" unfolding talked_def by blast
  moreover have "said ?s' (msg @ str)" using fair ob(2) m by (simp add: said_def okmsg_def fair_def)
  ultimately show ?thesis using ob(3) mp by auto
qed

lemma pseq_simps [simp]:
  "pseq (Some (P1_return, s)) k = k s" "pseq (finish s) k = k s" "pseq (Some (P1_PANIC, s)) k = Some (P1_PANIC, s)"
  "failIf False msg s k = k s"
  by (simp_all add: pseq_def finish_def failIf_def)

lemma pfor_upt:
  assumes "a \<le> b" "I a s"
    and "\<And>i t. a \<le> i \<Longrightarrow> i < b \<Longrightarrow> I i t \<Longrightarrow> \<exists>t'. f i t = finish t' \<and> I (Suc i) t'"
  shows "\<exists>t. pfor f [a..<b] s = finish t \<and> I b t"
proof -
  have "\<exists>t. pfor f [a..<b] s = finish t \<and> I b t" if "a \<le> b" "I a s" "d = b - a"
      "\<And>i t. a \<le> i \<Longrightarrow> i < b \<Longrightarrow> I i t \<Longrightarrow> \<exists>t'. f i t = finish t' \<and> I (Suc i) t'" for d a s
    using that
  proof (induction d arbitrary: a s)
    case (Suc d)
    then obtain t where t: "f a s = finish t" "I (Suc a) t" by force
    have "\<exists>t'. pfor f [Suc a..<b] t = finish t' \<and> I b t'"
      using Suc.prems t(2) by (intro Suc.IH) auto
    moreover have "[a..<b] = a # [Suc a..<b]" using Suc.prems(3) by (simp add: upt_conv_Cons)
    ultimately show ?case using t(1) by simp
  qed auto
  from this [OF assms(1,2) refl assms(3)] show ?thesis .
qed


section \<open>The queues\<close>

text \<open>
  During the first half: where the blocks are, whether (\<open>u\<close>) none of them shows an old
  relationship, and what has been said. \<open>env\<close> is what never changes.
\<close>

definition env :: "p1_state \<Rightarrow> memaddr \<times> memaddr" where
  "env s = (sem_base s, onesem s)"

definition pinv :: "bool \<Rightarrow> p1_state \<Rightarrow> pcb_PTR \<Rightarrow> nat list \<Rightarrow> nat list \<Rightarrow> nat list \<Rightarrow> string \<Rightarrow> bool" where
  "pinv u s tp F R H msg \<longleftrightarrow>
     pool s tp F R (mset H) \<and> (u \<longrightarrow> (\<forall>y<MAXPROC. unrelated (procTable s y))) \<and> said s msg"

lemma said_upd [simp]:
  "said (s\<lparr>procTable := T\<rparr>) msg = said s msg" "said (s\<lparr>pcbFree_h := h\<rparr>) msg = said s msg"
  "said (s\<lparr>semdTable := S\<rparr>) msg = said s msg" "said (s\<lparr>semd_h := h\<rparr>) msg = said s msg"
  "said (s\<lparr>semdFree_h := h\<rparr>) msg = said s msg"
  "said (s\<lparr>procp := f\<rparr>) msg = said s msg" "said (s\<lparr>var_p := x\<rparr>) msg = said s msg"
  "said (s\<lparr>var_qa := x\<rparr>) msg = said s msg" "said (s\<lparr>var_q := x\<rparr>) msg = said s msg"
  "said (s\<lparr>firstproc := x\<rparr>) msg = said s msg" "said (s\<lparr>midproc := x\<rparr>) msg = said s msg"
  "said (s\<lparr>lastproc := x\<rparr>) msg = said s msg"
  by (simp_all add: said_def okmsg_def fair_def)

lemma pool_upd [simp]:
  "pool (s\<lparr>procp := f\<rparr>) tp F R M = pool s tp F R M" "pool (s\<lparr>var_p := x\<rparr>) tp F R M = pool s tp F R M"
  "pool (s\<lparr>var_qa := x\<rparr>) tp F R M = pool s tp F R M" "pool (s\<lparr>var_q := x\<rparr>) tp F R M = pool s tp F R M"
  "pool (s\<lparr>firstproc := x\<rparr>) tp F R M = pool s tp F R M" "pool (s\<lparr>midproc := x\<rparr>) tp F R M = pool s tp F R M"
  "pool (s\<lparr>lastproc := x\<rparr>) tp F R M = pool s tp F R M"
  by (simp_all add: pool_def)

lemma pinv_upd [simp]:
  "pinv u (s\<lparr>procp := f\<rparr>) tp F R H msg = pinv u s tp F R H msg"
  "pinv u (s\<lparr>var_p := x\<rparr>) tp F R H msg = pinv u s tp F R H msg"
  "pinv u (s\<lparr>var_qa := x\<rparr>) tp F R H msg = pinv u s tp F R H msg"
  "pinv u (s\<lparr>var_q := x\<rparr>) tp F R H msg = pinv u s tp F R H msg"
  "pinv u (s\<lparr>firstproc := x\<rparr>) tp F R H msg = pinv u s tp F R H msg"
  "pinv u (s\<lparr>midproc := x\<rparr>) tp F R H msg = pinv u s tp F R H msg"
  "pinv u (s\<lparr>lastproc := x\<rparr>) tp F R H msg = pinv u s tp F R H msg"
  by (simp_all add: pinv_def)

lemma env_upd [simp]:
  "env (s\<lparr>procTable := T\<rparr>) = env s" "env (s\<lparr>pcbFree_h := h\<rparr>) = env s"
  "env (s\<lparr>semdTable := S\<rparr>) = env s" "env (s\<lparr>semd_h := h\<rparr>) = env s" "env (s\<lparr>semdFree_h := h\<rparr>) = env s"
  "env (s\<lparr>procp := f\<rparr>) = env s" "env (s\<lparr>var_p := x\<rparr>) = env s" "env (s\<lparr>var_qa := x\<rparr>) = env s"
  "env (s\<lparr>var_q := x\<rparr>) = env s" "env (s\<lparr>firstproc := x\<rparr>) = env s" "env (s\<lparr>midproc := x\<rparr>) = env s"
  "env (s\<lparr>lastproc := x\<rparr>) = env s" "talked s s' \<Longrightarrow> env s' = env s"
  by (simp_all add: env_def talkedD)

lemma pinv_talk:
  assumes "pinv u s tp F R H msg" "length msg + length str < 2048"
  shows "\<exists>s'. addokbuf str s = Some s' \<and> talked s s' \<and> pinv u s' tp F R H (msg @ str)"
proof -
  obtain s' where s': "addokbuf str s = Some s'" "talked s s'" "said s' (msg @ str)"
    using addokbuf_run assms unfolding pinv_def by blast
  have "pool s' tp F R (mset H)"
    by (rule pool_cong [where s = s]) (use assms(1) talkedD [OF s'(2)] in \<open>auto simp: pinv_def\<close>)
  then have "pinv u s' tp F R H (msg @ str)" using assms(1) s' talkedD [OF s'(2)] by (simp add: pinv_def)
  with s' show ?thesis by blast
qed

lemma pinv_qframe:
  assumes "pinv u s tp F R H msg" "qframe A (procTable s) T'" "pool (s\<lparr>procTable := T'\<rparr>) tp' F' R' (mset H')"
  shows "pinv u (s\<lparr>procTable := T'\<rparr>) tp' F' R' H' msg"
  using assms by (simp add: pinv_def unrelated_qframe [OF assms(2)])

lemma pinv_hand: "pinv u s tp F R H msg \<Longrightarrow> mset H = mset H' \<Longrightarrow> pinv u s tp F R H' msg"
  by (simp add: pinv_def)

lemma pinv_pool: "pinv u s tp F R H msg \<Longrightarrow> pool s tp F R (mset H)"
  by (simp add: pinv_def)

lemma pinv_alloc:
  assumes "pinv u s tp (p # F) R H msg"
  shows "\<exists>T' h. allocPcb s = Some (Some p, s\<lparr>procTable := T', pcbFree_h := h\<rparr>)
    \<and> pinv u (s\<lparr>procTable := T', pcbFree_h := h\<rparr>) tp F R (p # H) msg"
proof -
  have "pool s tp (p # F) R (mset H)" using assms by (simp add: pinv_def)
  from pool_alloc [OF this] obtain T' h where
    1: "allocPcb s = Some (Some p, s\<lparr>procTable := T', pcbFree_h := h\<rparr>)"
    "pool (s\<lparr>procTable := T', pcbFree_h := h\<rparr>) tp F R (add_mset p (mset H))"
    and fr: "qframe (set F) ((procTable s)(p := clean_pcb (procTable s p))) T'" by blast
  then have "pinv u (s\<lparr>procTable := T', pcbFree_h := h\<rparr>) tp F R (p # H) msg"
    using assms by (simp add: pinv_def unrelated_qframe [OF fr])
  with 1 show ?thesis by blast
qed

lemma pinv_free:
  assumes "pinv u s tp F R H msg" "p \<in> set H"
  shows "\<exists>T'. freePcb (Some p) s = Some (s\<lparr>procTable := T', pcbFree_h := Some p\<rparr>)
    \<and> pinv u (s\<lparr>procTable := T', pcbFree_h := Some p\<rparr>) tp (F @ [p]) R (remove1 p H) msg"
proof -
  have H: "mset H = add_mset p (mset (remove1 p H))" using assms(2) by simp
  have "pool s tp F R (add_mset p (mset (remove1 p H)))"
    using pinv_pool [OF assms(1)] unfolding H .
  from pool_free [OF this] obtain T' where
    1: "freePcb (Some p) s = Some (s\<lparr>procTable := T', pcbFree_h := Some p\<rparr>)"
    "pool (s\<lparr>procTable := T', pcbFree_h := Some p\<rparr>) tp (F @ [p]) R (mset (remove1 p H))"
    and fr: "qframe (insert p (set F)) ((procTable s)(p := clean_pcb (procTable s p))) T'" by (elim exE conjE) (rule that)
  then have "pinv u (s\<lparr>procTable := T', pcbFree_h := Some p\<rparr>) tp (F @ [p]) R (remove1 p H) msg"
    using assms by (simp add: pinv_def unrelated_qframe [OF fr])
  with 1(1) show ?thesis by (intro exI [of _ T'] conjI)
qed

lemma pinv_insert:
  assumes "pinv u s tp F R (p # H) msg"
  shows "\<exists>T'. insertProcQ tp (Some p) s = Some (Some p, s\<lparr>procTable := T'\<rparr>)
    \<and> pinv u (s\<lparr>procTable := T'\<rparr>) (Some p) F (R @ [p]) H msg"
proof -
  have "pool s tp F R (add_mset p (mset H))" using assms by (simp add: pinv_def)
  from pool_insert [OF this] obtain T' where "insertProcQ tp (Some p) s = Some (Some p, s\<lparr>procTable := T'\<rparr>)"
    and q: "pool (s\<lparr>procTable := T'\<rparr>) (Some p) F (R @ [p]) (mset H)"
    and fr: "qframe (insert p (set R)) (procTable s) T'" by blast
  then show ?thesis using pinv_qframe [OF assms fr q] by (intro exI [of _ T'] conjI)
qed

lemma pinv_out:
  assumes "pinv u s tp F R H msg" "p \<in> set R"
  shows "\<exists>T' tp'. outProcQ tp (Some p) s = Some (Some p, tp', s\<lparr>procTable := T'\<rparr>)
    \<and> pinv u (s\<lparr>procTable := T'\<rparr>) tp' F (remove1 p R) (p # H) msg"
proof -
  have "pool s tp F R (mset H)" using assms by (simp add: pinv_def)
  from pool_out [OF this assms(2)] obtain T' tp' where
    "outProcQ tp (Some p) s = Some (Some p, tp', s\<lparr>procTable := T'\<rparr>)"
    and q: "pool (s\<lparr>procTable := T'\<rparr>) tp' F (remove1 p R) (mset (p # H))"
    and fr: "qframe (set R) (procTable s) T'" by auto
  then show ?thesis using pinv_qframe [OF assms(1) fr q] by (intro exI [of _ T'] exI [of _ tp'] conjI)
qed

lemma pinv_remove:
  assumes "pinv u s tp F (p # R) H msg"
  shows "\<exists>T' tp'. removeProcQ tp s = Some (Some p, tp', s\<lparr>procTable := T'\<rparr>)
    \<and> pinv u (s\<lparr>procTable := T'\<rparr>) tp' F R (p # H) msg"
proof -
  have "pool s tp F (p # R) (mset H)" using assms by (simp add: pinv_def)
  from pool_remove [OF this] obtain T' tp' where
    "removeProcQ tp s = Some (Some p, tp', s\<lparr>procTable := T'\<rparr>)"
    and q: "pool (s\<lparr>procTable := T'\<rparr>) tp' F R (mset (p # H))"
    and fr: "qframe (set R) (procTable s) T'" by auto
  then show ?thesis using pinv_qframe [OF assms fr q] by (intro exI [of _ T'] exI [of _ tp'] conjI)
qed

lemmas pinv_alloc_none = pool_alloc_none [OF pinv_pool]

lemmas pinv_remove_none = pool_remove_none [OF pinv_pool]

lemmas pinv_out_absent = pool_out_absent [OF pinv_pool]

lemmas pinv_head = pool_head [OF pinv_pool]

lemmas pinv_empty = pool_empty [OF pinv_pool]

end
