(* ===== verification/P1_Test_Run.thy ===== *)
theory P1_Test_Run
  imports P1_Test
begin

text \<open>
  The run of \<open>phase1/p1test.c\<close>: every part of \<open>main2\<close> does what it tests for, and the whole
  test returns. The queue and tree parts keep \<open>pinv\<close>, the semaphore parts \<open>ainv\<close>; each loop has its
  lemma.
\<close>

section \<open>What each part does\<close>

lemma pinv_init:
  assumes "said s msg"
  shows "\<exists>T' h. initPcbs s = Some (s\<lparr>procTable := T', pcbFree_h := h\<rparr>)
    \<and> pinv u (s\<lparr>procTable := T', pcbFree_h := h\<rparr>) None [0..<MAXPROC] [] [] msg"
proof -
  obtain T' h where "initPcbs s = Some (s\<lparr>procTable := T', pcbFree_h := h\<rparr>)"
    "procq T' h [0..<MAXPROC]" "\<forall>i<MAXPROC. unrelated (T' i)" using initPcbs_run [of s] by blast
  then show ?thesis using assms by (intro exI [of _ T'] exI [of _ h]) (simp add: pinv_def pool_def)
qed

definition msgs_alloc :: string where
  "msgs_alloc = ''Initialized process control blocks   '' @ NL @ ''allocPcb ok   '' @ NL
     @ ''freed 10 entries   '' @ NL"

lemma alloc_loop:
  assumes "pinv u s None [0..<MAXPROC] [] [] msg"
  shows "\<exists>t. pfor allocOne [0..<MAXPROC] s = finish t
    \<and> pinv u t None [] [] [0..<MAXPROC] msg \<and> env t = env s \<and> (\<forall>j<MAXPROC. procp t j = Some j)"
proof -
  define I where "I = (\<lambda>i t. pinv u t None [i..<MAXPROC] [] [0..<i] msg \<and> env t = env s
    \<and> (\<forall>j<i. procp t j = Some j))"
  have "\<exists>t. pfor allocOne [0..<MAXPROC] s = finish t \<and> I MAXPROC t"
  proof (rule pfor_upt)
    show "I 0 s" using assms by (simp add: I_def)
  next
    fix i t assume i: "i < MAXPROC" and I: "I i t"
    have "pinv u t None (i # [Suc i..<MAXPROC]) [] [0..<i] msg"
      using I i by (simp add: I_def upt_conv_Cons)
    from pinv_alloc [OF this] obtain T' h where
      al: "allocPcb t = Some (Some i, t\<lparr>procTable := T', pcbFree_h := h\<rparr>)"
      and q: "pinv u (t\<lparr>procTable := T', pcbFree_h := h\<rparr>) None [Suc i..<MAXPROC] [] (i # [0..<i]) msg" by blast
    let ?t = "t\<lparr>procTable := T', pcbFree_h := h, procp := (procp t)(i := Some i)\<rparr>"
    have "pinv u (t\<lparr>procTable := T', pcbFree_h := h\<rparr>) None [Suc i..<MAXPROC] [] ([0..<i] @ [i]) msg"
      by (rule pinv_hand [OF q]) (simp del: mset_upt)
    then have "I (Suc i) ?t" using I by (auto simp: I_def less_Suc_eq)
    then show "\<exists>t'. allocOne i t = finish t' \<and> I (Suc i) t'"
      using al by (intro exI [of _ ?t]) (simp add: allocOne_def)
  qed simp
  then show ?thesis by (auto simp: I_def)
qed

text \<open>A loop that frees the blocks \<open>a\<close> to \<open>b - 1\<close>.\<close>

lemma free_loop:
  assumes "pinv u s tp F R (H @ [a..<b]) msg" "a \<le> b" "\<forall>j. a \<le> j \<longrightarrow> j < b \<longrightarrow> procp s j = Some j"
  shows "\<exists>t. pfor freeOne [a..<b] s = finish t \<and> pinv u t tp (F @ [a..<b]) R H msg
    \<and> env t = env s \<and> procp t = procp s \<and> var_qa t = var_qa s"
proof -
  define I where "I = (\<lambda>i t. pinv u t tp (F @ [a..<i]) R (H @ [i..<b]) msg \<and> env t = env s
    \<and> procp t = procp s \<and> var_qa t = var_qa s)"
  have "\<exists>t. pfor freeOne [a..<b] s = finish t \<and> I b t"
  proof (rule pfor_upt [OF assms(2)])
    show "I a s" using assms(1) by (simp add: I_def)
  next
    fix i t assume i: "a \<le> i" "i < b" and I: "I i t"
    have "pinv u t tp (F @ [a..<i]) R (H @ i # [Suc i..<b]) msg"
      using I i by (simp add: I_def upt_conv_Cons)
    then have q0: "pinv u t tp (F @ [a..<i]) R (i # H @ [Suc i..<b]) msg"
      by (rule pinv_hand) (simp del: mset_upt)
    obtain T' where fr: "freePcb (Some i) t = Some (t\<lparr>procTable := T', pcbFree_h := Some i\<rparr>)"
      and q: "pinv u (t\<lparr>procTable := T', pcbFree_h := Some i\<rparr>) tp ((F @ [a..<i]) @ [i]) R (H @ [Suc i..<b]) msg"
      using pinv_free [OF q0, of i] by auto
    let ?t = "t\<lparr>procTable := T', pcbFree_h := Some i\<rparr>"
    have "I (Suc i) ?t" using I q i by (simp add: I_def)
    moreover have "procp t i = Some i" using I assms(3) i by (simp add: I_def)
    ultimately show "\<exists>t'. freeOne i t = finish t' \<and> I (Suc i) t'"
      using fr by (intro exI [of _ ?t]) (simp add: freeOne_def)
  qed
  then show ?thesis by (auto simp: I_def)
qed

lemma testAlloc_run:
  assumes "said s msg" and "length msg + length msgs_alloc < 2048"
  shows "\<exists>s'. testAlloc s = finish s' \<and> env s' = env s
    \<and> pinv u s' None [10..<MAXPROC] [] [0..<10] (msg @ msgs_alloc) \<and> (\<forall>j<10. procp s' j = Some j)"
proof -
  let ?w1 = "''Initialized process control blocks   '' @ NL" and ?w2 = "''allocPcb ok   '' @ NL"
    and ?w3 = "''freed 10 entries   '' @ NL"
  note len = assms(2) [unfolded msgs_alloc_def]
  obtain s1 where s1: "initPcbs s = Some s1" "pinv u s1 None [0..<MAXPROC] [] [] msg" "env s1 = env s"
    using pinv_init [OF assms(1)] by force
  obtain s2 where s2: "addokbuf ?w1 s1 = Some s2" "env s2 = env s"
    "pinv u s2 None [0..<MAXPROC] [] [] (msg @ ?w1)"
    using pinv_talk [OF s1(2), of ?w1] len s1(3) by auto
  obtain s3 where s3: "pfor allocOne [0..<MAXPROC] s2 = finish s3"
    "pinv u s3 None [] [] [0..<MAXPROC] (msg @ ?w1)" "env s3 = env s" "\<forall>j<MAXPROC. procp s3 j = Some j"
    using alloc_loop [OF s2(3)] s2(2) by auto
  obtain s4 where s4: "addokbuf ?w2 s3 = Some s4" "env s4 = env s" "procp s4 = procp s3"
    "pinv u s4 None [] [] [0..<MAXPROC] ((msg @ ?w1) @ ?w2)"
    using pinv_talk [OF s3(2), of ?w2] len s3(3) talkedD(6) by auto
  have split: "[0..<MAXPROC] = [0..<10] @ [10..<MAXPROC]"
    by code_simp
  obtain s5 where s5: "pfor freeOne [10..<MAXPROC] s4 = finish s5"
    "pinv u s5 None [10..<MAXPROC] [] [0..<10] ((msg @ ?w1) @ ?w2)" "env s5 = env s" "procp s5 = procp s3"
    using free_loop [OF s4(4) [unfolded split]] s3(4) s4(2,3) by (auto simp: MAXPROC_def)
  obtain s6 where s6: "addokbuf ?w3 s5 = Some s6" "env s6 = env s" "procp s6 = procp s3"
    "pinv u s6 None [10..<MAXPROC] [] [0..<10] (((msg @ ?w1) @ ?w2) @ ?w3)"
    using pinv_talk [OF s5(2), of ?w3] len s5(3,4) talkedD(6) by auto
  have "testAlloc s = finish s6"
    using s1(1) s2(1) s3(1) pinv_alloc_none [OF s3(2)] s4(1) s5(1) s6(1) by (simp add: testAlloc_def)
  moreover have "\<forall>j<10. procp s6 j = Some j" using s3(4) s6(3) by (simp add: MAXPROC_def)
  ultimately show ?thesis using s6(2,4) by (intro exI [of _ s6]) (simp add: msgs_alloc_def)
qed

text \<open>The queue of the ten blocks \<open>10\<close> to \<open>19\<close>.\<close>

definition msgs_insert :: string where
  "msgs_insert = ''Inserting...   '' @ NL @ ''inserted 10 elements   '' @ NL"

lemma insert_loop:
  assumes "pinv u s None [10..<20] [] H msg" "var_qa s = None"
  shows "\<exists>t. pfor insertOne [0..<10] s = finish t \<and> pinv u t (var_qa t) [] [10..<20] H msg
    \<and> env t = env s \<and> procp t = procp s
    \<and> firstproc t = Some 10 \<and> midproc t = Some 15 \<and> lastproc t = Some 19"
proof -
  define I where "I = (\<lambda>i t. pinv u t (var_qa t) [10 + i..<20] [10..<10 + i] H msg
    \<and> env t = env s \<and> procp t = procp s \<and> (0 < i \<longrightarrow> firstproc t = Some 10)
    \<and> (5 < i \<longrightarrow> midproc t = Some 15) \<and> (9 < i \<longrightarrow> lastproc t = Some 19))"
  have "\<exists>t. pfor insertOne [0..<10] s = finish t \<and> I 10 t"
  proof (rule pfor_upt)
    show "I 0 s" using assms by (simp add: I_def)
  next
    fix i t assume i: "i < (10::nat)" and I: "I i t"
    have "pinv u t (var_qa t) ((10 + i) # [10 + Suc i..<20]) [10..<10 + i] H msg"
      using I i by (simp add: I_def upt_conv_Cons)
    from pinv_alloc [OF this] obtain T h where
      al: "allocPcb t = Some (Some (10 + i), t\<lparr>procTable := T, pcbFree_h := h\<rparr>)"
      and q: "pinv u (t\<lparr>procTable := T, pcbFree_h := h\<rparr>) (var_qa t) [10 + Suc i..<20] [10..<10 + i]
        ((10 + i) # H) msg" by blast
    define t1 where "t1 = t\<lparr>procTable := T, pcbFree_h := h, var_q := Some (10 + i)\<rparr>"
    define t2 where "t2 = (if i = 0 then t1\<lparr>firstproc := var_q t1\<rparr>
      else if i = 5 then t1\<lparr>midproc := var_q t1\<rparr>
      else if i = 9 then t1\<lparr>lastproc := var_q t1\<rparr> else t1)"
    have q1: "pinv u t1 (var_qa t) [10 + Suc i..<20] [10..<10 + i] ((10 + i) # H) msg"
      using q by (simp add: t1_def)
    have q2: "pinv u t2 (var_qa t) [10 + Suc i..<20] [10..<10 + i] ((10 + i) # H) msg"
      using q1 unfolding t2_def by (simp only: pinv_upd split: if_split) blast
    obtain T' where ins: "insertProcQ (var_qa t) (Some (10 + i)) t2 = Some (Some (10 + i), t2\<lparr>procTable := T'\<rparr>)"
      and q3: "pinv u (t2\<lparr>procTable := T'\<rparr>) (Some (10 + i)) [10 + Suc i..<20] ([10..<10 + i] @ [10 + i]) H msg"
      using pinv_insert [OF q2] by blast
    let ?t = "t2\<lparr>procTable := T', var_qa := Some (10 + i)\<rparr>"
    have f: "var_qa t2 = var_qa t" "var_q t2 = Some (10 + i)" "env t2 = env t" "procp t2 = procp t"
      "firstproc t2 = (if i = 0 then Some 10 else firstproc t)"
      "midproc t2 = (if i = 5 then Some 15 else midproc t)"
      "lastproc t2 = (if i = 9 then Some 19 else lastproc t)"
      by (simp_all add: t2_def t1_def)
    have up: "[10..<10 + Suc i] = [10..<10 + i] @ [10 + i]" by (simp only: add_Suc_right upt_Suc) simp
    have "pinv u ?t (Some (10 + i)) [10 + Suc i..<20] [10..<10 + Suc i] H msg"
      using q3 unfolding pinv_upd up .
    moreover have "env ?t = env s" "procp ?t = procp s" using I f(3,4) by (simp_all add: I_def)
    moreover have "firstproc ?t = Some 10" "5 < Suc i \<longrightarrow> midproc ?t = Some 15"
      "9 < Suc i \<longrightarrow> lastproc ?t = Some 19" using I i f(5-7) by (auto simp: I_def)
    moreover have "var_qa ?t = Some (10 + i)" by simp
    ultimately have "I (Suc i) ?t" unfolding I_def by (simp only: simp_thms)
    moreover have "insertOne i t = finish ?t"
      using al ins f(1,2) unfolding insertOne_def t2_def t1_def by (simp add: Let_def)
    ultimately show "\<exists>t'. insertOne i t = finish t' \<and> I (Suc i) t'" by (intro exI [of _ ?t] conjI)
  qed simp
  then show ?thesis by (auto simp: I_def)
qed

lemma testInsertQ_run:
  assumes "pinv u s None [10..<20] [] H msg" and "length msg + length msgs_insert < 2048"
  shows "\<exists>s'. testInsertQ s = finish s' \<and> pinv u s' (var_qa s') [] [10..<20] H (msg @ msgs_insert)
    \<and> env s' = env s \<and> procp s' = procp s
    \<and> firstproc s' = Some 10 \<and> midproc s' = Some 15 \<and> lastproc s' = Some 19"
proof -
  let ?w1 = "''Inserting...   '' @ NL" and ?w2 = "''inserted 10 elements   '' @ NL"
  note len = assms(2) [unfolded msgs_insert_def]
  let ?s = "s\<lparr>var_qa := None\<rparr>"
  have q: "pinv u ?s None [10..<20] [] H msg" using assms(1) by simp
  obtain s1 where s1: "addokbuf ?w1 ?s = Some s1" "talked ?s s1"
    "pinv u s1 None [10..<20] [] H (msg @ ?w1)"
    using pinv_talk [OF q, of ?w1] len by auto
  obtain s2 where s2: "pfor insertOne [0..<10] s1 = finish s2"
    "pinv u s2 (var_qa s2) [] [10..<20] H (msg @ ?w1)" "env s2 = env s" "procp s2 = procp s"
    "firstproc s2 = Some 10" "midproc s2 = Some 15" "lastproc s2 = Some 19"
    using insert_loop [OF s1(3)] talkedD [OF s1(2)] s1(2) by auto
  obtain s3 where s3: "addokbuf ?w2 s2 = Some s3" "talked s2 s3"
    "pinv u s3 (var_qa s2) [] [10..<20] H ((msg @ ?w1) @ ?w2)"
    using pinv_talk [OF s2(2), of ?w2] len by auto
  have "testInsertQ s = finish s3"
    using s1(1) s2(1) s3(1) pinv_empty [OF s3(3)] talkedD [OF s3(2)] pinv_empty [OF q]
    by (simp add: testInsertQ_def)
  then show ?thesis using s2 s3(2,3) talkedD [OF s3(2)]
    by (intro exI [of _ s3]) (simp add: msgs_insert_def)
qed

definition msgs_out :: string where "msgs_out = ''outProcQ ok   '' @ NL"

definition rest :: "nat list" where "rest = [11, 12, 13, 14, 16, 17, 18, 19]"

lemma testOutQ_run:
  assumes p: "pinv u s (var_qa s) [] [10..<20] H msg" and len: "length msg + length msgs_out < 2048"
    and v: "firstproc s = Some 10" "midproc s = Some 15" "procp s 0 = Some 0"
  shows "\<exists>s'. testOutQ s = finish s' \<and> pinv u s' (var_qa s') [10, 15] rest H (msg @ msgs_out)
    \<and> env s' = env s \<and> procp s' = procp s \<and> lastproc s' = lastproc s"
proof -
  have up: "[10..<20] = 10 # 11 # 12 # 13 # 14 # [15, 16, 17, 18, 19::nat]" by code_simp
  obtain T1 q1 where 1: "outProcQ (var_qa s) (Some 10) s = Some (Some 10, q1, s\<lparr>procTable := T1\<rparr>)"
    "pinv u (s\<lparr>procTable := T1\<rparr>) q1 [] [11, 12, 13, 14, 15, 16, 17, 18, 19] (10 # H) msg"
    using pinv_out [OF p, of 10] by (auto simp: up)
  let ?s1 = "s\<lparr>procTable := T1, var_qa := q1, var_q := Some 10\<rparr>"
  have p1: "pinv u ?s1 q1 [] [11, 12, 13, 14, 15, 16, 17, 18, 19] (10 # H) msg" using 1(2) by simp
  obtain T2 where 2: "freePcb (Some 10) ?s1 = Some (?s1\<lparr>procTable := T2, pcbFree_h := Some 10\<rparr>)"
    "pinv u (?s1\<lparr>procTable := T2, pcbFree_h := Some 10\<rparr>) q1 [10] [11, 12, 13, 14, 15, 16, 17, 18, 19] H msg"
    using pinv_free [OF p1, of 10] by auto
  let ?s2 = "?s1\<lparr>procTable := T2, pcbFree_h := Some 10\<rparr>"
  obtain T3 q3 where 3: "outProcQ q1 (Some 15) ?s2 = Some (Some 15, q3, ?s2\<lparr>procTable := T3\<rparr>)"
    "pinv u (?s2\<lparr>procTable := T3\<rparr>) q3 [10] rest (15 # H) msg"
    using pinv_out [OF 2(2), of 15] by (auto simp: rest_def)
  let ?s3 = "?s2\<lparr>procTable := T3, var_qa := q3, var_q := Some 15\<rparr>"
  have p3: "pinv u ?s3 q3 [10] rest (15 # H) msg" using 3(2) by (simp only: pinv_upd)
  obtain T4 where 4: "freePcb (Some 15) ?s3 = Some (?s3\<lparr>procTable := T4, pcbFree_h := Some 15\<rparr>)"
    "pinv u (?s3\<lparr>procTable := T4, pcbFree_h := Some 15\<rparr>) q3 [10, 15] rest H msg"
    using pinv_free [OF p3, of 15] by auto
  let ?s4 = "?s3\<lparr>procTable := T4, pcbFree_h := Some 15\<rparr>"
  have 5: "outProcQ q3 (Some 0) ?s4 = Some (None, q3, ?s4)"
    using pinv_out_absent [OF 4(2)] by (simp add: rest_def)
  have p5: "pinv u (?s4\<lparr>var_qa := q3\<rparr>) q3 [10, 15] rest H msg" using 4(2) by (simp only: pinv_upd)
  obtain s6 where 6: "addokbuf msgs_out (?s4\<lparr>var_qa := q3\<rparr>) = Some s6"
    "talked (?s4\<lparr>var_qa := q3\<rparr>) s6" "pinv u s6 q3 [10, 15] rest H (msg @ msgs_out)"
    using pinv_talk [OF p5 len] by blast
  have "testOutQ s = finish s6"
    using pinv_head [OF p] 1(1) 2(1) 3(1) 4(1) 5 6(1) v
    unfolding testOutQ_def msgs_out_def by (simp add: Let_def up)
  then show ?thesis using 6(2,3) talkedD [OF 6(2)] by (intro exI [of _ s6]) simp
qed

definition msgs_remove :: string where
  "msgs_remove = ''Removing...   '' @ NL @ ''insertProcQ, removeProcQ and emptyProcQ ok   '' @ NL
     @ ''process queues module ok      '' @ NL"

lemma remove_loop:
  assumes "pinv u s (var_qa s) F L H msg" "L \<noteq> []"
  shows "\<exists>t. pfor removeOne [0..<length L] s = finish t \<and> pinv u t None (F @ L) [] H msg
    \<and> var_qa t = None \<and> env t = env s \<and> procp t = procp s \<and> lastproc t = lastproc s
    \<and> var_q t = Some (last L)"
proof -
  define I where "I = (\<lambda>i t. pinv u t (var_qa t) (F @ take i L) (drop i L) H msg
    \<and> env t = env s \<and> procp t = procp s \<and> lastproc t = lastproc s
    \<and> (0 < i \<longrightarrow> var_q t = Some (L ! (i - 1))))"
  have "\<exists>t. pfor removeOne [0..<length L] s = finish t \<and> I (length L) t"
  proof (rule pfor_upt)
    show "I 0 s" using assms by (simp add: I_def)
  next
    fix i t assume i: "i < length L" and I: "I i t"
    have "pinv u t (var_qa t) (F @ take i L) (L ! i # drop (Suc i) L) H msg"
      using I i by (simp add: I_def Cons_nth_drop_Suc)
    from pinv_remove [OF this] obtain T q where
      rm: "removeProcQ (var_qa t) t = Some (Some (L ! i), q, t\<lparr>procTable := T\<rparr>)"
      and q: "pinv u (t\<lparr>procTable := T\<rparr>) q (F @ take i L) (drop (Suc i) L) (L ! i # H) msg" by blast
    define t1 where "t1 = t\<lparr>procTable := T, var_qa := q, var_q := Some (L ! i)\<rparr>"
    have q1: "pinv u t1 q (F @ take i L) (drop (Suc i) L) (L ! i # H) msg"
      using q unfolding t1_def pinv_upd .
    obtain T' where fr: "freePcb (Some (L ! i)) t1 = Some (t1\<lparr>procTable := T', pcbFree_h := Some (L ! i)\<rparr>)"
      and q2: "pinv u (t1\<lparr>procTable := T', pcbFree_h := Some (L ! i)\<rparr>) q ((F @ take i L) @ [L ! i])
        (drop (Suc i) L) H msg"
      using pinv_free [OF q1, of "L ! i"] by auto
    let ?t = "t1\<lparr>procTable := T', pcbFree_h := Some (L ! i)\<rparr>"
    have t1: "env t1 = env s" "procp t1 = procp s" "lastproc t1 = lastproc s" "var_q t1 = Some (L ! i)"
      "var_qa t1 = q" using I by (simp_all add: t1_def I_def)
    have "I (Suc i) ?t" using q2 i t1 by (simp add: I_def take_Suc_conv_app_nth)
    moreover have "removeOne i t = finish ?t"
      using rm fr unfolding removeOne_def t1_def by simp
    ultimately show "\<exists>t'. removeOne i t = finish t' \<and> I (Suc i) t'" by (intro exI [of _ ?t] conjI)
  qed simp
  then obtain t where t: "pfor removeOne [0..<length L] s = finish t" "I (length L) t" by blast
  then have "pinv u t (var_qa t) (F @ L) [] H msg" by (simp add: I_def)
  moreover from pinv_empty [OF this] have "var_qa t = None" by (simp add: emptyProcQ_def)
  ultimately show ?thesis using t assms(2) by (intro exI [of _ t]) (simp add: I_def last_conv_nth)
qed

lemma testRemoveQ_run:
  assumes p: "pinv u s (var_qa s) F rest H msg" and len: "length msg + length msgs_remove < 2048"
    and v: "lastproc s = Some 19"
  shows "\<exists>s'. testRemoveQ s = finish s' \<and> pinv u s' None (F @ rest) [] H (msg @ msgs_remove)
    \<and> env s' = env s \<and> procp s' = procp s"
proof -
  let ?w1 = "''Removing...   '' @ NL" and ?w2 = "''insertProcQ, removeProcQ and emptyProcQ ok   '' @ NL"
    and ?w3 = "''process queues module ok      '' @ NL"
  note len = len [unfolded msgs_remove_def]
  obtain s1 where 1: "addokbuf ?w1 s = Some s1" "talked s s1" "pinv u s1 (var_qa s) F rest H (msg @ ?w1)"
    using pinv_talk [OF p, of ?w1] len by auto
  note t1 = talkedD [OF 1(2)]
  have "pinv u s1 (var_qa s1) F rest H (msg @ ?w1)" using 1(3) t1 by simp
  moreover have rl: "length rest = 8" "last rest = 19" "rest \<noteq> []" by (simp_all add: rest_def)
  ultimately obtain s2 where 2: "pfor removeOne [0..<8] s1 = finish s2"
    "pinv u s2 None (F @ rest) [] H (msg @ ?w1)" "var_qa s2 = None" "env s2 = env s1" "procp s2 = procp s1"
    "lastproc s2 = lastproc s1" "var_q s2 = Some 19"
    using remove_loop [of u s1 F rest H "msg @ ?w1"] unfolding rl(1,2) by blast
  have s2: "s2\<lparr>var_qa := None\<rparr> = s2" using 2(3) by simp
  obtain s3 where 3: "addokbuf ?w2 s2 = Some s3" "talked s2 s3"
    "pinv u s3 None (F @ rest) [] H ((msg @ ?w1) @ ?w2)"
    using pinv_talk [OF 2(2), of ?w2] len by auto
  obtain s4 where 4: "addokbuf ?w3 s3 = Some s4" "talked s3 s4"
    "pinv u s4 None (F @ rest) [] H (((msg @ ?w1) @ ?w2) @ ?w3)"
    using pinv_talk [OF 3(3), of ?w3] len by auto
  have "testRemoveQ s = finish s4"
    using 1(1) 2(1,3,6,7) 3(1) 4(1) pinv_remove_none [OF 2(2)] pinv_empty [OF 2(2)] t1(11) v
    unfolding testRemoveQ_def by (simp add: Let_def s2)
  then show ?thesis using 4(2,3) talkedD [OF 4(2)] talkedD [OF 3(2)] 2(4,5) t1 1(2) 3(2)
    by (intro exI [of _ s4]) (simp add: msgs_remove_def)
qed

section \<open>The tree\<close>

lemma pinv_tree:
  assumes "pinv u s tp F R H msg" "tframe A (procTable s) T'"
  shows "pinv False (s\<lparr>procTable := T'\<rparr>) tp F R H msg"
  using assms by (simp add: pinv_def pool_def procq_tframe [OF assms(2)])

lemma pinv_weak: "pinv u s tp F R H msg \<Longrightarrow> pinv False s tp F R H msg"
  by (simp add: pinv_def)

text \<open>\<open>procp[0]\<close> has the children \<open>cs\<close> and no parent.\<close>

definition tinv :: "p1_state \<Rightarrow> nat list \<Rightarrow> nat list \<Rightarrow> nat list \<Rightarrow> string \<Rightarrow> bool" where
  "tinv s F H cs msg \<longleftrightarrow> pinv False s None F [] H msg \<and> children (procTable s) 0 cs
     \<and> p_prnt (procTable s 0) = None"

lemma tinv_upd [simp]:
  "tinv (s\<lparr>var_q := x\<rparr>) F H cs msg = tinv s F H cs msg"
  by (simp add: tinv_def)

lemma tinv_talk:
  assumes "tinv s F H cs msg" "length msg + length str < 2048"
  shows "\<exists>s'. addokbuf str s = Some s' \<and> talked s s' \<and> tinv s' F H cs (msg @ str)"
  using pinv_talk [of False s None F "[]" H msg str] assms talkedD(1) unfolding tinv_def by metis

lemma tinv_adopt:
  assumes t: "tinv s F H cs msg" and p: "p < MAXPROC" "p \<noteq> 0" "p \<notin> set cs" "unrelated (procTable s p)"
  shows "\<exists>T'. insertChild (Some 0) (Some p) s = Some (s\<lparr>procTable := T'\<rparr>)
    \<and> tinv (s\<lparr>procTable := T'\<rparr>) F H (p # cs) msg
    \<and> (\<forall>y. y \<noteq> 0 \<longrightarrow> y \<notin> set (p # cs) \<longrightarrow> T' y = procTable s y)"
proof -
  obtain T' where T': "insertChild (Some 0) (Some p) s = Some (s\<lparr>procTable := T'\<rparr>)" "children T' 0 (p # cs)"
    "tframe (insert p (insert 0 (set cs))) (procTable s) T'" "kframe 0 (insert p (set cs)) (procTable s) T'"
    using insertChild_run [of s 0 cs p] t p unrelatedD(2,3) [OF p(4)] by (auto simp: tinv_def)
  have "p_prnt (T' 0) = None"
    using T'(4) t p childrenD(2) [of "procTable s" 0 cs] by (simp add: kframe_def tinv_def)
  then have "tinv (s\<lparr>procTable := T'\<rparr>) F H (p # cs) msg"
    using pinv_tree [OF _ T'(3), of False None F "[]" H msg] T'(2) t by (simp add: tinv_def)
  moreover have "\<forall>y. y \<noteq> 0 \<longrightarrow> y \<notin> set (p # cs) \<longrightarrow> T' y = procTable s y"
    using tframe_out [OF T'(3)] by simp
  ultimately show ?thesis using T'(1) by blast
qed

lemma tinv_out:
  assumes t: "tinv s F H (as @ p # bs) msg"
  shows "\<exists>T'. outChild (Some p) s = Some (Some p, s\<lparr>procTable := T'\<rparr>)
    \<and> tinv (s\<lparr>procTable := T'\<rparr>) F H (as @ bs) msg"
proof -
  have c: "children (procTable s) 0 (as @ p # bs)" using t by (simp add: tinv_def)
  obtain T' where T': "outChild (Some p) s = Some (Some p, s\<lparr>procTable := T'\<rparr>)" "children T' 0 (as @ bs)"
    "tframe (insert 0 (set (as @ p # bs))) (procTable s) T'" "kframe 0 (set (as @ p # bs)) (procTable s) T'"
    using outChild_run [OF c] by blast
  have "p_prnt (T' 0) = None" using T'(4) t childrenD(2) [OF c] unfolding kframe_def tinv_def by metis
  then have "tinv (s\<lparr>procTable := T'\<rparr>) F H (as @ bs) msg"
    using pinv_tree [OF _ T'(3), of False None F "[]" H msg] T'(2) t by (simp add: tinv_def)
  with T'(1) show ?thesis by blast
qed

lemma tinv_remove:
  assumes t: "tinv s F H (c # cs) msg"
  shows "\<exists>T'. removeChild (Some 0) s = Some (Some c, s\<lparr>procTable := T'\<rparr>)
    \<and> tinv (s\<lparr>procTable := T'\<rparr>) F H cs msg"
proof -
  have ch: "children (procTable s) 0 (c # cs)" using t by (simp add: tinv_def)
  then have "removeChild (Some 0) s = outChild (Some c) s"
    by (simp add: removeChild_def emptyChild_run [OF ch]) (simp add: children_def)
  then show ?thesis using tinv_out [of s F H "[]" c cs msg] t by simp
qed

lemma tinvD:
  assumes "tinv s F H cs msg"
  shows "emptyChild (Some 0) s = Some (cs = [])" "cs = [] \<Longrightarrow> removeChild (Some 0) s = Some (None, s)"
    "outChild (Some 0) s = Some (None, s)"
  using assms emptyChild_run removeChild_none outChild_root [of 0 s]
  by (auto simp: tinv_def MAXPROC_def)


definition msgs_tree :: string where
  "msgs_tree = ''checking process trees...'' @ NL @ ''Inserting...   '' @ NL @ ''Inserted 9 children   '' @ NL
     @ ''outChild ok   '' @ NL"

lemma adopt_loop:
  assumes t: "tinv s F H [] msg" and un: "\<forall>y<MAXPROC. unrelated (procTable s y)"
    and v: "\<forall>j<10. procp s j = Some j"
  shows "\<exists>t. pfor adoptOne [1..<10] s = finish t \<and> tinv t F H (rev [1..<10]) msg
    \<and> env t = env s \<and> procp t = procp s"
proof -
  define I where "I = (\<lambda>i t. tinv t F H (rev [1..<i]) msg \<and> env t = env s \<and> procp t = procp s
    \<and> (\<forall>y<MAXPROC. i \<le> y \<longrightarrow> unrelated (procTable t y)))"
  have "\<exists>t. pfor adoptOne [1..<10] s = finish t \<and> I 10 t"
  proof (rule pfor_upt)
    show "I 1 s" using assms by (simp add: I_def)
  next
    fix i t assume i: "1 \<le> i" "i < (10::nat)" and I: "I i t"
    have p: "i < MAXPROC" "i \<noteq> 0" "i \<notin> set (rev [1..<i])" using i by (simp_all add: MAXPROC_def)
    obtain T' where T': "insertChild (Some 0) (Some i) t = Some (t\<lparr>procTable := T'\<rparr>)"
      "tinv (t\<lparr>procTable := T'\<rparr>) F H (i # rev [1..<i]) msg"
      "\<forall>y. y \<noteq> 0 \<longrightarrow> y \<notin> set (i # rev [1..<i]) \<longrightarrow> T' y = procTable t y"
      using tinv_adopt [OF _ p, of t F H msg] I p(1) unfolding I_def by blast
    let ?t = "t\<lparr>procTable := T'\<rparr>"
    have "rev [1..<Suc i] = i # rev [1..<i]" using i by simp
    then have "I (Suc i) ?t" using I T'(2,3) i unfolding I_def by simp
    moreover have "adoptOne i t = finish ?t"
      using T'(1) I v i by (simp add: adoptOne_def I_def)
    ultimately show "\<exists>t'. adoptOne i t = finish t' \<and> I (Suc i) t'" by (intro exI [of _ ?t] conjI)
  qed simp
  then show ?thesis unfolding I_def by blast
qed

lemma testTree_run:
  assumes p: "pinv True s None F [] H msg" and len: "length msg + length msgs_tree < 2048"
    and v: "\<forall>j<10. procp s j = Some j"
  shows "\<exists>s'. testTree s = finish s' \<and> tinv s' F H [9, 8, 7, 6, 5, 3, 2] (msg @ msgs_tree)
    \<and> env s' = env s \<and> procp s' = procp s"
proof -
  let ?w1 = "''checking process trees...'' @ NL" and ?w2 = "''Inserting...   '' @ NL"
    and ?w3 = "''Inserted 9 children   '' @ NL" and ?w4 = "''outChild ok   '' @ NL"
  note len = len [unfolded msgs_tree_def]
  obtain s1 where 1: "addokbuf ?w1 s = Some s1" "talked s s1" "pinv True s1 None F [] H (msg @ ?w1)"
    using pinv_talk [OF p, of ?w1] len by auto
  have un: "\<forall>y<MAXPROC. unrelated (procTable s1 y)" using 1(3) by (simp add: pinv_def)
  have ch: "children (procTable s1) x []" if "x < 10" for x
  proof -
    have "unrelated (procTable s1 x)" using un that by (simp add: MAXPROC_def)
    then show ?thesis using that unrelatedD by (simp add: children_def MAXPROC_def)
  qed
  have "p_prnt (procTable s1 0) = None" using un unrelatedD(4) by (simp add: MAXPROC_def)
  then have t1: "tinv s1 F H [] (msg @ ?w1)" using ch [of 0] pinv_weak [OF 1(3)] by (simp add: tinv_def)
  obtain s2 where 2: "addokbuf ?w2 s1 = Some s2" "talked s1 s2" "tinv s2 F H [] ((msg @ ?w1) @ ?w2)"
    using tinv_talk [OF t1, of ?w2] len by auto
  have v1: "procp s1 = procp s" and v2: "procp s2 = procp s"
    using talkedD(6) [OF 1(2)] talkedD(6) [OF 2(2)] by simp_all
  have "\<forall>y<MAXPROC. unrelated (procTable s2 y)" "\<forall>j<10. procp s2 j = Some j"
    using un v talkedD(1) [OF 2(2)] v2 by simp_all
  from adopt_loop [OF 2(3) this] obtain s3 where 3: "pfor adoptOne [1..<10] s2 = finish s3"
    "tinv s3 F H (rev [1..<10]) ((msg @ ?w1) @ ?w2)" "env s3 = env s2" "procp s3 = procp s2" by blast
  have rev: "rev [1..<10] = [9, 8, 7, 6, 5, 4, 3, 2] @ 1 # ([] :: nat list)" by code_simp
  obtain s4 where 4: "addokbuf ?w3 s3 = Some s4" "talked s3 s4"
    "tinv s4 F H ([9, 8, 7, 6, 5, 4, 3, 2] @ 1 # []) (((msg @ ?w1) @ ?w2) @ ?w3)"
    using tinv_talk [OF 3(2), of ?w3] len unfolding rev by auto
  obtain T5 where 5: "outChild (Some 1) s4 = Some (Some 1, s4\<lparr>procTable := T5\<rparr>)"
    "tinv (s4\<lparr>procTable := T5\<rparr>) F H ([9, 8, 7, 6, 5] @ 4 # [3, 2]) (((msg @ ?w1) @ ?w2) @ ?w3)"
    using tinv_out [OF 4(3)] by auto
  let ?s5 = "s4\<lparr>procTable := T5, var_q := Some 1\<rparr>"
  have p5: "tinv ?s5 F H ([9, 8, 7, 6, 5] @ 4 # [3, 2]) (((msg @ ?w1) @ ?w2) @ ?w3)"
    using 5(2) unfolding tinv_upd .
  obtain T6 where 6: "outChild (Some 4) ?s5 = Some (Some 4, ?s5\<lparr>procTable := T6\<rparr>)"
    "tinv (?s5\<lparr>procTable := T6\<rparr>) F H [9, 8, 7, 6, 5, 3, 2] (((msg @ ?w1) @ ?w2) @ ?w3)"
    using tinv_out [OF p5] by auto
  let ?s6 = "?s5\<lparr>procTable := T6, var_q := Some 4\<rparr>"
  have p6: "tinv ?s6 F H [9, 8, 7, 6, 5, 3, 2] (((msg @ ?w1) @ ?w2) @ ?w3)"
    using 6(2) unfolding tinv_upd .
  obtain s7 where 7: "addokbuf ?w4 ?s6 = Some s7" "talked ?s6 s7"
    "tinv s7 F H [9, 8, 7, 6, 5, 3, 2] ((((msg @ ?w1) @ ?w2) @ ?w3) @ ?w4)"
    using tinv_talk [OF p6, of ?w4] len by auto
  have v4: "procp s4 = procp s" using talkedD(6) [OF 4(2)] 3(4) v2 by simp
  have "testTree s = finish s7"
    using 1(1) 2(1) 3(1) 4(1) 5(1) 6(1) 7(1) emptyChild_run [OF ch [of 2]] tinvD(1) [OF 4(3)]
      tinvD(3) [OF p6] v v1 v2 v4 unfolding testTree_def by (simp add: Let_def)
  moreover have "env s7 = env s" "procp s7 = procp s"
    using 1(2) 2(2) 3(3) 4(2) 7(2) v4 talkedD(6) [OF 7(2)] by simp_all
  ultimately show ?thesis using 7(3) by (intro exI [of _ s7]) (simp add: msgs_tree_def)
qed

definition msgs_orphan :: string where
  "msgs_orphan = ''Removing...   '' @ NL @ ''insertChild, removeChild and emptyChild ok   '' @ NL
     @ ''process tree module ok      '' @ NL"

lemma orphan_loop:
  assumes t: "tinv s F H cs msg" and v: "procp s 0 = Some 0"
  shows "\<exists>t. pfor orphanOne [0..<length cs] s = finish t \<and> tinv t F H [] msg
    \<and> env t = env s \<and> procp t = procp s"
proof -
  define I where "I = (\<lambda>i t. tinv t F H (drop i cs) msg \<and> env t = env s \<and> procp t = procp s)"
  have "\<exists>t. pfor orphanOne [0..<length cs] s = finish t \<and> I (length cs) t"
  proof (rule pfor_upt)
    show "I 0 s" using assms by (simp add: I_def)
  next
    fix i t assume i: "i < length cs" and I: "I i t"
    have "tinv t F H (cs ! i # drop (Suc i) cs) msg" using I i by (simp add: I_def Cons_nth_drop_Suc)
    from tinv_remove [OF this] obtain T' where
      T': "removeChild (Some 0) t = Some (Some (cs ! i), t\<lparr>procTable := T'\<rparr>)"
      "tinv (t\<lparr>procTable := T'\<rparr>) F H (drop (Suc i) cs) msg" by blast
    let ?t = "t\<lparr>procTable := T', var_q := Some (cs ! i)\<rparr>"
    have "I (Suc i) ?t" using I T'(2) unfolding I_def tinv_upd by simp
    moreover have "orphanOne i t = finish ?t"
      using T'(1) I v by (simp add: orphanOne_def I_def)
    ultimately show "\<exists>t'. orphanOne i t = finish t' \<and> I (Suc i) t'" by (intro exI [of _ ?t] conjI)
  qed simp
  then show ?thesis unfolding I_def by auto
qed

lemma testRemoveChild_run:
  assumes t: "tinv s F [0..<10] [9, 8, 7, 6, 5, 3, 2] msg" and len: "length msg + length msgs_orphan < 2048"
    and v: "\<forall>j<10. procp s j = Some j"
  shows "\<exists>s'. testRemoveChild s = finish s' \<and> pinv False s' None (F @ [0..<10]) [] [] (msg @ msgs_orphan)
    \<and> env s' = env s"
proof -
  let ?w1 = "''Removing...   '' @ NL" and ?w2 = "''insertChild, removeChild and emptyChild ok   '' @ NL"
    and ?w3 = "''process tree module ok      '' @ NL"
  note len = len [unfolded msgs_orphan_def]
  obtain s1 where 1: "addokbuf ?w1 s = Some s1" "talked s s1"
    "tinv s1 F [0..<10] [9, 8, 7, 6, 5, 3, 2] (msg @ ?w1)"
    using tinv_talk [OF t, of ?w1] len by auto
  have v1: "procp s1 = procp s" using talkedD(6) [OF 1(2)] .
  have seven: "length [9, 8, 7, 6, 5, 3, 2 :: nat] = 7" by simp
  have "procp s1 0 = Some 0" using v v1 by simp
  from orphan_loop [OF 1(3) this, unfolded seven] obtain s2 where 2: "pfor orphanOne [0..<7] s1 = finish s2"
    "tinv s2 F [0..<10] [] (msg @ ?w1)" "env s2 = env s1" "procp s2 = procp s1" by blast
  obtain s3 where 3: "addokbuf ?w2 s2 = Some s3" "talked s2 s3" "tinv s3 F [0..<10] [] ((msg @ ?w1) @ ?w2)"
    using tinv_talk [OF 2(2), of ?w2] len by auto
  obtain s4 where 4: "addokbuf ?w3 s3 = Some s4" "talked s3 s4" "tinv s4 F [0..<10] [] (((msg @ ?w1) @ ?w2) @ ?w3)"
    using tinv_talk [OF 3(3), of ?w3] len by auto
  have v4: "procp s4 = procp s" using talkedD(6) [OF 3(2)] talkedD(6) [OF 4(2)] 2(4) v1 by simp
  have p4: "pinv False s4 None F [] ([] @ [0..<10]) (((msg @ ?w1) @ ?w2) @ ?w3)" using 4(3) by (simp add: tinv_def)
  have "\<forall>j. 0 \<le> j \<longrightarrow> j < 10 \<longrightarrow> procp s4 j = Some j" using v v4 by simp
  from free_loop [OF p4 zero_le this] obtain s5 where 5: "pfor freeOne [0..<10] s4 = finish s5"
    "pinv False s5 None (F @ [0..<10]) [] [] (((msg @ ?w1) @ ?w2) @ ?w3)" "env s5 = env s4"
    by (elim exE conjE) (rule that)
  have "testRemoveChild s = finish s5"
    using 1(1) 2(1) 3(1) 4(1) 5(1) tinvD(1,2) [OF 2(2)] 2(4) v v1 unfolding testRemoveChild_def
    by (simp add: Let_def)
  moreover have "env s5 = env s" using 1(2) 2(3) 3(2) 4(2) 5(3) by simp
  ultimately show ?thesis using 5(2) by (intro exI [of _ s5]) (simp add: msgs_orphan_def)
qed

section \<open>The semaphores\<close>

text \<open>
  The twenty semaphores and \<open>onesem\<close> have addresses of their own, between the sentinels of the list.
\<close>

definition sema :: "memaddr \<Rightarrow> nat \<Rightarrow> memaddr" where
  "sema b j = b + 4 * word_of_nat j"

definition sems_ok :: "memaddr \<times> memaddr \<Rightarrow> bool" where
  "sems_ok e \<longleftrightarrow> (case e of (b, one) \<Rightarrow> 0 < b \<and> unat b + 4 * MAXSEM < 2 ^ 32 \<and> one < MAXINT
     \<and> (\<forall>j<MAXSEM. one \<noteq> sema b j))"

lemma sem_addr_sema: "sem_addr s j = sema (sem_base s) j"
  by (simp add: sem_addr_def sema_def)

lemma sema_unat:
  assumes "unat b + 4 * MAXSEM < 2 ^ 32" "j < MAXSEM"
  shows "unat (sema b j) = unat b + 4 * j"
proof -
  have "j < 20" "unat b + 80 < 2 ^ 32" using assms by (simp_all add: MAXSEM_def MAXPROC_def)
  then show ?thesis unfolding sema_def by (simp add: unat_word_ariths unat_of_nat)
qed

lemma sema_props:
  assumes "sems_ok (b, one)" "j < MAXSEM"
  shows "0 < sema b j" "sema b j < MAXINT" "i < MAXSEM \<Longrightarrow> sema b i = sema b j \<longleftrightarrow> i = j" "one \<noteq> sema b j"
proof -
  have b: "0 < unat b" "unat b + 4 * MAXSEM < 2 ^ 32"
    using assms(1) by (auto simp: sems_ok_def word_less_nat_alt)
  note u = sema_unat [OF b(2)]
  show "0 < sema b j" using b(1) u [OF assms(2)] by (simp add: word_less_nat_alt)
  have "j < 20" "unat b + 80 < 2 ^ 32" using assms b by (simp_all add: MAXSEM_def MAXPROC_def)
  then show "sema b j < MAXINT" using u [OF assms(2)] by (simp add: word_less_nat_alt MAXINT_def)
  show "sema b i = sema b j \<longleftrightarrow> i = j" if "i < MAXSEM"
    using u [OF assms(2)] u [OF that] by (metis add_left_cancel mult_cancel1 zero_neq_numeral)
  show "one \<noteq> sema b j" using assms by (simp add: sems_ok_def)
qed

text \<open>The queues when \<open>g j\<close> waits on \<open>sem[j]\<close>.\<close>

definition Wof :: "memaddr \<Rightarrow> (nat \<Rightarrow> nat list) \<Rightarrow> memaddr \<Rightarrow> nat list" where
  "Wof b g x = concat (map (\<lambda>j. if x = sema b j then g j else []) [0..<MAXSEM])"

lemma concat_one:
  "distinct xs \<Longrightarrow> concat (map (\<lambda>j. if j = i then g j else []) xs) = (if i \<in> set xs then g i else [])"
  by (induction xs) auto

lemma Wof_at:
  assumes "sems_ok (b, one)" "i < MAXSEM"
  shows "Wof b g (sema b i) = g i"
proof -
  have eq: "map (\<lambda>j. if sema b i = sema b j then g j else []) [0..<MAXSEM]
      = map (\<lambda>j. if j = i then g j else []) [0..<MAXSEM]"
    using sema_props(3) [OF assms(1), of _ i] sema_props(3) [OF assms(1) _ assms(2)] assms(2) by auto
  then show ?thesis using concat_one [of "[0..<MAXSEM]" i g] assms(2) unfolding Wof_def eq by simp
qed

lemma Wof_other: "\<forall>j<MAXSEM. x \<noteq> sema b j \<Longrightarrow> Wof b g x = []"
  by (auto simp: Wof_def)

lemma Wof_upd:
  assumes "sems_ok (b, one)" "i < MAXSEM"
  shows "(Wof b g)(sema b i := q) = Wof b (g(i := q))"
proof
  fix x
  show "((Wof b g)(sema b i := q)) x = Wof b (g(i := q)) x"
  proof (cases "\<exists>j<MAXSEM. x = sema b j")
    case True
    then obtain j where j: "j < MAXSEM" "x = sema b j" by blast
    show ?thesis
      using sema_props(3) [OF assms(1) j(1) assms(2)] sema_props(3) [OF assms j(1)] Wof_at [OF assms(1) j(1)]
      unfolding j(2) by auto
  next
    case False
    then have "x \<noteq> sema b i" using assms(2) by blast
    with False Wof_other [of x b] show ?thesis by simp
  qed
qed

section \<open>Blocking\<close>

text \<open>
  During the second half: the blocks are free, on the semaphores, or in hand. \<open>who j\<close> is the block
  that \<open>procp[j]\<close> gets: the free list has been left in the order of the frees.
\<close>

definition ainv :: "p1_state \<Rightarrow> nat list \<Rightarrow> (nat \<Rightarrow> nat list) \<Rightarrow> nat list \<Rightarrow> string \<Rightarrow> bool" where
  "ainv s F g H msg \<longleftrightarrow> places s None F [] (Wof (sem_base s) g) H \<and> said s msg \<and> sems_ok (env s)"

definition who :: "nat \<Rightarrow> nat" where
  "who j = ([0..<10] @ [10, 15] @ rest) ! j"

lemma ainv_cong:
  assumes "ainv s F g H msg" "said s' msg'"
    "procTable s' = procTable s" "pcbFree_h s' = pcbFree_h s" "semdTable s' = semdTable s"
    "semd_h s' = semd_h s" "semdFree_h s' = semdFree_h s" "env s' = env s"
  shows "ainv s' F g H msg'"
proof -
  have p: "places s None F [] (Wof (sem_base s) g) H" using assms(1) by (simp add: ainv_def)
  have "places s' None F [] (Wof (sem_base s) g) H"
    by (rule places_cong [OF p assms(4-7)]) (simp add: assms(3))
  then show ?thesis using assms by (simp add: ainv_def env_def)
qed

lemma ainv_upd [simp]:
  "ainv (s\<lparr>procp := f\<rparr>) F g H msg = ainv s F g H msg"
  "ainv (s\<lparr>var_p := x\<rparr>) F g H msg = ainv s F g H msg"
  "ainv (s\<lparr>var_q := x\<rparr>) F g H msg = ainv s F g H msg"
proof -
  have sd: "ainv s F g H msg \<Longrightarrow> said s msg" for s by (simp add: ainv_def)
  show "ainv (s\<lparr>procp := f\<rparr>) F g H msg = ainv s F g H msg"
    by (rule iffI; frule sd; erule ainv_cong) simp_all
  show "ainv (s\<lparr>var_p := x\<rparr>) F g H msg = ainv s F g H msg"
    by (rule iffI; frule sd; erule ainv_cong) simp_all
  show "ainv (s\<lparr>var_q := x\<rparr>) F g H msg = ainv s F g H msg"
    by (rule iffI; frule sd; erule ainv_cong) simp_all
qed

lemma ainv_talk:
  assumes "ainv s F g H msg" "length msg + length str < 2048"
  shows "\<exists>s'. addokbuf str s = Some s' \<and> talked s s' \<and> ainv s' F g H (msg @ str)"
proof -
  obtain s' where s': "addokbuf str s = Some s'" "talked s s'" "said s' (msg @ str)"
    using addokbuf_run assms unfolding ainv_def by blast
  have "ainv s' F g H (msg @ str)"
    by (rule ainv_cong [OF assms(1) s'(3)]) (use talkedD [OF s'(2)] s'(2) in simp_all)
  with s' show ?thesis by blast
qed

lemma ainv_init:
  assumes p: "pinv u s None F [] [] msg" and e: "sems_ok (env s)"
  shows "\<exists>s'. initASL s = Some s' \<and> ainv s' F (\<lambda>_. []) [] msg \<and> env s' = env s \<and> procp s' = procp s"
proof -
  obtain S' hd' fr' where i: "initASL s = Some (s\<lparr>semdTable := S', semd_h := hd', semdFree_h := fr'\<rparr>)"
    "asl_list (s\<lparr>semdTable := S', semd_h := hd', semdFree_h := fr'\<rparr>) (MAXPROC + 1) [] MAXPROC (rev [0..<MAXPROC])"
    using initASL_run [of s] by blast
  let ?s = "s\<lparr>semdTable := S', semd_h := hd', semdFree_h := fr'\<rparr>"
  have "asl_rel ?s (\<lambda>_. []) {#}" by (rule asl_relI [OF i(2)]) (simp_all add: fun_eq_iff blocked_def)
  moreover have "Wof (sem_base s) (\<lambda>_. []) = (\<lambda>_. [])" by (simp add: fun_eq_iff Wof_def)
  moreover have "pool ?s None F [] ({#} + {#})" using p by (simp add: pinv_def pool_def)
  ultimately have "places ?s None F [] (Wof (sem_base s) (\<lambda>_. [])) []" unfolding places_def by auto
  then have "ainv ?s F (\<lambda>_. []) [] msg" using p e by (simp add: ainv_def pinv_def)
  with i(1) show ?thesis by (intro exI [of _ ?s]) simp
qed

text \<open>The operations.\<close>

lemma ainv_alloc:
  assumes "ainv s (p # F) g H msg"
  shows "\<exists>T' h. allocPcb s = Some (Some p, s\<lparr>procTable := T', pcbFree_h := h\<rparr>)
    \<and> ainv (s\<lparr>procTable := T', pcbFree_h := h\<rparr>) F g (p # H) msg"
proof -
  have "places s None (p # F) [] (Wof (sem_base s) g) H" using assms by (simp add: ainv_def)
  from places_alloc [OF this] show ?thesis using assms unfolding ainv_def by fastforce
qed

lemma ainv_block:
  assumes "ainv s F g (p # H) msg" "j < MAXSEM"
  shows "\<exists>T' S' fh. insertBlocked (sem_addr s j) (Some p) s
        = Some (False, s\<lparr>procTable := T', semdTable := S', semdFree_h := fh\<rparr>)
    \<and> ainv (s\<lparr>procTable := T', semdTable := S', semdFree_h := fh\<rparr>) F (g(j := g j @ [p])) H msg"
proof -
  let ?b = "sem_base s"
  have ok: "sems_ok (?b, onesem s)" using assms(1) by (simp add: ainv_def env_def)
  have "places s None F [] (Wof ?b g) (p # H)" using assms(1) by (simp add: ainv_def)
  from places_block [OF this sema_props(1,2) [OF ok assms(2)]] obtain T' S' fh where
    "insertBlocked (sem_addr s j) (Some p) s = Some (False, s\<lparr>procTable := T', semdTable := S', semdFree_h := fh\<rparr>)"
    "places (s\<lparr>procTable := T', semdTable := S', semdFree_h := fh\<rparr>) None F [] (Wof ?b (g(j := g j @ [p]))) H"
    unfolding sem_addr_sema Wof_at [OF ok assms(2)] Wof_upd [OF ok assms(2)] by blast
  then show ?thesis using assms(1)
    by (intro exI [of _ T'] exI [of _ S'] exI [of _ fh]) (simp add: ainv_def)
qed

lemma ainv_wake:
  assumes "ainv s F g H msg" "j < MAXSEM" "g j = p # ps"
  shows "\<exists>T' S' fh. removeBlocked (sem_addr s j) s
        = Some (Some p, s\<lparr>procTable := T', semdTable := S', semdFree_h := fh\<rparr>)
    \<and> ainv (s\<lparr>procTable := T', semdTable := S', semdFree_h := fh\<rparr>) F (g(j := ps)) (p # H) msg"
proof -
  let ?b = "sem_base s"
  have ok: "sems_ok (?b, onesem s)" using assms(1) by (simp add: ainv_def env_def)
  have "places s None F [] (Wof ?b g) H" "Wof ?b g (sema ?b j) = p # ps"
    using assms(1,3) Wof_at [OF ok assms(2)] by (simp_all add: ainv_def)
  from places_wake [OF this] obtain T' S' fh where
    "removeBlocked (sem_addr s j) s = Some (Some p, s\<lparr>procTable := T', semdTable := S', semdFree_h := fh\<rparr>)"
    "places (s\<lparr>procTable := T', semdTable := S', semdFree_h := fh\<rparr>) None F [] (Wof ?b (g(j := ps))) (p # H)"
    unfolding sem_addr_sema Wof_upd [OF ok assms(2)] by blast
  then show ?thesis using assms(1)
    by (intro exI [of _ T'] exI [of _ S'] exI [of _ fh]) (simp add: ainv_def)
qed

lemma ainv_wake_none:
  assumes "ainv s F g H msg" "j < MAXSEM" "g j = []"
  shows "removeBlocked (sem_addr s j) s = Some (None, s)"
proof -
  have ok: "sems_ok (sem_base s, onesem s)" using assms(1) by (simp add: ainv_def env_def)
  show ?thesis unfolding sem_addr_sema
    by (rule places_wake_none [where W = "Wof (sem_base s) g" and H = H])
      (use assms(1,3) sema_props(2) [OF ok assms(2)] Wof_at [OF ok assms(2)] in \<open>auto simp: ainv_def\<close>)
qed

lemma ainv_head:
  assumes "ainv s F g H msg" "j < MAXSEM"
  shows "headBlocked (sem_addr s j) s = Some (if g j = [] then None else Some (hd (g j)))"
proof -
  have ok: "sems_ok (sem_base s, onesem s)" using assms(1) by (simp add: ainv_def env_def)
  have "places s None F [] (Wof (sem_base s) g) H" using assms(1) by (simp add: ainv_def)
  from places_head [OF this sema_props(2) [OF ok assms(2)]] show ?thesis
    unfolding sem_addr_sema Wof_at [OF ok assms(2)] .
qed

text \<open>Taking the first process off a semaphore with one or two processes, and a second time.\<close>

lemma ainv_out:
  assumes "ainv s F g H msg" "j < MAXSEM" "g j = p # ps" "ps = [] \<or> (\<exists>q. ps = [q])"
  shows "\<exists>T' S' fh. outBlocked (Some p) s
        = Some (Some p, s\<lparr>procTable := T', semdTable := S', semdFree_h := fh\<rparr>)
    \<and> ainv (s\<lparr>procTable := T', semdTable := S', semdFree_h := fh\<rparr>) F (g(j := ps)) (p # H) msg
    \<and> p_semAdd (T' p) = sema (sem_base s) j"
proof -
  let ?b = "sem_base s"
  have ok: "sems_ok (?b, onesem s)" using assms(1) by (simp add: ainv_def env_def)
  have k: "places s None F [] (Wof ?b g) H" using assms(1) by (simp add: ainv_def)
  have W: "Wof ?b g (sema ?b j) = p # ps" using Wof_at [OF ok assms(2)] assms(3) by simp
  then have p: "p \<in> set (Wof ?b g (sema ?b j))" by simp
  have "removable p (Wof ?b g)"
    unfolding removable_def
  proof (intro allI impI)
    fix a assume "p \<in> set (Wof ?b g a)"
    then have "a = sema ?b j" using places_wait_unique [OF k _ p] by blast
    moreover have "distinct (p # ps)" using places_wait_distinct [OF k, of "sema ?b j"] W by simp
    ultimately show "Wof ?b g a = [p] \<or> Wof ?b g a ! (1 mod length (Wof ?b g a)) \<noteq> p"
      using W assms(4) by auto
  qed
  from places_outBlocked [OF k p this] obtain T' S' fh where
    o: "outBlocked (Some p) s = Some (Some p, s\<lparr>procTable := T', semdTable := S', semdFree_h := fh\<rparr>)"
    "places (s\<lparr>procTable := T', semdTable := S', semdFree_h := fh\<rparr>) None F [] (Wof ?b (g(j := ps))) (p # H)"
    and fr: "qframe (set (p # ps)) (procTable s) T'"
    unfolding W Wof_upd [OF ok assms(2)] by auto
  have "p_semAdd (T' p) = sema ?b j" using places_wait(4) [OF k p] by (simp add: qframe_fields [OF fr])
  with o show ?thesis using assms(1)
    by (intro exI [of _ T'] exI [of _ S'] exI [of _ fh]) (simp add: ainv_def)
qed

lemma ainv_out_none:
  assumes "ainv s F g H msg" "j < MAXSEM" "g j = []" "p \<in> set H" "p_semAdd (procTable s p) = sema (sem_base s) j"
  shows "outBlocked (Some p) s = Some (None, s)"
proof -
  have ok: "sems_ok (sem_base s, onesem s)" using assms(1) by (simp add: ainv_def env_def)
  have k: "places s None F [] (Wof (sem_base s) g) H" using assms(1) by (simp add: ainv_def)
  show ?thesis
    by (rule places_out_none [OF k])
      (use places_distinct(2) [OF k, of p] assms(4,5) sema_props(2) [OF ok assms(2)] Wof_at [OF ok assms(2)] assms(3) in auto)
qed

lemma ainv_full:
  assumes "ainv s F g H msg" "\<forall>j<MAXSEM. g j \<noteq> []"
  shows "insertBlocked (onesem s) p s = Some (True, s)"
proof -
  have ok: "sems_ok (sem_base s, onesem s)" using assms(1) by (simp add: ainv_def env_def)
  have k: "places s None F [] (Wof (sem_base s) g) H" using assms(1) by (simp add: ainv_def)
  have "inj_on (sema (sem_base s)) {..<MAXSEM}"
    using sema_props(3) [OF ok] by (intro inj_onI) simp
  then have "card (sema (sem_base s) ` {..<MAXSEM}) = MAXPROC" by (simp add: card_image MAXSEM_def)
  then show ?thesis
    by (rule places_block_full [OF k])
      (use ok assms(2) Wof_at [OF ok] Wof_other [of "onesem s" "sem_base s" g] sema_props(4) [OF ok]
        in \<open>auto simp: sems_ok_def\<close>)
qed

lemma block_loop:
  assumes p: "ainv s (map who [a..<b] @ F) g [] msg" and ab: "a \<le> b" "b \<le> MAXSEM"
    and g: "\<forall>j. a \<le> j \<longrightarrow> j < b \<longrightarrow> g j = []"
  shows "\<exists>t. pfor (blockOne m) [a..<b] s = finish t
    \<and> ainv t F (\<lambda>j. if a \<le> j \<and> j < b then [who j] else g j) [] msg \<and> env t = env s
    \<and> procp t = (\<lambda>j. if a \<le> j \<and> j < b then Some (who j) else procp s j)"
proof -
  define G where "G = (\<lambda>i j. if a \<le> j \<and> j < i then [who j] else g j)"
  define I where "I = (\<lambda>i t. ainv t (map who [i..<b] @ F) (G i) [] msg \<and> env t = env s
    \<and> procp t = (\<lambda>j. if a \<le> j \<and> j < i then Some (who j) else procp s j))"
  have "\<exists>t. pfor (blockOne m) [a..<b] s = finish t \<and> I b t"
  proof (rule pfor_upt [OF ab(1)])
    have "G a = g" "procp s = (\<lambda>j. if a \<le> j \<and> j < a then Some (who j) else procp s j)"
      by (auto simp: G_def fun_eq_iff)
    then show "I a s" using p unfolding I_def by metis
  next
    fix i t assume i: "a \<le> i" "i < b" and I: "I i t"
    have "ainv t (who i # map who [Suc i..<b] @ F) (G i) [] msg"
      using I i by (simp add: I_def upt_conv_Cons)
    from ainv_alloc [OF this] obtain T h where
      al: "allocPcb t = Some (Some (who i), t\<lparr>procTable := T, pcbFree_h := h\<rparr>)"
      and q: "ainv (t\<lparr>procTable := T, pcbFree_h := h\<rparr>) (map who [Suc i..<b] @ F) (G i) [who i] msg" by blast
    define t1 where "t1 = t\<lparr>procTable := T, pcbFree_h := h, procp := (procp t)(i := Some (who i))\<rparr>"
    have q1: "ainv t1 (map who [Suc i..<b] @ F) (G i) [who i] msg" using q unfolding t1_def ainv_upd .
    have "i < MAXSEM" using i ab by simp
    from ainv_block [OF q1 this] obtain T' S' fh where
      bl: "insertBlocked (sem_addr t1 i) (Some (who i)) t1
        = Some (False, t1\<lparr>procTable := T', semdTable := S', semdFree_h := fh\<rparr>)"
      and q2: "ainv (t1\<lparr>procTable := T', semdTable := S', semdFree_h := fh\<rparr>) (map who [Suc i..<b] @ F)
        ((G i)(i := G i i @ [who i])) [] msg" by blast
    let ?t = "t1\<lparr>procTable := T', semdTable := S', semdFree_h := fh\<rparr>"
    have "(G i)(i := G i i @ [who i]) = G (Suc i)"
      using g i by (auto simp: G_def fun_eq_iff less_Suc_eq)
    with q2 I i have "I (Suc i) ?t" by (auto simp: I_def t1_def fun_eq_iff less_Suc_eq)
    moreover have "blockOne m i t = finish ?t"
      using al bl unfolding blockOne_def t1_def by simp
    ultimately show "\<exists>t'. blockOne m i t = finish t' \<and> I (Suc i) t'" by (intro exI [of _ ?t] conjI)
  qed
  then show ?thesis unfolding I_def G_def by auto
qed

definition msgs_block :: string where
  "msgs_block = ''Initialized active semaphore list   '' @ NL @ ''insertBlocked test #1 started  '' @ NL
     @ ''insertBlocked test #2 started  '' @ NL"

lemma testInsertBlocked_run:
  assumes p: "pinv u s None ([10, 15] @ rest @ [0..<10]) [] [] msg" and e: "sems_ok (env s)"
    and len: "length msg + length msgs_block < 2048"
  shows "\<exists>s'. testInsertBlocked s = finish s' \<and> ainv s' [] (\<lambda>j. if j < MAXSEM then [who j] else []) [] (msg @ msgs_block)
    \<and> (\<forall>j<MAXSEM. procp s' j = Some (who j)) \<and> env s' = env s"
proof -
  let ?w1 = "''Initialized active semaphore list   '' @ NL" and ?w2 = "''insertBlocked test #1 started  '' @ NL"
    and ?w3 = "''insertBlocked test #2 started  '' @ NL"
  note len = len [unfolded msgs_block_def]
  obtain s0 where 0: "initASL s = Some s0" "ainv s0 ([10, 15] @ rest @ [0..<10]) (\<lambda>_. []) [] msg" "env s0 = env s"
    using ainv_init [OF p e] by blast
  obtain s1 where 1: "addokbuf ?w1 s0 = Some s1" "talked s0 s1"
    "ainv s1 ([10, 15] @ rest @ [0..<10]) (\<lambda>_. []) [] (msg @ ?w1)"
    using ainv_talk [OF 0(2), of ?w1] len by auto
  obtain s2 where 2: "addokbuf ?w2 s1 = Some s2" "talked s1 s2"
    "ainv s2 ([10, 15] @ rest @ [0..<10]) (\<lambda>_. []) [] ((msg @ ?w1) @ ?w2)"
    using ainv_talk [OF 1(3), of ?w2] len by auto
  have F: "[10, 15] @ rest @ [0..<10] = map who [10..<MAXPROC] @ map who [0..<10]" by code_simp
  have "10 \<le> MAXPROC" "MAXPROC \<le> MAXSEM" "10 \<le> MAXSEM" by (simp_all add: MAXPROC_def MAXSEM_def)
  note b = this
  from block_loop [OF 2(3) [unfolded F] b(1,2)] obtain s3 where
    3: "pfor (blockOne ''insertBlocked(1): unexpected TRUE   '') [10..<MAXPROC] s2 = finish s3"
    "ainv s3 (map who [0..<10]) (\<lambda>j. if 10 \<le> j \<and> j < MAXPROC then [who j] else []) [] ((msg @ ?w1) @ ?w2)"
    "env s3 = env s2" "procp s3 = (\<lambda>j. if 10 \<le> j \<and> j < MAXPROC then Some (who j) else procp s2 j)" by blast
  obtain s4 where 4: "addokbuf ?w3 s3 = Some s4" "talked s3 s4"
    "ainv s4 (map who [0..<10] @ []) (\<lambda>j. if 10 \<le> j \<and> j < MAXPROC then [who j] else []) [] (((msg @ ?w1) @ ?w2) @ ?w3)"
    using ainv_talk [OF 3(2), of ?w3] len by auto
  let ?g = "\<lambda>j. if j < MAXSEM then [who j] else []"
  have g: "(\<lambda>j. if 0 \<le> j \<and> j < 10 then [who j] else if 10 \<le> j \<and> j < MAXPROC then [who j] else []) = ?g"
    by (auto simp: fun_eq_iff MAXSEM_def MAXPROC_def)
  obtain s5 where
    5: "pfor (blockOne ''insertBlocked(2): unexpected TRUE   '') [0..<10] s4 = finish s5"
    "ainv s5 [] ?g [] (((msg @ ?w1) @ ?w2) @ ?w3)" "env s5 = env s4"
    "procp s5 = (\<lambda>j. if 0 \<le> j \<and> j < 10 then Some (who j) else procp s4 j)"
    using block_loop [OF 4(3) zero_le b(3)] unfolding g by auto
  have m11: "11 < MAXSEM" by (simp add: MAXSEM_def MAXPROC_def)
  then have "?g 11 = who 11 # []" by simp
  from ainv_wake [OF 5(2) m11 this] obtain T6 S6 f6 where
    6: "removeBlocked (sem_addr s5 11) s5 = Some (Some (who 11), s5\<lparr>procTable := T6, semdTable := S6, semdFree_h := f6\<rparr>)"
    "ainv (s5\<lparr>procTable := T6, semdTable := S6, semdFree_h := f6\<rparr>) [] (?g(11 := [])) [who 11] (((msg @ ?w1) @ ?w2) @ ?w3)"
    by blast
  define t6 where "t6 = s5\<lparr>procTable := T6, semdTable := S6, semdFree_h := f6, var_p := Some (who 11)\<rparr>"
  have t6: "ainv t6 [] (?g(11 := [])) [who 11] (((msg @ ?w1) @ ?w2) @ ?w3)"
    using 6(2) unfolding t6_def ainv_upd .
  from ainv_block [OF this m11] obtain T7 S7 f7 where
    7: "insertBlocked (sem_addr t6 11) (Some (who 11)) t6 = Some (False, t6\<lparr>procTable := T7, semdTable := S7, semdFree_h := f7\<rparr>)"
    "ainv (t6\<lparr>procTable := T7, semdTable := S7, semdFree_h := f7\<rparr>) [] ((?g(11 := []))(11 := (?g(11 := [])) 11 @ [who 11])) []
      (((msg @ ?w1) @ ?w2) @ ?w3)" by blast
  define s7 where "s7 = t6\<lparr>procTable := T7, semdTable := S7, semdFree_h := f7\<rparr>"
  have "(?g(11 := []))(11 := (?g(11 := [])) 11 @ [who 11]) = ?g" using m11 by (simp add: fun_eq_iff)
  with 7(2) have s7: "ainv s7 [] ?g [] (((msg @ ?w1) @ ?w2) @ ?w3)" unfolding s7_def by metis
  have full: "insertBlocked (onesem s7) p s7 = Some (True, s7)" for p
    by (rule ainv_full [OF s7]) simp
  have f7: "var_p t6 = Some (who 11)" by (simp add: t6_def)
  have "testInsertBlocked s = finish s7"
    using 0(1) 1(1) 2(1) 3(1) 4(1) 5(1) 6(1) 7(1) full f7
    unfolding testInsertBlocked_def s7_def t6_def by (simp add: Let_def)
  moreover have "\<forall>j<MAXSEM. procp s7 j = Some (who j)"
    using 5(4) talkedD(6) [OF 4(2)] 3(4) by (auto simp: s7_def t6_def MAXSEM_def MAXPROC_def)
  moreover have "env s7 = env s"
    using 5(3) 4(2) 3(3) 2(2) 1(2) 0(3) by (simp add: s7_def t6_def)
  ultimately show ?thesis using s7 by (intro exI [of _ s7]) (simp add: msgs_block_def)
qed

text \<open>What waits on \<open>sem[j]\<close> when the processes of \<open>sem[10]\<close> to \<open>sem[k - 1]\<close> have moved.\<close>

definition moved :: "nat \<Rightarrow> nat \<Rightarrow> nat list" where
  "moved k j = (if j < 10 then (if j + 10 < k then [who j, who (j + 10)] else [who j])
     else if k \<le> j \<and> j < MAXSEM then [who j] else [])"

lemma move_loop:
  assumes p: "ainv s [] (moved 10) [] msg" and v: "\<forall>j<MAXSEM. procp s j = Some (who j)"
  shows "\<exists>t. pfor moveOne [10..<MAXPROC] s = finish t \<and> ainv t [] (moved MAXPROC) [] msg
    \<and> env t = env s \<and> procp t = procp s"
proof -
  define I where "I = (\<lambda>i t. ainv t [] (moved i) [] msg \<and> env t = env s \<and> procp t = procp s)"
  have "\<exists>t. pfor moveOne [10..<MAXPROC] s = finish t \<and> I MAXPROC t"
  proof (rule pfor_upt)
    show "10 \<le> MAXPROC" by (simp add: MAXPROC_def)
    show "I 10 s" using p by (simp add: I_def)
  next
    fix i t assume i: "10 \<le> i" "i < MAXPROC" and I: "I i t"
    have j: "i < MAXSEM" "i - 10 < MAXSEM" using i by (simp_all add: MAXSEM_def)
    have "ainv t [] (moved i) [] msg" "moved i i = who i # []" using I i j by (simp_all add: I_def moved_def)
    from ainv_wake [OF this(1) j(1) this(2)] obtain T S f where
      rm: "removeBlocked (sem_addr t i) t = Some (Some (who i), t\<lparr>procTable := T, semdTable := S, semdFree_h := f\<rparr>)"
      and q: "ainv (t\<lparr>procTable := T, semdTable := S, semdFree_h := f\<rparr>) [] ((moved i)(i := [])) [who i] msg" by blast
    define t1 where "t1 = t\<lparr>procTable := T, semdTable := S, semdFree_h := f, var_q := Some (who i)\<rparr>"
    have q1: "ainv t1 [] ((moved i)(i := [])) [who i] msg" using q unfolding t1_def ainv_upd .
    from ainv_block [OF q1 j(2)] obtain T' S' f' where
      bl: "insertBlocked (sem_addr t1 (i - 10)) (Some (who i)) t1
        = Some (False, t1\<lparr>procTable := T', semdTable := S', semdFree_h := f'\<rparr>)"
      and q2: "ainv (t1\<lparr>procTable := T', semdTable := S', semdFree_h := f'\<rparr>) []
        (((moved i)(i := []))(i - 10 := ((moved i)(i := [])) (i - 10) @ [who i])) [] msg" by blast
    define t2 where "t2 = t1\<lparr>procTable := T', semdTable := S', semdFree_h := f'\<rparr>"
    have "((moved i)(i := []))(i - 10 := ((moved i)(i := [])) (i - 10) @ [who i]) = moved (Suc i)"
      using i by (auto simp: moved_def fun_eq_iff MAXSEM_def MAXPROC_def)
    with q2 have "ainv t2 [] (moved (Suc i)) [] msg" unfolding t2_def by metis
    moreover have t1: "procp t1 = procp s" "env t1 = env s" "var_q t1 = Some (who i)"
      using I by (simp_all add: t1_def I_def)
    ultimately have "I (Suc i) t2" by (simp add: I_def t2_def)
    moreover have "moveOne i t = finish t2"
      using rm bl t1 v j(1) unfolding moveOne_def t2_def t1_def by simp
    ultimately show "\<exists>t'. moveOne i t = finish t' \<and> I (Suc i) t'" by (intro exI [of _ t2] conjI)
  qed
  then show ?thesis unfolding I_def by auto
qed

definition msgs_move :: string where
  "msgs_move = ''removeBlocked test started   '' @ NL @ ''insertBlocked and removeBlocked ok   '' @ NL"

lemma testRemoveBlocked_run:
  assumes p: "ainv s [] (\<lambda>j. if j < MAXSEM then [who j] else []) [] msg"
    and v: "\<forall>j<MAXSEM. procp s j = Some (who j)" and len: "length msg + length msgs_move < 2048"
  shows "\<exists>s'. testRemoveBlocked s = finish s' \<and> ainv s' [] (moved MAXPROC) [] (msg @ msgs_move)
    \<and> env s' = env s \<and> procp s' = procp s"
proof -
  let ?w1 = "''removeBlocked test started   '' @ NL" and ?w2 = "''insertBlocked and removeBlocked ok   '' @ NL"
  note len = len [unfolded msgs_move_def]
  have "(\<lambda>j. if j < MAXSEM then [who j] else []) = moved 10"
    by (auto simp: moved_def fun_eq_iff MAXSEM_def MAXPROC_def)
  with p have p': "ainv s [] (moved 10) [] msg" by simp
  obtain s1 where 1: "addokbuf ?w1 s = Some s1" "talked s s1" "ainv s1 [] (moved 10) [] (msg @ ?w1)"
    using ainv_talk [OF p', of ?w1] len by auto
  have v1: "\<forall>j<MAXSEM. procp s1 j = Some (who j)" using v talkedD(6) [OF 1(2)] by simp
  from move_loop [OF 1(3) v1] obtain s2 where 2: "pfor moveOne [10..<MAXPROC] s1 = finish s2"
    "ainv s2 [] (moved MAXPROC) [] (msg @ ?w1)" "env s2 = env s1" "procp s2 = procp s1" by blast
  have "11 < MAXSEM" "moved MAXPROC 11 = []" by (simp_all add: moved_def MAXSEM_def MAXPROC_def)
  from ainv_wake_none [OF 2(2) this] have none: "removeBlocked (sem_addr s2 11) s2 = Some (None, s2)" .
  obtain s3 where 3: "addokbuf ?w2 s2 = Some s3" "talked s2 s3"
    "ainv s3 [] (moved MAXPROC) [] ((msg @ ?w1) @ ?w2)"
    using ainv_talk [OF 2(2), of ?w2] len by auto
  have "testRemoveBlocked s = finish s3"
    using 1(1) 2(1) none 3(1) unfolding testRemoveBlocked_def by simp
  then show ?thesis using 1(2) 2(3,4) 3(2,3) talkedD(6) [OF 1(2)] talkedD(6) [OF 3(2)]
    by (intro exI [of _ s3]) (simp add: msgs_move_def)
qed

definition msgs_last :: string where
  "msgs_last = ''headBlocked and outBlocked ok   '' @ NL @ ''ASL module ok   '' @ NL
     @ ''So Long and Thanks for All the Fish'' @ NL"

lemma testOutBlocked_run:
  assumes p: "ainv s [] (moved MAXPROC) [] msg" and v: "\<forall>j<MAXSEM. procp s j = Some (who j)"
    and len: "length msg + length msgs_last < 2048"
  shows "\<exists>s' g. testOutBlocked s = finish s' \<and> ainv s' [] g [19, 9] (msg @ msgs_last)"
proof -
  let ?w1 = "''headBlocked and outBlocked ok   '' @ NL" and ?w2 = "''ASL module ok   '' @ NL"
    and ?w3 = "''So Long and Thanks for All the Fish'' @ NL"
  note len = len [unfolded msgs_last_def]
  let ?g = "moved MAXPROC"
  have m: "11 < MAXSEM" "9 < MAXSEM" "19 < MAXSEM" by (simp_all add: MAXSEM_def MAXPROC_def)
  have g: "?g 11 = []" "?g 9 = 9 # [19]" by code_simp+
  have w: "who 9 = 9" "who 19 = 19" by code_simp+
  have h0: "headBlocked (sem_addr s 11) s = Some None" using ainv_head [OF p m(1)] g by simp
  have h1: "headBlocked (sem_addr s 9) s = Some (Some 9)" using ainv_head [OF p m(2)] g by simp
  define s1 where "s1 = s\<lparr>var_q := Some 9\<rparr>"
  have p1: "ainv s1 [] ?g [] msg" using p unfolding s1_def ainv_upd .
  from ainv_out [OF p1 m(2) g(2)] obtain T2 S2 f2 where
    o1: "outBlocked (Some 9) s1 = Some (Some 9, s1\<lparr>procTable := T2, semdTable := S2, semdFree_h := f2\<rparr>)"
    "ainv (s1\<lparr>procTable := T2, semdTable := S2, semdFree_h := f2\<rparr>) [] (?g(9 := [19])) [9] msg" by blast
  define s2 where "s2 = s1\<lparr>procTable := T2, semdTable := S2, semdFree_h := f2, var_p := Some 9\<rparr>"
  have p2: "ainv s2 [] (?g(9 := [19])) [9] msg" using o1(2) unfolding s2_def ainv_upd .
  have h2: "headBlocked (sem_addr s2 9) s2 = Some (Some 19)" using ainv_head [OF p2 m(2)] by simp
  define s3 where "s3 = s2\<lparr>var_q := Some 19\<rparr>"
  have p3: "ainv s3 [] (?g(9 := [19])) [9] msg" using p2 unfolding s3_def ainv_upd .
  have "(?g(9 := [19])) 9 = 19 # []" "[] = [] \<or> (\<exists>q. [] = [q::nat])" by simp_all
  from ainv_out [OF p3 m(2) this] obtain T4 S4 f4 where
    o2: "outBlocked (Some 19) s3 = Some (Some 19, s3\<lparr>procTable := T4, semdTable := S4, semdFree_h := f4\<rparr>)"
    "ainv (s3\<lparr>procTable := T4, semdTable := S4, semdFree_h := f4\<rparr>) [] ((?g(9 := [19]))(9 := [])) [19, 9] msg"
    and sa: "p_semAdd (T4 19) = sema (sem_base s3) 9" by blast
  define s4 where "s4 = s3\<lparr>procTable := T4, semdTable := S4, semdFree_h := f4, var_p := Some 19\<rparr>"
  have p4: "ainv s4 [] ((?g(9 := [19]))(9 := [])) [19, 9] msg" using o2(2) unfolding s4_def ainv_upd .
  have o3: "outBlocked (Some 19) s4 = Some (None, s4)"
    by (rule ainv_out_none [OF p4 m(2)]) (use sa in \<open>simp_all add: s4_def\<close>)
  define s5 where "s5 = s4\<lparr>var_p := None\<rparr>"
  have p5: "ainv s5 [] ((?g(9 := [19]))(9 := [])) [19, 9] msg" using p4 unfolding s5_def ainv_upd .
  have h3: "headBlocked (sem_addr s5 9) s5 = Some None" using ainv_head [OF p5 m(2)] by simp
  obtain s6 where 6: "addokbuf ?w1 s5 = Some s6" "ainv s6 [] ((?g(9 := [19]))(9 := [])) [19, 9] (msg @ ?w1)"
    using ainv_talk [OF p5, of ?w1] len by auto
  obtain s7 where 7: "addokbuf ?w2 s6 = Some s7"
    "ainv s7 [] ((?g(9 := [19]))(9 := [])) [19, 9] ((msg @ ?w1) @ ?w2)"
    using ainv_talk [OF 6(2), of ?w2] len by auto
  obtain s8 where 8: "addokbuf ?w3 s7 = Some s8"
    "ainv s8 [] ((?g(9 := [19]))(9 := [])) [19, 9] (((msg @ ?w1) @ ?w2) @ ?w3)"
    using ainv_talk [OF 7(2), of ?w3] len by auto
  have vs: "procp s1 = procp s" "var_q s1 = Some 9" "var_q s2 = Some 9" "var_p s2 = Some 9" "procp s3 = procp s"
    "var_q s3 = Some 19" "var_q s4 = Some 19" "var_p s4 = Some 19" "var_p s5 = None"
    by (simp_all add: s1_def s2_def s3_def s4_def s5_def)
  have "procp s 9 = Some 9" "procp s 19 = Some 19" using v m w by simp_all
  note vs = vs this
  have "testOutBlocked s = finish s8"
    unfolding testOutBlocked_def Let_def
    using h0 h1 o1(1) h2 o2(1) o3 h3 6(1) 7(1) 8(1) vs
    by (simp add: s1_def [symmetric] s2_def [symmetric] s3_def [symmetric] s4_def [symmetric] s5_def [symmetric])
  then show ?thesis using 8(2) by (intro exI [of _ s8] exI [of _ "(?g(9 := [19]))(9 := [])"]) (simp add: msgs_last_def)
qed

section \<open>Properties\<close>

text \<open>The progress messages of a run without error, in order.\<close>

definition progress :: string where
  "progress = concat (map (\<lambda>m. m @ NL)
     [''Initialized process control blocks   '', ''allocPcb ok   '', ''freed 10 entries   '',
      ''Inserting...   '', ''inserted 10 elements   '', ''outProcQ ok   '', ''Removing...   '',
      ''insertProcQ, removeProcQ and emptyProcQ ok   '', ''process queues module ok      '',
      ''checking process trees...'', ''Inserting...   '', ''Inserted 9 children   '', ''outChild ok   '',
      ''Removing...   '', ''insertChild, removeChild and emptyChild ok   '', ''process tree module ok      '',
      ''Initialized active semaphore list   '', ''insertBlocked test #1 started  '',
      ''insertBlocked test #2 started  '', ''removeBlocked test started   '',
      ''insertBlocked and removeBlocked ok   '', ''headBlocked and outBlocked ok   '', ''ASL module ok   '',
      ''So Long and Thanks for All the Fish''])"

lemma progress_parts:
  "progress = msgs_alloc @ msgs_insert @ msgs_out @ msgs_remove @ msgs_tree @ msgs_orphan
     @ msgs_block @ msgs_move @ msgs_last"
  by code_simp

lemma progress_length: "length progress < 1024"
  by code_simp

lemma main2_run:
  assumes "said s []" "sems_ok (env s)"
  shows "\<exists>s' g. main2 s = finish s' \<and> ainv s' [] g [19, 9] progress"
proof -
  have "length (msgs_alloc @ msgs_insert @ msgs_out @ msgs_remove @ msgs_tree @ msgs_orphan
     @ msgs_block @ msgs_move @ msgs_last) < 2048"
    using progress_length unfolding progress_parts by linarith
  then have len: "length [] + length msgs_alloc < 2048"
    "length ([] @ msgs_alloc) + length msgs_insert < 2048"
    "length (([] @ msgs_alloc) @ msgs_insert) + length msgs_out < 2048"
    "length ((([] @ msgs_alloc) @ msgs_insert) @ msgs_out) + length msgs_remove < 2048"
    "length (((([] @ msgs_alloc) @ msgs_insert) @ msgs_out) @ msgs_remove) + length msgs_tree < 2048"
    "length ((((([] @ msgs_alloc) @ msgs_insert) @ msgs_out) @ msgs_remove) @ msgs_tree) + length msgs_orphan < 2048"
    "length (((((([] @ msgs_alloc) @ msgs_insert) @ msgs_out) @ msgs_remove) @ msgs_tree) @ msgs_orphan)
       + length msgs_block < 2048"
    "length ((((((([] @ msgs_alloc) @ msgs_insert) @ msgs_out) @ msgs_remove) @ msgs_tree) @ msgs_orphan)
       @ msgs_block) + length msgs_move < 2048"
    "length (((((((([] @ msgs_alloc) @ msgs_insert) @ msgs_out) @ msgs_remove) @ msgs_tree) @ msgs_orphan)
       @ msgs_block) @ msgs_move) + length msgs_last < 2048"
    unfolding length_append list.size(3) by linarith+
  obtain s1 where 1: "testAlloc s = finish s1" "env s1 = env s"
    "pinv True s1 None [10..<MAXPROC] [] [0..<10] ([] @ msgs_alloc)" "\<forall>j<10. procp s1 j = Some j"
    using testAlloc_run [OF assms(1) len(1)] by blast
  have "pinv True s1 None [10..<20] [] [0..<10] ([] @ msgs_alloc)" using 1(3) by (simp add: MAXPROC_def)
  from testInsertQ_run [OF this len(2)] obtain s2 where 2: "testInsertQ s1 = finish s2" "env s2 = env s1"
    "pinv True s2 (var_qa s2) [] [10..<20] [0..<10] (([] @ msgs_alloc) @ msgs_insert)" "procp s2 = procp s1"
    "firstproc s2 = Some 10" "midproc s2 = Some 15" "lastproc s2 = Some 19" by blast
  have "procp s2 0 = Some 0" using 1(4) 2(4) by simp
  from testOutQ_run [OF 2(3) len(3) 2(5,6) this] obtain s3 where 3: "testOutQ s2 = finish s3"
    "pinv True s3 (var_qa s3) [10, 15] rest [0..<10] ((([] @ msgs_alloc) @ msgs_insert) @ msgs_out)"
    "env s3 = env s2" "procp s3 = procp s2" "lastproc s3 = lastproc s2" by blast
  have "lastproc s3 = Some 19" using 3(5) 2(7) by simp
  from testRemoveQ_run [OF 3(2) len(4) this] obtain s4 where 4: "testRemoveQ s3 = finish s4"
    "pinv True s4 None ([10, 15] @ rest) [] [0..<10] (((([] @ msgs_alloc) @ msgs_insert) @ msgs_out) @ msgs_remove)"
    "env s4 = env s3" "procp s4 = procp s3" by blast
  have v4: "\<forall>j<10. procp s4 j = Some j" using 1(4) 2(4) 3(4) 4(4) by simp
  from testTree_run [OF 4(2) len(5) v4] obtain s5 where 5: "testTree s4 = finish s5"
    "tinv s5 ([10, 15] @ rest) [0..<10] [9, 8, 7, 6, 5, 3, 2]
      ((((([] @ msgs_alloc) @ msgs_insert) @ msgs_out) @ msgs_remove) @ msgs_tree)"
    "env s5 = env s4" "procp s5 = procp s4" by blast
  have "\<forall>j<10. procp s5 j = Some j" using v4 5(4) by simp
  from testRemoveChild_run [OF 5(2) len(6) this] obtain s6 where 6: "testRemoveChild s5 = finish s6"
    "pinv False s6 None (([10, 15] @ rest) @ [0..<10]) [] []
      (((((([] @ msgs_alloc) @ msgs_insert) @ msgs_out) @ msgs_remove) @ msgs_tree) @ msgs_orphan)"
    "env s6 = env s5" by blast
  have e6: "sems_ok (env s6)" using assms(2) 1(2) 2(2) 3(3) 4(3) 5(3) 6(3) by simp
  have F: "([10, 15] @ rest) @ [0..<10] = [10, 15] @ rest @ [0..<10]" by (rule append_assoc)
  from testInsertBlocked_run [OF 6(2) [unfolded F] e6 len(7)] obtain s7 where 7: "testInsertBlocked s6 = finish s7"
    "ainv s7 [] (\<lambda>j. if j < MAXSEM then [who j] else [])
      [] ((((((([] @ msgs_alloc) @ msgs_insert) @ msgs_out) @ msgs_remove) @ msgs_tree) @ msgs_orphan) @ msgs_block)"
    "\<forall>j<MAXSEM. procp s7 j = Some (who j)" by blast
  from testRemoveBlocked_run [OF 7(2,3) len(8)] obtain s8 where 8: "testRemoveBlocked s7 = finish s8"
    "ainv s8 [] (moved MAXPROC) [] (((((((([] @ msgs_alloc) @ msgs_insert) @ msgs_out) @ msgs_remove) @ msgs_tree)
      @ msgs_orphan) @ msgs_block) @ msgs_move)" "procp s8 = procp s7" by blast
  have "\<forall>j<MAXSEM. procp s8 j = Some (who j)" using 7(3) 8(3) by simp
  from testOutBlocked_run [OF 8(2) this len(9)] obtain s9 g where 9: "testOutBlocked s8 = finish s9"
    "ainv s9 [] g [19, 9] ((((((((([] @ msgs_alloc) @ msgs_insert) @ msgs_out) @ msgs_remove) @ msgs_tree)
      @ msgs_orphan) @ msgs_block) @ msgs_move) @ msgs_last)" by blast
  have "main2 s = finish s9"
    unfolding main2_def 1(1) pseq_simps 2(1) 3(1) 4(1) 5(1) 6(1) 7(1) 8(1) 9(1) ..
  moreover have "ainv s9 [] g [19, 9] progress" using 9(2) unfolding progress_parts by simp
  ultimately show ?thesis by blast
qed

text \<open>A terminal that prints one character per read.\<close>

definition ready_terminal :: "nat \<Rightarrow> p1_state \<Rightarrow> bool" where
  "ready_terminal t s \<longleftrightarrow> (\<forall>n. tstat s t n AND STATUSMASK = TRANSMITTED)"

lemma printCycle_ready:
  "ready_terminal t s \<Longrightarrow> \<exists>tr. printCycle str t s = Some (False, s\<lparr>treads := tr,
     tcmds := (tcmds s)(t := tcmds s t @ map printCmd str)\<rparr>)"
proof (induction str arbitrary: s)
  case Nil
  show ?case by (intro exI [of _ "treads s"]) simp
next
  case (Cons c str)
  let ?s = "s\<lparr>tcmds := (tcmds s)(t := tcmds s t @ [printCmd c]),
    treads := (treads s)(t := Suc (treads s t))\<rparr>"
  have b: "busyWait t (s\<lparr>tcmds := (tcmds s)(t := tcmds s t @ [printCmd c])\<rparr>) = Some (TRANSMITTED, ?s)"
    using Cons.prems by (subst busyWait.simps) (simp add: termstat_def ready_terminal_def TRANSMITTED_def BUSY_def)
  have "ready_terminal t ?s" using Cons.prems by (simp add: ready_terminal_def)
  from Cons.IH [OF this] obtain tr where
    "printCycle str t ?s = Some (False, ?s\<lparr>treads := tr, tcmds := (tcmds ?s)(t := tcmds ?s t @ map printCmd str)\<rparr>)" by blast
  moreover have "printCycle (c # str) t s = printCycle str t ?s" using b by simp
  moreover have "?s\<lparr>treads := tr, tcmds := (tcmds ?s)(t := tcmds ?s t @ map printCmd str)\<rparr>
      = s\<lparr>treads := tr, tcmds := (tcmds s)(t := tcmds s t @ map printCmd (c # str))\<rparr>"
    by (intro p1_state.equality) (simp_all add: fun_eq_iff)
  ultimately show ?case by (intro exI [of _ tr]) metis
qed

definition ex_p1 :: p1_state where
  "ex_p1 = \<lparr>procTable = (\<lambda>_. ex_pcb), pcbFree_h = None, semdTable = (\<lambda>_. \<lparr>s_next = None, s_semAdd = 0, s_procQ = None\<rparr>),
     semd_h = None, semdFree_h = None, okbuf = (\<lambda>_. CHR 0x00), errbuf = (\<lambda>_. CHR 0x00), mp = 0,
     procp = (\<lambda>_. None), var_p = None, var_qa = None, var_q = None, firstproc = None, lastproc = None,
     midproc = None, sem_base = 0x2000, onesem = 0x3000, tstat = (\<lambda>_ n. if even n then BUSY else TRANSMITTED),
     treads = (\<lambda>_. 0), tcmds = (\<lambda>_. [])\<rparr>"

text \<open>
  C26. The phase 1 test passes: from any initial contents of the tables, when the terminal is not
  busy for ever and the semaphores have addresses of their own, main2 returns, it never calls
  PANIC, and okbuf holds exactly the progress messages of every part of the test, as a
  string.
\<close>

theorem main2_passes:
  assumes "mp s = 0" "fair 0 s" "sems_ok (sem_base s, onesem s)"
  shows "\<exists>s'. main2 s = Some (P1_return, s') \<and> okmsg s' = progress"
proof -
  have "said s []" "sems_ok (env s)" using assms by (simp_all add: said_def okmsg_def env_def)
  from main2_run [OF this] show ?thesis by (auto simp: finish_def ainv_def said_def)
qed

theorem main2_passes_witness:
  "\<exists>s'. main2 ex_p1 = Some (P1_return, s') \<and> okmsg s' = progress"
proof (rule main2_passes)
  show "mp ex_p1 = 0" by (simp add: ex_p1_def)
  show "fair 0 ex_p1"
    unfolding fair_def
  proof
    fix n
    have "tstat ex_p1 0 (2 * n + 1) AND STATUSMASK \<noteq> BUSY"
      by (simp add: ex_p1_def STATUSMASK_def BUSY_def TRANSMITTED_def)
    then show "\<exists>m\<ge>n. tstat ex_p1 0 m AND STATUSMASK \<noteq> BUSY" by (intro exI [of _ "2 * n + 1"]) simp
  qed
  have "unat (0x2000 :: 32 word) + 4 * MAXSEM < 2 ^ 32" by (simp add: MAXSEM_def MAXPROC_def)
  then have "sema 0x2000 j \<noteq> 0x3000" if "j < MAXSEM" for j
    using sema_unat [of "0x2000" j] that by (auto simp: MAXSEM_def MAXPROC_def)
  then show "sems_ok (sem_base ex_p1, onesem ex_p1)"
    by (force simp: sems_ok_def ex_p1_def MAXINT_def MAXSEM_def MAXPROC_def)
qed

text \<open>
  termprint on a terminal that transmits: it returns TRUE and the commands written to the
  terminal are exactly the characters of the string, in order, each with the print command; on a
  terminal number of 8 or more it returns FALSE and writes nothing.
\<close>

theorem termprint_prints:
  assumes "t < DEVPERINT \<longrightarrow> ready_terminal t s"
  shows "\<exists>s'. termprint str t s = Some (t < DEVPERINT, s')
    \<and> tcmds s' = (if t < DEVPERINT then (tcmds s)(t := tcmds s t @ map printCmd str) else tcmds s)"
proof (cases "t < DEVPERINT")
  case True
  let ?s = "s\<lparr>treads := (treads s)(t := Suc (treads s t))\<rparr>"
  have "ready_terminal t ?s" using assms True by (simp add: ready_terminal_def)
  from printCycle_ready [OF this] obtain tr where
    "printCycle str t ?s = Some (False, ?s\<lparr>treads := tr, tcmds := (tcmds ?s)(t := tcmds ?s t @ map printCmd str)\<rparr>)"
    by blast
  then show ?thesis using assms True
    by (auto simp: termprint_def termstat_def ready_terminal_def Let_def)
qed (simp add: termprint_def)

theorem termprint_prints_witness:
  "\<exists>s'. termprint ''ok'' 1 (ex_p1\<lparr>tstat := \<lambda>_ _. TRANSMITTED\<rparr>) = Some (1 < DEVPERINT, s')
    \<and> tcmds s' = (if 1 < DEVPERINT then (tcmds (ex_p1\<lparr>tstat := \<lambda>_ _. TRANSMITTED\<rparr>))
        (1 := tcmds (ex_p1\<lparr>tstat := \<lambda>_ _. TRANSMITTED\<rparr>) 1 @ map printCmd ''ok'')
      else tcmds (ex_p1\<lparr>tstat := \<lambda>_ _. TRANSMITTED\<rparr>))"
  by (rule termprint_prints) (simp add: ready_terminal_def TRANSMITTED_def STATUSMASK_def)

end
