(* ===== verification/P3_Process.thy ===== *)
theory P3_Process
  imports Kaya_Types
begin

text \<open>
  The test programs of phase 3 run in user mode, each in its own virtual memory, on a support
  level that gives them virtual memory and system calls of its own. The support level is not
  finished in the repository, so a program is modelled by what it asks of it: a (possibly infinite) tree of
  requests, each with a continuation for the answer, and the support level is a parameter.
\<close>

section \<open>Requests\<close>

text \<open>
  An argument of a system call is a number (an address of a shared segment is one), or the address of an
  object of the program itself, of which the model keeps what the callee may see: the characters
  of an array from the address on, the size of an array to be filled, the value of a variable.
\<close>

datatype arg =
    Num word32
  | Text string
  | Room nat
  | Private word32

datatype request =
    Syscall word32 arg word32 word32
  | Load_int memaddr
  | Store_int memaddr word32
  | Load_char memaddr
  | Store_char memaddr char
  | Divide_by_zero
  | Load_state memaddr
  | Halt

text \<open>The value returned, and the characters put into an array that was passed.\<close>

record reply =
  val :: word32
  chars :: string

section \<open>Processes\<close>

text \<open>\<open>Undef\<close> is what C leaves undefined: an access outside an array of the program.\<close>

codatatype 'a proc =
    Ret 'a
  | Ask request "reply \<Rightarrow> 'a proc"
  | Tau "'a proc"
  | Undef

primcorec bnd :: "'a proc \<Rightarrow> ('a \<Rightarrow> 'b proc) \<Rightarrow> 'b proc" where
  "bnd t f = (case t of
     Ret x \<Rightarrow> f x
   | Ask r c \<Rightarrow> Ask r (\<lambda>v. bnd (c v) f)
   | Tau t' \<Rightarrow> Tau (bnd t' f)
   | Undef \<Rightarrow> Undef)"

text \<open>
  \<open>dowhile f x\<close> repeats \<open>f\<close> as long as it gives \<open>Inl\<close>, the local variables of the next turn. Going
  round is a step of its own, \<open>Tau\<close>: a loop that never ends and asks nothing is a process too.
\<close>

primcorec loop :: "('a \<Rightarrow> ('a + 'b) proc) \<Rightarrow> ('a + 'b) proc \<Rightarrow> 'b proc" where
  "loop f t = (case t of
     Ret z \<Rightarrow> (case z of Inl x \<Rightarrow> Tau (loop f (f x)) | Inr y \<Rightarrow> Ret y)
   | Ask r c \<Rightarrow> Ask r (\<lambda>v. loop f (c v))
   | Tau t' \<Rightarrow> Tau (loop f t')
   | Undef \<Rightarrow> Undef)"

definition dowhile :: "('a \<Rightarrow> ('a + 'b) proc) \<Rightarrow> 'a \<Rightarrow> 'b proc" where
  "dowhile f x = loop f (f x)"

lemma bnd_simps [simp]:
  "bnd (Ret x) f = f x"
  "bnd (Ask r c) f = Ask r (\<lambda>v. bnd (c v) f)"
  "bnd (Tau t) f = Tau (bnd t f)"
  "bnd Undef f = Undef"
  by (simp_all add: bnd.code)

lemma loop_simps [simp]:
  "loop f (Ret (Inl x)) = Tau (dowhile f x)"
  "loop f (Ret (Inr y)) = Ret y"
  "loop f (Ask r c) = Ask r (\<lambda>v. loop f (c v))"
  "loop f (Tau t) = Tau (loop f t)"
  "loop f Undef = Undef"
  by (simp_all add: loop.code dowhile_def)

lemma bnd_assoc: "bnd (bnd t f) g = bnd t (\<lambda>x. bnd (f x) g)"
proof (coinduction arbitrary: t rule: proc.coinduct_strong)
  case Eq_proc
  show ?case by (cases t) (auto simp: rel_fun_def)
qed

lemma bnd_Ret: "bnd t Ret = t"
proof (coinduction arbitrary: t rule: proc.coinduct_strong)
  case Eq_proc
  show ?case by (cases t) (auto simp: rel_fun_def)
qed

text \<open>A sequence of statements.\<close>

fun block :: "unit proc list \<Rightarrow> unit proc" where
  "block [] = Ret ()"
| "block (t # ts) = bnd t (\<lambda>_. block ts)"

definition syscall_ret :: "word32 \<Rightarrow> arg \<Rightarrow> word32 \<Rightarrow> word32 \<Rightarrow> word32 proc" where
  "syscall_ret n a b c = Ask (Syscall n a b c) (\<lambda>v. Ret (val v))"

definition do_ask :: "request \<Rightarrow> unit proc" where
  "do_ask r = Ask r (\<lambda>_. Ret ())"

definition load_int :: "memaddr \<Rightarrow> word32 proc" where
  "load_int a = Ask (Load_int a) (\<lambda>v. Ret (val v))"

definition load_char :: "memaddr \<Rightarrow> char proc" where
  "load_char a = Ask (Load_char a) (\<lambda>v. Ret (char_of (unat (val v))))"

lemmas ask_defs = syscall_ret_def do_ask_def load_int_def load_char_def

section \<open>Runs of one process\<close>

text \<open>
  The support level (with the machine below it) answers a request in its state, ends the process,
  or does not answer yet.
\<close>

datatype 's answer =
    Reply reply 's
  | Kill 's
  | Wait

type_synonym 's support = "request \<Rightarrow> 's \<Rightarrow> 's answer"

datatype ('a, 's) ending =
    Finished 'a 's
  | Killed 's
  | Undefined 's

text \<open>
  \<open>does E p s tr e\<close>: on the support level \<open>E\<close> in state \<open>s\<close>, process \<open>p\<close> makes the requests \<open>tr\<close>, in
  this order, and then ends as \<open>e\<close>. A process that runs for ever, or waits for ever, does nothing
  in this sense.
\<close>

inductive does :: "'s support \<Rightarrow> 'a proc \<Rightarrow> 's \<Rightarrow> request list \<Rightarrow> ('a, 's) ending \<Rightarrow> bool"
  for E :: "'s support" where
  does_Ret: "does E (Ret x) s [] (Finished x s)"
| does_Undef: "does E Undef s [] (Undefined s)"
| does_Tau: "does E t s tr e \<Longrightarrow> does E (Tau t) s tr e"
| does_Kill: "E r s = Kill s' \<Longrightarrow> does E (Ask r c) s [r] (Killed s')"
| does_Ask: "E r s = Reply v s' \<Longrightarrow> does E (c v) s' tr e \<Longrightarrow> does E (Ask r c) s (r # tr) e"

inductive_cases does_AskE: "does E (Ask r c) s tr e"

inductive_simps does_Ret_iff [simp]: "does E (Ret x) s tr e"
inductive_simps does_Undef_iff [simp]: "does E Undef s tr e"
inductive_simps does_Tau_iff [simp]: "does E (Tau t) s tr e"
inductive_simps does_Ask_iff: "does E (Ask r c) s tr e"

text \<open>A support level decides what a process does.\<close>

lemma does_unique:
  assumes "does E t s tr e" and "does E t s tr' e'"
  shows "tr = tr' \<and> e = e'"
  using assms
proof (induction arbitrary: tr' rule: does.induct)
  case (does_Kill r s s' c)
  then show ?case by (auto elim: does_AskE)
next
  case (does_Ask r s v s' c tr e)
  from does_Ask.prems does_Ask.hyps(1) does_Ask.IH show ?case
    by (elim does_AskE) auto
qed simp_all

text \<open>The rules by which the programs are run.\<close>

lemma does_bnd_cases:
  assumes "does E t s tr e"
  shows "case e of
      Finished x s' \<Rightarrow> \<forall>tr' e'. does E (f x) s' tr' e' \<longrightarrow> does E (bnd t f) s (tr @ tr') e'
    | Killed s' \<Rightarrow> does E (bnd t f) s tr (Killed s')
    | Undefined s' \<Rightarrow> does E (bnd t f) s tr (Undefined s')"
  using assms
proof (induction rule: does.induct)
  case (does_Ask r s v s1 c tr e)
  then show ?case by (auto intro: does.does_Ask split: ending.splits)
qed (auto intro: does.does_Kill split: ending.splits)

lemma does_bnd:
  "does E t s tr (Finished x s') \<Longrightarrow> does E (f x) s' tr' e \<Longrightarrow> does E (bnd t f) s (tr @ tr') e"
  using does_bnd_cases [of E t s tr "Finished x s'" f] by simp

lemma does_bnd_killed: "does E t s tr (Killed s') \<Longrightarrow> does E (bnd t f) s tr (Killed s')"
  using does_bnd_cases [of E t s tr "Killed s'" f] by simp

lemma does_bnd_undefined: "does E t s tr (Undefined s') \<Longrightarrow> does E (bnd t f) s tr (Undefined s')"
  using does_bnd_cases [of E t s tr "Undefined s'" f] by simp

lemma does_loop_cases:
  assumes "does E t s tr e"
  shows "case e of
      Finished (Inl x) s' \<Rightarrow> \<forall>tr' e'. does E (dowhile f x) s' tr' e' \<longrightarrow> does E (loop f t) s (tr @ tr') e'
    | Finished (Inr y) s' \<Rightarrow> does E (loop f t) s tr (Finished y s')
    | Killed s' \<Rightarrow> does E (loop f t) s tr (Killed s')
    | Undefined s' \<Rightarrow> does E (loop f t) s tr (Undefined s')"
  using assms
proof (induction rule: does.induct)
  case (does_Ask r s v s1 c tr e)
  then show ?case by (auto intro: does.does_Ask split: ending.splits sum.splits)
qed (auto intro: does.does_Kill split: ending.splits sum.splits)

lemma does_dowhile_end:
  "does E (f x) s tr (Finished (Inr y) s') \<Longrightarrow> does E (dowhile f x) s tr (Finished y s')"
  using does_loop_cases [of E "f x" s tr "Finished (Inr y) s'" f] by (simp add: dowhile_def)

lemma does_dowhile_next:
  "does E (f x) s tr (Finished (Inl x') s') \<Longrightarrow> does E (dowhile f x') s' tr' e \<Longrightarrow>
   does E (dowhile f x) s (tr @ tr') e"
  using does_loop_cases [of E "f x" s tr "Finished (Inl x') s'" f] by (simp add: dowhile_def)

section \<open>Processes side by side\<close>

text \<open>
  Several processes on one support level, which knows who asks. Any of them may make the next
  step; one that waits may ask again. The trace says who asked what.
\<close>

type_synonym ('i, 's) system = "('i \<Rightarrow> unit proc option) \<times> 's"

inductive mstep :: "('i \<Rightarrow> 's support) \<Rightarrow> ('i, 's) system \<Rightarrow> ('i \<times> request) list \<Rightarrow> ('i, 's) system \<Rightarrow> bool"
  for E :: "'i \<Rightarrow> 's support" where
  mstep_Tau: "T i = Some (Tau p) \<Longrightarrow> mstep E (T, s) [] (T(i \<mapsto> p), s)"
| mstep_Reply: "T i = Some (Ask r c) \<Longrightarrow> E i r s = Reply v s' \<Longrightarrow> mstep E (T, s) [(i, r)] (T(i \<mapsto> c v), s')"
| mstep_Kill: "T i = Some (Ask r c) \<Longrightarrow> E i r s = Kill s' \<Longrightarrow> mstep E (T, s) [(i, r)] (T(i := None), s')"

inductive mrun :: "('i \<Rightarrow> 's support) \<Rightarrow> ('i, 's) system \<Rightarrow> nat \<Rightarrow> ('i \<times> request) list \<Rightarrow> ('i, 's) system \<Rightarrow> bool"
  for E :: "'i \<Rightarrow> 's support" where
  mrun_start: "mrun E c 0 [] c"
| mrun_step: "mrun E c n tr c1 \<Longrightarrow> mstep E c1 l c2 \<Longrightarrow> mrun E c (Suc n) (tr @ l) c2"

text \<open>What one of them asked.\<close>

definition asked_by :: "'i \<Rightarrow> ('i \<times> request) list \<Rightarrow> request list" where
  "asked_by i tr = map snd (filter (\<lambda>e. fst e = i) tr)"

text \<open>
  A script: the actions that a process makes as long as each answer is as expected.
  \<open>None\<close> is a \<open>Tau\<close>.
\<close>

type_synonym action = "(request \<times> (reply \<Rightarrow> bool)) option"

fun performs :: "unit proc \<Rightarrow> action list \<Rightarrow> bool" where
  "performs p [] = True"
| "performs p (None # L) = (\<exists>q. p = Tau q \<and> performs q L)"
| "performs p (Some (r, ok) # L) = (\<exists>c. p = Ask r c \<and> (\<forall>v. ok v \<longrightarrow> performs (c v) L))"

end
