(* ===== verification/P3_Programs.thy ===== *)
theory P3_Programs
  imports P3_Process
begin

text \<open>
  The test programs of \<open>src/phase3\<close> that come with their own \<open>main\<close>, statement by statement.
  \<open>test.c\<close>, the support level itself, does not compile and is not modelled. The
  numbers of the support level's system calls, the segments and the length of a second are in
  \<open>h/tconst.h\<close>, which is not in the repository: they are a parameter. The contents of a local
  array before the first assignment to it is a parameter too.
\<close>

section \<open>Constants\<close>

record tconst =
  TERMINATE :: word32
  READTERMINAL :: word32
  WRITETERMINAL :: word32
  VSEMVIRT :: word32
  PSEMVIRT :: word32
  DELAY :: word32
  DISK_PUT :: word32
  DISK_GET :: word32
  WRITEPRINTER :: word32
  GET_TOD :: word32
  GETTIME :: word32
  SECOND :: word32
  SEG1 :: word32
  SEG2 :: word32
  SEG3 :: word32

definition EOS :: char where "EOS = CHR 0x00"

definition newline :: string where "newline = [CHR 0x0A]"

text \<open>A string literal, with its terminator.\<close>

definition lit :: "string \<Rightarrow> string" where "lit s = s @ [EOS]"

section \<open>\<open>print.c\<close>\<close>

text \<open>\<open>for (leng = 0; str[leng] != '\0'; leng++)\<close>; \<open>None\<close> when no terminator is in the array.\<close>

function leng_loop :: "string \<Rightarrow> nat \<Rightarrow> nat option" where
  "leng_loop str leng =
     (if length str \<le> leng then None
      else if str ! leng \<noteq> EOS then leng_loop str (leng + 1)
      else Some leng)"
  by pat_completeness auto
termination by (relation "measure (\<lambda>(str, leng). length str - leng)") auto

declare leng_loop.simps [simp del]

definition print_str :: "tconst \<Rightarrow> word32 \<Rightarrow> string \<Rightarrow> unit proc" where
  "print_str K device str =
     (case leng_loop str 0 of
        None \<Rightarrow> Undef
      | Some leng \<Rightarrow>
          bnd (syscall_ret device (Text str) (of_nat leng) 0) (\<lambda>status.
          if sint status < 0
          then block
            [do_ask (Syscall device (Text (lit (''Bad device write status'' @ newline))) 26 0),
             do_ask (Syscall (TERMINATE K) (Num 0) 0 0)]
          else Ret ()))"

definition put_line :: "tconst \<Rightarrow> string \<Rightarrow> unit proc" where
  "put_line K s = print_str K (WRITETERMINAL K) (lit (s @ newline))"

definition terminate :: "tconst \<Rightarrow> unit proc" where
  "terminate K = do_ask (Syscall (TERMINATE K) (Num 0) 0 0)"

section \<open>\<open>fibTest.c\<close>\<close>

text \<open>
  \<open>None\<close> would be a recursion that does not end. The arithmetic wraps around at 32 bits, where C leaves the overflow
  undefined; so in the model even the call with 0 ends, after the argument has wrapped. The program calls it with 7.
\<close>

partial_function (option) fib :: "word32 \<Rightarrow> word32 option" where
  "fib i =
     (if i = 1 \<or> i = 2 then Some 1
      else do {
        a \<leftarrow> fib (i - 1);
        b \<leftarrow> fib (i - 2);
        Some (a + b)
      })"

definition fibTest_main :: "tconst \<Rightarrow> unit proc" where
  "fibTest_main K =
     bnd (put_line K ''Recursive Fibanaci Test starts'') (\<lambda>_.
     case fib 7 of
       None \<Rightarrow> Undef
     | Some i \<Rightarrow> block
         [put_line K ''Recursion Concluded'',
          (if i = 13 then put_line K ''Recursion Concluded Successfully''
           else put_line K ''ERROR: Recursion problems''),
          terminate K])"

section \<open>\<open>printerTest.c\<close>\<close>

definition printerTest_main :: "tconst \<Rightarrow> unit proc" where
  "printerTest_main K = block
     [put_line K ''printTest is ok'',
      print_str K (WRITEPRINTER K) (lit (''printTest is ok'' @ newline)),
      terminate K]"

section \<open>\<open>todTest.c\<close>\<close>

definition get_tod :: "tconst \<Rightarrow> word32 proc" where
  "get_tod K = syscall_ret (GET_TOD K) (Num 0) 0 0"

definition todTest_main :: "tconst \<Rightarrow> unit proc" where
  "todTest_main K =
     bnd (get_tod K) (\<lambda>_.
     bnd (put_line K ''todTest starts'') (\<lambda>_.
     bnd (get_tod K) (\<lambda>now1.
     bnd (get_tod K) (\<lambda>now2.
     bnd (if sint now2 < sint now1 then put_line K ''todTest error: time decreasing''
          else put_line K ''todTest ok: time increasing'') (\<lambda>_.
     bnd (do_ask (Syscall (DELAY K) (Num 1) 0 0)) (\<lambda>_.
     bnd (get_tod K) (\<lambda>now1.
     block
       [(if sint (now1 - now2) < sint (SECOND K) then put_line K ''todTest error: did not delay one second''
         else put_line K ''todTest ok: one second delay''),
        put_line K ''todTest completed'',
        do_ask (Syscall (GETTIME K) (Num 0) 0 0),
        put_line K ''todTest error: SYS6 did not terminate'',
        terminate K])))))))"

section \<open>\<open>readTest.c\<close>\<close>

text \<open>
  \<open>buf\<close> has 15 characters, at first \<open>junk\<close>. The support level writes what was typed into it, from
  its first element on; what it writes past the end, and \<open>buf[status]\<close> outside the array, is
  undefined.
\<close>

definition fill :: "string \<Rightarrow> string \<Rightarrow> string proc" where
  "fill buf cs = (if length cs \<le> length buf then Ret (cs @ drop (length cs) buf) else Undef)"

definition set_char :: "string \<Rightarrow> word32 \<Rightarrow> char \<Rightarrow> string proc" where
  "set_char buf i c = (if 0 \<le> sint i \<and> sint i < int (length buf) then Ret (buf[unat i := c]) else Undef)"

definition readTest_main :: "tconst \<Rightarrow> string \<Rightarrow> unit proc" where
  "readTest_main K junk =
     bnd (put_line K ''Terminal Read Test starts'') (\<lambda>_.
     bnd (print_str K (WRITETERMINAL K) (lit ''Enter a string: '')) (\<lambda>_.
     Ask (Syscall (READTERMINAL K) (Room 15) 0 0) (\<lambda>r.
     bnd (fill (take 15 junk) (chars r)) (\<lambda>buf.
     bnd (set_char buf (val r) EOS) (\<lambda>buf.
     block
       [put_line K [],
        print_str K (WRITETERMINAL K) buf,
        put_line K (newline @ newline @ ''Terminal Read concluded''),
        terminate K])))))"

section \<open>\<open>swapTest.c\<close>\<close>

definition swap_write :: "tconst \<Rightarrow> word32 \<Rightarrow> (word32 + unit) proc" where
  "swap_write K i =
     (if i < 30
      then bnd (do_ask (Store_int (SEG2 K + i * PAGESIZE) i)) (\<lambda>_. Ret (Inl (i + 1)))
      else Ret (Inr ()))"

text \<open>The result is \<open>corrupt\<close>.\<close>

definition swap_check :: "tconst \<Rightarrow> word32 \<Rightarrow> (word32 + bool) proc" where
  "swap_check K i =
     (if i < 30
      then bnd (load_int (SEG2 K + i * PAGESIZE)) (\<lambda>x.
           if x \<noteq> i
           then bnd (print_str K (WRITEPRINTER K) (lit (''swapTest error: swapper corrupted data'' @ newline)))
                  (\<lambda>_. Ret (Inr True))
           else Ret (Inl (i + 1)))
      else Ret (Inr False))"

definition swapTest_main :: "tconst \<Rightarrow> unit proc" where
  "swapTest_main K =
     bnd (put_line K ''swapTest starts'') (\<lambda>_.
     bnd (dowhile (swap_write K) 20) (\<lambda>_.
     bnd (put_line K ''swapTest ok: wrote to pages of seg kUseg2'') (\<lambda>_.
     bnd (dowhile (swap_check K) 20) (\<lambda>corrupt.
     block
       [(if \<not> corrupt then put_line K ''swapTest ok: data survived swapper'' else Ret ()),
        do_ask (Load_char 0x20000000),
        put_line K ''swapTest error: could access segment ksegOS'',
        terminate K]))))"

section \<open>\<open>diskTest.c\<close>\<close>

definition MILLION :: word32 where "MILLION = 1000000"

definition disk_get :: "tconst \<Rightarrow> word32 \<Rightarrow> word32 \<Rightarrow> word32 proc" where
  "disk_get K buffer i = syscall_ret (DISK_GET K) (Num buffer) 1 i"

definition disk_put :: "tconst \<Rightarrow> word32 \<Rightarrow> word32 \<Rightarrow> word32 proc" where
  "disk_put K buffer i = syscall_ret (DISK_PUT K) (Num buffer) 1 i"

definition capacity_loop :: "tconst \<Rightarrow> word32 \<Rightarrow> word32 \<times> word32 \<Rightarrow> (word32 \<times> word32 + word32) proc" where
  "capacity_loop K buffer = (\<lambda>(i, dstatus).
     if dstatus = READY \<and> sint i < sint MILLION
     then bnd (disk_get K buffer (i + 1)) (\<lambda>dstatus. Ret (Inl (i + 1, dstatus)))
     else Ret (Inr i))"

definition diskTest_main :: "tconst \<Rightarrow> unit proc" where
  "diskTest_main K =
     (let buffer = SEG2 K + 20 * PAGESIZE in
     bnd (put_line K ''diskTest starts'') (\<lambda>_.
     bnd (do_ask (Store_int buffer 42)) (\<lambda>_.
     bnd (disk_put K buffer 3) (\<lambda>dstatus.
     bnd (if dstatus \<noteq> READY then put_line K ''diskTest error: disk i/o result''
          else put_line K ''diskTest ok: disk i/o result'') (\<lambda>_.
     bnd (do_ask (Store_int buffer 100)) (\<lambda>_.
     bnd (disk_put K buffer 23) (\<lambda>_.
     bnd (disk_get K buffer 3) (\<lambda>_.
     bnd (load_int buffer) (\<lambda>x.
     bnd (if x \<noteq> 42 then put_line K ''diskTest error: bad first disk sector readback''
          else put_line K ''diskTest ok: first disk sector readback'') (\<lambda>_.
     bnd (disk_get K buffer 23) (\<lambda>_.
     bnd (load_int buffer) (\<lambda>x.
     bnd (if x \<noteq> 100 then put_line K ''diskTest error: bad second disk sector readback''
          else put_line K ''diskTest ok: second disk sector readback'') (\<lambda>_.
     bnd (disk_get K buffer 0) (\<lambda>dstatus.
     bnd (dowhile (capacity_loop K buffer) (0, dstatus)) (\<lambda>i.
     block
       [(if sint i < sint MILLION then put_line K ''diskTest ok: device capacity detection''
         else put_line K ''diskTest error: device capacity undetected''),
        put_line K ''diskTest: completed'',
        do_ask (Syscall (DISK_GET K) (Num (SEG1 K)) 1 3),
        put_line K ''diskTest error: just read into segment 1'',
        do_ask Divide_by_zero,
        put_line K ''diskTest error: divide by 0 did not terminate'',
        do_ask (Load_state buffer),
        put_line K ''diskTest error: priv. instruction did not terminate'',
        do_ask (Syscall 1 (Num buffer) 0 0),
        put_line K ''diskTest error: sys1 did not terminate'',
        terminate K])))))))))))))))"

section \<open>\<open>pvTestA.c\<close> and \<open>pvTestB.c\<close>\<close>

definition hold :: "tconst \<Rightarrow> memaddr" where "hold K = SEG3 K"
definition empty :: "tconst \<Rightarrow> memaddr" where "empty K = SEG3 K + 4"
definition full :: "tconst \<Rightarrow> memaddr" where "full K = SEG3 K + 8"
definition charbuff :: "tconst \<Rightarrow> memaddr" where "charbuff K = SEG3 K + 12"

definition MESSIZE :: nat where "MESSIZE = 40"

definition sem_P :: "tconst \<Rightarrow> memaddr \<Rightarrow> unit proc" where
  "sem_P K a = do_ask (Syscall (PSEMVIRT K) (Num a) 0 0)"

definition sem_V :: "tconst \<Rightarrow> memaddr \<Rightarrow> unit proc" where
  "sem_V K a = do_ask (Syscall (VSEMVIRT K) (Num a) 0 0)"

text \<open>One turn of the receiving loop, with \<open>msg\<close> and the index of \<open>p\<close> in it.\<close>

definition receive :: "tconst \<Rightarrow> string \<times> nat \<Rightarrow> (string \<times> nat + string) proc" where
  "receive K = (\<lambda>(msg, p).
     bnd (sem_P K (full K)) (\<lambda>_.
     bnd (load_char (charbuff K)) (\<lambda>c.
     if p < length msg
     then bnd (print_str K (WRITETERMINAL K) (lit ''.'')) (\<lambda>_.
          bnd (sem_V K (empty K)) (\<lambda>_.
          Ret (if msg[p := c] ! p \<noteq> EOS then Inl (msg[p := c], p + 1) else Inr (msg[p := c]))))
     else Undef)))"

definition pvTestA_main :: "tconst \<Rightarrow> string \<Rightarrow> unit proc" where
  "pvTestA_main K junk =
     bnd (block
       [put_line K ''pvATest starts'',
        do_ask (Store_int (hold K) 0),
        do_ask (Store_int (full K) 0),
        do_ask (Store_int (empty K) 1),
        sem_P K (hold K),
        put_line K ''pvATest is free'']) (\<lambda>_.
     bnd (dowhile (receive K) (take MESSIZE junk, 0)) (\<lambda>msg.
     block
       [put_line K [],
        print_str K (WRITETERMINAL K) msg,
        put_line K ''pvATest completed'',
        terminate K,
        put_line K ''pvATest error: did not terminate'',
        do_ask Halt]))"

definition message :: string where "message = lit (''virtual synch OK'' @ newline)"

text \<open>One turn of the sending loop, with the index of \<open>msg\<close> in the message.\<close>

definition send :: "tconst \<Rightarrow> nat \<Rightarrow> (nat + unit) proc" where
  "send K i =
     bnd (sem_P K (empty K)) (\<lambda>_.
     if i < length message
     then bnd (do_ask (Store_char (charbuff K) (message ! i))) (\<lambda>_.
          bnd (print_str K (WRITETERMINAL K) (lit ''.'')) (\<lambda>_.
          bnd (sem_V K (full K)) (\<lambda>_.
          Ret (if message ! i \<noteq> EOS then Inl (i + 1) else Inr ()))))
     else Undef)"

definition pvTestB_main :: "tconst \<Rightarrow> unit proc" where
  "pvTestB_main K =
     bnd (block
       [put_line K ''pvBTest starts'',
        do_ask (Syscall (DELAY K) (Num 5) 0 0),
        sem_V K (hold K),
        put_line K ''pvBTest is free'']) (\<lambda>_.
     bnd (dowhile (send K) 0) (\<lambda>_.
     block
       [put_line K (newline @ ''pvBTest finished sending''),
        put_line K ''pvBTest completed'',
        do_ask (Syscall (PSEMVIRT K) (Private 0) 0 0),
        put_line K ''pvBTest error: private sem block did not terminate'',
        terminate K]))"

end
