(* ===== verification/P3_Runs.thy ===== *)
theory P3_Runs
  imports P3_Programs
begin

text \<open>
  What the test programs of phase 3 do on a support level that keeps its promises: each service
  is a hypothesis on the support level, each program is proved to make exactly the requests that
  report success, and to be ended by the one that must end it.
\<close>

section \<open>A calculus for runs\<close>

text \<open>\<open>wp E p s Q\<close>: on \<open>E\<close>, process \<open>p\<close> ends, and \<open>Q\<close> holds of its requests and its end.\<close>

definition wp :: "'s support \<Rightarrow> 'a proc \<Rightarrow> 's \<Rightarrow> (request list \<Rightarrow> ('a, 's) ending \<Rightarrow> bool) \<Rightarrow> bool" where
  "wp E p s Q = (\<exists>tr e. does E p s tr e \<and> Q tr e)"

lemma wp_Ret [simp]: "wp E (Ret x) s Q = Q [] (Finished x s)"
  by (auto simp: wp_def)

lemma wp_Undef [simp]: "wp E Undef s Q = Q [] (Undefined s)"
  by (auto simp: wp_def)

lemma wp_Tau [simp]: "wp E (Tau t) s Q = wp E t s Q"
  by (simp add: wp_def)

lemma wp_Ask:
  "wp E (Ask r c) s Q =
     (case E r s of
        Reply v s' \<Rightarrow> wp E (c v) s' (\<lambda>tr e. Q (r # tr) e)
      | Kill s' \<Rightarrow> Q [r] (Killed s')
      | Wait \<Rightarrow> False)"
proof (cases "E r s")
  case (Reply v s')
  then show ?thesis by (fastforce simp: wp_def does_Ask_iff)
qed (auto simp: wp_def does_Ask_iff)

lemma wp_mono: "wp E p s Q \<Longrightarrow> (\<And>tr e. Q tr e \<Longrightarrow> R tr e) \<Longrightarrow> wp E p s R"
  by (auto simp: wp_def)

definition then_do :: "'s support \<Rightarrow> ('a \<Rightarrow> 'b proc) \<Rightarrow> (request list \<Rightarrow> ('b, 's) ending \<Rightarrow> bool) \<Rightarrow>
    request list \<Rightarrow> ('a, 's) ending \<Rightarrow> bool" where
  "then_do E f Q tr e =
     (case e of
        Finished x s' \<Rightarrow> wp E (f x) s' (\<lambda>tr'. Q (tr @ tr'))
      | Killed s' \<Rightarrow> Q tr (Killed s')
      | Undefined s' \<Rightarrow> Q tr (Undefined s'))"

lemma then_do_Finished [simp]:
  "then_do E f Q tr (Finished x s') = wp E (f x) s' (\<lambda>tr'. Q (tr @ tr'))"
  by (simp add: then_do_def)

lemma wp_bnd: "wp E t s (then_do E f Q) \<Longrightarrow> wp E (bnd t f) s Q"
proof -
  assume "wp E t s (then_do E f Q)"
  then obtain tr e where "does E t s tr e" "then_do E f Q tr e" by (auto simp: wp_def)
  then show ?thesis
    by (cases e) (auto simp: then_do_def wp_def intro: does_bnd does_bnd_killed does_bnd_undefined)
qed

text \<open>A turn of a loop, and its last turn.\<close>

lemma wp_next:
  "wp E (f x) s (\<lambda>tr e. \<exists>x' s'. e = Finished (Inl x') s' \<and> wp E (dowhile f x') s' (\<lambda>tr'. Q (tr @ tr'))) \<Longrightarrow>
   wp E (dowhile f x) s Q"
  unfolding wp_def by (blast intro: does_dowhile_next)

lemma wp_last:
  "wp E (f x) s (\<lambda>tr e. \<exists>y s'. e = Finished (Inr y) s' \<and> Q tr (Finished y s')) \<Longrightarrow> wp E (dowhile f x) s Q"
  unfolding wp_def by (blast intro: does_dowhile_end)

text \<open>A request that is answered, and one that ends the process.\<close>

lemma wp_reply:
  "E r s = Reply v s' \<Longrightarrow> wp E (c v) s' (\<lambda>tr. Q (r # tr)) \<Longrightarrow> wp E (Ask r c) s Q"
  by (simp add: wp_Ask)

lemma wp_kill: "E r s = Kill s' \<Longrightarrow> Q [r] (Killed s') \<Longrightarrow> wp E (Ask r c) s Q"
  by (simp add: wp_Ask)

section \<open>The length of a string\<close>

lemma leng_loop_from:
  assumes "k \<le> length t" and "EOS \<notin> set t"
  shows "leng_loop (t @ EOS # r) k = Some (length t)"
  using assms(1)
proof (induction k rule: inc_induct)
  case base
  show ?case by (subst leng_loop.simps) (simp add: nth_append)
next
  case (step n)
  then have "t ! n \<noteq> EOS" using assms(2) by (metis nth_mem)
  with step show ?case by (subst leng_loop.simps) (simp add: nth_append)
qed

lemma leng_loop_terminated: "EOS \<notin> set t \<Longrightarrow> leng_loop (t @ EOS # r) 0 = Some (length t)"
  by (simp add: leng_loop_from)

lemma leng_loop_lit: "EOS \<notin> set t \<Longrightarrow> leng_loop (lit t) 0 = Some (length t)"
  using leng_loop_terminated [of t "[]"] by (simp add: lit_def)

text \<open>Without a terminator the loop leaves the array.\<close>

lemma leng_loop_None: "EOS \<notin> set t \<Longrightarrow> leng_loop t k = None"
proof (induction t k rule: leng_loop.induct)
  case (1 t k)
  then show ?case by (subst leng_loop.simps) (metis not_le_imp_less nth_mem)
qed

section \<open>Printing\<close>

text \<open>The request that \<open>print\<close> makes for the string \<open>t\<close> in an array that goes on with \<open>r\<close>.\<close>

definition write_req :: "word32 \<Rightarrow> string \<Rightarrow> string \<Rightarrow> request" where
  "write_req device t r = Syscall device (Text (t @ EOS # r)) (of_nat (length t)) 0"

definition line :: "tconst \<Rightarrow> string \<Rightarrow> request" where
  "line K t = write_req (WRITETERMINAL K) (t @ newline) []"

definition terminate_req :: "tconst \<Rightarrow> request" where
  "terminate_req K = Syscall (TERMINATE K) (Num 0) 0 0"

text \<open>A text that may be written: at most 128 characters, without a terminator among them.\<close>

definition writable :: "string \<Rightarrow> bool" where
  "writable t \<longleftrightarrow> EOS \<notin> set t \<and> length t \<le> 128"

lemmas text_simps = writable_def EOS_def newline_def

text \<open>
  What the support level promises of a device that is written to: up to 128 characters
  before the terminator are accepted, and nothing else happens to what \<open>view\<close> shows of its state.
\<close>

definition writes :: "word32 \<Rightarrow> 's support \<Rightarrow> ('s \<Rightarrow> 'v) \<Rightarrow> bool" where
  "writes device E view \<longleftrightarrow>
     (\<forall>s t r. length t \<le> 128 \<longrightarrow> (\<exists>v s'. E (write_req device t r) s = Reply v s' \<and> 0 \<le> sint (val v) \<and> view s' = view s))"

text \<open>A request that ends the process.\<close>

definition kills :: "request \<Rightarrow> 's support \<Rightarrow> bool" where
  "kills r E \<longleftrightarrow> (\<forall>s. \<exists>s'. E r s = Kill s')"

lemma wp_print:
  assumes "writes device E view" and "writable t"
    and "\<And>v s'. E (write_req device t r) s = Reply v s' \<Longrightarrow> view s' = view s \<Longrightarrow>
      wp E (f ()) s' (\<lambda>tr. Q (write_req device t r # tr))"
  shows "wp E (bnd (print_str K device (t @ EOS # r)) f) s Q"
proof -
  obtain v s' where "E (write_req device t r) s = Reply v s'" "0 \<le> sint (val v)" "view s' = view s"
    using assms(1,2) unfolding writes_def writable_def by blast
  with assms(2,3) show ?thesis
    by (auto simp: writable_def print_str_def leng_loop_terminated syscall_ret_def write_req_def intro!: wp_reply)
qed

lemma wp_lit:
  assumes "writes device E view" and "writable t"
    and "\<And>v s'. E (write_req device t []) s = Reply v s' \<Longrightarrow> view s' = view s \<Longrightarrow>
      wp E (f ()) s' (\<lambda>tr. Q (write_req device t [] # tr))"
  shows "wp E (bnd (print_str K device (lit t)) f) s Q"
  unfolding lit_def using assms by (rule wp_print)

lemma wp_line:
  assumes "writes (WRITETERMINAL K) E view" and "writable (t @ newline)"
    and "\<And>v s'. E (line K t) s = Reply v s' \<Longrightarrow> view s' = view s \<Longrightarrow> wp E (f ()) s' (\<lambda>tr. Q (line K t # tr))"
  shows "wp E (bnd (put_line K t) f) s Q"
  unfolding put_line_def
proof (rule wp_lit [OF assms(1)])
  show "writable (t @ newline)" by (rule assms(2))
qed (use assms(3) in \<open>simp add: line_def\<close>)

lemma wp_kills: "kills r E \<Longrightarrow> (\<And>s'. Q [r] (Killed s')) \<Longrightarrow> wp E (bnd (do_ask r) f) s Q"
  unfolding kills_def do_ask_def bnd_simps by (metis wp_kill)

lemma wp_terminate:
  "kills (terminate_req K) E \<Longrightarrow> (\<And>s'. Q [terminate_req K] (Killed s')) \<Longrightarrow> wp E (bnd (terminate K) f) s Q"
  unfolding terminate_def by (rule wp_kills [of "terminate_req K", unfolded terminate_req_def]) (simp_all add: terminate_req_def)

section \<open>Loops\<close>

text \<open>A loop that makes the requests \<open>r k\<close>, \<open>r (k + 1)\<close>, ..., \<open>r (n - 1)\<close>, one in each turn.\<close>

lemma wp_count:
  assumes turn: "\<And>k x s. k < n \<Longrightarrow> I k x s \<Longrightarrow>
      wp E (f x) s (\<lambda>tr e. tr = [r k] \<and> (\<exists>x' s'. e = Finished (Inl x') s' \<and> I (Suc k) x' s'))"
    and stop: "\<And>x s. I n x s \<Longrightarrow> wp E (f x) s (\<lambda>tr e. tr = [] \<and> (\<exists>s'. e = Finished (Inr y) s' \<and> J s'))"
  shows "k \<le> n \<Longrightarrow> I k x s \<Longrightarrow>
    wp E (dowhile f x) s (\<lambda>tr e. tr = map r [k..<n] \<and> (\<exists>s'. e = Finished y s' \<and> J s'))"
proof (induction k arbitrary: x s rule: inc_induct)
  case base
  show ?case by (rule wp_last, rule wp_mono [OF stop [OF base]]) auto
next
  case (step k)
  have "wp E (f x) s (\<lambda>tr e. \<exists>x' s'. e = Finished (Inl x') s' \<and>
      wp E (dowhile f x') s' (\<lambda>tr' e. tr @ tr' = map r [k..<n] \<and> (\<exists>s'. e = Finished y s' \<and> J s')))"
    using step by (auto simp: upt_conv_Cons elim!: wp_mono intro!: wp_mono [OF turn [OF step.hyps(2) step.prems]])
  then show ?case by (rule wp_next)
qed

text \<open>Running on after a loop.\<close>

lemma wp_after:
  assumes "wp E t s (\<lambda>tr e. tr = tr1 \<and> (\<exists>s'. e = Finished y s' \<and> J s'))"
    and "\<And>s'. J s' \<Longrightarrow> wp E (f y) s' (\<lambda>tr. Q (tr1 @ tr))"
  shows "wp E (bnd t f) s Q"
  using assms by (auto intro!: wp_bnd elim!: wp_mono)

end
