(* ===== verification/P3_Exchange.thy ===== *)
theory P3_Exchange
  imports P3_Runs
begin

text \<open>
  \<open>pvTestA.c\<close> and \<open>pvTestB.c\<close> side by side: the one receives, the other sends a message, one
  character at a time, through a buffer of one character in the segment they share, with the
  virtual semaphores of the support level.
\<close>

section \<open>Scripts\<close>

definition w_ok :: "reply \<Rightarrow> bool" where "w_ok v \<longleftrightarrow> 0 \<le> sint (val v)"

definition any_ok :: "reply \<Rightarrow> bool" where "any_ok v \<longleftrightarrow> True"

lemma performs_print:
  "EOS \<notin> set t \<Longrightarrow> performs (f ()) L \<Longrightarrow>
   performs (bnd (print_str K device (t @ EOS # r)) f) (Some (write_req device t r, w_ok) # L)"
  by (auto simp: print_str_def leng_loop_terminated syscall_ret_def write_req_def w_ok_def)

lemma performs_lit:
  "EOS \<notin> set t \<Longrightarrow> performs (f ()) L \<Longrightarrow>
   performs (bnd (print_str K device (lit t)) f) (Some (write_req device t [], w_ok) # L)"
  unfolding lit_def by (rule performs_print)

lemma performs_line:
  "EOS \<notin> set t \<Longrightarrow> performs (f ()) L \<Longrightarrow> performs (bnd (put_line K t) f) (Some (line K t, w_ok) # L)"
  unfolding put_line_def line_def by (rule performs_lit) (simp_all add: newline_def EOS_def)

lemma performs_ask: "performs (f ()) L \<Longrightarrow> performs (bnd (do_ask r) f) (Some (r, any_ok) # L)"
  by (simp add: do_ask_def)

text \<open>
  The two scripts: what comes before the loop, a turn of the loop, what comes after it. A turn
  but the last is followed by a \<open>Tau\<close>.
\<close>

definition P_req :: "tconst \<Rightarrow> memaddr \<Rightarrow> request" where "P_req K a = Syscall (PSEMVIRT K) (Num a) 0 0"
definition V_req :: "tconst \<Rightarrow> memaddr \<Rightarrow> request" where "V_req K a = Syscall (VSEMVIRT K) (Num a) 0 0"
definition delay_req :: "tconst \<Rightarrow> request" where "delay_req K = Syscall (DELAY K) (Num 5) 0 0"
definition private_req :: "tconst \<Rightarrow> request" where "private_req K = Syscall (PSEMVIRT K) (Private 0) 0 0"
definition dot_req :: "tconst \<Rightarrow> request" where "dot_req K = write_req (WRITETERMINAL K) ''.'' []"

lemmas req_defs = P_req_def V_req_def delay_req_def private_req_def dot_req_def

text \<open>The text of the message, without its terminator.\<close>

definition sent_text :: string where "sent_text = ''virtual synch OK'' @ newline"

lemma message_text: "message = sent_text @ [EOS]"
  by (simp add: message_def sent_text_def lit_def)

lemma length_sent: "length sent_text = 17" and EOS_sent: "EOS \<notin> set sent_text"
  by (simp_all add: sent_text_def newline_def EOS_def)

lemma message_end: "i < 18 \<Longrightarrow> message ! i = EOS \<longleftrightarrow> i = 17"
proof -
  assume i: "i < 18"
  show ?thesis
  proof (cases "i = 17")
    case False
    with i have "i < length sent_text" by (simp add: length_sent)
    then have "sent_text ! i \<noteq> EOS" using EOS_sent nth_mem by metis
    with \<open>i < length sent_text\<close> False show ?thesis by (simp add: message_text nth_append)
  qed (simp add: message_text nth_append length_sent)
qed

lemma length_message: "length message = 18"
  by (simp add: message_text length_sent)

definition loaded :: "nat \<Rightarrow> reply \<Rightarrow> bool" where
  "loaded i v \<longleftrightarrow> char_of (unat (val v)) = message ! i"

definition preA :: "tconst \<Rightarrow> action list" where
  "preA K = [Some (line K ''pvATest starts'', w_ok), Some (Store_int (hold K) 0, any_ok),
     Some (Store_int (full K) 0, any_ok), Some (Store_int (empty K) 1, any_ok),
     Some (P_req K (hold K), any_ok), Some (line K ''pvATest is free'', w_ok)]"

definition turnA :: "tconst \<Rightarrow> nat \<Rightarrow> action list" where
  "turnA K i = [Some (P_req K (full K), any_ok), Some (Load_char (charbuff K), loaded i),
     Some (dot_req K, w_ok), Some (V_req K (empty K), any_ok)]"

definition postA :: "tconst \<Rightarrow> string \<Rightarrow> action list" where
  "postA K junk = [Some (line K [], w_ok), Some (write_req (WRITETERMINAL K) sent_text (drop 18 (take MESSIZE junk)), w_ok),
     Some (line K ''pvATest completed'', w_ok), Some (terminate_req K, \<lambda>_. False)]"

definition preB :: "tconst \<Rightarrow> action list" where
  "preB K = [Some (line K ''pvBTest starts'', w_ok), Some (delay_req K, any_ok),
     Some (V_req K (hold K), any_ok), Some (line K ''pvBTest is free'', w_ok)]"

definition turnB :: "tconst \<Rightarrow> nat \<Rightarrow> action list" where
  "turnB K i = [Some (P_req K (empty K), any_ok), Some (Store_char (charbuff K) (message ! i), any_ok),
     Some (dot_req K, w_ok), Some (V_req K (full K), any_ok)]"

definition postB :: "tconst \<Rightarrow> action list" where
  "postB K = [Some (line K (newline @ ''pvBTest finished sending''), w_ok),
     Some (line K ''pvBTest completed'', w_ok), Some (private_req K, \<lambda>_. False)]"

text \<open>The actions from turn \<open>i\<close> on.\<close>

definition round :: "(nat \<Rightarrow> action list) \<Rightarrow> nat \<Rightarrow> action list" where
  "round t i = (if i < 17 then concat (map (\<lambda>j. None # t j) [Suc i..<18]) else [])"

definition turns :: "(nat \<Rightarrow> action list) \<Rightarrow> nat \<Rightarrow> action list" where
  "turns t i = t i @ round t i"

lemma round_simps: "i < 17 \<Longrightarrow> round t i = None # turns t (Suc i)" "round t 17 = []"
  by (auto simp: round_def turns_def upt_conv_Cons)

text \<open>The receiver and the sender follow their scripts.\<close>

lemma print_dot:
  "print_str K (WRITETERMINAL K) (lit ''.'') = Ask (dot_req K) (\<lambda>v.
     if sint (val v) < 0
     then block [do_ask (Syscall (WRITETERMINAL K) (Text (lit (''Bad device write status'' @ newline))) 26 0),
                 do_ask (Syscall (TERMINATE K) (Num 0) 0 0)]
     else Ret ())"
  unfolding print_str_def dot_req_def write_req_def
  by (subst leng_loop_lit) (simp_all add: EOS_def syscall_ret_def lit_def)

definition received :: "string \<Rightarrow> nat \<Rightarrow> string" where
  "received junk i = take i message @ drop i (take MESSIZE junk)"

lemma received_Suc:
  "i < 18 \<Longrightarrow> MESSIZE \<le> length junk \<Longrightarrow> (received junk i)[i := message ! i] = received junk (Suc i)"
  by (simp add: received_def list_update_append length_message MESSIZE_def take_Suc_conv_app_nth
      Cons_nth_drop_Suc [symmetric, of i "take 40 junk"])

lemma received_length: "i \<le> 18 \<Longrightarrow> MESSIZE \<le> length junk \<Longrightarrow> length (received junk i) = 40"
  by (simp add: received_def length_message MESSIZE_def)

lemma received_nth: "i < 18 \<Longrightarrow> received junk (Suc i) ! i = message ! i"
  by (simp add: received_def nth_append length_message)

lemma receive_app:
  "receive K (msg, p) =
     bnd (sem_P K (full K)) (\<lambda>_.
     bnd (load_char (charbuff K)) (\<lambda>c.
     if p < length msg
     then bnd (print_str K (WRITETERMINAL K) (lit ''.'')) (\<lambda>_.
          bnd (sem_V K (empty K)) (\<lambda>_.
          Ret (if msg[p := c] ! p \<noteq> EOS then Inl (msg[p := c], p + 1) else Inr (msg[p := c]))))
     else Undef))"
  by (simp add: receive_def)

lemma performs_turnA:
  assumes "i < 18" "MESSIZE \<le> length junk"
    and next_turn: "i < 17 \<Longrightarrow> performs (Tau (bnd (dowhile (receive K) (received junk (Suc i), Suc i)) f)) L"
    and finish: "i = 17 \<Longrightarrow> performs (f (received junk 18)) L"
  shows "performs (bnd (dowhile (receive K) (received junk i, i)) f) (turnA K i @ L)"
proof -
  have len: "i < length (received junk i)" using assms(1,2) by (simp add: received_length)
  have upd: "(received junk i)[i := message ! i] = received junk (Suc i)" "received junk (Suc i) ! i = message ! i"
    using assms(1,2) by (simp_all add: received_Suc received_nth)
  have "message ! i \<noteq> EOS \<Longrightarrow> performs (Tau (bnd (dowhile (receive K) (received junk (Suc i), Suc i)) f)) L"
    using next_turn assms(1) by (simp add: message_end)
  moreover have "message ! i = EOS \<Longrightarrow> performs (f ((received junk i)[i := EOS])) L"
    using finish upd(1) assms(1) message_end [of i] by fastforce
  ultimately show ?thesis
    using len upd by (simp add: dowhile_def [of _ "(received junk i, i)"] receive_app turnA_def sem_P_def sem_V_def
        ask_defs P_req_def V_req_def print_dot loaded_def w_ok_def)
qed

lemma performs_receive:
  assumes "i \<le> 17" and junk: "MESSIZE \<le> length junk"
    and tail: "performs (f (received junk 18)) L"
  shows "performs (bnd (dowhile (receive K) (received junk i, i)) f) (turns (turnA K) i @ L)"
  using assms(1)
proof (induction i rule: inc_induct)
  case base
  show ?case
    using performs_turnA [of 17, OF _ junk, where L = L] tail by (simp add: turns_def round_simps)
next
  case (step i)
  then show ?case
    using performs_turnA [of i, OF _ junk, where L = "None # turns (turnA K) (Suc i) @ L"]
    by (simp add: turns_def [of _ i] round_simps)
qed

lemma send_app:
  "send K i =
     bnd (sem_P K (empty K)) (\<lambda>_.
     if i < length message
     then bnd (do_ask (Store_char (charbuff K) (message ! i))) (\<lambda>_.
          bnd (print_str K (WRITETERMINAL K) (lit ''.'')) (\<lambda>_.
          bnd (sem_V K (full K)) (\<lambda>_.
          Ret (if message ! i \<noteq> EOS then Inl (i + 1) else Inr ()))))
     else Undef)"
  by (simp add: send_def)

lemma performs_turnB:
  assumes "i < 18"
    and next_turn: "i < 17 \<Longrightarrow> performs (Tau (bnd (dowhile (send K) (Suc i)) f)) L"
    and finish: "i = 17 \<Longrightarrow> performs (f ()) L"
  shows "performs (bnd (dowhile (send K) i) f) (turnB K i @ L)"
proof -
  have "performs (bnd (loop (send K) (Ret (if message ! i \<noteq> EOS then Inl (i + 1) else Inr ()))) f) L"
  proof (cases "i = 17")
    case True
    then show ?thesis using finish by (simp add: message_end)
  next
    case False
    then show ?thesis using next_turn assms(1) by (simp add: message_end)
  qed
  then show ?thesis
    using assms(1) by (simp add: dowhile_def [of _ i] send_app turnB_def sem_P_def sem_V_def
        ask_defs P_req_def V_req_def print_dot w_ok_def length_message)
qed

lemma performs_send:
  assumes "i \<le> 17" and tail: "performs (f ()) L"
  shows "performs (bnd (dowhile (send K) i) f) (turns (turnB K) i @ L)"
  using assms(1)
proof (induction i rule: inc_induct)
  case base
  show ?case using performs_turnB [of 17, where L = L] tail by (simp add: turns_def round_simps)
next
  case (step i)
  then show ?case
    using performs_turnB [of i, where L = "None # turns (turnB K) (Suc i) @ L"]
    by (simp add: turns_def [of _ i] round_simps)
qed

text \<open>So the two programs follow the scripts, as long as they get the answers they expect.\<close>

lemma performs_end: "performs (bnd (do_ask r) f) [Some (r, \<lambda>_. False)]"
  by (simp add: do_ask_def)

lemma performs_A:
  assumes "MESSIZE \<le> length junk"
  shows "performs (pvTestA_main K junk) (preA K @ turns (turnA K) 0 @ postA K junk)"
proof -
  have start: "received junk 0 = take MESSIZE junk"
    and full_buffer: "received junk 18 = sent_text @ EOS # drop 18 (take MESSIZE junk)"
    by (simp_all add: received_def message_text length_sent)
  show ?thesis
    unfolding pvTestA_main_def preA_def block.simps append_Cons append_Nil bnd_assoc bnd_simps sem_P_def
      P_req_def [symmetric]
  proof (intro performs_line performs_ask, goal_cases)
    case 3
    show ?case
      unfolding start [symmetric]
    proof (rule performs_receive [OF _ assms], simp)
      show "performs (bnd (put_line K []) (\<lambda>_. bnd (print_str K (WRITETERMINAL K) (received junk 18))
          (\<lambda>_. bnd (put_line K ''pvATest completed'') (\<lambda>_. bnd (terminate K) (\<lambda>_.
            bnd (put_line K ''pvATest error: did not terminate'') (\<lambda>_. bnd (do_ask Halt) (\<lambda>_. Ret ())))))))
          (postA K junk)"
        unfolding full_buffer postA_def terminate_def terminate_req_def [symmetric]
        by (intro performs_line performs_print performs_end EOS_sent) (simp_all add: EOS_def)
    qed
  qed (simp_all add: EOS_def)
qed

lemma performs_B: "performs (pvTestB_main K) (preB K @ turns (turnB K) 0 @ postB K)"
  unfolding pvTestB_main_def preB_def postB_def block.simps append_Cons append_Nil bnd_assoc bnd_simps sem_V_def
    delay_req_def [symmetric] V_req_def [symmetric] private_req_def [symmetric]
  by (intro performs_line performs_ask performs_send performs_end) (simp_all add: EOS_def newline_def)

end
