(* ===== verification/P3_Sync.thy ===== *)
theory P3_Sync
  imports P3_Exchange
begin

text \<open>
  The virtual semaphores keep sender and receiver in step: an invariant of all interleavings, from
  which follows that every run ends, and ends well.
\<close>

section \<open>Positions\<close>

text \<open>Where a process is in its script: before, in or after the loop (turn \<open>i\<close>, action \<open>ph\<close> of it).\<close>

datatype pos = Before nat | Turn nat nat | After nat

fun rest :: "action list \<Rightarrow> (nat \<Rightarrow> action list) \<Rightarrow> action list \<Rightarrow> pos \<Rightarrow> action list" where
  "rest pre t post (Before k) = drop k pre @ turns t 0 @ post"
| "rest pre t post (Turn i ph) = drop ph (t i) @ round t i @ post"
| "rest pre t post (After k) = drop k post"

fun nxt :: "nat \<Rightarrow> pos \<Rightarrow> pos" where
  "nxt n (Before k) = (if Suc k < n then Before (Suc k) else Turn 0 0)"
| "nxt n (Turn i ph) = (if ph = 4 then Turn (Suc i) 0 else if ph = 3 \<and> i = 17 then After 0 else Turn i (Suc ph))"
| "nxt n (After k) = After (Suc k)"

fun ok_pos :: "nat \<Rightarrow> nat \<Rightarrow> pos \<Rightarrow> bool" where
  "ok_pos n m (Before k) = (k < n)"
| "ok_pos n m (Turn i ph) = (i < 18 \<and> (ph < 4 \<or> ph = 4 \<and> i < 17))"
| "ok_pos n m (After k) = (k \<le> m)"

lemma rest_nxt:
  assumes "ok_pos (length pre) (length post) p" "\<And>i. length (t i) = 4" "rest pre t post p = x # L"
  shows "L = rest pre t post (nxt (length pre) p) \<and> ok_pos (length pre) (length post) (nxt (length pre) p)"
proof (cases p)
  case (Before k)
  then have "drop k pre = pre ! k # drop (Suc k) pre" using assms(1) by (simp add: Cons_nth_drop_Suc)
  with Before assms show ?thesis by (auto simp: turns_def)
next
  case (Turn i ph)
  then consider "ph < 4" "i < 18" | "ph = 4" "i < 17" using assms(1) by auto
  then show ?thesis
  proof cases
    case 1
    then have "drop ph (t i) = t i ! ph # drop (Suc ph) (t i)" using assms(2) by (simp add: Cons_nth_drop_Suc)
    with 1 Turn assms(2,3) show ?thesis by (auto simp: round_simps)
  qed (use Turn assms(2,3) in \<open>auto simp: round_simps turns_def\<close>)
next
  case (After k)
  with assms(1,3) have k: "k < length post" by (cases "k = length post") auto
  then have "drop k post = post ! k # drop (Suc k) post" by (simp add: Cons_nth_drop_Suc)
  with After assms(3) k show ?thesis by auto
qed

section \<open>What the support level promises\<close>

datatype tester = TA | TB

text \<open>
  \<open>credits s a\<close> is the number of P operations on the semaphore at \<open>a\<close> that can still be completed: a store
  initialises it, P waits until it is positive. \<open>chr s\<close> is the character in the shared buffer. A delay is answered, at whatever
  time. A P on a private variable and \<open>TERMINATE\<close> end the process.
\<close>

definition sems :: "tconst \<Rightarrow> memaddr set" where "sems K = {hold K, empty K, full K}"

definition pv_works :: "tconst \<Rightarrow> (tester \<Rightarrow> 's support) \<Rightarrow> ('s \<Rightarrow> memaddr \<Rightarrow> nat) \<Rightarrow> ('s \<Rightarrow> char) \<Rightarrow> bool" where
  "pv_works K E credits chr \<longleftrightarrow>
     (\<forall>i. writes (WRITETERMINAL K) (E i) (\<lambda>s. (credits s, chr s)))
   \<and> (\<forall>i s. \<forall>a \<in> sems K. if credits s a = 0 then E i (P_req K a) s = Wait
        else \<exists>v s'. E i (P_req K a) s = Reply v s' \<and> credits s' = (credits s)(a := credits s a - 1)
               \<and> chr s' = chr s)
   \<and> (\<forall>i s. \<forall>a \<in> sems K. \<exists>v s'. E i (V_req K a) s = Reply v s' \<and> credits s' = (credits s)(a := credits s a + 1)
        \<and> chr s' = chr s)
   \<and> (\<forall>i s w. \<forall>a \<in> sems K. \<exists>v s'. E i (Store_int a w) s = Reply v s' \<and> credits s' = (credits s)(a := unat w)
        \<and> chr s' = chr s)
   \<and> (\<forall>i s c. \<exists>v s'. E i (Store_char (charbuff K) c) s = Reply v s' \<and> credits s' = credits s \<and> chr s' = c)
   \<and> (\<forall>i s. \<exists>v s'. E i (Load_char (charbuff K)) s = Reply v s' \<and> char_of (unat (val v)) = chr s
        \<and> credits s' = credits s \<and> chr s' = chr s)
   \<and> (\<forall>s. \<exists>v s'. E TB (delay_req K) s = Reply v s' \<and> credits s' = credits s \<and> chr s' = chr s)
   \<and> (\<forall>s. \<exists>s'. E TA (terminate_req K) s = Kill s' \<and> credits s' = credits s \<and> chr s' = chr s)
   \<and> (\<forall>s. \<exists>s'. E TB (private_req K) s = Kill s' \<and> credits s' = credits s \<and> chr s' = chr s)"

lemma sems_distinct: "hold K \<noteq> empty K" "hold K \<noteq> full K" "empty K \<noteq> full K"
  by (simp_all add: hold_def empty_def full_def)

lemmas sems_neq = sems_distinct sems_distinct [symmetric]

section \<open>The invariant\<close>

text \<open>How often a process at a position has completed an operation.\<close>

fun P_hold :: "pos \<Rightarrow> nat" where
  "P_hold (Before k) = (if 5 \<le> k then 1 else 0)" | "P_hold p = 1"

fun P_full :: "pos \<Rightarrow> nat" where
  "P_full (Before k) = 0" | "P_full (Turn i ph) = (if ph = 0 then i else i + 1)" | "P_full (After k) = 18"

fun V_empty :: "pos \<Rightarrow> nat" where
  "V_empty (Before k) = 0" | "V_empty (Turn i ph) = (if ph = 4 then i + 1 else i)" | "V_empty (After k) = 18"

fun inits :: "pos \<Rightarrow> bool" where
  "inits (Before k) = (4 \<le> k)" | "inits p = True"

fun V_hold :: "pos \<Rightarrow> nat" where
  "V_hold (Before k) = (if 3 \<le> k then 1 else 0)" | "V_hold p = 1"

fun P_empty :: "pos \<Rightarrow> nat" where
  "P_empty (Before k) = 0" | "P_empty (Turn j ph) = (if ph = 0 then j else j + 1)" | "P_empty (After k) = 18"

fun stored :: "pos \<Rightarrow> nat" where
  "stored (Before k) = 0" | "stored (Turn j ph) = (if ph \<le> 1 then j else j + 1)" | "stored (After k) = 18"

fun V_full :: "pos \<Rightarrow> nat" where
  "V_full (Before k) = 0" | "V_full (Turn j ph) = (if ph = 4 then j + 1 else j)" | "V_full (After k) = 18"

fun delayed :: "pos \<Rightarrow> bool" where
  "delayed (Before k) = (2 \<le> k)" | "delayed p = True"

definition in_step :: "tconst \<Rightarrow> ('s \<Rightarrow> memaddr \<Rightarrow> nat) \<Rightarrow> ('s \<Rightarrow> char) \<Rightarrow> pos \<Rightarrow> pos \<Rightarrow> 's \<Rightarrow> bool" where
  "in_step K credits chr a b s \<longleftrightarrow>
     (delayed b \<longrightarrow> inits a)
   \<and> (inits a \<longrightarrow> P_hold a + credits s (hold K) = V_hold b \<and> P_full a + credits s (full K) = V_full b
        \<and> P_empty b + credits s (empty K) = 1 + V_empty a)
   \<and> (a = Before 2 \<or> a = Before 3 \<longrightarrow> credits s (hold K) = 0)
   \<and> (a = Before 3 \<longrightarrow> credits s (full K) = 0)
   \<and> (0 < stored b \<longrightarrow> chr s = message ! (stored b - 1))"


abbreviation restA :: "tconst \<Rightarrow> string \<Rightarrow> pos \<Rightarrow> action list" where
  "restA K junk \<equiv> rest (preA K) (turnA K) (postA K junk)"

abbreviation restB :: "tconst \<Rightarrow> pos \<Rightarrow> action list" where
  "restB K \<equiv> rest (preB K) (turnB K) (postB K)"

lemma lengths: "length (preA K) = 6" "length (turnA K i) = 4" "length (postA K junk) = 4"
  "length (preB K) = 4" "length (turnB K i) = 4" "length (postB K) = 3"
  by (simp_all add: preA_def turnA_def postA_def preB_def turnB_def postB_def)

text \<open>The next action of the receiver, by position.\<close>

lemma drop_small:
  "drop 1 (x # xs) = xs" "drop 2 (x # y # xs) = xs" "drop 3 (x # y # z # xs) = xs" "drop 4 (x # y # z # w # xs) = xs"
  "drop 5 (x # y # z # w # u # xs) = xs"
  by (simp_all add: numeral_eq_Suc)

lemma actA_cases:
  assumes "ok_pos 6 4 a" "restA K junk a = x # L"
  obtains (lines) t r where "x = Some (write_req (WRITETERMINAL K) t r, w_ok)" "length t \<le> 128"
      "a \<in> {Before 0, Before 5, After 0, After 1, After 2} \<or> (\<exists>i < 18. a = Turn i 2)" "L \<noteq> []"
    | (hold0) "a = Before 1" "x = Some (Store_int (hold K) 0, any_ok)" "L \<noteq> []"
    | (full0) "a = Before 2" "x = Some (Store_int (full K) 0, any_ok)" "L \<noteq> []"
    | (empty1) "a = Before 3" "x = Some (Store_int (empty K) 1, any_ok)" "L \<noteq> []"
    | (P_hold) "a = Before 4" "x = Some (P_req K (hold K), any_ok)" "L \<noteq> []"
    | (P_full) i where "i < 18" "a = Turn i 0" "x = Some (P_req K (full K), any_ok)" "L \<noteq> []"
    | (get) i where "i < 18" "a = Turn i 1" "x = Some (Load_char (charbuff K), loaded i)" "L \<noteq> []"
    | (V_empty) i where "i < 18" "a = Turn i 3" "x = Some (V_req K (empty K), any_ok)" "L \<noteq> []"
    | (again) i where "i < 17" "a = Turn i 4" "x = None" "L \<noteq> []"
    | (stop) "a = After 3" "x = Some (terminate_req K, \<lambda>_. False)" "L = []"
proof (cases a)
  case (Before k)
  then consider "k = 0" | "k = 1" | "k = 2" | "k = 3" | "k = 4" | "k = 5" using assms(1) by fastforce
  then show ?thesis
    using Before assms(2) that by cases (auto simp: preA_def drop_small turns_def turnA_def line_def newline_def)
next
  case (Turn i ph)
  then consider "ph = 0" | "ph = 1" | "ph = 2" | "ph = 3" | "ph = 4" using assms(1) by fastforce
  then show ?thesis
    using Turn assms that by cases (auto simp: turnA_def drop_small dot_req_def postA_def round_simps turns_def)
next
  case (After k)
  then consider "k = 0" | "k = 1" | "k = 2" | "k = 3" | "k = 4" using assms(1) by fastforce
  then show ?thesis
    using After assms(2) that by cases (auto simp: postA_def drop_small line_def newline_def length_sent)
qed

lemma actB_cases:
  assumes "ok_pos 4 3 b" "restB K b = x # L"
  obtains (lines) t r where "x = Some (write_req (WRITETERMINAL K) t r, w_ok)" "length t \<le> 128"
      "b \<in> {Before 0, Before 3, After 0, After 1} \<or> (\<exists>j < 18. b = Turn j 2)" "L \<noteq> []"
    | (delay) "b = Before 1" "x = Some (delay_req K, any_ok)" "L \<noteq> []"
    | (V_hold) "b = Before 2" "x = Some (V_req K (hold K), any_ok)" "L \<noteq> []"
    | (P_empty) j where "j < 18" "b = Turn j 0" "x = Some (P_req K (empty K), any_ok)" "L \<noteq> []"
    | (put) j where "j < 18" "b = Turn j 1" "x = Some (Store_char (charbuff K) (message ! j), any_ok)" "L \<noteq> []"
    | (V_full) j where "j < 18" "b = Turn j 3" "x = Some (V_req K (full K), any_ok)" "L \<noteq> []"
    | (again) j where "j < 17" "b = Turn j 4" "x = None" "L \<noteq> []"
    | (stop) "b = After 2" "x = Some (private_req K, \<lambda>_. False)" "L = []"
proof (cases b)
  case (Before k)
  then consider "k = 0" | "k = 1" | "k = 2" | "k = 3" using assms(1) by fastforce
  then show ?thesis
    using Before assms(2) that by cases (auto simp: preB_def drop_small turns_def turnB_def line_def newline_def)
next
  case (Turn j ph)
  then consider "ph = 0" | "ph = 1" | "ph = 2" | "ph = 3" | "ph = 4" using assms(1) by fastforce
  then show ?thesis
    using Turn assms that by cases (auto simp: turnB_def drop_small dot_req_def postB_def round_simps turns_def)
next
  case (After k)
  then consider "k = 0" | "k = 1" | "k = 2" | "k = 3" using assms(1) by fastforce
  then show ?thesis
    using After assms(2) that by cases (auto simp: postB_def drop_small line_def newline_def)
qed

section \<open>Every answer keeps the invariant\<close>

text \<open>
  How the support level answers a request of the script (\<open>Q\<close> is to hold afterwards): the answer is as expected, and it ends
  the process exactly at the end of the script; or the process has to wait, and then \<open>W\<close>.
\<close>

definition answered :: "'s support \<Rightarrow> request \<Rightarrow> (reply \<Rightarrow> bool) \<Rightarrow> bool \<Rightarrow> ('s \<Rightarrow> bool) \<Rightarrow> bool \<Rightarrow> 's \<Rightarrow> bool" where
  "answered E r ok fin Q W s =
     (case E r s of
        Reply v s' \<Rightarrow> ok v \<and> \<not> fin \<and> Q s'
      | Kill s' \<Rightarrow> fin \<and> Q s'
      | Wait \<Rightarrow> W)"

text \<open>What an answer leaves as it is.\<close>

definition same :: "('s \<Rightarrow> memaddr \<Rightarrow> nat) \<Rightarrow> ('s \<Rightarrow> char) \<Rightarrow> 's \<Rightarrow> 's \<Rightarrow> bool" where
  "same credits chr s s' \<longleftrightarrow> credits s' = credits s \<and> chr s' = chr s"

lemma pv_says:
  "pv_works K E credits chr \<Longrightarrow> length t \<le> 128 \<Longrightarrow>
   \<exists>v s'. E i (write_req (WRITETERMINAL K) t r) s = Reply v s' \<and> w_ok v \<and> same credits chr s s'"
  by (fastforce simp: pv_works_def writes_def w_ok_def same_def)

lemma pv_P:
  assumes "pv_works K E credits chr" "a \<in> sems K"
  shows "if credits s a = 0 then E i (P_req K a) s = Wait
    else \<exists>v s'. E i (P_req K a) s = Reply v s' \<and> credits s' = (credits s)(a := credits s a - 1)
      \<and> chr s' = chr s"
  using assms unfolding pv_works_def by blast

lemma pv_V:
  assumes "pv_works K E credits chr" "a \<in> sems K"
  shows "\<exists>v s'. E i (V_req K a) s = Reply v s' \<and> credits s' = (credits s)(a := credits s a + 1)
    \<and> chr s' = chr s"
  using assms unfolding pv_works_def by blast

lemma pv_init:
  assumes "pv_works K E credits chr" "a \<in> sems K"
  shows "\<exists>v s'. E i (Store_int a w) s = Reply v s' \<and> credits s' = (credits s)(a := unat w)
    \<and> chr s' = chr s"
  using assms unfolding pv_works_def by blast

lemma pv_put:
  assumes "pv_works K E credits chr"
  shows "\<exists>v s'. E i (Store_char (charbuff K) c) s = Reply v s' \<and> credits s' = credits s \<and> chr s' = c"
  using assms unfolding pv_works_def by blast

lemma pv_get:
  assumes "pv_works K E credits chr"
  shows "\<exists>v s'. E i (Load_char (charbuff K)) s = Reply v s' \<and> char_of (unat (val v)) = chr s \<and> same credits chr s s'"
  using assms unfolding pv_works_def same_def by blast

lemma pv_delay:
  assumes "pv_works K E credits chr"
  shows "\<exists>v s'. E TB (delay_req K) s = Reply v s' \<and> same credits chr s s'"
  using assms unfolding pv_works_def same_def by blast

lemma pv_stop:
  assumes "pv_works K E credits chr"
  shows "\<exists>s'. E TA (terminate_req K) s = Kill s' \<and> same credits chr s s'"
    and "\<exists>s'. E TB (private_req K) s = Kill s' \<and> same credits chr s s'"
  using assms unfolding pv_works_def same_def by blast+

lemma sems_in: "hold K \<in> sems K" "empty K \<in> sems K" "full K \<in> sems K"
  by (simp_all add: sems_def)

lemma in_step_same:
  assumes "in_step K credits chr a b s" "same credits chr s s'"
    and "inits a' = inits a" "P_hold a' = P_hold a" "P_full a' = P_full a" "V_empty a' = V_empty a"
    and "a' = a \<or> a' \<noteq> Before 2 \<and> a' \<noteq> Before 3"
    and "V_hold b' = V_hold b" "P_empty b' = P_empty b" "stored b' = stored b" "V_full b' = V_full b"
    and "delayed b' \<Longrightarrow> inits a"
  shows "in_step K credits chr a' b' s'"
  using assms unfolding in_step_def same_def by auto

lemma answered_says:
  assumes "pv_works K E credits chr" "length t \<le> 128" and "\<And>s'. same credits chr s s' \<Longrightarrow> Q s'"
  shows "answered (E i) (write_req (WRITETERMINAL K) t r) w_ok False Q W s"
proof -
  obtain v s' where "E i (write_req (WRITETERMINAL K) t r) s = Reply v s'" "w_ok v" "same credits chr s s'"
    using pv_says [OF assms(1,2)] by blast
  with assms(3) show ?thesis by (simp add: answered_def)
qed

lemma answered_V:
  assumes "pv_works K E credits chr" "a \<in> sems K"
    and "\<And>v s'. credits s' = (credits s)(a := credits s a + 1) \<and> chr s' = chr s \<Longrightarrow> good v \<and> Q s'"
  shows "answered (E i) (V_req K a) good False Q W s"
proof -
  obtain v s' where "E i (V_req K a) s = Reply v s'" "credits s' = (credits s)(a := credits s a + 1) \<and> chr s' = chr s"
    using pv_V [OF assms(1,2)] by blast
  with assms(3) show ?thesis by (simp add: answered_def)
qed

lemma answered_init:
  assumes "pv_works K E credits chr" "a \<in> sems K"
    and "\<And>v s'. credits s' = (credits s)(a := unat w) \<and> chr s' = chr s \<Longrightarrow> good v \<and> Q s'"
  shows "answered (E i) (Store_int a w) good False Q W s"
proof -
  obtain v s' where "E i (Store_int a w) s = Reply v s'" "credits s' = (credits s)(a := unat w) \<and> chr s' = chr s"
    using pv_init [OF assms(1,2)] by blast
  with assms(3) show ?thesis by (simp add: answered_def)
qed

lemma answered_put:
  assumes "pv_works K E credits chr"
    and "\<And>v s'. credits s' = credits s \<and> chr s' = c \<Longrightarrow> good v \<and> Q s'"
  shows "answered (E i) (Store_char (charbuff K) c) good False Q W s"
proof -
  obtain v s' where "E i (Store_char (charbuff K) c) s = Reply v s'" "credits s' = credits s \<and> chr s' = c"
    using pv_put [OF assms(1)] by blast
  with assms(2) show ?thesis by (simp add: answered_def)
qed

lemma answered_get:
  assumes "pv_works K E credits chr"
    and "\<And>v s'. char_of (unat (val v)) = chr s \<and> same credits chr s s' \<Longrightarrow> good v \<and> Q s'"
  shows "answered (E i) (Load_char (charbuff K)) good False Q W s"
proof -
  obtain v s' where "E i (Load_char (charbuff K)) s = Reply v s'" "char_of (unat (val v)) = chr s \<and> same credits chr s s'"
    using pv_get [OF assms(1)] by blast
  with assms(2) show ?thesis by (simp add: answered_def)
qed

lemma order_B: "ok_pos n m b \<Longrightarrow> V_full b \<le> stored b \<and> stored b \<le> P_empty b \<and> P_empty b \<le> 18"
  by (cases b) auto

lemma order_A: "ok_pos n m a \<Longrightarrow> V_empty a \<le> P_full a \<and> P_full a \<le> 18"
  by (cases a) auto

lemma not_inits_undelayed: "\<not> delayed b \<Longrightarrow> V_hold b = 0 \<and> V_full b = 0 \<and> P_empty b = 0 \<and> stored b = 0"
  by (cases b) auto

lemma lines_A:
  assumes "a \<in> {Before 0, Before 5, After 0, After 1, After 2} \<or> (\<exists>i < 18. a = Turn i 2)"
  shows "inits (nxt 6 a) = inits a \<and> P_hold (nxt 6 a) = P_hold a \<and> P_full (nxt 6 a) = P_full a
    \<and> V_empty (nxt 6 a) = V_empty a \<and> nxt 6 a \<noteq> Before 2 \<and> nxt 6 a \<noteq> Before 3"
  using assms by (elim disjE exE conjE insertE emptyE) simp_all

lemma lines_B:
  assumes "b \<in> {Before 0, Before 3, After 0, After 1} \<or> (\<exists>j < 18. b = Turn j 2)"
  shows "delayed (nxt 4 b) = delayed b \<and> V_hold (nxt 4 b) = V_hold b \<and> P_empty (nxt 4 b) = P_empty b
    \<and> stored (nxt 4 b) = stored b \<and> V_full (nxt 4 b) = V_full b"
  using assms by (elim disjE exE conjE insertE emptyE) simp_all

lemma in_step_delayed: "in_step K credits chr a b s \<Longrightarrow> delayed b \<Longrightarrow> inits a"
  by (simp add: in_step_def)

lemma A_answered:
  assumes w: "pv_works K E credits chr" and I: "in_step K credits chr a b s"
    and ok: "ok_pos 6 4 a" "ok_pos 4 3 b" and act: "restA K junk a = Some (r, good) # L"
  shows "answered (E TA) r good (L = []) (in_step K credits chr (nxt 6 a) b)
    (a = Before 4 \<and> V_hold b = 0 \<or> (\<exists>i < 18. a = Turn i 0 \<and> V_full b = i)) s"
    (is "answered _ _ _ _ ?Q ?W _")
  using ok(1) act
proof (cases rule: actA_cases)
  case (lines t r')
  have "\<And>s'. same credits chr s s' \<Longrightarrow> ?Q s'"
    using lines_A [OF lines(3)] in_step_delayed [OF I] by (intro in_step_same [OF I]) auto
  with lines(1,2,4) show ?thesis by (simp add: answered_says [OF w])
next
  case hold0
  from hold0 I show ?thesis
    by (auto simp: in_step_def any_ok_def sems_neq intro!: answered_init [OF w sems_in(1)])
next
  case full0
  from full0 I show ?thesis
    by (auto simp: in_step_def any_ok_def sems_neq intro!: answered_init [OF w sems_in(3)])
next
  case empty1
  have "\<not> delayed b" using I empty1 by (auto simp: in_step_def)
  from empty1 I not_inits_undelayed [OF this] show ?thesis
    by (auto simp: in_step_def any_ok_def sems_neq intro!: answered_init [OF w sems_in(2)])
next
  case P_hold
  show ?thesis
  proof (cases "credits s (hold K) = 0")
    case True
    with pv_P [OF w sems_in(1)] I P_hold show ?thesis by (auto simp: answered_def in_step_def)
  next
    case False
    with pv_P [OF w sems_in(1), of s TA] I P_hold show ?thesis
      by (auto simp: answered_def in_step_def any_ok_def sems_neq)
  qed
next
  case (P_full i)
  show ?thesis
  proof (cases "credits s (full K) = 0")
    case True
    with pv_P [OF w sems_in(3)] I P_full show ?thesis by (auto simp: answered_def in_step_def)
  next
    case False
    with pv_P [OF w sems_in(3), of s TA] I P_full show ?thesis
      by (auto simp: answered_def in_step_def any_ok_def sems_neq)
  qed
next
  case (get i)
  have st: "stored b = Suc i" using I get order_B [OF ok(2)] by (auto simp: in_step_def)
  have "\<And>s'. same credits chr s s' \<Longrightarrow> ?Q s'"
    using get by (intro in_step_same [OF I]) (use I in \<open>auto simp: in_step_def\<close>)
  with get st I show ?thesis
    by (auto simp: in_step_def loaded_def intro!: answered_get [OF w])
next
  case (V_empty i)
  from V_empty I show ?thesis
    by (auto simp: in_step_def any_ok_def sems_neq intro!: answered_V [OF w sems_in(2)])
next
  case (again i)
  then show ?thesis by simp
next
  case stop
  have "\<And>s'. same credits chr s s' \<Longrightarrow> ?Q s'"
    using stop by (intro in_step_same [OF I]) (use I in \<open>auto simp: in_step_def\<close>)
  with stop pv_stop(1) [OF w, of s] show ?thesis by (auto simp: answered_def)
qed

lemma B_answered:
  assumes w: "pv_works K E credits chr" and I: "in_step K credits chr a b s"
    and ok: "ok_pos 6 4 a" "ok_pos 4 3 b" and act: "restB K b = Some (r, good) # L"
    and late: "b = Before 1 \<Longrightarrow> inits a"
  shows "answered (E TB) r good (L = []) (in_step K credits chr a (nxt 4 b)) (\<exists>j < 18. b = Turn j 0 \<and> V_empty a < j) s"
    (is "answered _ _ _ _ ?Q ?W _")
  using ok(2) act
proof (cases rule: actB_cases)
  case (lines t r')
  have "\<And>s'. same credits chr s s' \<Longrightarrow> ?Q s'"
    using lines_B [OF lines(3)] in_step_delayed [OF I] by (intro in_step_same [OF I]) auto
  with lines(1,2,4) show ?thesis by (simp add: answered_says [OF w])
next
  case delay
  have "\<And>s'. same credits chr s s' \<Longrightarrow> ?Q s'"
    using delay late by (intro in_step_same [OF I]) auto
  with delay pv_delay [OF w, of s] show ?thesis by (auto simp: answered_def any_ok_def)
next
  case V_hold
  from V_hold I show ?thesis
    by (auto simp: in_step_def any_ok_def sems_neq intro!: answered_V [OF w sems_in(1)])
next
  case (P_empty j)
  show ?thesis
  proof (cases "credits s (empty K) = 0")
    case True
    with pv_P [OF w sems_in(2)] I P_empty show ?thesis by (auto simp: answered_def in_step_def)
  next
    case False
    with pv_P [OF w sems_in(2), of s TB] I P_empty show ?thesis
      by (auto simp: answered_def in_step_def any_ok_def sems_neq)
  qed
next
  case (put j)
  from put I show ?thesis
    by (auto simp: in_step_def any_ok_def sems_neq intro!: answered_put [OF w])
next
  case (V_full j)
  from V_full I show ?thesis
    by (auto simp: in_step_def any_ok_def sems_neq intro!: answered_V [OF w sems_in(3)])
next
  case (again j)
  then show ?thesis by simp
next
  case stop
  have "\<And>s'. same credits chr s s' \<Longrightarrow> ?Q s'"
    using stop by (intro in_step_same [OF I]) (use I in \<open>auto simp: in_step_def\<close>)
  with stop pv_stop(2) [OF w, of s] show ?thesis by (auto simp: answered_def)
qed

text \<open>B waits at a P only, however long its delay is.\<close>

lemma B_waits:
  assumes w: "pv_works K E credits chr" and I: "in_step K credits chr a b s"
    and ok: "ok_pos 6 4 a" "ok_pos 4 3 b" and act: "restB K b = Some (r, good) # L"
  shows "answered (E TB) r good (L = []) (\<lambda>_. True) (\<exists>j < 18. b = Turn j 0 \<and> V_empty a < j) s"
proof (cases "b = Before 1")
  case True
  from ok(2) act have "r = delay_req K \<and> good = any_ok \<and> L \<noteq> []"
    by (cases rule: actB_cases) (use True in auto)
  then show ?thesis using pv_delay [OF w, of s] by (auto simp: answered_def any_ok_def)
next
  case False
  with B_answered [OF w I ok act] show ?thesis by (auto simp: answered_def split: answer.splits)
qed

text \<open>Going round.\<close>

lemma A_again:
  assumes I: "in_step K credits chr a b s" and act: "ok_pos 6 4 a" "restA K junk a = None # L"
  shows "L \<noteq> [] \<and> in_step K credits chr (nxt 6 a) b s"
  using act
proof (cases rule: actA_cases)
  case (again i)
  then show ?thesis using I by (auto simp: in_step_def)
qed simp_all

lemma B_again:
  assumes I: "in_step K credits chr a b s" and act: "ok_pos 4 3 b" "restB K b = None # L"
  shows "L \<noteq> [] \<and> in_step K credits chr a (nxt 4 b) s"
  using act
proof (cases rule: actB_cases)
  case (again i)
  then show ?thesis using I by (auto simp: in_step_def)
qed simp_all

section \<open>Runs\<close>

text \<open>A process that has the actions \<open>L\<close> still to make; one that has none is gone.\<close>

fun has_left :: "unit proc option \<Rightarrow> action list \<Rightarrow> bool" where
  "has_left None L = (L = [])"
| "has_left (Some p) L = (L \<noteq> [] \<and> performs p L)"

fun reqs :: "action list \<Rightarrow> request list" where
  "reqs [] = []"
| "reqs (None # L) = reqs L"
| "reqs (Some (r, good) # L) = r # reqs L"

definition pv_inv :: "tconst \<Rightarrow> string \<Rightarrow> ('s \<Rightarrow> memaddr \<Rightarrow> nat) \<Rightarrow> ('s \<Rightarrow> char) \<Rightarrow>
    nat \<Rightarrow> (tester \<times> request) list \<Rightarrow> (tester, 's) system \<Rightarrow> bool" where
  "pv_inv K junk credits chr n tr c \<longleftrightarrow> (\<exists>a b. ok_pos 6 4 a \<and> ok_pos 4 3 b
     \<and> in_step K credits chr a b (snd c)
     \<and> has_left (fst c TA) (restA K junk a) \<and> has_left (fst c TB) (restB K b)
     \<and> asked_by TA tr @ reqs (restA K junk a) = reqs (restA K junk (Before 0))
     \<and> asked_by TB tr @ reqs (restB K b) = reqs (restB K (Before 0))
     \<and> n + length (restA K junk a) + length (restB K b) = length (restA K junk (Before 0)) + length (restB K (Before 0)))"

lemma asked_by_append: "asked_by i (tr @ l) = asked_by i tr @ asked_by i l"
  by (simp add: asked_by_def)

lemma reqs_Cons: "reqs (x # L) = reqs [x] @ reqs L"
  by (cases "[x]" rule: reqs.cases) auto

text \<open>
  The delay of B is long enough: when it is over, A has initialised the last semaphore. In a run this
  is a matter of time, which \<open>mrun\<close> does not know, so it is stated of the order of the requests.
\<close>

definition in_time :: "tconst \<Rightarrow> (tester \<times> request) list \<Rightarrow> bool" where
  "in_time K tr \<longleftrightarrow> (TB, delay_req K) \<notin> set tr
     \<or> (TA, Store_int (empty K) 1) \<in> set (takeWhile (\<lambda>x. x \<noteq> (TB, delay_req K)) tr)"

lemma takeWhile_until:
  "takeWhile (\<lambda>x. x \<noteq> d) (xs @ ys) = (if d \<in> set xs then takeWhile (\<lambda>x. x \<noteq> d) xs else xs @ takeWhile (\<lambda>x. x \<noteq> d) ys)"
  by (induction xs) auto

lemma in_time_prefix: "in_time K (tr @ l) \<Longrightarrow> in_time K tr"
  by (auto simp: in_time_def takeWhile_until split: if_splits)

lemma in_time_extend:
  "in_time K tr \<Longrightarrow> (TB, delay_req K) \<notin> set l \<or> (TA, Store_int (empty K) 1) \<in> set tr \<Longrightarrow> in_time K (tr @ l)"
  by (auto simp: in_time_def takeWhile_until)

lemma in_time_delay: "in_time K (tr @ [(TB, delay_req K)]) \<Longrightarrow> (TA, Store_int (empty K) 1) \<in> set tr"
  by (auto simp: in_time_def takeWhile_until split: if_splits dest: set_takeWhileD)

text \<open>By its requests A has or has not initialised the semaphores.\<close>

lemma reqs_append: "reqs (xs @ ys) = reqs xs @ reqs ys"
  by (induction xs rule: reqs.induct) auto

lemma reqs_in: "r \<in> set (reqs L) \<longleftrightarrow> (\<exists>good. Some (r, good) \<in> set L)"
  by (induction L rule: reqs.induct) auto

lemma restA_stores:
  assumes "ok_pos 6 4 a" "inits a" shows "Store_int x v \<notin> set (reqs (restA K junk a))"
proof -
  have t: "Some (Store_int x v, g) \<notin> set (turnA K i)" "Some (Store_int x v, g) \<notin> set (postA K junk)" for g i
    by (auto simp: turnA_def postA_def line_def dot_req_def write_req_def req_defs terminate_req_def)
  have r: "Some (Store_int x v, g) \<notin> set (turns (turnA K) 0)" "Some (Store_int x v, g) \<notin> set (round (turnA K) i)" for g i
    using t by (auto simp: turns_def round_def)
  show ?thesis
  proof (cases a)
    case (Before k)
    then have "k = 4 \<or> k = 5" using assms by auto
    then show ?thesis using Before r t
      by (auto simp: reqs_in preA_def drop_small line_def write_req_def req_defs)
  next
    case (Turn i ph)
    then show ?thesis using r t by (auto simp: reqs_in dest: in_set_dropD)
  next
    case (After k)
    then show ?thesis using t by (auto simp: reqs_in dest: in_set_dropD)
  qed
qed

lemma asked_inits:
  assumes "ok_pos 6 4 a" "asked_by TA tr @ reqs (restA K junk a) = reqs (restA K junk (Before 0))"
  shows "inits a \<longleftrightarrow> (TA, Store_int (empty K) 1) \<in> set tr"
proof -
  have m: "(TA, r) \<in> set tr \<longleftrightarrow> r \<in> set (asked_by TA tr)" for r by (force simp: asked_by_def)
  show ?thesis
  proof (cases "inits a")
    case True
    have "Store_int (empty K) 1 \<in> set (reqs (restA K junk (Before 0)))" by (simp add: reqs_append preA_def)
    then show ?thesis
      unfolding assms(2) [symmetric] m using restA_stores [OF assms(1) True] True by simp
  next
    case False
    then obtain k where "a = Before k" "k < 4" by (cases a) auto
    moreover from this have "k = 0 \<or> k = 1 \<or> k = 2 \<or> k = 3" by arith
    ultimately have k: "a = Before k" "k = 0 \<or> k = 1 \<or> k = 2 \<or> k = 3" by blast+
    have "reqs (restA K junk (Before 0)) = reqs (take k (preA K)) @ reqs (restA K junk a)"
      unfolding k(1) rest.simps reqs_append [symmetric]
      by (simp only: append_assoc [symmetric] append_take_drop_id drop_0)
    then have "asked_by TA tr = reqs (take k (preA K))" using assms(2) by simp
    then show ?thesis using k(2) False unfolding m
      by (auto simp: preA_def sems_neq line_def write_req_def numeral_eq_Suc)
  qed
qed

text \<open>One step of a process with a script: the script gets shorter by the action that was made.\<close>

lemma has_left_Tau: "has_left (Some (Tau p)) L \<Longrightarrow> \<exists>L'. L = None # L' \<and> performs p L'"
  by (cases L rule: reqs.cases) auto

lemma has_left_Ask: "has_left (Some (Ask r c)) L \<Longrightarrow> \<exists>good L'. L = Some (r, good) # L' \<and> (\<forall>v. good v \<longrightarrow> performs (c v) L')"
  by (cases L rule: reqs.cases) auto

lemma has_left_Undef: "\<not> has_left (Some Undef) L"
  by (cases L rule: reqs.cases) auto

lemma restA_nxt: "ok_pos 6 4 a \<Longrightarrow> restA K junk a = x # L \<Longrightarrow> L = restA K junk (nxt 6 a) \<and> ok_pos 6 4 (nxt 6 a)"
  using rest_nxt [of "preA K" "postA K junk" a "turnA K" x L] by (simp add: lengths)

lemma restB_nxt: "ok_pos 4 3 b \<Longrightarrow> restB K b = x # L \<Longrightarrow> L = restB K (nxt 4 b) \<and> ok_pos 4 3 (nxt 4 b)"
  using rest_nxt [of "preB K" "postB K" b "turnB K" x L] by (simp add: lengths)

text \<open>What an answered request leaves of the process.\<close>

definition after_answer :: "'s answer \<Rightarrow> (reply \<Rightarrow> unit proc) \<Rightarrow> 's \<Rightarrow> unit proc option \<Rightarrow> bool" where
  "after_answer x c s' p \<longleftrightarrow> (\<exists>v. x = Reply v s' \<and> p = Some (c v)) \<or> (x = Kill s' \<and> p = None)"

lemma answered_left:
  assumes "answered E r good (L = []) Q W s" "after_answer (E r s) c s' p" "\<forall>v. good v \<longrightarrow> performs (c v) L"
  shows "Q s' \<and> has_left p L"
  using assms by (auto simp: answered_def after_answer_def)

lemma pv_inv_step:
  assumes w: "pv_works K E credits chr" and inv: "pv_inv K junk credits chr n tr (T, s)"
    and step: "mstep E (T, s) l (T', s')" and time: "in_time K (tr @ l)"
  shows "pv_inv K junk credits chr (Suc n) (tr @ l) (T', s')"
proof -
  from inv obtain a b where ok: "ok_pos 6 4 a" "ok_pos 4 3 b" and I: "in_step K credits chr a b s"
    and A: "has_left (T TA) (restA K junk a)" and B: "has_left (T TB) (restB K b)"
    and asked: "asked_by TA tr @ reqs (restA K junk a) = reqs (restA K junk (Before 0))"
      "asked_by TB tr @ reqs (restB K b) = reqs (restB K (Before 0))"
    and n: "n + length (restA K junk a) + length (restB K b) = length (restA K junk (Before 0)) + length (restB K (Before 0))"
    by (auto simp: pv_inv_def)
  have to_A: ?thesis if "restA K junk a = x # L" "has_left p L" "in_step K credits chr (nxt 6 a) b s'"
    "T' = T(TA := p)" "asked_by TA l = reqs [x]" "asked_by TB l = []" for x L p
    unfolding pv_inv_def fst_conv snd_conv
    by (rule exI [of _ "nxt 6 a"], rule exI [of _ b])
      (use restA_nxt [OF ok(1) that(1)] ok(2) B asked n that reqs_Cons [of x L] in \<open>auto simp: asked_by_append\<close>)
  have to_B: ?thesis if "restB K b = x # L" "has_left p L" "in_step K credits chr a (nxt 4 b) s'"
    "T' = T(TB := p)" "asked_by TB l = reqs [x]" "asked_by TA l = []" for x L p
    unfolding pv_inv_def fst_conv snd_conv
    by (rule exI [of _ a], rule exI [of _ "nxt 4 b"])
      (use restB_nxt [OF ok(2) that(1)] ok(1) A asked n that reqs_Cons [of x L] in \<open>auto simp: asked_by_append\<close>)
  have ask: ?thesis if T: "T i = Some (Ask r c)" and l: "l = [(i, r)]" "T' = T(i := p)"
    and ans: "after_answer (E i r s) c s' p" for i r c p
  proof (cases i)
    case TA
    with A T have "has_left (Some (Ask r c)) (restA K junk a)" by simp
    from has_left_Ask [OF this]
    obtain good L where act: "restA K junk a = Some (r, good) # L" "\<forall>v. good v \<longrightarrow> performs (c v) L" by blast
    from answered_left [OF A_answered [OF w I ok act(1)] ans [unfolded TA] act(2)]
    have left: "in_step K credits chr (nxt 6 a) b s'" "has_left p L" by simp_all
    show ?thesis by (rule to_A [OF act(1) left(2,1)]) (simp_all add: l TA asked_by_def)
  next
    case TB
    with B T have "has_left (Some (Ask r c)) (restB K b)" by simp
    from has_left_Ask [OF this]
    obtain good L where act: "restB K b = Some (r, good) # L" "\<forall>v. good v \<longrightarrow> performs (c v) L" by blast
    have "inits a" if "b = Before 1"
    proof -
      from ok(2) act(1) have "r = delay_req K" by (cases rule: actB_cases) (use that in auto)
      then show ?thesis
        using in_time_delay [of K tr] time l TB asked_inits [OF ok(1) asked(1)] by simp
    qed
    from answered_left [OF B_answered [OF w I ok act(1) this] ans [unfolded TB] act(2)]
    have left: "in_step K credits chr a (nxt 4 b) s'" "has_left p L" by simp_all
    show ?thesis by (rule to_B [OF act(1) left(2,1)]) (simp_all add: l TB asked_by_def)
  qed
  from step show ?thesis
  proof cases
    case (mstep_Tau i p)
    show ?thesis
    proof (cases i)
      case TA
      with A mstep_Tau have "has_left (Some (Tau p)) (restA K junk a)" by simp
      from has_left_Tau [OF this] obtain L where act: "restA K junk a = None # L" "performs p L" by blast
      with A_again [OF I ok(1) act(1)] mstep_Tau TA show ?thesis
        by (intro to_A [OF act(1), of "Some p"]) (simp_all add: asked_by_def)
    next
      case TB
      with B mstep_Tau have "has_left (Some (Tau p)) (restB K b)" by simp
      from has_left_Tau [OF this] obtain L where act: "restB K b = None # L" "performs p L" by blast
      with B_again [OF I ok(2) act(1)] mstep_Tau TB show ?thesis
        by (intro to_B [OF act(1), of "Some p"]) (simp_all add: asked_by_def)
    qed
  next
    case (mstep_Reply i r c v)
    then show ?thesis by (intro ask) (auto simp: after_answer_def)
  next
    case (mstep_Kill i r c)
    then show ?thesis by (intro ask) (auto simp: after_answer_def)
  qed
qed

lemma pv_inv_run:
  assumes w: "pv_works K E credits chr"
    and "pv_inv K junk credits chr 0 [] c0" and "mrun E c0 n tr c" and "in_time K tr"
  shows "pv_inv K junk credits chr n tr c"
  using assms(3,2,4)
proof (induction rule: mrun.induct)
  case (mrun_step c n tr c1 l c2)
  then show ?case using pv_inv_step [OF w] in_time_prefix by (metis prod.collapse)
qed

definition pv_start :: "tconst \<Rightarrow> string \<Rightarrow> tester \<Rightarrow> unit proc option" where
  "pv_start K junk i = (case i of TA \<Rightarrow> Some (pvTestA_main K junk) | TB \<Rightarrow> Some (pvTestB_main K))"

lemma pv_inv_start:
  assumes "MESSIZE \<le> length junk"
  shows "pv_inv K junk credits chr 0 [] (pv_start K junk, s)"
proof -
  have "in_step K credits chr (Before 0) (Before 0) s" by (simp add: in_step_def)
  moreover have "preA K \<noteq> []" "preB K \<noteq> []" by (simp_all add: preA_def preB_def)
  ultimately show ?thesis
    unfolding pv_inv_def using performs_A [OF assms, of K] performs_B [of K]
    by (intro exI [of _ "Before 0"]) (simp add: pv_start_def asked_by_def)
qed

text \<open>A process that cannot make a step waits for the other one, which can.\<close>

lemma stuck_action:
  assumes "has_left (T i) (Some (r, good) # L)" "answered (E i) r good fin Q W s"
    and "\<And>l c. \<not> mstep E (T, s) l c"
  shows W
proof -
  obtain c where T: "T i = Some (Ask r c)" using assms(1) by (cases "T i") auto
  show ?thesis
  proof (cases "E i r s")
    case (Reply v s')
    then show ?thesis using mstep_Reply [where T = T and E = E and s = s, OF T Reply] assms(3) by simp
  next
    case (Kill s')
    then show ?thesis using mstep_Kill [where T = T and E = E and s = s, OF T Kill] assms(3) by simp
  next
    case Wait
    then show ?thesis using assms(2) by (simp add: answered_def)
  qed
qed

lemma stuck_tau:
  assumes "has_left (T i) (None # L)" shows "\<exists>l c. mstep E (T, s) l c"
proof -
  obtain q where "T i = Some (Tau q)" using assms by (cases "T i") auto
  from mstep_Tau [where T = T and E = E and s = s, OF this] show ?thesis by (intro exI)
qed

lemma stuck_A:
  assumes w: "pv_works K E credits chr" and I: "in_step K credits chr a b s"
    and ok: "ok_pos 6 4 a" "ok_pos 4 3 b" and A: "has_left (T TA) (restA K junk a)"
    and stuck: "\<And>l c. \<not> mstep E (T, s) l c"
  shows "a = After 4 \<or> a = Before 4 \<and> V_hold b = 0 \<or> (\<exists>i < 18. a = Turn i 0 \<and> V_full b = i)"
proof (cases "restA K junk a")
  case Nil
  then show ?thesis
    using ok(1) by (cases a) (auto simp: lengths turns_def turnA_def postA_def)
next
  case (Cons x L)
  then show ?thesis
  proof (cases x)
    case None
    then show ?thesis using stuck_tau A Cons stuck by metis
  next
    case (Some y)
    obtain r good where "y = (r, good)" by fastforce
    with Some Cons have act: "restA K junk a = Some (r, good) # L" by simp
    from stuck_action [OF A [unfolded act] A_answered [OF w I ok act] stuck] show ?thesis by simp
  qed
qed

lemma stuck_B:
  assumes w: "pv_works K E credits chr" and I: "in_step K credits chr a b s"
    and ok: "ok_pos 6 4 a" "ok_pos 4 3 b" and B: "has_left (T TB) (restB K b)"
    and stuck: "\<And>l c. \<not> mstep E (T, s) l c"
  shows "b = After 3 \<or> (\<exists>j < 18. b = Turn j 0 \<and> V_empty a < j)"
proof (cases "restB K b")
  case Nil
  then show ?thesis
    using ok(2) by (cases b) (auto simp: lengths turns_def turnB_def postB_def)
next
  case (Cons x L)
  then show ?thesis
  proof (cases x)
    case None
    then show ?thesis using stuck_tau B Cons stuck by metis
  next
    case (Some y)
    obtain r good where "y = (r, good)" by fastforce
    with Some Cons have act: "restB K b = Some (r, good) # L" by simp
    from stuck_action [OF B [unfolded act] B_waits [OF w I ok act] stuck] show ?thesis by simp
  qed
qed

lemma in_step_counts:
  "in_step K credits chr a b s \<Longrightarrow> inits a \<Longrightarrow>
   P_hold a + credits s (hold K) = V_hold b \<and> P_full a + credits s (full K) = V_full b
   \<and> P_empty b + credits s (empty K) = 1 + V_empty a"
  by (simp add: in_step_def)

lemma stuck_done:
  assumes w: "pv_works K E credits chr" and I: "in_step K credits chr a b s"
    and ok: "ok_pos 6 4 a" "ok_pos 4 3 b"
    and left: "has_left (T TA) (restA K junk a)" "has_left (T TB) (restB K b)"
    and stuck: "\<And>l c. \<not> mstep E (T, s) l c"
  shows "a = After 4 \<and> b = After 3"
  using stuck_A [OF w I ok left(1) stuck] stuck_B [OF w I ok left(2) stuck] in_step_counts [OF I]
  by (elim disjE exE conjE) simp_all

section \<open>The message arrives\<close>

lemma reqs_rounds: "reqs (concat (map (\<lambda>j. None # t j) js)) = concat (map (\<lambda>j. reqs (t j)) js)"
  by (induction js) (auto simp: reqs_append)

lemma reqs_turns: "reqs (turns t 0) = concat (map (\<lambda>j. reqs (t j)) [0..<18])"
proof -
  have "[0..<18] = 0 # [Suc 0..<18]" by (simp add: upt_conv_Cons)
  then show ?thesis by (simp add: turns_def round_def reqs_append reqs_rounds)
qed

lemma length_turns: "(\<And>i. length (t i) = 4) \<Longrightarrow> length (turns t 0) = 89"
  by (simp add: turns_def round_def length_concat comp_def sum_list_triv)

lemma map_message: "map f message = map (\<lambda>i. f (message ! i)) [0..<18]"
  by (rule nth_equalityI) (simp_all add: length_message)

lemma concat_message: "concat (map (\<lambda>j. g (message ! j)) [0..<18]) = concat (map g message)"
  by (simp only: map_message)

lemma concat_const: "concat (map (\<lambda>j. xs) js) = concat (replicate (length js) xs)"
  by (simp add: map_replicate_const)

lemma asked_A:
  "reqs (restA K junk (Before 0)) =
     [line K ''pvATest starts'', Store_int (hold K) 0, Store_int (full K) 0, Store_int (empty K) 1,
      P_req K (hold K), line K ''pvATest is free'']
     @ concat (replicate 18 [P_req K (full K), Load_char (charbuff K), dot_req K, V_req K (empty K)])
     @ [line K [], write_req (WRITETERMINAL K) (''virtual synch OK'' @ newline) (drop 18 (take MESSIZE junk)),
        line K ''pvATest completed'', terminate_req K]"
  by (simp add: reqs_append reqs_turns preA_def turnA_def postA_def sent_text_def concat_const del: upt_Suc)

lemma asked_B:
  "reqs (restB K (Before 0)) =
     [line K ''pvBTest starts'', delay_req K, V_req K (hold K), line K ''pvBTest is free'']
     @ concat (map (\<lambda>c. [P_req K (empty K), Store_char (charbuff K) c, dot_req K, V_req K (full K)])
         (''virtual synch OK'' @ newline @ [EOS]))
     @ [line K (newline @ ''pvBTest finished sending''), line K ''pvBTest completed'', private_req K]"
proof -
  have "''virtual synch OK'' @ newline @ [EOS] = message" by (simp add: message_text sent_text_def)
  then show ?thesis
    by (simp add: reqs_append reqs_turns preB_def turnB_def postB_def del: upt_Suc)
      (simp only: concat_message [where g = "\<lambda>c. [P_req K (empty K), Store_char (charbuff K) c, dot_req K, V_req K (full K)]"])
qed

lemma pv_bound:
  assumes "pv_works K E credits chr" "MESSIZE \<le> length junk" "mrun E (pv_start K junk, s0) n tr c" "in_time K tr"
  shows "n \<le> 195"
proof -
  from pv_inv_run [OF assms(1) pv_inv_start [OF assms(2)] assms(3,4)]
  obtain a b where "n + length (restA K junk a) + length (restB K b)
      = length (restA K junk (Before 0)) + length (restB K (Before 0))"
    unfolding pv_inv_def by blast
  then show ?thesis by (simp add: lengths length_turns)
qed

text \<open>A run that is in time can go on in time, so there are complete runs: before A has initialised the semaphores it does not wait.\<close>

lemma in_time_goes_on:
  assumes w: "pv_works K E credits chr" and inv: "pv_inv K junk credits chr n tr (T, s)" and time: "in_time K tr"
    and more: "mstep E (T, s) l c"
  shows "\<exists>l c. mstep E (T, s) l c \<and> in_time K (tr @ l)"
proof -
  from inv obtain a b where ok: "ok_pos 6 4 a" "ok_pos 4 3 b" and I: "in_step K credits chr a b s"
    and A: "has_left (T TA) (restA K junk a)"
    and asked: "asked_by TA tr @ reqs (restA K junk a) = reqs (restA K junk (Before 0))"
    unfolding pv_inv_def fst_conv snd_conv by blast
  show ?thesis
  proof (cases "inits a")
    case True
    then show ?thesis using in_time_extend [OF time] asked_inits [OF ok(1) asked] more by blast
  next
    case False
    then obtain k where k: "a = Before k" "k < 4" by (cases a) auto
    then have "k = 0 \<or> k = 1 \<or> k = 2 \<or> k = 3" by arith
    then obtain r good L where act: "restA K junk a = Some (r, good) # L"
      using k(1) by (elim disjE) (simp_all add: preA_def drop_small)
    obtain p where p: "T TA = Some (Ask r p)" using A act by (cases "T TA") auto
    have "\<exists>c. mstep E (T, s) [(TA, r)] c"
      using A_answered [OF w I ok act] mstep_Reply [where T = T and E = E and s = s, OF p]
        mstep_Kill [where T = T and E = E and s = s, OF p] k
      by (cases "E TA r s") (auto simp: answered_def)
    then show ?thesis using in_time_extend [OF time, of "[(TA, r)]"] by auto
  qed
qed

lemma pv_complete_run:
  assumes w: "pv_works K E credits chr" and junk: "MESSIZE \<le> length junk"
  shows "\<exists>n tr c. mrun E (pv_start K junk, s0) n tr c \<and> in_time K tr \<and> (\<forall>l c'. \<not> mstep E c l c')"
proof (rule ccontr)
  assume more: "\<not> ?thesis"
  have "\<exists>tr T s. mrun E (pv_start K junk, s0) n tr (T, s) \<and> in_time K tr" for n
  proof (induction n)
    case 0
    then show ?case using mrun_start by (fastforce simp: in_time_def)
  next
    case (Suc n)
    then obtain tr T s where c: "mrun E (pv_start K junk, s0) n tr (T, s)" "in_time K tr" by blast
    with more obtain l c' where "mstep E (T, s) l c'" by blast
    from in_time_goes_on [OF w pv_inv_run [OF w pv_inv_start [OF junk] c] c(2) this]
    obtain l T' s' where "mstep E (T, s) l (T', s')" "in_time K (tr @ l)" by fastforce
    then show ?case using mrun_step [OF c(1)] by blast
  qed
  then obtain tr T s where "mrun E (pv_start K junk, s0) 196 tr (T, s)" "in_time K tr" by blast
  from pv_bound [OF w junk this] show False by simp
qed

text \<open>
  C11. pvTestA.c and pvTestB.c side by side, on a support level whose virtual semaphores, shared segment and
  terminals work, in every interleaving in which the delay of B is long enough, that is, in which its DELAY is
  answered after A has initialised the semaphores (the programs rely on this: A initialises them by stores, and B waits 5
  seconds to give it time). No run is longer than 195 steps, so there is no livelock; no access is outside an array;
  and a run that cannot go on, so every run in the end, is not a deadlock: both processes are gone, A by TERMINATE
  after it has received and printed the message, B at its P on a private semaphore after it has sent the message
  character by character, each of them having made exactly the requests of its program.
\<close>

theorem pv_message_arrives:
  assumes "pv_works K E credits chr" and "MESSIZE \<le> length junk"
    and "mrun E (pv_start K junk, s0) n tr (T, s)" and "in_time K tr"
  shows "n \<le> 195 \<and> T i \<noteq> Some Undef \<and>
    ((\<forall>l c. \<not> mstep E (T, s) l c) \<longrightarrow> T i = None
     \<and> asked_by TA tr =
         [line K ''pvATest starts'', Store_int (hold K) 0, Store_int (full K) 0, Store_int (empty K) 1,
          P_req K (hold K), line K ''pvATest is free'']
         @ concat (replicate 18 [P_req K (full K), Load_char (charbuff K), dot_req K, V_req K (empty K)])
         @ [line K [], write_req (WRITETERMINAL K) (''virtual synch OK'' @ newline) (drop 18 (take MESSIZE junk)),
            line K ''pvATest completed'', terminate_req K]
     \<and> asked_by TB tr =
         [line K ''pvBTest starts'', delay_req K, V_req K (hold K), line K ''pvBTest is free'']
         @ concat (map (\<lambda>c. [P_req K (empty K), Store_char (charbuff K) c, dot_req K, V_req K (full K)])
             (''virtual synch OK'' @ newline @ [EOS]))
         @ [line K (newline @ ''pvBTest finished sending''), line K ''pvBTest completed'', private_req K])"
proof -
  from pv_inv_run [OF assms(1) pv_inv_start [OF assms(2)] assms(3,4)]
  obtain a b where ok: "ok_pos 6 4 a" "ok_pos 4 3 b" and I: "in_step K credits chr a b s"
    and left: "has_left (T TA) (restA K junk a)" "has_left (T TB) (restB K b)"
    and asked: "asked_by TA tr @ reqs (restA K junk a) = reqs (restA K junk (Before 0))"
      "asked_by TB tr @ reqs (restB K b) = reqs (restB K (Before 0))"
    unfolding pv_inv_def fst_conv snd_conv by blast
  have "n \<le> 195" by (rule pv_bound [OF assms])
  moreover have "T i \<noteq> Some Undef" using left by (cases i) (metis has_left_Undef)+
  moreover have "T i = None \<and> asked_by TA tr = reqs (restA K junk (Before 0)) \<and> asked_by TB tr = reqs (restB K (Before 0))"
    if "\<forall>l c. \<not> mstep E (T, s) l c"
    using stuck_done [OF assms(1) I ok left] that left asked
    by (cases i; cases "T TA"; cases "T TB") (auto simp: lengths)
  ultimately show ?thesis unfolding asked_A asked_B by blast
qed

section \<open>A delay that is too short\<close>

text \<open>\<open>reaches E c L F\<close>: a run from \<open>c\<close> leads to a state in which \<open>F\<close> holds and process \<open>i\<close> has \<open>L i\<close> left.\<close>

definition reaches :: "(tester \<Rightarrow> 's support) \<Rightarrow> (tester, 's) system \<Rightarrow> (tester \<Rightarrow> action list) \<Rightarrow> ('s \<Rightarrow> bool) \<Rightarrow> bool" where
  "reaches E c L F \<longleftrightarrow> (\<exists>n tr T s. mrun E c n tr (T, s) \<and> (\<forall>i. has_left (T i) (L i)) \<and> F s)"

lemma reaches_ask:
  assumes "reaches E c L F" "L i = Some (r, good) # M" "M \<noteq> []"
    and "\<And>s. F s \<Longrightarrow> \<exists>v s'. E i r s = Reply v s' \<and> good v \<and> G s'"
  shows "reaches E c (L(i := M)) G"
proof -
  obtain n tr T s where run: "mrun E c n tr (T, s)" "\<forall>j. has_left (T j) (L j)" "F s"
    using assms(1) unfolding reaches_def by blast
  obtain p where p: "T i = Some (Ask r p)" "\<forall>v. good v \<longrightarrow> performs (p v) M"
    using run(2) [rule_format, of i] assms(2) by (cases "T i") auto
  obtain v s' where v: "E i r s = Reply v s'" "good v" "G s'" using assms(4) [OF run(3)] by blast
  have "mrun E c (Suc n) (tr @ [(i, r)]) (T(i \<mapsto> p v), s')"
    by (rule mrun_step [OF run(1) mstep_Reply [where T = T and E = E, OF p(1) v(1)]])
  moreover have "has_left ((T(i \<mapsto> p v)) j) ((L(i := M)) j)" for j
    using run(2) p(2) v(2) assms(3) by (cases M rule: reqs.cases) auto
  ultimately show ?thesis using v(3) unfolding reaches_def by blast
qed

lemma reaches_tau:
  assumes "reaches E c L F" "L i = None # M" "M \<noteq> []"
  shows "reaches E c (L(i := M)) F"
proof -
  obtain n tr T s where run: "mrun E c n tr (T, s)" "\<forall>j. has_left (T j) (L j)" "F s"
    using assms(1) unfolding reaches_def by blast
  obtain p where p: "T i = Some (Tau p)" "performs p M"
    using run(2) [rule_format, of i] assms(2) by (cases "T i") auto
  have "mrun E c (Suc n) (tr @ []) (T(i \<mapsto> p), s)"
    by (rule mrun_step [OF run(1) mstep_Tau [where T = T and E = E, OF p(1)]])
  moreover have "has_left ((T(i \<mapsto> p)) j) ((L(i := M)) j)" for j
    using run(2) p(2) assms(3) by (cases M rule: reqs.cases) auto
  ultimately show ?thesis using run(3) unfolding reaches_def by blast
qed

text \<open>A schedule: who makes which request, the answer that is expected, and what holds then.\<close>

type_synonym 's sched = "(tester \<times> request \<times> (reply \<Rightarrow> bool) \<times> ('s \<Rightarrow> bool)) list"

fun works :: "(tester \<Rightarrow> 's support) \<Rightarrow> ('s \<Rightarrow> bool) \<Rightarrow> 's sched \<Rightarrow> bool" where
  "works E F [] = True"
| "works E F ((i, r, good, G) # xs) = ((\<forall>s. F s \<longrightarrow> (\<exists>v s'. E i r s = Reply v s' \<and> good v \<and> G s')) \<and> works E G xs)"

fun outcome :: "('s \<Rightarrow> bool) \<Rightarrow> 's sched \<Rightarrow> 's \<Rightarrow> bool" where
  "outcome F [] = F"
| "outcome F ((i, r, good, G) # xs) = outcome G xs"

fun part :: "tester \<Rightarrow> 's sched \<Rightarrow> action list" where
  "part i [] = []"
| "part i ((j, r, good, G) # xs) = (if i = j then Some (r, good) # part i xs else part i xs)"

lemma reaches_sched:
  "reaches E c L F \<Longrightarrow> works E F xs \<Longrightarrow> \<forall>i. L i = part i xs @ M i \<and> M i \<noteq> [] \<Longrightarrow> reaches E c M (outcome F xs)"
proof (induction xs arbitrary: L F)
  case Nil
  then have "L = M" by (simp add: fun_eq_iff)
  then show ?case using Nil by simp
next
  case (Cons x xs)
  obtain i r good G where x: "x = (i, r, good, G)" by (cases x) auto
  have "reaches E c (L(i := part i xs @ M i)) G"
    by (rule reaches_ask [OF Cons.prems(1)]) (use Cons.prems(2,3) x in auto)
  note ih = Cons.IH [OF this]
  show ?case unfolding x outcome.simps by (rule ih) (use Cons.prems(2,3) x in auto)
qed

lemma tester_upd: "(case_tester x y)(TB := z) = case_tester x z"
  by (simp add: fun_eq_iff split: tester.split)

abbreviation stuckA :: "tconst \<Rightarrow> string \<Rightarrow> action list" where
  "stuckA K junk \<equiv> Some (P_req K (hold K), any_ok) # Some (line K ''pvATest is free'', w_ok) # turns (turnA K) 0 @ postA K junk"

abbreviation stuckB :: "tconst \<Rightarrow> action list" where
  "stuckB K \<equiv> turns (turnB K) (Suc 0) @ postB K"

lemma pv_short_delay_run:
  assumes w: "pv_works K E credits chr" and junk: "MESSIZE \<le> length junk"
  shows "reaches E (pv_start K junk, s0) (case_tester (stuckA K junk) (stuckB K))
    (\<lambda>s. credits s (hold K) = 0 \<and> credits s (empty K) = 0)"
proof -
  let ?c = "(pv_start K junk, s0)"
  let ?cr = "\<lambda>h e s. (h = None \<or> h = Some (credits s (hold K))) \<and> (e = None \<or> e = Some (credits s (empty K)))"
  let ?A = "stuckA K junk" and ?B = "stuckB K"
  let ?xs = "[(TB, line K ''pvBTest starts'', w_ok, ?cr None None), (TB, delay_req K, any_ok, ?cr None None),
     (TB, V_req K (hold K), any_ok, ?cr None None), (TA, line K ''pvATest starts'', w_ok, ?cr None None),
     (TA, Store_int (hold K) 0, any_ok, ?cr (Some 0) None), (TA, Store_int (full K) 0, any_ok, ?cr (Some 0) None),
     (TA, Store_int (empty K) 1, any_ok, ?cr (Some 0) (Some 1)), (TB, line K ''pvBTest is free'', w_ok, ?cr (Some 0) (Some 1)),
     (TB, P_req K (empty K), any_ok, ?cr (Some 0) (Some 0)), (TB, Store_char (charbuff K) (message ! 0), any_ok, ?cr (Some 0) (Some 0)),
     (TB, dot_req K, w_ok, ?cr (Some 0) (Some 0)), (TB, V_req K (full K), any_ok, ?cr (Some 0) (Some 0))]"
  have ne: "preA K \<noteq> []" "preB K \<noteq> []" by (simp_all add: preA_def preB_def)
  have "\<forall>i. has_left (pv_start K junk i) (case_tester (restA K junk (Before 0)) (restB K (Before 0)) i)"
    using performs_A [OF junk, of K] performs_B [of K] ne by (simp add: pv_start_def split: tester.split)
  then have 0: "reaches E ?c (case_tester (restA K junk (Before 0)) (restB K (Before 0))) (?cr None None)"
    using mrun_start [of E ?c] unfolding reaches_def by (intro exI conjI) simp_all
  have say: "\<exists>v s'. E i (write_req (WRITETERMINAL K) t r) s = Reply v s' \<and> w_ok v \<and> credits s' = credits s"
    if "length t \<le> 128" for i t r s using pv_says [OF w that] by (fastforce simp: same_def)
  have says: "\<exists>v s'. E TB (line K ''pvBTest starts'') s = Reply v s' \<and> w_ok v \<and> credits s' = credits s"
    "\<exists>v s'. E TA (line K ''pvATest starts'') s = Reply v s' \<and> w_ok v \<and> credits s' = credits s"
    "\<exists>v s'. E TB (line K ''pvBTest is free'') s = Reply v s' \<and> w_ok v \<and> credits s' = credits s"
    "\<exists>v s'. E TB (dot_req K) s = Reply v s' \<and> w_ok v \<and> credits s' = credits s" for s
    unfolding line_def dot_req_def by (rule say; simp add: newline_def)+
  have V: "\<exists>v s'. E TB (V_req K a) s = Reply v s' \<and> credits s' = (credits s)(a := credits s a + 1)"
    if "a \<in> sems K" for a s using pv_V [OF w that] by blast
  have init: "\<exists>v s'. E TA (Store_int a x) s = Reply v s' \<and> credits s' = (credits s)(a := unat x)"
    if "a \<in> sems K" for a x s using pv_init [OF w that] by blast
  have P: "\<exists>v s'. E TB (P_req K (empty K)) s = Reply v s' \<and> credits s' = (credits s)(empty K := 0)"
    if "credits s (empty K) = 1" for s using pv_P [OF w sems_in(2), of s TB] that by auto
  have delay: "\<exists>v s'. E TB (delay_req K) s = Reply v s' \<and> credits s' = credits s" for s
    using pv_delay [OF w, of s] by (auto simp: same_def)
  have put: "\<exists>v s'. E TB (Store_char (charbuff K) c) s = Reply v s' \<and> credits s' = credits s" for c s
    using pv_put [OF w, of TB c s] by blast
  have go: "\<exists>v s'. X = Reply v s' \<and> credits s' = f \<Longrightarrow> (\<And>s'. credits s' = f \<Longrightarrow> G s') \<Longrightarrow> \<exists>v s'. X = Reply v s' \<and> any_ok v \<and> G s'"
    and said: "\<exists>v s'. X = Reply v s' \<and> w_ok v \<and> credits s' = f \<Longrightarrow> (\<And>s'. credits s' = f \<Longrightarrow> G s') \<Longrightarrow> \<exists>v s'. X = Reply v s' \<and> w_ok v \<and> G s'"
    for X f G by (auto simp: any_ok_def)
  have "works E (?cr None None) ?xs"
    unfolding works.simps
    by (intro conjI allI impI TrueI go [OF V] go [OF init] go [OF P] go [OF delay] go [OF put] said [OF says(1)] said [OF says(2)]
        said [OF says(3)] said [OF says(4)]) (simp_all add: sems_in sems_neq)
  from reaches_sched [OF 0 this, of "case_tester ?A (None # ?B)"]
  have "reaches E ?c (case_tester ?A (None # ?B)) (?cr (Some 0) (Some 0))"
    by (simp add: preA_def preB_def turns_def [of _ 0] turnB_def [of _ 0] round_simps(1) [of 0] split: tester.split)
  from reaches_tau [OF this, of TB ?B]
  show ?thesis unfolding tester_upd by (simp add: turns_def [of _ "Suc 0"] turnB_def [of _ "Suc 0"])
qed

text \<open>
  Without the right order of delay and initialisation the programs deadlock: B has raised the semaphore \<open>hold\<close> before A
  sets it to 0, so A waits for ever, and B after one character.
\<close>

theorem pv_short_delay_deadlocks:
  assumes w: "pv_works K E credits chr" and junk: "MESSIZE \<le> length junk"
  shows "\<exists>n tr T s. mrun E (pv_start K junk, s0) n tr (T, s) \<and> (\<forall>l c. \<not> mstep E (T, s) l c) \<and> (\<forall>i. T i \<noteq> None)"
proof -
  let ?A = "stuckA K junk" and ?B = "stuckB K"
  from pv_short_delay_run [OF assms, of s0] obtain n tr T s where run: "mrun E (pv_start K junk, s0) n tr (T, s)" and left: "\<forall>i. has_left (T i) (case_tester ?A ?B i)"
    and cr: "credits s (hold K) = 0" "credits s (empty K) = 0"
    unfolding reaches_def by auto
  have b: "?B = Some (P_req K (empty K), any_ok) # tl ?B" by (simp add: turns_def turnB_def)
  have left_B: "has_left (T TB) (Some (P_req K (empty K), any_ok) # tl ?B)"
    by (subst b [symmetric]) (use left in \<open>simp split: tester.splits\<close>)
  obtain p q where T: "T TA = Some (Ask (P_req K (hold K)) p)" "T TB = Some (Ask (P_req K (empty K)) q)"
    using left [rule_format, of TA] left_B by (cases "T TA"; cases "T TB") (auto simp del: append.simps)
  have "E i (P_req K (hold K)) s = Wait \<and> E i (P_req K (empty K)) s = Wait" for i
    using pv_P [OF w sems_in(1), of s i] pv_P [OF w sems_in(2), of s i] cr by simp
  moreover have "T i = Some (Ask (P_req K (hold K)) p) \<or> T i = Some (Ask (P_req K (empty K)) q)" for i
    using T by (cases i) simp_all
  ultimately have "\<not> mstep E (T, s) l c" for l c
    by (auto elim!: mstep.cases) (metis answer.distinct option.inject proc.distinct(7) proc.inject(2))+
  moreover have "T i \<noteq> None" for i using T by (cases i) simp_all
  ultimately show ?thesis using run by blast
qed

end
