(* ===== verification/P3_Properties.thy ===== *)
theory P3_Properties
  imports P3_Runs
begin

text \<open>
  The test programs that use one process: what each of them does on a support level that works,
  request by request.
\<close>

definition ends :: "'s support \<Rightarrow> 'a proc \<Rightarrow> 's \<Rightarrow> request list \<Rightarrow> bool" where
  "ends E p s tr \<longleftrightarrow> (\<exists>s'. does E p s tr (Killed s'))"

lemma endsI: "wp E p s (\<lambda>tr' e. tr' = tr \<and> (\<exists>s'. e = Killed s')) \<Longrightarrow> ends E p s tr"
  by (auto simp: wp_def ends_def)

lemma wp_if: "(b \<Longrightarrow> wp E (bnd t f) s Q) \<Longrightarrow> (\<not> b \<Longrightarrow> wp E (bnd u f) s Q) \<Longrightarrow> wp E (bnd (if b then t else u) f) s Q"
  by simp

section \<open>\<open>fibTest.c\<close>\<close>

fun fib_spec :: "nat \<Rightarrow> nat" where
  "fib_spec 0 = 0"
| "fib_spec (Suc 0) = 1"
| "fib_spec (Suc (Suc n)) = fib_spec (Suc n) + fib_spec n"

lemma fib_base [simp]: "fib 1 = Some 1" "fib 2 = Some 1"
  by (subst fib.simps, simp)+

lemma fib_rec:
  "2 < i \<Longrightarrow> fib i = (case fib (i - 1) of None \<Rightarrow> None | Some a \<Rightarrow>
     (case fib (i - 2) of None \<Rightarrow> None | Some b \<Rightarrow> Some (a + b)))"
  by (subst fib.simps) (auto split: option.split)

lemma fib_7: "fib 7 = Some 13"
  by (simp add: fib_rec word_less_nat_alt)

text \<open>
  C15. The recursion of fibTest.c returns for every positive argument, with the Fibonacci number modulo 2^32
  (where the signed additions of the C code overflow, the model gives what the machine's addition gives).
\<close>

theorem fib_correct:
  assumes "0 < n" "n < 2 ^ 32"
  shows "fib (of_nat n) = Some (of_nat (fib_spec n))"
  using assms
proof (induction n rule: fib_spec.induct)
  case (3 n)
  show ?case
  proof (cases "n = 0")
    case False
    have w: "of_nat (Suc (Suc n)) = (of_nat n + 2 :: word32)" by simp
    have n: "unat (of_nat n + 2 :: word32) = n + 2"
      using 3(4) unfolding w [symmetric] by (subst unat_of_nat) (simp add: take_bit_nat_eq_self)
    have "(2 :: word32) < of_nat n + 2"
      using False unfolding word_less_nat_alt n by simp
    with 3 False show ?thesis by (simp add: w fib_rec add.commute)
  qed simp
qed simp_all

theorem fib_correct_witness: "fib 7 = Some 13 \<and> (0::nat) < 7"
proof -
  have "fib_spec 7 = 13" by (simp add: numeral_eq_Suc)
  then show ?thesis using fib_correct [of 7] by simp
qed

text \<open>
  C16. On a support level whose terminal accepts what is written, fibTest.c announces its start, the end of the
  recursion and its success, and terminates; it does not report an error.
\<close>

theorem fibTest_succeeds:
  assumes "writes (WRITETERMINAL K) E view" and "kills (terminate_req K) E"
  shows "ends E (fibTest_main K) s
    [line K ''Recursive Fibanaci Test starts'', line K ''Recursion Concluded'',
     line K ''Recursion Concluded Successfully'', terminate_req K]"
  unfolding fibTest_main_def
  by (rule endsI, simp only: fib_7 option.case block.simps refl if_True)
    (intro wp_line [OF assms(1)] wp_terminate [OF assms(2)]; simp add: text_simps)

section \<open>\<open>printerTest.c\<close>\<close>

theorem printerTest_prints:
  assumes "writes (WRITETERMINAL K) E view" "writes (WRITEPRINTER K) E view'" "kills (terminate_req K) E"
  shows "ends E (printerTest_main K) s
    [line K ''printTest is ok'', write_req (WRITEPRINTER K) (''printTest is ok'' @ newline) [], terminate_req K]"
  unfolding printerTest_main_def block.simps
  by (rule endsI, intro wp_line [OF assms(1)] wp_lit [OF assms(2)] wp_terminate [OF assms(3)])
    (simp_all add: text_simps)

section \<open>\<open>print.c\<close>\<close>

text \<open>The complaint of \<open>print\<close>, written with the length 26.\<close>

definition bad_status :: string where "bad_status = lit (''Bad device write status'' @ newline)"

lemma print_returns:
  "EOS \<notin> set t \<Longrightarrow> E (write_req device t r) s = Reply v s' \<Longrightarrow> 0 \<le> sint (val v) \<Longrightarrow>
   does E (print_str K device (t @ EOS # r)) s [write_req device t r] (Finished () s')"
  by (auto simp: print_str_def leng_loop_terminated ask_defs write_req_def intro!: does.intros)

text \<open>
  C18. When the device refuses a write, print writes its complaint and terminates the process. The
  complaint is written with the length 26, although the string has 25 characters with its
  terminator.
\<close>

theorem print_gives_up:
  assumes "EOS \<notin> set t" and "E (write_req device t r) s = Reply v s1" and "sint (val v) < 0"
    and "E (Syscall device (Text bad_status) 26 0) s1 = Reply v2 s2"
    and "E (terminate_req K) s2 = Kill s3"
  shows "does E (print_str K device (t @ EOS # r)) s
      [write_req device t r, Syscall device (Text bad_status) 26 0, terminate_req K] (Killed s3)
    \<and> length bad_status < 26"
proof -
  have "length bad_status < 26" by (simp add: bad_status_def lit_def newline_def)
  with assms show ?thesis
    unfolding print_str_def leng_loop_terminated [OF assms(1)]
    by (auto simp: ask_defs write_req_def terminate_req_def bad_status_def intro!: does.intros)
qed

section \<open>\<open>readTest.c\<close>\<close>

text \<open>What is typed at the terminal is \<open>cs\<close>; the support level stores it and returns its length.\<close>

definition typed :: "tconst \<Rightarrow> 's support \<Rightarrow> string \<Rightarrow> bool" where
  "typed K E cs \<longleftrightarrow> (\<forall>s. \<exists>v s'. E (Syscall (READTERMINAL K) (Room 15) 0 0) s = Reply v s'
     \<and> val v = of_nat (length cs) \<and> chars v = cs)"

lemma wp_read:
  assumes "typed K E cs"
    and "\<And>v s'. val v = of_nat (length cs) \<Longrightarrow> chars v = cs \<Longrightarrow>
      wp E (c v) s' (\<lambda>tr. Q (Syscall (READTERMINAL K) (Room 15) 0 0 # tr))"
  shows "wp E (Ask (Syscall (READTERMINAL K) (Room 15) 0 0) c) s Q"
  using assms by (fastforce simp: typed_def intro: wp_reply)

lemma sint_small: "n < 2 ^ 31 \<Longrightarrow> sint (of_nat n :: word32) = int n"
  by (simp add: signed_of_nat signed_take_bit_int_eq_self)

text \<open>
  A line of up to 14 characters is echoed by readTest.c, whatever its buffer contained before.
\<close>

theorem readTest_echoes:
  assumes "writes (WRITETERMINAL K) E view" "kills (terminate_req K) E" "typed K E cs"
    and "length cs < 15" "EOS \<notin> set cs" "15 \<le> length junk"
  shows "ends E (readTest_main K junk) s
    [line K ''Terminal Read Test starts'', write_req (WRITETERMINAL K) ''Enter a string: '' [],
     Syscall (READTERMINAL K) (Room 15) 0 0, line K [],
     write_req (WRITETERMINAL K) cs (drop (length cs + 1) (take 15 junk)),
     line K (newline @ newline @ ''Terminal Read concluded''), terminate_req K]"
proof -
  have buf: "(cs @ drop (length cs) (take 15 junk))[length cs := EOS] = cs @ EOS # drop (length cs + 1) (take 15 junk)"
    using assms(4,6) by (simp add: list_update_append Cons_nth_drop_Suc [symmetric])
  have i: "sint (of_nat (length cs) :: word32) = int (length cs)" "unat (of_nat (length cs) :: word32) = length cs"
    using assms(4) by (simp_all add: sint_small unat_of_nat)
  show ?thesis
    unfolding readTest_main_def
  proof (rule endsI, intro wp_line [OF assms(1)] wp_lit [OF assms(1)] wp_read [OF assms(3)], goal_cases)
    case (3 v1 s1 v2 s2 v s3)
    then show ?case
      using assms(4-6) by (simp add: fill_def set_char_def i buf)
        (intro wp_line [OF assms(1)] wp_print [OF assms(1)] wp_terminate [OF assms(2)];
         simp add: text_simps)
  qed (simp_all add: text_simps)
qed

text \<open>
  C17. A line of 15 or more characters at the terminal makes readTest.c write outside its buffer of 15
  characters, by the support level or by the store of the terminator: the behaviour is undefined.
\<close>

theorem readTest_overflows:
  assumes "writes (WRITETERMINAL K) E view" "typed K E cs" "15 \<le> length cs" "length cs < 2 ^ 31" "15 \<le> length junk"
  shows "\<exists>s'. does E (readTest_main K junk) s
    [line K ''Terminal Read Test starts'', write_req (WRITETERMINAL K) ''Enter a string: '' [],
     Syscall (READTERMINAL K) (Room 15) 0 0] (Undefined s')"
proof -
  have "wp E (readTest_main K junk) s (\<lambda>tr e. tr =
    [line K ''Terminal Read Test starts'', write_req (WRITETERMINAL K) ''Enter a string: '' [],
     Syscall (READTERMINAL K) (Room 15) 0 0] \<and> (\<exists>s'. e = Undefined s'))"
    unfolding readTest_main_def
  proof (intro wp_line [OF assms(1)] wp_lit [OF assms(1)] wp_read [OF assms(2)], goal_cases)
    case (3 v1 s1 v2 s2 v s3)
    then show ?case
      using assms(3-5) sint_small [of "length cs"] by (simp add: fill_def set_char_def)
  qed (simp_all add: text_simps)
  then show ?thesis by (auto simp: wp_def)
qed

section \<open>\<open>todTest.c\<close>\<close>

text \<open>
  \<open>now s\<close> is the clock in state \<open>s\<close>, in microseconds since the start; a program sees its low 32 bits. A request takes at
  most \<open>d\<close>, the delay of one second at most that much longer than a second. The nucleus' system call ends the process.
\<close>

definition clocked :: "tconst \<Rightarrow> 's support \<Rightarrow> ('s \<Rightarrow> int) \<Rightarrow> int \<Rightarrow> bool" where
  "clocked K E now d \<longleftrightarrow>
     (\<forall>r s v s'. E r s = Reply v s' \<and> (\<forall>a b c. r \<noteq> Syscall (DELAY K) a b c) \<longrightarrow> now s \<le> now s' \<and> now s' \<le> now s + d)
   \<and> (\<forall>s. \<exists>v s'. E (Syscall (GET_TOD K) (Num 0) 0 0) s = Reply v s' \<and> val v = of_int (now s))
   \<and> (\<forall>s. \<exists>v s'. E (Syscall (DELAY K) (Num 1) 0 0) s = Reply v s'
        \<and> now s + sint (SECOND K) \<le> now s' \<and> now s' \<le> now s + sint (SECOND K) + d)
   \<and> kills (Syscall (GETTIME K) (Num 0) 0 0) E"


lemma clocked_step:
  "clocked K E now d \<Longrightarrow> E r s = Reply v s' \<Longrightarrow> (\<And>a b c. r \<noteq> Syscall (DELAY K) a b c) \<Longrightarrow>
   now s \<le> now s' \<and> now s' \<le> now s + d"
  unfolding clocked_def by blast

lemma wp_tod:
  assumes "clocked K E now d" "GET_TOD K \<noteq> DELAY K"
    and "\<And>s'. now s \<le> now s' \<Longrightarrow> now s' \<le> now s + d \<Longrightarrow>
      wp E (f (of_int (now s))) s' (\<lambda>tr. Q (Syscall (GET_TOD K) (Num 0) 0 0 # tr))"
  shows "wp E (bnd (get_tod K) f) s Q"
proof -
  obtain v s' where "E (Syscall (GET_TOD K) (Num 0) 0 0) s = Reply v s'" "val v = of_int (now s)"
    using assms(1) unfolding clocked_def by blast
  with clocked_step [OF assms(1) this(1)] assms(2,3) show ?thesis
    by (auto simp: get_tod_def syscall_ret_def intro!: wp_reply)
qed

lemma wp_delay:
  assumes "clocked K E now d"
    and "\<And>s'. now s + sint (SECOND K) \<le> now s' \<Longrightarrow> now s' \<le> now s + sint (SECOND K) + d \<Longrightarrow>
      wp E (f ()) s' (\<lambda>tr. Q (Syscall (DELAY K) (Num 1) 0 0 # tr))"
  shows "wp E (bnd (do_ask (Syscall (DELAY K) (Num 1) 0 0)) f) s Q"
proof -
  obtain v s' where "E (Syscall (DELAY K) (Num 1) 0 0) s = Reply v s'"
    "now s + sint (SECOND K) \<le> now s'" "now s' \<le> now s + sint (SECOND K) + d"
    using assms(1) unfolding clocked_def by blast
  with assms(2) show ?thesis by (auto simp: do_ask_def intro!: wp_reply)
qed

lemma wp_time_line:
  assumes "writes (WRITETERMINAL K) E view" "clocked K E now d" "WRITETERMINAL K \<noteq> DELAY K" "writable (t @ newline)"
    and "\<And>s'. now s \<le> now s' \<Longrightarrow> now s' \<le> now s + d \<Longrightarrow> wp E (f ()) s' (\<lambda>tr. Q (line K t # tr))"
  shows "wp E (bnd (put_line K t) f) s Q"
proof (rule wp_line [OF assms(1,4)])
  fix v s'
  assume "E (line K t) s = Reply v s'"
  from clocked_step [OF assms(2) this] have "now s \<le> now s' \<and> now s' \<le> now s + d"
    using assms(3) by (simp add: line_def write_req_def)
  then show "wp E (f ()) s' (\<lambda>tr. Q (line K t # tr))" using assms(5) by simp
qed

lemma sint_of_int_range: "- (2 ^ 31) \<le> x \<Longrightarrow> x < 2 ^ 31 \<Longrightarrow> sint (of_int x :: word32) = x"
  by (simp add: signed_of_int signed_take_bit_int_eq_self)

lemma sint_later:
  assumes "0 \<le> e" "sint (of_int x :: word32) + e < 2 ^ 31"
  shows "sint (of_int (x + e) :: word32) = sint (of_int x :: word32) + e"
proof -
  have "of_int (x + e) = (of_int (sint (of_int x :: word32) + e) :: word32)" by simp
  moreover have "- (2 ^ 31) \<le> sint (of_int x :: word32) + e" using assms(1) sint_ge [of "of_int x :: word32"] by simp
  ultimately show ?thesis using assms(2) sint_of_int_range by metis
qed

lemma sint_ordered:
  assumes "x \<le> y" "y \<le> x + e" "sint (of_int x :: word32) + e < 2 ^ 31"
  shows "sint (of_int x :: word32) \<le> sint (of_int y :: word32)"
  using sint_later [of "y - x" x] assms by simp

text \<open>
  C14. On a clock that goes forward, with requests that take at most d microseconds, todTest.c reports that
  time increases and that the delay lasted a second, and is ended by the nucleus' system call; provided that
  neither the clock, read as a signed 32-bit number, nor the delay passes 2^31.
\<close>

theorem todTest_succeeds:
  assumes "writes (WRITETERMINAL K) E view" "clocked K E now d"
    and "GET_TOD K \<noteq> DELAY K" "WRITETERMINAL K \<noteq> DELAY K"
    and "sint (of_int (now s) :: word32) + 3 * d < 2 ^ 31" "sint (SECOND K) + 3 * d < 2 ^ 31"
  shows "ends E (todTest_main K) s
    [Syscall (GET_TOD K) (Num 0) 0 0, line K ''todTest starts'',
     Syscall (GET_TOD K) (Num 0) 0 0, Syscall (GET_TOD K) (Num 0) 0 0,
     line K ''todTest ok: time increasing'', Syscall (DELAY K) (Num 1) 0 0, Syscall (GET_TOD K) (Num 0) 0 0,
     line K ''todTest ok: one second delay'', line K ''todTest completed'', Syscall (GETTIME K) (Num 0) 0 0]"
  unfolding todTest_main_def
proof (rule endsI, intro wp_tod [OF assms(2,3)] wp_time_line [OF assms(1,2,4)], goal_cases)
  case (2 s1 s2 s3 s4)
  note before = 2
  have "sint (of_int (now s2) :: word32) = sint (of_int (now s) :: word32) + (now s2 - now s)"
    using sint_later [of "now s2 - now s" "now s"] 2 assms(5) by simp
  then have "sint (of_int (now s2) :: word32) \<le> sint (of_int (now s3) :: word32)"
    using 2 assms(5) by (intro sint_ordered [of _ _ d]) simp_all
  then have ok: "\<not> sint (of_int (now s3) :: word32) < sint (of_int (now s2) :: word32)" by simp
  show ?case
    unfolding if_not_P [OF ok]
  proof (intro wp_time_line [OF assms(1,2,4)] wp_delay [OF assms(2)] wp_tod [OF assms(2,3)], goal_cases)
    case (2 s5 s6 s7)
    have d: "sint (SECOND K) \<le> now s6 - now s3" "now s6 - now s3 \<le> sint (SECOND K) + 3 * d"
      using 2 before by simp_all
    have "sint (of_int (now s6) - of_int (now s3) :: word32) = now s6 - now s3"
      using sint_of_int_range [of "now s6 - now s3"] d assms(6) sint_ge [of "SECOND K"] by simp
    with d have late: "\<not> sint (of_int (now s6) - of_int (now s3) :: word32) < sint (SECOND K)" by simp
    then show ?case
      unfolding block.simps if_not_P [OF late]
      using assms(2) by (intro wp_time_line [OF assms(1,2,4)] wp_kills) (auto simp: text_simps clocked_def)
  qed (simp add: text_simps)
qed (simp add: text_simps)

end
