(* ===== verification/P3_Disk.thy ===== *)
theory P3_Disk
  imports P3_Properties
begin

text \<open>
  \<open>swapTest.c\<close> and \<open>diskTest.c\<close>: the programs that use more pages than there are frames, and the disk.
\<close>

section \<open>Paged memory\<close>

definition page :: "tconst \<Rightarrow> nat \<Rightarrow> memaddr" where "page K i = SEG2 K + of_nat i * PAGESIZE"

text \<open>
  What the support level promises of the 32 pages of segment 2, looked at through their first words
  (\<open>mem s a\<close> is the word at address \<open>a\<close>): a load gives what was stored last. \<open>rest\<close> is what else is known of the state.
\<close>

definition paged :: "tconst \<Rightarrow> 's support \<Rightarrow> ('s \<Rightarrow> memaddr \<Rightarrow> word32) \<Rightarrow> ('s \<Rightarrow> 'r) \<Rightarrow> bool" where
  "paged K E mem rest \<longleftrightarrow>
     (\<forall>s w. \<forall>i < 32. \<exists>v s'. E (Store_int (page K i) w) s = Reply v s' \<and> mem s' = (mem s)(page K i := w) \<and> rest s' = rest s)
   \<and> (\<forall>s. \<forall>i < 32. \<exists>v s'. E (Load_int (page K i)) s = Reply v s' \<and> val v = mem s (page K i) \<and> mem s' = mem s \<and> rest s' = rest s)"

lemma page_eq_iff:
  assumes "i < 2 ^ 20" "j < 2 ^ 20"
  shows "page K i = page K j \<longleftrightarrow> i = j"
proof -
  have "unat (of_nat i * PAGESIZE) = i * 4096" if "i < 2 ^ 20" for i
    using that by (simp add: PAGESIZE_def unat_word_ariths unat_of_nat)
  then show ?thesis using assms unfolding page_def by (metis add_left_cancel mult_cancel_right zero_neq_numeral)
qed

lemma wp_store:
  assumes "paged K E mem rest" "i < 32"
    and "\<And>s'. mem s' = (mem s)(page K i := w) \<Longrightarrow> rest s' = rest s \<Longrightarrow>
      wp E (f ()) s' (\<lambda>tr. Q (Store_int (page K i) w # tr))"
  shows "wp E (bnd (do_ask (Store_int (page K i) w)) f) s Q"
proof -
  obtain v s' where "E (Store_int (page K i) w) s = Reply v s'" "mem s' = (mem s)(page K i := w)" "rest s' = rest s"
    using assms(1,2) unfolding paged_def by blast
  with assms(3) show ?thesis by (auto simp: do_ask_def intro!: wp_reply)
qed

lemma wp_load:
  assumes "paged K E mem rest" "i < 32"
    and "\<And>s'. mem s' = mem s \<Longrightarrow> rest s' = rest s \<Longrightarrow>
      wp E (f (mem s (page K i))) s' (\<lambda>tr. Q (Load_int (page K i) # tr))"
  shows "wp E (bnd (load_int (page K i)) f) s Q"
proof -
  obtain v s' where "E (Load_int (page K i)) s = Reply v s'" "val v = mem s (page K i)" "mem s' = mem s" "rest s' = rest s"
    using assms(1,2) unfolding paged_def by blast
  with assms(3) show ?thesis by (auto simp: load_int_def intro!: wp_reply)
qed

section \<open>\<open>swapTest.c\<close>\<close>

lemma small_less: "k < 30 \<Longrightarrow> of_nat k < (30 :: word32)"
  by (simp add: word_less_nat_alt unat_of_nat)

lemma swap_writes:
  assumes "paged K E mem rest"
  shows "wp E (dowhile (swap_write K) 20) s (\<lambda>tr e. tr = map (\<lambda>i. Store_int (page K i) (of_nat i)) [20..<30]
    \<and> (\<exists>s'. e = Finished () s' \<and> (\<forall>j \<in> {20..<30}. mem s' (page K j) = of_nat j)))"
proof (rule wp_count [where I = "\<lambda>k x s. x = of_nat k \<and> 20 \<le> k \<and> (\<forall>j \<in> {20..<k}. mem s (page K j) = of_nat j)"])
  fix k and x :: word32 and s
  assume k: "k < 30" and I: "x = of_nat k \<and> 20 \<le> k \<and> (\<forall>j \<in> {20..<k}. mem s (page K j) = of_nat j)"
  then have step: "swap_write K x = bnd (do_ask (Store_int (page K k) (of_nat k))) (\<lambda>_. Ret (Inl (of_nat (Suc k))))"
    by (simp add: swap_write_def small_less page_def add.commute)
  show "wp E (swap_write K x) s (\<lambda>tr e. tr = [Store_int (page K k) (of_nat k)] \<and> (\<exists>x' s'. e = Finished (Inl x') s'
      \<and> x' = of_nat (Suc k) \<and> 20 \<le> Suc k \<and> (\<forall>j \<in> {20..<Suc k}. mem s' (page K j) = of_nat j)))"
    unfolding step using k I by (intro wp_store [OF assms]) (auto simp: page_eq_iff less_Suc_eq)
qed (simp_all add: swap_write_def)

lemma swap_checks:
  assumes "paged K E mem rest" and "\<forall>j \<in> {20..<30}. mem s (page K j) = of_nat j"
  shows "wp E (dowhile (swap_check K) 20) s (\<lambda>tr e. tr = map (\<lambda>i. Load_int (page K i)) [20..<30]
    \<and> (\<exists>s'. e = Finished False s' \<and> True))"
proof (rule wp_count [where I = "\<lambda>k x s. x = of_nat k \<and> 20 \<le> k \<and> (\<forall>j \<in> {20..<30}. mem s (page K j) = of_nat j)"])
  fix k and x :: word32 and s
  assume k: "k < 30" and I: "x = of_nat k \<and> 20 \<le> k \<and> (\<forall>j \<in> {20..<30}. mem s (page K j) = of_nat j)"
  then show "wp E (swap_check K x) s (\<lambda>tr e. tr = [Load_int (page K k)] \<and> (\<exists>x' s'. e = Finished (Inl x') s'
      \<and> x' = of_nat (Suc k) \<and> 20 \<le> Suc k \<and> (\<forall>j \<in> {20..<30}. mem s' (page K j) = of_nat j)))"
    by (auto simp: swap_check_def small_less simp flip: page_def intro!: wp_load [OF assms(1)])
qed (use assms(2) in \<open>simp_all add: swap_check_def\<close>)

text \<open>
  C13. On a support level whose paged memory works, swapTest.c writes the first words of pages 20 to 29 of segment 2,
  reads all of them back unchanged, reports that the data survived, and is ended by its access to the
  segment of the operating system.
\<close>

theorem swapTest_succeeds:
  assumes "writes (WRITETERMINAL K) E mem" "paged K E mem rest" "kills (Load_char 0x20000000) E"
  shows "ends E (swapTest_main K) s
    ([line K ''swapTest starts'']
     @ map (\<lambda>i. Store_int (page K i) (of_nat i)) [20..<30]
     @ [line K ''swapTest ok: wrote to pages of seg kUseg2'']
     @ map (\<lambda>i. Load_int (page K i)) [20..<30]
     @ [line K ''swapTest ok: data survived swapper'', Load_char 0x20000000])"
  unfolding swapTest_main_def
proof (rule endsI, intro wp_line [OF assms(1)] wp_after [OF swap_writes [OF assms(2)]], goal_cases)
  case (3 v1 s1 s2 v3 s3)
  then have kept: "\<forall>j \<in> {20..<30}. mem s3 (page K j) = of_nat j" by simp
  show ?case
    unfolding block.simps
    by (rule wp_after [OF swap_checks [OF assms(2) kept]], unfold not_False_eq_True if_True)
      (intro wp_line [OF assms(1)] wp_kills [OF assms(3)]; simp add: text_simps)
qed (simp_all add: text_simps)

section \<open>\<open>diskTest.c\<close>\<close>

text \<open>
  What the support level promises of disk 1 with \<open>cap\<close> sectors (\<open>disk s i\<close> is the first word of sector \<open>i\<close>): what was put is what is
  got, and a sector beyond the capacity gives an error status.
\<close>

definition put_req :: "tconst \<Rightarrow> nat \<Rightarrow> nat \<Rightarrow> request" where
  "put_req K p i = Syscall (DISK_PUT K) (Num (page K p)) 1 (of_nat i)"

definition get_req :: "tconst \<Rightarrow> nat \<Rightarrow> nat \<Rightarrow> request" where
  "get_req K p i = Syscall (DISK_GET K) (Num (page K p)) 1 (of_nat i)"

definition disk_works :: "tconst \<Rightarrow> 's support \<Rightarrow> ('s \<Rightarrow> memaddr \<Rightarrow> word32) \<Rightarrow> ('s \<Rightarrow> nat \<Rightarrow> word32) \<Rightarrow> nat \<Rightarrow> bool" where
  "disk_works K E mem disk cap \<longleftrightarrow>
     (\<forall>s. \<forall>p < 32. \<forall>i < cap. \<exists>v s'. E (put_req K p i) s = Reply v s' \<and> val v = READY
        \<and> mem s' = mem s \<and> disk s' = (disk s)(i := mem s (page K p)))
   \<and> (\<forall>s. \<forall>p < 32. \<forall>i < cap. \<exists>v s'. E (get_req K p i) s = Reply v s' \<and> val v = READY
        \<and> mem s' = (mem s)(page K p := disk s i) \<and> disk s' = disk s)
   \<and> (\<forall>s. \<forall>p < 32. \<forall>i. cap \<le> i \<and> i \<le> 1000000 \<longrightarrow> (\<exists>v s'. E (get_req K p i) s = Reply v s' \<and> val v \<noteq> READY))"

lemma wp_put:
  assumes "disk_works K E mem disk cap" "i < cap"
    and "\<And>s'. mem s' = mem s \<Longrightarrow> disk s' = (disk s)(i := mem s (page K 20)) \<Longrightarrow>
      wp E (f READY) s' (\<lambda>tr. Q (put_req K 20 i # tr))"
  shows "wp E (bnd (disk_put K (page K 20) (of_nat i)) f) s Q"
proof -
  obtain v s' where "E (put_req K 20 i) s = Reply v s'" "val v = READY" "mem s' = mem s"
    "disk s' = (disk s)(i := mem s (page K 20))"
    using assms(1,2) unfolding disk_works_def by (elim conjE allE [of _ s] allE [of _ 20] allE [of _ i]) auto
  with assms(3) show ?thesis by (auto simp: disk_put_def syscall_ret_def put_req_def intro!: wp_reply)
qed

lemma wp_get:
  assumes "disk_works K E mem disk cap" "i < cap"
    and "\<And>s'. mem s' = (mem s)(page K 20 := disk s i) \<Longrightarrow> disk s' = disk s \<Longrightarrow>
      wp E (f READY) s' (\<lambda>tr. Q (get_req K 20 i # tr))"
  shows "wp E (bnd (disk_get K (page K 20) (of_nat i)) f) s Q"
proof -
  obtain v s' where "E (get_req K 20 i) s = Reply v s'" "val v = READY" "mem s' = (mem s)(page K 20 := disk s i)"
    "disk s' = disk s"
    using assms(1,2) unfolding disk_works_def by (elim conjE allE [of _ s] allE [of _ 20] allE [of _ i]) auto
  with assms(3) show ?thesis by (auto simp: disk_get_def syscall_ret_def get_req_def intro!: wp_reply)
qed

lemma wp_line_if:
  assumes "writes (WRITETERMINAL K) E view" and "writable (t @ newline)" "writable (u @ newline)"
    and "\<And>v s'. E (line K (if b then t else u)) s = Reply v s' \<Longrightarrow> view s' = view s \<Longrightarrow>
      wp E (f ()) s' (\<lambda>tr. Q (line K (if b then t else u) # tr))"
  shows "wp E (bnd (if b then put_line K t else put_line K u) f) s Q"
  using assms(2-4) by (cases b) (auto intro!: wp_line [OF assms(1)])

text \<open>The search for the end of the disk: it stops at the first bad sector, or after a million sectors.\<close>

lemma wp_get_status:
  assumes "disk_works K E mem disk cap" "i \<le> 1000000"
    and "\<And>v s'. (v = READY) = (i < cap) \<Longrightarrow> wp E (f v) s' (\<lambda>tr. Q (get_req K 20 i # tr))"
  shows "wp E (bnd (disk_get K (page K 20) (of_nat i)) f) s Q"
proof -
  obtain v s' where "E (get_req K 20 i) s = Reply v s'" "(val v = READY) = (i < cap)"
  proof (cases "i < cap")
    case True
    then show ?thesis
      using assms(1) that unfolding disk_works_def by (elim conjE allE [of _ s] allE [of _ 20] allE [of _ i]) auto
  next
    case False
    then have "\<exists>v s'. E (get_req K 20 i) s = Reply v s' \<and> val v \<noteq> READY"
      using assms(1,2) unfolding disk_works_def by (simp only: not_less simp_thms)
    with False that show ?thesis by blast
  qed
  with assms(3) show ?thesis by (auto simp: disk_get_def syscall_ret_def get_req_def intro!: wp_reply)
qed

lemma capacity_run:
  assumes "disk_works K E mem disk cap" "0 < cap"
  shows "wp E (dowhile (capacity_loop K (page K 20)) (0, READY)) s
    (\<lambda>tr e. tr = map (\<lambda>i. get_req K 20 (i + 1)) [0..<min cap (1000000)]
       \<and> (\<exists>s'. e = Finished (of_nat (min cap (1000000))) s' \<and> True))"
proof (rule wp_count [where I = "\<lambda>k x s. fst x = of_nat k \<and> (snd x = READY) = (k < cap)"])
  fix k and x :: "word32 \<times> word32" and s
  assume k: "k < min cap (1000000)" and I: "fst x = of_nat k \<and> (snd x = READY) = (k < cap)"
  then have "capacity_loop K (page K 20) x =
      bnd (disk_get K (page K 20) (of_nat (k + 1))) (\<lambda>ds. Ret (Inl (of_nat (k + 1), ds)))"
    by (cases x) (simp add: capacity_loop_def MILLION_def sint_small add.commute)
  then show "wp E (capacity_loop K (page K 20) x) s (\<lambda>tr e. tr = [get_req K 20 (k + 1)] \<and>
      (\<exists>x' s'. e = Finished (Inl x') s' \<and> fst x' = of_nat (Suc k) \<and> (snd x' = READY) = (Suc k < cap)))"
    using k by (simp only:) (rule wp_get_status [OF assms(1)], auto)
next
  fix x :: "word32 \<times> word32" and s :: 'a
  let ?n = "min cap (1000000)"
  assume "fst x = of_nat ?n \<and> (snd x = READY) = (?n < cap)"
  moreover have "?n < cap \<Longrightarrow> ?n = 1000000" by simp
  ultimately show "wp E (capacity_loop K (page K 20) x) s (\<lambda>tr e. tr = [] \<and> (\<exists>s'. e = Finished (Inr (of_nat ?n)) s' \<and> True))"
    by (cases x) (auto simp: capacity_loop_def MILLION_def)
qed (use assms(2) in auto)

text \<open>
  C12. On a disk of cap sectors, at least 24 of them (the test uses sectors 3 and 23), diskTest.c gets back what it
  put into the two sectors and then reads the sectors 0, 1, 2, ... up to and including number min cap 1000000: the
  first one beyond the capacity, or number 1000000 if there are more. It reports the capacity as detected exactly
  when cap is less than 1000000 (with cap = 1000000 the last sector read is the first bad one, and the
  report is still that it is undetected), and it is ended by the read into segment 1.
\<close>

theorem diskTest_succeeds:
  assumes "writes (WRITETERMINAL K) E (\<lambda>s. (mem s, disk s))" "paged K E mem disk"
    and "disk_works K E mem disk cap" "24 \<le> cap"
    and "kills (Syscall (DISK_GET K) (Num (SEG1 K)) 1 3) E"
  shows "ends E (diskTest_main K) s
    ([line K ''diskTest starts'',
      Store_int (page K 20) 42, put_req K 20 3, line K ''diskTest ok: disk i/o result'',
      Store_int (page K 20) 100, put_req K 20 23,
      get_req K 20 3, Load_int (page K 20), line K ''diskTest ok: first disk sector readback'',
      get_req K 20 23, Load_int (page K 20), line K ''diskTest ok: second disk sector readback'']
     @ map (get_req K 20) [0..<Suc (min cap (1000000))]
     @ [line K (if cap < 1000000 then ''diskTest ok: device capacity detection''
                else ''diskTest error: device capacity undetected''),
        line K ''diskTest: completed'', Syscall (DISK_GET K) (Num (SEG1 K)) 1 3])"
proof -
  let ?p = "page K 20"
  have p: "SEG2 K + 20 * PAGESIZE = ?p" by (simp add: page_def)
  have sectors: "3 < cap" "23 < cap" "0 < cap" using assms(4) by simp_all
  let ?n = "min cap 1000000"
  have n: "sint (of_nat ?n :: word32) < sint MILLION \<longleftrightarrow> cap < 1000000"
    by (simp add: sint_small MILLION_def min_less_iff_disj)
  note rules = wp_line [OF assms(1)] wp_store [OF assms(2), of 20, simplified]
    wp_load [OF assms(2), of 20, simplified]
    wp_put [OF assms(3) sectors(1), simplified] wp_put [OF assms(3) sectors(2), simplified]
    wp_get [OF assms(3) sectors(1), simplified] wp_get [OF assms(3) sectors(2), simplified]
    wp_get [OF assms(3) sectors(3), simplified]
  show ?thesis
    unfolding diskTest_main_def p Let_def
  proof (rule endsI, intro rules, goal_cases)
    case (2 v1 s1 s2 s3)
    note first = this
    show ?case
    proof (simp only: simp_thms if_False, intro rules, goal_cases)
      case (2 v4 s4 s5 s6 s7 s8)
      with first have x: "mem s7 ?p = 42" and y: "disk s8 23 = 100" by simp_all
      show ?case
      proof (simp only: x simp_thms if_False, intro rules, goal_cases)
        case (2 v9 s9 s10 s11)
        with y have z: "mem s10 ?p = 100" by simp
        show ?case
        proof (simp only: z simp_thms if_False, intro rules, goal_cases)
          case (2 v12 s12 s13)
          have t: "map (get_req K 20) [0..<Suc ?n] = get_req K 20 0 # map (\<lambda>i. get_req K 20 (i + 1)) [0..<?n]"
            by (simp add: map_upt_Suc del: upt_Suc)
          show ?case
          proof (rule wp_after [OF capacity_run [OF assms(3) sectors(3)]], unfold block.simps n, rule wp_line_if [OF assms(1)],
              goal_cases)
            case (3 s14 v15 s15)
            show ?case
              by (intro wp_line [OF assms(1)] wp_kills [OF assms(5)]) (simp_all add: text_simps t del: upt_Suc)
          qed (simp_all add: text_simps)
        qed (simp add: text_simps)
      qed (simp add: text_simps)
    qed (simp add: text_simps)
  qed (simp add: text_simps)
qed

end
