(* ===== verification/P3_Example.thy ===== *)
theory P3_Example
  imports P3_Sync P3_Disk
begin

text \<open>
  A support level that keeps all the promises at once, small enough to be computed with: the
  hypotheses of the theorems about the programs of phase 3 can be met. The numbers of the system
  calls are those by which \<open>test.c\<close> dispatches them.
\<close>

definition ex_K :: tconst where
  "ex_K = \<lparr>TERMINATE = 18, READTERMINAL = 9, WRITETERMINAL = 10, VSEMVIRT = 11, PSEMVIRT = 12, DELAY = 13,
     DISK_PUT = 14, DISK_GET = 15, WRITEPRINTER = 16, GET_TOD = 17, GETTIME = 6, SECOND = 1000000,
     SEG1 = 0x40000000, SEG2 = 0x80000000, SEG3 = 0xC0000000\<rparr>"

record ex_state =
  ex_mem :: "memaddr \<Rightarrow> word32"
  ex_disk :: "nat \<Rightarrow> word32"
  ex_clock :: int
  ex_credits :: "memaddr \<Rightarrow> nat"
  ex_buf :: char

text \<open>Every answer takes a microsecond. The disk has 100 sectors; \<open>cs\<close> is typed at the terminal.\<close>

definition ex_reply :: "word32 \<Rightarrow> ex_state \<Rightarrow> ex_state answer" where
  "ex_reply v s = Reply \<lparr>val = v, chars = []\<rparr> (s\<lparr>ex_clock := ex_clock s + 1\<rparr>)"

fun ex_support :: "string \<Rightarrow> ex_state support" where
  "ex_support cs (Syscall n (Num a) b c) s =
     (if n = 17 then ex_reply (of_int (ex_clock s)) s
      else if n = 13 then ex_reply 0 (s\<lparr>ex_clock := ex_clock s + 1000000 * uint a\<rparr>)
      else if n = 14 then
        (if unat c < 100 then ex_reply READY (s\<lparr>ex_disk := (ex_disk s)(unat c := ex_mem s a)\<rparr>) else ex_reply 2 s)
      else if n = 15 \<and> a \<noteq> 0x40000000 then
        (if unat c < 100 then ex_reply READY (s\<lparr>ex_mem := (ex_mem s)(a := ex_disk s (unat c))\<rparr>) else ex_reply 2 s)
      else if n = 12 then
        (if ex_credits s a = 0 then Wait
         else ex_reply 0 (s\<lparr>ex_credits := (ex_credits s)(a := ex_credits s a - 1)\<rparr>))
      else if n = 11 then ex_reply 0 (s\<lparr>ex_credits := (ex_credits s)(a := ex_credits s a + 1)\<rparr>)
      else Kill s)"
| "ex_support cs (Syscall n (Text t) b c) s = (if n = 10 \<or> n = 16 then ex_reply 1 s else Kill s)"
| "ex_support cs (Syscall n (Room k) b c) s =
     Reply \<lparr>val = of_nat (length cs), chars = cs\<rparr> (s\<lparr>ex_clock := ex_clock s + 1\<rparr>)"
| "ex_support cs (Syscall n (Private v) b c) s = Kill s"
| "ex_support cs (Load_int a) s = ex_reply (ex_mem s a) s"
| "ex_support cs (Store_int a w) s = ex_reply 0
     (s\<lparr>ex_mem := (ex_mem s)(a := w), ex_credits := (ex_credits s)(a := unat w)\<rparr>)"
| "ex_support cs (Load_char a) s = (if a = 0x20000000 then Kill s else ex_reply (of_nat (of_char (ex_buf s))) s)"
| "ex_support cs (Store_char a c) s = ex_reply 0 (s\<lparr>ex_buf := c\<rparr>)"
| "ex_support cs r s = Kill s"

definition ex_s :: ex_state where
  "ex_s = \<lparr>ex_mem = (\<lambda>_. 0), ex_disk = (\<lambda>_. 0), ex_clock = 0, ex_credits = (\<lambda>_. 0), ex_buf = EOS\<rparr>"

lemma ex_K_simps [simp]:
  "TERMINATE ex_K = 18" "READTERMINAL ex_K = 9" "WRITETERMINAL ex_K = 10" "VSEMVIRT ex_K = 11" "PSEMVIRT ex_K = 12"
  "DELAY ex_K = 13" "DISK_PUT ex_K = 14" "DISK_GET ex_K = 15" "WRITEPRINTER ex_K = 16" "GET_TOD ex_K = 17"
  "GETTIME ex_K = 6" "SECOND ex_K = 1000000" "SEG1 ex_K = 0x40000000" "SEG2 ex_K = 0x80000000" "SEG3 ex_K = 0xC0000000"
  by (simp_all add: ex_K_def)

lemma ex_writes:
  "d = 10 \<or> d = 16 \<Longrightarrow> (\<And>s. view (s\<lparr>ex_clock := ex_clock s + 1\<rparr>) = view s) \<Longrightarrow> writes d (ex_support cs) view"
  by (auto simp: writes_def write_req_def ex_reply_def)

lemma ex_kills:
  "kills (terminate_req ex_K) (ex_support cs)" "kills (Load_char 0x20000000) (ex_support cs)"
  "kills (Syscall (GETTIME ex_K) (Num 0) 0 0) (ex_support cs)"
  "kills (Syscall (DISK_GET ex_K) (Num (SEG1 ex_K)) 1 3) (ex_support cs)"
  by (simp_all add: kills_def terminate_req_def)

lemma ex_typed: "typed ex_K (ex_support cs) cs"
  by (simp add: typed_def)

lemma ex_reply_iff: "ex_reply w s = Reply v s' \<longleftrightarrow> v = \<lparr>val = w, chars = []\<rparr> \<and> s' = s\<lparr>ex_clock := ex_clock s + 1\<rparr>"
  by (auto simp: ex_reply_def)

lemma ex_clocked: "clocked ex_K (ex_support cs) ex_clock 1"
proof -
  have "ex_clock s \<le> ex_clock s' \<and> ex_clock s' \<le> ex_clock s + 1"
    if "ex_support cs r s = Reply v s'" "\<forall>a b c. r \<noteq> Syscall (DELAY ex_K) a b c" for r s v s'
    using that by (cases "(cs, r, s)" rule: ex_support.cases) (auto simp: ex_reply_iff split: if_splits)
  then show ?thesis using ex_kills(3) by (auto simp: clocked_def ex_reply_def)
qed

lemma ex_page: "page ex_K p = 0x80000000 + of_nat p * 4096"
  by (simp add: page_def PAGESIZE_def)

lemma ex_paged: "paged ex_K (ex_support cs) ex_mem ex_disk"
  by (simp add: paged_def ex_reply_def)

lemma ex_page_other:
  assumes "p < 32"
  shows "page ex_K p \<noteq> 0x40000000"
proof -
  have "unat (of_nat p * 4096 :: word32) = p * 4096"
    using assms by (simp add: unat_word_ariths unat_of_nat)
  then have "unat (page ex_K p) = 0x80000000 + p * 4096"
    using assms by (simp add: ex_page unat_word_ariths)
  then show ?thesis by auto
qed

lemma ex_disk_works: "disk_works ex_K (ex_support cs) ex_mem ex_disk 100"
proof -
  have "unat (of_nat i :: word32) = i" if "i \<le> 1000000" for i using that by (simp add: unat_of_nat take_bit_nat_eq_self)
  then show ?thesis
    by (auto simp: disk_works_def put_req_def get_req_def ex_reply_def ex_page_other READY_def)
qed

lemma ex_char: "char_of (unat (of_nat (of_char c) :: word32)) = c"
proof -
  have "(of_char c :: nat) < 2 ^ 32" by (rule less_trans [of _ 256]) simp_all
  then have "unat (of_nat (of_char c) :: word32) = of_char c" using of_nat_inverse [of "of_char c" "of_nat (of_char c) :: word32"] by simp
  then show ?thesis by simp
qed

lemma ex_pv_works: "pv_works ex_K (\<lambda>_. ex_support []) ex_credits ex_buf"
  by (auto simp: pv_works_def ex_writes req_defs terminate_req_def sems_def hold_def empty_def full_def charbuff_def
      ex_reply_def ex_char)

section \<open>The promises kept\<close>

theorem fibTest_succeeds_witness:
  "ends (ex_support []) (fibTest_main ex_K) ex_s
    [line ex_K ''Recursive Fibanaci Test starts'', line ex_K ''Recursion Concluded'',
     line ex_K ''Recursion Concluded Successfully'', terminate_req ex_K]"
  by (rule fibTest_succeeds [where view = ex_mem]) (simp_all add: ex_writes ex_kills)

theorem readTest_echoes_witness:
  "ends (ex_support ''hello'') (readTest_main ex_K (replicate 15 (CHR ''?''))) ex_s
    [line ex_K ''Terminal Read Test starts'', write_req (WRITETERMINAL ex_K) ''Enter a string: '' [],
     Syscall (READTERMINAL ex_K) (Room 15) 0 0, line ex_K [],
     write_req (WRITETERMINAL ex_K) ''hello'' (replicate 9 (CHR ''?'')),
     line ex_K (newline @ newline @ ''Terminal Read concluded''), terminate_req ex_K]"
  using readTest_echoes [of ex_K "ex_support ''hello''" ex_mem "''hello''" "replicate 15 (CHR ''?'')" ex_s]
  by (simp add: ex_writes ex_kills ex_typed EOS_def)

theorem readTest_overflows_witness:
  "\<exists>s'. does (ex_support ''a line too long'') (readTest_main ex_K (replicate 15 (CHR ''?''))) ex_s
    [line ex_K ''Terminal Read Test starts'', write_req (WRITETERMINAL ex_K) ''Enter a string: '' [],
     Syscall (READTERMINAL ex_K) (Room 15) 0 0] (Undefined s')"
  by (rule readTest_overflows [where view = ex_mem and cs = "''a line too long''"])
    (simp_all add: ex_writes ex_typed)

theorem todTest_succeeds_witness:
  "ends (ex_support []) (todTest_main ex_K) ex_s
    [Syscall (GET_TOD ex_K) (Num 0) 0 0, line ex_K ''todTest starts'',
     Syscall (GET_TOD ex_K) (Num 0) 0 0, Syscall (GET_TOD ex_K) (Num 0) 0 0,
     line ex_K ''todTest ok: time increasing'', Syscall (DELAY ex_K) (Num 1) 0 0, Syscall (GET_TOD ex_K) (Num 0) 0 0,
     line ex_K ''todTest ok: one second delay'', line ex_K ''todTest completed'', Syscall (GETTIME ex_K) (Num 0) 0 0]"
  by (rule todTest_succeeds [OF ex_writes [where view = ex_mem] ex_clocked]) (simp_all add: ex_s_def)

theorem swapTest_succeeds_witness:
  "ends (ex_support []) (swapTest_main ex_K) ex_s
    ([line ex_K ''swapTest starts'']
     @ map (\<lambda>i. Store_int (page ex_K i) (of_nat i)) [20..<30]
     @ [line ex_K ''swapTest ok: wrote to pages of seg kUseg2'']
     @ map (\<lambda>i. Load_int (page ex_K i)) [20..<30]
     @ [line ex_K ''swapTest ok: data survived swapper'', Load_char 0x20000000])"
  by (rule swapTest_succeeds [OF ex_writes ex_paged ex_kills(2)]) simp_all

theorem diskTest_succeeds_witness:
  "ends (ex_support []) (diskTest_main ex_K) ex_s
    ([line ex_K ''diskTest starts'',
      Store_int (page ex_K 20) 42, put_req ex_K 20 3, line ex_K ''diskTest ok: disk i/o result'',
      Store_int (page ex_K 20) 100, put_req ex_K 20 23,
      get_req ex_K 20 3, Load_int (page ex_K 20), line ex_K ''diskTest ok: first disk sector readback'',
      get_req ex_K 20 23, Load_int (page ex_K 20), line ex_K ''diskTest ok: second disk sector readback'']
     @ map (get_req ex_K 20) [0..<101]
     @ [line ex_K ''diskTest ok: device capacity detection'', line ex_K ''diskTest: completed'',
        Syscall (DISK_GET ex_K) (Num (SEG1 ex_K)) 1 3])"
proof -
  have "writes (WRITETERMINAL ex_K) (ex_support []) (\<lambda>s. (ex_mem s, ex_disk s))" by (simp add: ex_writes)
  from diskTest_succeeds [OF this ex_paged ex_disk_works _ ex_kills(4), of ex_s]
  show ?thesis by (simp del: upt_Suc ex_K_simps)
qed

text \<open>A device that refuses every write.\<close>

definition ex_broken :: "unit support" where
  "ex_broken r s = (if r = terminate_req ex_K then Kill s else Reply \<lparr>val = -1, chars = []\<rparr> s)"

theorem print_gives_up_witness:
  "does ex_broken (print_str ex_K 16 (''x'' @ EOS # [])) ()
     [write_req 16 ''x'' [], Syscall 16 (Text bad_status) 26 0, terminate_req ex_K] (Killed ())"
proof -
  have "ex_broken (write_req 16 ''x'' []) () = Reply \<lparr>val = -1, chars = []\<rparr> ()"
    "ex_broken (Syscall 16 (Text bad_status) 26 0) () = Reply \<lparr>val = -1, chars = []\<rparr> ()"
    "ex_broken (terminate_req ex_K) () = Kill ()"
    by (simp_all add: ex_broken_def terminate_req_def write_req_def)
  from print_gives_up [where E = ex_broken and r = "[]", OF _ this(1) _ this(2,3)] show ?thesis by (simp add: EOS_def)
qed

theorem pv_message_arrives_witness:
  "\<exists>n tr T s. mrun (\<lambda>_. ex_support []) (pv_start ex_K (replicate 40 EOS), ex_s) n tr (T, s) \<and> in_time ex_K tr \<and> T TA = None \<and> T TB = None
     \<and> write_req 10 (''virtual synch OK'' @ newline) (replicate 22 EOS) \<in> set (asked_by TA tr)"
proof -
  have fresh: "MESSIZE \<le> length (replicate 40 EOS)" by (simp add: MESSIZE_def)
  from pv_complete_run [OF ex_pv_works fresh] obtain n tr T s
    where run: "mrun (\<lambda>_. ex_support []) (pv_start ex_K (replicate 40 EOS), ex_s) n tr (T, s)" and time: "in_time ex_K tr"
      and stop: "\<forall>l c. \<not> mstep (\<lambda>_. ex_support []) (T, s) l c" by fastforce
  have "T i = None \<and> write_req 10 (''virtual synch OK'' @ newline) (replicate 22 EOS) \<in> set (asked_by TA tr)" for i
    using pv_message_arrives [OF ex_pv_works fresh run time, of i] stop by (simp add: MESSIZE_def)
  with run time show ?thesis by blast
qed

end
