(* ===== verification/Spec2Isabelle.thy ===== *)
theory Spec2Isabelle
  imports P2_Properties P1_Test_Run P3_Example
begin

text \<open>
  The Kaya nucleus (an operating system kernel for the uMPS2 machine, in C): a model of its data
  structures, its dispatcher, system calls, exception and interrupt handlers and its startup
  code, with the theorems that make them correct.

  The program. \<open>phase1/pcb.c\<close> keeps 20 process control blocks in a static table, the free list,
  the circular process queues and the family tree. \<open>phase1/asl.c\<close> keeps the active semaphore
  list: for every semaphore some process waits on, a descriptor with a process queue.
  \<open>phase2/initial.c\<close> holds the globals and starts the system, \<open>phase2/scheduler.c\<close> dispatches,
  \<open>phase2/exceptions.c\<close> implements SYS 1 to 8 and passes other exceptions up, and
  \<open>phase2/interrupts.c\<close> handles device, quantum and clock interrupts. Handlers start from the
  processor state the machine saved in an old area and end by loading a state. \<open>phase1/p1test.c\<close> and
  \<open>phase2/p2test.c\<close> are the test programs of the first two phases. The programs of \<open>phase3\<close> run in
  virtual memory, on a support level (\<open>phase3/test.c\<close>) that is unfinished.

  The theories, in import order.
  \<^item> \<open>Kaya_Prelude\<close>: machine words, the option monad with its counting loop \<open>foldM\<close>, collections,
    linked chains (\<open>dlinked\<close>, \<open>spath\<close>).
  \<^item> \<open>Kaya_Types\<close>: \<open>h/const.h\<close> and \<open>h/types.h\<close>.
  \<^item> \<open>Pcb_Queue\<close>: the queues and the free list of \<open>phase1/pcb.c\<close>. \<open>procq T tp xs\<close> says that the
    pointers in the table \<open>T\<close> form the circular queue \<open>xs\<close> with tail pointer \<open>tp\<close>. The locale
    \<open>fifo_queue\<close> is the contract of a queue; it is interpreted on process queues and on the
    free list.
  \<^item> \<open>Pcb_Tree\<close>: the family tree of \<open>phase1/pcb.c\<close>; \<open>children T p cs\<close> is the abstraction.
  \<^item> \<open>Asl\<close>: \<open>phase1/asl.c\<close>. \<open>asl_list\<close> describes the sorted list between its sentinels, and
    \<open>asl_rel s W B\<close> forgets the list: \<open>W a\<close> is the queue of semaphore \<open>a\<close>, \<open>B\<close> the blocked
    processes. The locale \<open>sem_queues\<close> is what the kernel relies on, interpreted on the code.
  \<^item> \<open>Block_Places\<close>: where each of the 20 process blocks is. \<open>pool\<close> (free list and one queue) and
    \<open>places\<close> (with the semaphores and the blocks in hand) are kept by every operation of phase 1,
    so that their users never look at a link.
  \<^item> \<open>P1_Test\<close> and \<open>P1_Test_Run\<close>: \<open>phase1/p1test.c\<close>, the terminal output it polls for and \<open>main2\<close>;
    the whole test is proved to return with its progress messages in \<open>okbuf\<close>.
  \<^item> \<open>Kernel_State\<close>: the globals of \<open>phase2/initial.c\<close>, memory and machine registers,
    \<open>stateCopy\<close>, the clock macros, and the ways a handler ends.
  \<^item> \<open>Kernel_Inv\<close>: the abstract kernel (free, ready and waiting processes as lists, the running
    process, saved states, semaphore values), its steps \<open>a_V\<close>, \<open>a_P\<close>, \<open>a_block\<close>, \<open>a_wake\<close>,
    \<open>a_dispatch\<close>, and \<open>krel s A\<close>: the concrete state \<open>s\<close> is well formed (every block in
    exactly one place, counters right, memory mapped) and represents \<open>A\<close>.
  \<^item> \<open>Scheduler\<close>, \<open>Exceptions\<close>, \<open>Interrupts\<close>, \<open>Initial\<close>: the four C files of phase 2, each
    with the lemmas that its operations run to their end and refine the abstract steps.
  \<^item> \<open>Termination\<close>: the recursion of SYS 2 over the family tree (\<open>family\<close>, a tree of process
    blocks), from whatever queue each descendant is on.
  \<^item> \<open>Nucleus_Frame\<close>: what every operation leaves alone, proved without knowing what it does: the
    family links, the saved states of other processes, the states in user memory, the idle flag
    (\<open>post Q m\<close>: if \<open>m\<close> returns, \<open>Q\<close> holds of the result).
  \<^item> \<open>Family_Tree\<close>: one tree with all processes (\<open>ptree\<close>), \<open>graft\<close> for SYS 1 and \<open>prune\<close> for SYS 2,
    and what SYS 2 leaves of the kernel and of the tree.
  \<^item> \<open>Nucleus_System\<close>, \<open>Nucleus_Steps\<close>, \<open>Nucleus_Runs\<close>: the nucleus as a transition system. An
    \<open>event\<close> is a system call, an interrupt with its bitmaps and device registers, or a store of the
    running process; \<open>handle\<close> saves the state and runs the C handler; \<open>astep\<close> is the abstract step,
    \<open>implements\<close> the simulation relation (\<open>krel\<close>, the tree, the sign of the device semaphores, the idle
    flag). Every abstract step is done by the code (\<open>simulation\<close>), and startup reaches the
    initial state. \<open>astep\<close> leaves out what the code handles without an abstract counterpart: SYS 5 and
    exceptions that are passed up (lemmas of \<open>Exceptions\<close>), SYS 1 without a free block, SYS 7 and 8 on a
    semaphore that is positive and device interrupts nobody waits for, SYS 3 and 4 on a device's semaphore, and SYS 2 by
    the first process, SYS 2 that is not \<open>orderly\<close> (it kills the second of several waiting processes)
    or leaves no process ready (\<open>currentProcess\<close> then dangles; the findings list these).
  \<^item> \<open>Nucleus_Properties\<close>: refinement, accounting, exits, liveness of ready processes for all
    states reached by events of \<open>astep\<close>, and that every pointer and counter in them is of its type and in range.
    \<open>Nucleus_Memory\<close>: which states in user memory the handlers write, in any state and for
    every exception: only the one that SYS 5 has named for an exception that is passed up.
  \<^item> \<open>P2_Machine\<close>: user processes. A C function of a process is a list of commands (\<open>ucmd\<close>); between
    two exceptions the machine executes them, at an exception it runs the handler of the nucleus.
  \<^item> \<open>P2_Test\<close>: \<open>phase2/p2test.c\<close>, every function as commands, in the order of the file.
  \<^item> \<open>P2_Steps\<close>, \<open>P2_Calls\<close>, \<open>P2_Print\<close>, \<open>P2_States\<close>, \<open>P2_Loops\<close>: a \<open>world\<close> is what is known of a
    machine; \<open>leads P w Q\<close> says that every machine of which \<open>w\<close> is true comes, in finitely many
    steps, to one of which a world in \<open>Q\<close> is true. One rule per command and system call, then for
    \<open>print\<close>, the states of the processes, and counting loops. They rest on \<open>Nucleus_Steps\<close>: no proof
    about a process looks into the kernel.
  \<^item> \<open>P2_Run\<close>: the run of the root process and \<open>p2\<close> from startup. \<open>P2_Properties\<close>: what \<open>print\<close>
    transmits, and when (\<open>paced\<close>: the process waits after each character).

  \<^item> \<open>P3_Process\<close>: programs of phase 3. A program is a tree of requests to the support level (system
    calls, loads and stores outside its own memory, instructions that trap), a codatatype, so that
    loops need not end; \<open>does\<close>
    is a run to its end on a support level, \<open>mstep\<close> and \<open>mrun\<close> interleave several programs.
  \<^item> \<open>P3_Programs\<close>: \<open>print.c\<close>, \<open>fibTest.c\<close>, \<open>printerTest.c\<close>, \<open>todTest.c\<close>, \<open>readTest.c\<close>, \<open>swapTest.c\<close>,
    \<open>diskTest.c\<close>, \<open>pvTestA.c\<close>, \<open>pvTestB.c\<close>, statement by statement.
  \<^item> \<open>P3_Runs\<close>: a calculus for runs (\<open>wp\<close>, with a rule for counting loops) and the first promises of a
    support level (\<open>writes\<close>, \<open>kills\<close>). \<open>P3_Properties\<close> and \<open>P3_Disk\<close>: the requests each program
    makes on a support level that works, and what happens on one that does not.
  \<^item> \<open>P3_Exchange\<close> and \<open>P3_Sync\<close>: \<open>pvTestA.c\<close> and \<open>pvTestB.c\<close> side by side. \<open>in_step\<close> is an invariant of
    all interleavings; from it follow that the message arrives and that every run is bounded
    (195 steps) and can always be completed, provided that the delay of \<open>pvTestB.c\<close> ends after \<open>pvTestA.c\<close>
    has initialised the semaphores (\<open>in_time\<close>, a hypothesis on the run, not on the support level).
    A run in which it ends too early deadlocks.
  \<^item> \<open>P3_Example\<close>: \<open>ex_support\<close>, one support level that keeps all the promises, and the witnesses.

  How the model reads the code. Every C function is a function from the state to an \<open>option\<close>,
  with the C names: \<open>None\<close> is a fault (a dereference of \<open>NULL\<close> or of an unmapped address, an
  index outside its array, a division by zero) or a loop that does not end (in phase 3, \<open>Undef\<close> is the fault). Loops over pointers are \<open>partial_function\<close>s
  on \<open>option\<close>, so a theorem that a call gives \<open>Some\<close> is also a proof that its loops end; no fuel
  is used. Pointers into the two static tables are \<open>nat option\<close>; addresses that come from
  programs are 32-bit words. A handler's result is a \<open>kexit\<close>: the state it loads, \<open>HALT\<close>,
  \<open>PANIC\<close>, \<open>WAIT\<close>, or \<open>Exit_return\<close>, the end of its C body with nothing loaded.

  Parameters. The machine's library (\<open>LDST\<close>, \<open>HALT\<close>, \<open>PANIC\<close>, \<open>WAIT\<close>) is not in the
  repository: its calls are the exits above, as its documentation describes them. The values of the
  time-of-day clock are a stream \<open>tod\<close>, those of a polled terminal status register a stream \<open>tstat\<close>; the addresses of \<open>devSemTable\<close>, the handlers and \<open>test\<close>
  are fields of the state and arguments. The constants of \<open>h/tconst.h\<close>, a header that is not in the
  repository, are a record \<open>tconst\<close>; the support level is a function from request and state to
  an answer, with the promises \<open>writes\<close>, \<open>kills\<close>, \<open>typed\<close>, \<open>clocked\<close>, \<open>paged\<close>, \<open>disk_works\<close> and \<open>pv_works\<close>
  as hypotheses of the theorems that need them.

  User processes. The functions of \<open>p2test.c\<close> are transcribed statement by statement; the compiler,
  its stack frames and the processor's instructions are below the model. The program counter is
  known at entry points only: \<open>p2_link\<close> gives the addresses of functions, variables and states,
  and a state that is loaded with an entry point starts that function. \<open>STST\<close> and \<open>getSTATUS\<close> give
  the registers as the machine would save them. The machine runs on one schedule (\<open>tick\<close>): processes
  run until all wait, then terminal 0 confirms that it has transmitted; there are no quantum or clock
  interrupts. Under it the run up to the
  end of \<open>p2\<close> is proved; \<open>p3\<close> to \<open>p8\<close> are modelled, but not yet run.

  Not modelled. Memory is split by the type of the object accessed, so programs that make a
  semaphore overlap a saved state are outside the model. The support level of phase 3, \<open>test.c\<close>, does
  not compile (undeclared names, unbalanced braces; \<open>README.txt\<close> says so), so it has no meaning to
  translate: it is the parameter above, and no program of phase 3 is proved to run on the nucleus.
\<close>

end
